(* ===== verification/Go_Prelude.thy ===== *)
theory Go_Prelude
  imports Main "HOL-Library.Word" "HOL-Library.AList" "HOL-Library.Sublist"
begin

text \<open>
  The Go machine model shared by every component of the p2p-hls development.

  \<^item> \<open>int\<close> and \<open>int64\<close> are HOL integers on which every arithmetic operation of the source is
    wrapped by \<open>i64\<close>, two's complement at 64 bits; \<open>uint64\<close>, \<open>uint32\<close> and \<open>byte\<close> are words.
  \<^item> \<open>time.Time\<close> is an integer number of nanoseconds, 0 being the zero \<open>Time\<close>;
    \<open>time.Duration\<close> is an \<open>int64\<close> number of nanoseconds; \<open>Time.Sub\<close> saturates.
  \<^item> A Go map is an association list with distinct keys (\<open>wf_map\<close>); the order of the list is
    the iteration order, which Go leaves unspecified, so a theorem about a loop over a map
    holds for every order.
  \<^item> A fallible function returns \<open>error + 'a\<close>, \<open>Inl\<close> being the error.

  The locale \<open>register\<close> is the contract of the small keyed tables of the program (pending
  access requests, the Audience, the Segment cache, pending calls); the locale \<open>versioned\<close> is
  the contract of the "highest version wins" receivers (Party state by sequence number, peer
  have-maps by epoch).
\<close>

named_theorems go_defs \<open>definitions a component unfolds in its own proofs\<close>
named_theorems i64_simps \<open>values on which 64-bit wrap-around is the identity\<close>

section \<open>Types\<close>

type_synonym byte = "8 word"
type_synonym bytes = "8 word list"
type_synonym u32 = "32 word"
type_synonym u64 = "64 word"
type_synonym NodeID = string
type_synonym time = int
type_synonym duration = int
type_synonym ('k, 'v) gomap = "('k \<times> 'v) list"

section \<open>Signed 64-bit integers\<close>

definition i64 :: "int \<Rightarrow> int" where
  "i64 x = signed_take_bit 63 x"

definition in_i64 :: "int \<Rightarrow> bool" where
  "in_i64 x \<longleftrightarrow> - (2 ^ 63) \<le> x \<and> x < 2 ^ 63"

definition go_quot :: "int \<Rightarrow> int \<Rightarrow> int" where
  \<comment> \<open>Go's \<open>/\<close> on integers truncates towards zero\<close>
  "go_quot a b = (if (0 \<le> a) = (0 < b) then \<bar>a\<bar> div \<bar>b\<bar> else - (\<bar>a\<bar> div \<bar>b\<bar>))"

definition go_rem :: "int \<Rightarrow> int \<Rightarrow> int" where
  "go_rem a b = a - b * go_quot a b"

lemma i64_id [i64_simps]: "in_i64 x \<Longrightarrow> i64 x = x"
  by (simp add: i64_def in_i64_def signed_take_bit_int_eq_self)

lemma in_i64_i64 [simp]: "in_i64 (i64 x)"
  using signed_take_bit_int_greater_eq_minus_exp [of 63 x] signed_take_bit_int_less_exp [of 63 x]
  by (simp add: i64_def in_i64_def)

lemma i64_idem [simp]: "i64 (i64 x) = i64 x"
  by (simp add: i64_id)

lemma i64_min: "i64 (- (- (2 ^ 63))) = - (2 ^ 63)"
  by (simp add: i64_def signed_take_bit_eq_take_bit_shift take_bit_eq_mod)

lemma go_quot_pos: "0 \<le> a \<Longrightarrow> 0 < b \<Longrightarrow> go_quot a b = a div b"
  by (simp add: go_quot_def)

lemma go_quot_neg: "a < 0 \<Longrightarrow> 0 < b \<Longrightarrow> go_quot a b = - ((- a) div b)"
  by (simp add: go_quot_def)

lemma go_quot_mono: "a \<le> a' \<Longrightarrow> 0 < b \<Longrightarrow> go_quot a b \<le> go_quot a' b"
proof -
  assume h: "a \<le> a'" "0 < b"
  consider "0 \<le> a" | "a < 0" "0 \<le> a'" | "a' < 0" using h by linarith
  then show ?thesis
  proof cases
    case 1
    with h show ?thesis by (simp add: go_quot_pos zdiv_mono1)
  next
    case 2
    have "0 \<le> (- a) div b" "0 \<le> a' div b"
      using 2 h by (simp_all add: pos_imp_zdiv_nonneg_iff)
    with 2 h show ?thesis by (simp add: go_quot_pos go_quot_neg)
  next
    case 3
    with h show ?thesis by (simp add: go_quot_neg zdiv_mono1)
  qed
qed

section \<open>Time\<close>

definition sat64 :: "int \<Rightarrow> int" where
  "sat64 x = max (- (2 ^ 63)) (min (2 ^ 63 - 1) x)"

definition time_sub :: "time \<Rightarrow> time \<Rightarrow> duration" where
  \<comment> \<open>\<open>Time.Sub\<close>: saturates at the ends of \<open>Duration\<close>\<close>
  "time_sub t u = sat64 (t - u)"

definition time_add :: "time \<Rightarrow> duration \<Rightarrow> time" where
  "time_add t d = t + d"

definition millisecond :: "int" where "millisecond = 1000000"

definition second :: "int" where "second = 1000000000"

definition hour :: "int" where "hour = 3600 * 1000000000"

definition milliseconds :: "duration \<Rightarrow> int" where
  \<comment> \<open>\<open>Duration.Milliseconds\<close>\<close>
  "milliseconds d = go_quot d 1000000"

lemma in_i64_sat64 [simp]: "in_i64 (sat64 x)"
  by (simp add: sat64_def in_i64_def)

lemma sat64_id [i64_simps]: "in_i64 x \<Longrightarrow> sat64 x = x"
  by (auto simp: sat64_def in_i64_def)

lemma time_sub_id [i64_simps]: "in_i64 (t - u) \<Longrightarrow> time_sub t u = t - u"
  by (simp add: time_sub_def sat64_id)

lemma time_sub_self [simp]: "time_sub t t = 0"
  by (simp add: time_sub_def sat64_def)

lemma time_sub_ge_iff: "0 \<le> d \<Longrightarrow> d < 2 ^ 63 \<Longrightarrow> d \<le> time_sub t u \<longleftrightarrow> d \<le> t - u"
  by (auto simp: time_sub_def sat64_def)

lemma time_sub_pos_iff: "0 < time_sub t u \<longleftrightarrow> u < t"
  by (auto simp: time_sub_def sat64_def)

lemma in_i64_milliseconds: "in_i64 d \<Longrightarrow> in_i64 (milliseconds d)"
proof -
  assume h: "in_i64 d"
  have "go_quot (- (2 ^ 63)) 1000000 \<le> go_quot d 1000000"
       "go_quot d 1000000 \<le> go_quot (2 ^ 63 - 1) 1000000"
    using h by (auto intro!: go_quot_mono simp: in_i64_def)
  then show ?thesis by (simp add: milliseconds_def in_i64_def go_quot_def)
qed

section \<open>Go maps as association lists\<close>

definition wf_map :: "('k, 'v) gomap \<Rightarrow> bool" where
  "wf_map m \<longleftrightarrow> distinct (map fst m)"

definition map_keys :: "('k, 'v) gomap \<Rightarrow> 'k list" where
  "map_keys m = map fst m"

lemma wf_map_Nil [simp]: "wf_map []"
  by (simp add: wf_map_def)

lemma wf_map_update [simp]: "wf_map m \<Longrightarrow> wf_map (AList.update k v m)"
  by (simp add: wf_map_def distinct_update)

lemma wf_map_delete [simp]: "wf_map m \<Longrightarrow> wf_map (AList.delete k m)"
  by (simp add: wf_map_def distinct_delete)

lemma wf_map_filter [simp]: "wf_map m \<Longrightarrow> wf_map (filter P m)"
  by (auto simp: wf_map_def distinct_map intro: inj_on_subset)

lemma wf_map_map_vals [simp]: "wf_map (map (\<lambda>(k, v). (k, f k v)) m) = wf_map m"
  by (simp add: wf_map_def split_def comp_def)

lemma map_of_update [simp]:
  "map_of (AList.update k v m) = (map_of m)(k \<mapsto> v)"
  by (simp add: update_conv')

lemma map_of_delete [simp]:
  "map_of (AList.delete k m) = (map_of m)(k := None)"
  by (simp add: delete_conv')

lemma map_of_map_vals: "map_of (map (\<lambda>(k, v). (k, f k v)) m) k = map_option (f k) (map_of m k)"
  by (induction m) auto

lemma map_of_filter_key: "map_of (filter (\<lambda>(k, v). P k) m) k = (if P k then map_of m k else None)"
  by (induction m) auto

lemma set_keys_dom [simp]: "fst ` set m = dom (map_of m)"
  by (simp add: dom_map_of_conv_image_fst)

lemma map_of_mem_iff: "wf_map m \<Longrightarrow> map_of m k = Some v \<longleftrightarrow> (k, v) \<in> set m"
  by (simp add: wf_map_def map_of_eq_Some_iff)

lemma length_wf_map: "wf_map m \<Longrightarrow> length m = card (dom (map_of m))"
  unfolding wf_map_def set_keys_dom [symmetric] by (metis distinct_card length_map set_map)

section \<open>The keyed-register contract\<close>

datatype ('k, 'v) reg_op = RegPut 'k 'v | RegDel 'k

primrec reg_effect :: "'k \<Rightarrow> ('k, 'v) reg_op \<Rightarrow> 'v option \<Rightarrow> 'v option" where
  "reg_effect k (RegPut k' v) old = (if k = k' then Some v else old)"
| "reg_effect k (RegDel k') old = (if k = k' then None else old)"

locale register =
  fixes put :: "'k \<Rightarrow> 'v \<Rightarrow> 's \<Rightarrow> 's"
    and del :: "'k \<Rightarrow> 's \<Rightarrow> 's"
    and get :: "'s \<Rightarrow> 'k \<Rightarrow> 'v option"
  assumes get_put: "get (put k v s) k' = (if k' = k then Some v else get s k')"
    and get_del: "get (del k s) k' = (if k' = k then None else get s k')"
begin

lemma get_put_idem: "get (put k v (put k v s)) = get (put k v s)"
  by (auto simp: get_put fun_eq_iff)

lemma get_put_commute: "k \<noteq> k' \<Longrightarrow> get (put k v (put k' v' s)) = get (put k' v' (put k v s))"
  by (auto simp: get_put fun_eq_iff)

lemma get_del_put: "get (del k (put k v s)) = get (del k s)"
  by (auto simp: get_put get_del fun_eq_iff)

lemma get_run:
  "get (fold (case_reg_op put del) ops s) k = fold (reg_effect k) ops (get s k)"
proof (induction ops arbitrary: s)
  case Nil
  then show ?case by simp
next
  case (Cons op ops)
  then show ?case by (cases op) (simp_all add: get_put get_del)
qed

lemma untouched_effect:
  "\<forall>op \<in> set later. op \<noteq> RegDel k \<and> (\<forall>v'. op \<noteq> RegPut k v') \<Longrightarrow> fold (reg_effect k) later x = x"
proof (induction later arbitrary: x)
  case Nil
  then show ?case by simp
next
  case (Cons op later)
  then show ?case by (cases op) auto
qed

lemma last_write_wins:
  assumes "\<forall>op \<in> set later. op \<noteq> RegDel k \<and> (\<forall>v'. op \<noteq> RegPut k v')"
  shows "get (fold (case_reg_op put del) (earlier @ RegPut k v # later) s) k = Some v"
  by (simp add: get_run get_put untouched_effect [OF assms])

lemma last_delete_wins:
  assumes "\<forall>op \<in> set later. op \<noteq> RegDel k \<and> (\<forall>v'. op \<noteq> RegPut k v')"
  shows "get (fold (case_reg_op put del) (earlier @ RegDel k # later) s) k = None"
  by (simp add: get_run get_del untouched_effect [OF assms])

end

section \<open>The highest-version-wins contract\<close>

locale versioned =
  fixes accept :: "'m \<Rightarrow> 's \<Rightarrow> 's"
    and cur :: "'s \<Rightarrow> 'm option"
    and ver :: "'m \<Rightarrow> 'n::linorder"
    and valid :: "'m \<Rightarrow> bool"
  assumes accept_first: "valid m \<Longrightarrow> cur s = None \<Longrightarrow> cur (accept m s) = Some m"
    and accept_newer: "valid m \<Longrightarrow> cur s = Some m' \<Longrightarrow> ver m' < ver m \<Longrightarrow> cur (accept m s) = Some m"
    and accept_stale: "valid m \<Longrightarrow> cur s = Some m' \<Longrightarrow> ver m \<le> ver m' \<Longrightarrow> cur (accept m s) = Some m'"
begin

lemma accept_mono:
  assumes "valid m" and "cur s = Some m'"
  shows "\<exists>m''. cur (accept m s) = Some m'' \<and> ver m' \<le> ver m'' \<and> ver m \<le> ver m'' \<and> m'' \<in> {m, m'}"
proof (cases "ver m' < ver m")
  case True
  with assms show ?thesis using accept_newer [of m s m'] by auto
next
  case False
  with assms show ?thesis using accept_stale [of m s m'] by auto
qed

lemma run_from_some:
  assumes "\<forall>m \<in> set ms. valid m" and "cur s = Some m0"
  shows "\<exists>m. cur (fold accept ms s) = Some m \<and> m \<in> insert m0 (set ms) \<and>
           (\<forall>m' \<in> insert m0 (set ms). ver m' \<le> ver m)"
  using assms
proof (induction ms arbitrary: s m0)
  case Nil
  then show ?case by simp
next
  case (Cons a ms)
  from Cons.prems obtain m1 where m1: "cur (accept a s) = Some m1"
      "ver m0 \<le> ver m1" "ver a \<le> ver m1" "m1 \<in> {a, m0}"
    using accept_mono [of a s m0] by auto
  from Cons.prems(1) have "\<forall>m \<in> set ms. valid m" by simp
  from Cons.IH [OF this m1(1)] obtain m where
    m: "cur (fold accept ms (accept a s)) = Some m" "m \<in> insert m1 (set ms)"
       "\<forall>m' \<in> insert m1 (set ms). ver m' \<le> ver m" by blast
  show ?case
  proof (intro exI conjI ballI)
    show "cur (fold accept (a # ms) s) = Some m" using m(1) by simp
    show "m \<in> insert m0 (set (a # ms))" using m(2) m1(4) by auto
    fix m' assume "m' \<in> insert m0 (set (a # ms))"
    then show "ver m' \<le> ver m" using m(3) m1(2,3) by (auto intro: order_trans)
  qed
qed

lemma run_highest_wins:
  assumes "\<forall>m \<in> set ms. valid m" and "cur s = None" and "ms \<noteq> []"
  shows "\<exists>m \<in> set ms. cur (fold accept ms s) = Some m \<and> (\<forall>m' \<in> set ms. ver m' \<le> ver m)"
proof -
  obtain a as where ms: "ms = a # as" using assms(3) by (cases ms) auto
  have "cur (accept a s) = Some a" using assms ms by (simp add: accept_first)
  from run_from_some [OF _ this, of as] assms(1) ms show ?thesis by auto
qed

lemma run_order_insensitive:
  assumes "\<forall>m \<in> set ms. valid m" and "cur s = None" and "cur t = None"
    and "set ms' = set ms" and "inj_on ver (set ms)"
  shows "cur (fold accept ms s) = cur (fold accept ms' t)"
proof (cases "ms = []")
  case True
  with assms show ?thesis by simp
next
  case False
  with assms(4) have ne': "ms' \<noteq> []" by auto
  from run_highest_wins [OF assms(1,2) False] obtain m where
    m: "m \<in> set ms" "cur (fold accept ms s) = Some m" "\<forall>m' \<in> set ms. ver m' \<le> ver m" by blast
  from run_highest_wins [OF _ assms(3) ne'] assms(1,4) obtain n where
    n: "n \<in> set ms" "cur (fold accept ms' t) = Some n" "\<forall>m' \<in> set ms. ver m' \<le> ver n" by auto
  have "ver m = ver n" using m n by (meson order_antisym)
  then have "m = n" using assms(5) m(1) n(1) by (auto dest: inj_onD)
  with m n show ?thesis by simp
qed

end

end
