(* ===== verification/Go_Strings.thy ===== *)
theory Go_Strings
  imports Go_Prelude
begin

text \<open>
  The parts of Go's \<open>strings\<close>, \<open>unicode/utf8\<close> and \<open>strconv\<close> packages the program uses, on byte
  strings: a Go string is a \<^typ>\<open>string\<close> with one \<^typ>\<open>char\<close> per byte. Runes are decoded by the rules
  of \<open>utf8.DecodeRune\<close> (an invalid byte is a rune of width one), white space is
  \<open>unicode.IsSpace\<close> in its UTF-8 encodings.
\<close>

section \<open>Bytes and strings\<close>

definition byte_of_char :: "char \<Rightarrow> byte" where
  "byte_of_char c = word_of_nat (of_char c)"

definition char_of_byte :: "byte \<Rightarrow> char" where
  "char_of_byte b = char_of (unat b)"

definition bytes_of_string :: "string \<Rightarrow> bytes" where
  "bytes_of_string s = map byte_of_char s"

definition string_of_bytes :: "bytes \<Rightarrow> string" where
  "string_of_bytes bs = map char_of_byte bs"

lemma char_of_byte_of_char [simp]: "char_of_byte (byte_of_char c) = c"
proof -
  have "(of_char c :: nat) < 256" by (rule nat_of_char_less_256)
  then have "unat (word_of_nat (of_char c) :: byte) = of_char c" by (simp add: unsigned_of_nat take_bit_nat_eq_self)
  then show ?thesis by (simp add: char_of_byte_def byte_of_char_def)
qed

lemma byte_of_char_of_byte [simp]: "byte_of_char (char_of_byte b) = b"
proof -
  have "unat b < 2 ^ LENGTH(8)" by (rule unsigned_less)
  then have "unat b < 256" by simp
  then have "of_char (char_of (unat b) :: char) = unat b" by (simp add: of_char_of)
  then show ?thesis by (simp add: char_of_byte_def byte_of_char_def)
qed

lemma string_of_bytes_of_string [simp]: "string_of_bytes (bytes_of_string s) = s"
  by (simp add: string_of_bytes_def bytes_of_string_def map_idI)

lemma bytes_of_string_of_bytes [simp]: "bytes_of_string (string_of_bytes b) = b"
  by (simp add: string_of_bytes_def bytes_of_string_def map_idI)

section \<open>Prefixes, suffixes, splitting and joining\<close>

definition HasPrefix :: "string \<Rightarrow> string \<Rightarrow> bool" where
  "HasPrefix s p = (take (length p) s = p)"

definition HasSuffix :: "string \<Rightarrow> string \<Rightarrow> bool" where
  "HasSuffix s p = (length p \<le> length s \<and> drop (length s - length p) s = p)"

definition TrimPrefix :: "string \<Rightarrow> string \<Rightarrow> string" where
  "TrimPrefix s p = (if HasPrefix s p then drop (length p) s else s)"

definition TrimSuffix :: "string \<Rightarrow> string \<Rightarrow> string" where
  "TrimSuffix s p = (if HasSuffix s p then take (length s - length p) s else s)"

fun split_on :: "char \<Rightarrow> string \<Rightarrow> string list" where
  \<comment> \<open>\<open>strings.Split\<close> on a one-byte separator\<close>
  "split_on c [] = [[]]"
| "split_on c (x # xs) =
     (if x = c then [] # split_on c xs
      else (case split_on c xs of [] \<Rightarrow> [[x]] | l # ls \<Rightarrow> (x # l) # ls))"

fun join_with :: "string \<Rightarrow> string list \<Rightarrow> string" where
  \<comment> \<open>\<open>strings.Join\<close>\<close>
  "join_with sep [] = []"
| "join_with sep [l] = l"
| "join_with sep (l # ls) = l @ sep @ join_with sep ls"

lemma HasPrefix_prefix: "HasPrefix s p \<longleftrightarrow> prefix p s"
  by (auto simp: HasPrefix_def prefix_def) (metis append_take_drop_id)

lemma HasSuffix_suffix: "HasSuffix s p \<longleftrightarrow> suffix p s"
  by (auto simp: HasSuffix_def suffix_def) (metis append_take_drop_id)

lemma HasPrefix_append [simp]: "HasPrefix (p @ s) p"
  by (simp add: HasPrefix_def)

lemma TrimPrefix_append [simp]: "TrimPrefix (p @ s) p = s"
  by (simp add: TrimPrefix_def)

lemma HasSuffix_append [simp]: "HasSuffix (s @ p) p"
  by (simp add: HasSuffix_def)

lemma TrimSuffix_append [simp]: "TrimSuffix (s @ p) p = s"
  by (simp add: TrimSuffix_def)

lemma split_on_ne [simp]: "split_on c s \<noteq> []"
  by (induction s) (auto split: list.splits)

lemma split_on_no_sep: "c \<notin> set s \<Longrightarrow> split_on c s = [s]"
  by (induction s) auto

lemma split_on_append:
  "c \<notin> set l \<Longrightarrow> split_on c (l @ c # s) = l # split_on c s"
  by (induction l) auto

lemma split_on_parts: "l \<in> set (split_on c s) \<Longrightarrow> c \<notin> set l"
proof (induction s arbitrary: l)
  case Nil
  then show ?case by simp
next
  case (Cons x s)
  then show ?case by (cases "split_on c s") (auto split: if_splits)
qed

lemma join_split: "join_with [c] (split_on c s) = s"
proof (induction s)
  case Nil
  then show ?case by simp
next
  case (Cons x s)
  then show ?case
    by (cases "split_on c s" rule: list.exhaust; cases "tl (split_on c s)") auto
qed

lemma split_join:
  "ls \<noteq> [] \<Longrightarrow> \<forall>l \<in> set ls. c \<notin> set l \<Longrightarrow> split_on c (join_with [c] ls) = ls"
proof (induction "[c]" ls rule: join_with.induct)
  case 1
  then show ?case by simp
next
  case (2 l)
  then show ?case by (simp add: split_on_no_sep)
next
  case (3 l l' ls)
  then show ?case by (simp add: split_on_append)
qed

section \<open>White space\<close>

definition ws_runes :: "string list" where
  \<comment> \<open>UTF-8 encodings of the runes for which \<open>unicode.IsSpace\<close> holds\<close>
  "ws_runes =
     map (\<lambda>c. [c]) [CHR 0x09, CHR 0x0A, CHR 0x0B, CHR 0x0C, CHR 0x0D, CHR 0x20] @
     [[CHR 0xC2, CHR 0x85], [CHR 0xC2, CHR 0xA0], [CHR 0xE1, CHR 0x9A, CHR 0x80]] @
     map (\<lambda>c. [CHR 0xE2, CHR 0x80, c])
       [CHR 0x80, CHR 0x81, CHR 0x82, CHR 0x83, CHR 0x84, CHR 0x85, CHR 0x86, CHR 0x87, CHR 0x88,
        CHR 0x89, CHR 0x8A, CHR 0xA8, CHR 0xA9, CHR 0xAF] @
     [[CHR 0xE2, CHR 0x81, CHR 0x9F], [CHR 0xE3, CHR 0x80, CHR 0x80]]"

definition ws_prefix :: "string \<Rightarrow> nat" where
  \<comment> \<open>the width of a leading white-space rune, 0 when there is none\<close>
  "ws_prefix s = (case find (\<lambda>w. HasPrefix s w) ws_runes of None \<Rightarrow> 0 | Some w \<Rightarrow> length w)"

definition ws_suffix :: "string \<Rightarrow> nat" where
  "ws_suffix s = (case find (\<lambda>w. HasSuffix s w) ws_runes of None \<Rightarrow> 0 | Some w \<Rightarrow> length w)"

function trim_left :: "string \<Rightarrow> string" where
  "trim_left s = (if ws_prefix s = 0 \<or> s = [] then s else trim_left (drop (ws_prefix s) s))"
  by pat_completeness auto
termination by (relation "measure length") auto

function trim_right :: "string \<Rightarrow> string" where
  "trim_right s = (if ws_suffix s = 0 \<or> s = [] then s else trim_right (take (length s - ws_suffix s) s))"
  by pat_completeness auto
termination by (relation "measure length") auto

declare trim_left.simps [simp del] trim_right.simps [simp del]

definition TrimSpace :: "string \<Rightarrow> string" where
  "TrimSpace s = trim_right (trim_left s)"

lemma trim_left_ws_prefix: "trim_left s = [] \<or> ws_prefix (trim_left s) = 0"
proof (induction s rule: trim_left.induct)
  case (1 s)
  then show ?case by (subst (1 2) trim_left.simps) auto
qed

lemma trim_right_ws_suffix: "trim_right s = [] \<or> ws_suffix (trim_right s) = 0"
proof (induction s rule: trim_right.induct)
  case (1 s)
  then show ?case by (subst (1 2) trim_right.simps) auto
qed

lemma trim_left_suffix: "suffix (trim_left s) s"
proof (induction s rule: trim_left.induct)
  case (1 s)
  then show ?case
    by (subst trim_left.simps) (auto intro: suffix_order.trans suffix_drop)
qed

lemma trim_right_prefix: "prefix (trim_right s) s"
proof (induction s rule: trim_right.induct)
  case (1 s)
  then show ?case
    by (subst trim_right.simps) (auto intro: prefix_order.trans take_is_prefix)
qed

lemma trim_left_id: "ws_prefix s = 0 \<Longrightarrow> trim_left s = s"
  by (subst trim_left.simps) simp

lemma trim_right_id: "ws_suffix s = 0 \<Longrightarrow> trim_right s = s"
  by (subst trim_right.simps) simp

lemma trim_nil [simp]: "trim_left [] = []" "trim_right [] = []" "TrimSpace [] = []"
  by (simp_all add: trim_left.simps trim_right.simps TrimSpace_def)

lemma find_len_eq_0:
  "\<forall>w \<in> set ws. w \<noteq> [] \<Longrightarrow>
     (case find P ws of None \<Rightarrow> 0 | Some w \<Rightarrow> length w) = (0 :: nat) \<longleftrightarrow> (\<forall>w \<in> set ws. \<not> P w)"
  by (induction ws) auto

lemma ws_runes_ne: "\<forall>w \<in> set ws_runes. w \<noteq> []"
  by (simp add: ws_runes_def)

lemma ws_prefix_eq_0: "ws_prefix s = 0 \<longleftrightarrow> (\<forall>w \<in> set ws_runes. \<not> prefix w s)"
  unfolding ws_prefix_def HasPrefix_prefix by (rule find_len_eq_0 [OF ws_runes_ne])

lemma ws_suffix_eq_0: "ws_suffix s = 0 \<longleftrightarrow> (\<forall>w \<in> set ws_runes. \<not> suffix w s)"
  unfolding ws_suffix_def HasSuffix_suffix by (rule find_len_eq_0 [OF ws_runes_ne])

lemma ws_prefix_mono: "prefix t s \<Longrightarrow> ws_prefix s = 0 \<Longrightarrow> ws_prefix t = 0"
  unfolding ws_prefix_eq_0 by (blast intro: prefix_order.trans)

lemma TrimSpace_id: "ws_prefix s = 0 \<Longrightarrow> ws_suffix s = 0 \<Longrightarrow> TrimSpace s = s"
  by (simp add: TrimSpace_def trim_left_id trim_right_id)

lemma TrimSpace_trimmed:
  "TrimSpace s = [] \<or> ws_prefix (TrimSpace s) = 0 \<and> ws_suffix (TrimSpace s) = 0"
proof (cases "trim_left s = []")
  case True
  then show ?thesis by (simp add: TrimSpace_def)
next
  case False
  then have "ws_prefix (trim_left s) = 0" using trim_left_ws_prefix [of s] by simp
  then have "ws_prefix (TrimSpace s) = 0"
    unfolding TrimSpace_def by (rule ws_prefix_mono [OF trim_right_prefix])
  then show ?thesis using trim_right_ws_suffix [of "trim_left s"] by (auto simp: TrimSpace_def)
qed

lemma TrimSpace_idem [simp]: "TrimSpace (TrimSpace s) = TrimSpace s"
  using TrimSpace_trimmed [of s] by (auto simp: TrimSpace_id)

section \<open>Runes\<close>

definition is_cont :: "char \<Rightarrow> bool" where
  "is_cont c \<longleftrightarrow> 0x80 \<le> (of_char c :: nat) \<and> (of_char c :: nat) \<le> 0xBF"

definition second_ok :: "nat \<Rightarrow> char \<Rightarrow> bool" where
  "second_ok b c \<longleftrightarrow> is_cont c \<and>
     (b = 0xE0 \<longrightarrow> 0xA0 \<le> (of_char c :: nat)) \<and> (b = 0xED \<longrightarrow> (of_char c :: nat) \<le> 0x9F) \<and>
     (b = 0xF0 \<longrightarrow> 0x90 \<le> (of_char c :: nat)) \<and> (b = 0xF4 \<longrightarrow> (of_char c :: nat) \<le> 0x8F)"

fun rune_width :: "string \<Rightarrow> nat" where
  \<comment> \<open>the width \<open>utf8.DecodeRuneInString\<close> returns\<close>
  "rune_width [] = 0"
| "rune_width (c # cs) =
     (let b = of_char c :: nat in
      if 0xC2 \<le> b \<and> b \<le> 0xDF
      then (case cs of c1 # _ \<Rightarrow> if is_cont c1 then 2 else 1 | _ \<Rightarrow> 1)
      else if 0xE0 \<le> b \<and> b \<le> 0xEF
      then (case cs of c1 # c2 # _ \<Rightarrow> if second_ok b c1 \<and> is_cont c2 then 3 else 1 | _ \<Rightarrow> 1)
      else if 0xF0 \<le> b \<and> b \<le> 0xF4
      then (case cs of c1 # c2 # c3 # _ \<Rightarrow>
              if second_ok b c1 \<and> is_cont c2 \<and> is_cont c3 then 4 else 1 | _ \<Rightarrow> 1)
      else 1)"

lemma rune_width_bounds: "s \<noteq> [] \<Longrightarrow> 1 \<le> rune_width s \<and> rune_width s \<le> length s"
  by (cases s) (auto simp: Let_def split: list.splits)

function rune_count :: "string \<Rightarrow> nat" where
  \<comment> \<open>\<open>utf8.RuneCountInString\<close>\<close>
  "rune_count s = (if s = [] then 0 else Suc (rune_count (drop (rune_width s) s)))"
  by pat_completeness auto
termination
proof (relation "measure length", simp)
  fix s :: string assume "s \<noteq> []"
  with rune_width_bounds [of s] show "(drop (rune_width s) s, s) \<in> measure length" by simp
qed

declare rune_count.simps [simp del]

lemma rune_count_Nil [simp]: "rune_count [] = 0"
  by (simp add: rune_count.simps)

lemma rune_count_step: "s \<noteq> [] \<Longrightarrow> rune_count s = Suc (rune_count (drop (rune_width s) s))"
  by (simp add: rune_count.simps)

lemma rune_width_conts: "1 \<le> i \<Longrightarrow> i < rune_width s \<Longrightarrow> is_cont (s ! i)"
  by (cases s) (auto simp: Let_def second_ok_def less_Suc_eq numeral_eq_Suc split: list.splits if_splits)

lemma rune_width_cont: "is_cont c \<Longrightarrow> rune_width (c # s) = 1"
  by (auto simp: Let_def is_cont_def)

lemma rune_width_append:
  "a \<noteq> [] \<Longrightarrow> rune_width (a @ b) = rune_width a \<or> length a < rune_width (a @ b)"
  by (cases a) (auto simp: Let_def split: list.splits)

lemma rune_count_conts:
  "k \<le> length b \<Longrightarrow> \<forall>i < k. is_cont (b ! i) \<Longrightarrow> rune_count b = k + rune_count (drop k b)"
proof (induction k arbitrary: b)
  case 0
  then show ?case by simp
next
  case (Suc k)
  then obtain c b' where b: "b = c # b'" by (cases b) auto
  have "rune_count b = Suc (rune_count b')"
    using Suc.prems(2) by (simp add: b rune_count_step rune_width_cont del: rune_width.simps) (metis b nth_Cons_0 rune_width_cont drop0 drop_Suc_Cons One_nat_def zero_less_Suc)
  also have "rune_count b' = k + rune_count (drop k b')"
    using Suc.prems by (intro Suc.IH) (auto simp: b)
  finally show ?case by (simp add: b)
qed

lemma rune_count_append_le: "rune_count (a @ b) \<le> rune_count a + rune_count b"
proof (induction a rule: rune_count.induct)
  case (1 a)
  show ?case
  proof (cases "a = []")
    case True
    then show ?thesis by simp
  next
    case ne: False
    let ?w = "rune_width (a @ b)"
    have step: "rune_count (a @ b) = Suc (rune_count (drop ?w (a @ b)))"
      using ne by (simp add: rune_count_step)
    show ?thesis
    proof (cases "?w = rune_width a")
      case True
      have "rune_width a \<le> length a" using rune_width_bounds [OF ne] by simp
      then show ?thesis using "1" [OF ne] step True ne by (simp add: rune_count_step [OF ne])
    next
      case False
      then have long: "length a < ?w" using rune_width_append [OF ne] by blast
      define k where "k = ?w - length a"
      have k: "k \<le> length b" using rune_width_bounds [of "a @ b"] ne by (simp add: k_def) linarith
      have "\<forall>i < k. is_cont (b ! i)"
      proof (intro allI impI)
        fix i assume i: "i < k"
        have "is_cont ((a @ b) ! (length a + i))"
          by (rule rune_width_conts) (use i ne in \<open>auto simp: k_def Suc_le_eq\<close>)
        then show "is_cont (b ! i)" by simp
      qed
      then have "rune_count b = k + rune_count (drop k b)" by (rule rune_count_conts [OF k])
      moreover have "drop ?w (a @ b) = drop k b" using long by (simp add: k_def)
      ultimately show ?thesis using step long by (simp add: rune_count_step [OF ne] k_def)
    qed
  qed
qed

lemma rune_count_append_lead:
  assumes "b = [] \<or> \<not> is_cont (hd b)"
  shows "rune_count (a @ b) = rune_count a + rune_count b"
proof (induction a rule: rune_count.induct)
  case (1 a)
  show ?case
  proof (cases "a = []")
    case True
    then show ?thesis by simp
  next
    case ne: False
    let ?w = "rune_width (a @ b)"
    have "\<not> length a < ?w"
    proof
      assume long: "length a < ?w"
      then have "b \<noteq> []" using rune_width_bounds [of "a @ b"] ne by (cases b) auto
      moreover have "is_cont ((a @ b) ! length a)"
        by (rule rune_width_conts) (use long ne in \<open>auto simp: Suc_le_eq\<close>)
      ultimately show False using assms by (simp add: hd_conv_nth nth_append)
    qed
    then have w: "?w = rune_width a" using rune_width_append [OF ne] by blast
    have "rune_width a \<le> length a" using rune_width_bounds [OF ne] by simp
    then show ?thesis using "1" [OF ne] w ne
      by (simp add: rune_count_step [of "a @ b"] rune_count_step [OF ne])
  qed
qed

lemma ws_rune_lead: "w \<in> set ws_runes \<Longrightarrow> \<not> is_cont (hd w)"
  by (auto simp: ws_runes_def is_cont_def)

lemma find_len_pos:
  "(case find P ws of None \<Rightarrow> 0 | Some w \<Rightarrow> length w) \<noteq> (0 :: nat) \<Longrightarrow>
     \<exists>w \<in> set ws. P w \<and> (case find P ws of None \<Rightarrow> 0 | Some w \<Rightarrow> length w) = length w"
  by (induction ws) (auto split: if_splits)

lemma ws_suffix_split:
  assumes "ws_suffix s \<noteq> 0"
  shows "\<exists>w \<in> set ws_runes. s = take (length s - ws_suffix s) s @ w"
proof -
  obtain w where w: "w \<in> set ws_runes" "HasSuffix s w" "ws_suffix s = length w"
    using assms find_len_pos unfolding ws_suffix_def by blast
  then obtain t where "s = t @ w" by (auto simp: HasSuffix_suffix suffix_def)
  with w show ?thesis by auto
qed

lemma ws_prefix_split:
  assumes "ws_prefix s \<noteq> 0"
  shows "\<exists>w \<in> set ws_runes. s = w @ drop (ws_prefix s) s"
proof -
  obtain w where w: "w \<in> set ws_runes" "HasPrefix s w" "ws_prefix s = length w"
    using assms find_len_pos unfolding ws_prefix_def by blast
  then obtain t where "s = w @ t" by (auto simp: HasPrefix_prefix prefix_def)
  with w show ?thesis by auto
qed

lemma ws_rune_width: "w \<in> set ws_runes \<Longrightarrow> rune_width (w @ x) = length w"
  by (auto simp: ws_runes_def second_ok_def is_cont_def)

lemma rune_count_trim_right: "rune_count (trim_right s) \<le> rune_count s"
proof (induction s rule: trim_right.induct)
  case (1 s)
  show ?case
  proof (cases "ws_suffix s = 0 \<or> s = []")
    case True
    then show ?thesis by (subst trim_right.simps) simp
  next
    case False
    then obtain w where w: "w \<in> set ws_runes" and s: "s = take (length s - ws_suffix s) s @ w"
      using ws_suffix_split by blast
    have "rune_count (take (length s - ws_suffix s) s) \<le> rune_count s"
      using rune_count_append_lead [of w "take (length s - ws_suffix s) s"] ws_rune_lead [OF w] s
      by (metis le_add1)
    moreover have "trim_right s = trim_right (take (length s - ws_suffix s) s)"
      using False by (subst trim_right.simps) simp
    ultimately show ?thesis using "1" [OF False] by simp
  qed
qed

lemma rune_count_trim_left: "rune_count (trim_left s) \<le> rune_count s"
proof (induction s rule: trim_left.induct)
  case (1 s)
  show ?case
  proof (cases "ws_prefix s = 0 \<or> s = []")
    case True
    then show ?thesis by (subst trim_left.simps) simp
  next
    case False
    then obtain w where w: "w \<in> set ws_runes" and s: "s = w @ drop (ws_prefix s) s"
      using ws_prefix_split by blast
    have "rune_width s = length w" using ws_rune_width [OF w, of "drop (ws_prefix s) s"] s by simp
    moreover have "drop (length w) s = drop (ws_prefix s) s"
      by (metis s append_eq_conv_conj)
    ultimately have "rune_count (drop (ws_prefix s) s) \<le> rune_count s"
      using False by (simp add: rune_count_step [of s])
    moreover have "trim_left s = trim_left (drop (ws_prefix s) s)"
      using False by (subst trim_left.simps) simp
    ultimately show ?thesis using "1" [OF False] by simp
  qed
qed

lemma rune_count_TrimSpace: "rune_count (TrimSpace s) \<le> rune_count s"
  unfolding TrimSpace_def using rune_count_trim_left rune_count_trim_right le_trans by blast

section \<open>Decimal numbers\<close>

definition digit_val :: "char \<Rightarrow> int option" where
  "digit_val c = (let n = of_char c :: int in if 48 \<le> n \<and> n \<le> 57 then Some (n - 48) else None)"

fun digits_val :: "int \<Rightarrow> string \<Rightarrow> int option" where
  "digits_val acc [] = Some acc"
| "digits_val acc (c # cs) =
     (case digit_val c of None \<Rightarrow> None | Some d \<Rightarrow> digits_val (acc * 10 + d) cs)"

definition Atoi :: "string \<Rightarrow> int option" where
  \<comment> \<open>\<open>strconv.Atoi\<close>: an optional sign, at least one digit, the value within \<open>int64\<close>\<close>
  "Atoi s =
     (let neg = (s \<noteq> [] \<and> hd s = CHR ''-'');
          ds = (if s \<noteq> [] \<and> (hd s = CHR ''-'' \<or> hd s = CHR ''+'') then tl s else s)
      in if ds = [] then None
         else case digits_val 0 ds of None \<Rightarrow> None
              | Some v \<Rightarrow> (let r = (if neg then - v else v) in if in_i64 r then Some r else None))"

fun itoa_nat :: "nat \<Rightarrow> string" where
  "itoa_nat n = (if n < 10 then [char_of (48 + n)] else itoa_nat (n div 10) @ [char_of (48 + n mod 10)])"

declare itoa_nat.simps [simp del]

definition Itoa :: "int \<Rightarrow> string" where
  \<comment> \<open>\<open>strconv.Itoa\<close> and the verb \<open>%d\<close>\<close>
  "Itoa i = (if i < 0 then CHR ''-'' # itoa_nat (nat (- i)) else itoa_nat (nat i))"

lemma Atoi_in_i64: "Atoi s = Some i \<Longrightarrow> in_i64 i"
  by (auto simp: Atoi_def Let_def split: if_splits option.splits)

lemma digits_val_append:
  "digits_val acc (a @ b) = (case digits_val acc a of None \<Rightarrow> None | Some v \<Rightarrow> digits_val v b)"
  by (induction a arbitrary: acc) (auto split: option.splits)

lemma digit_val_char_of: "n < 10 \<Longrightarrow> digit_val (char_of (48 + n)) = Some (int n)"
proof -
  assume "n < 10"
  then have "(of_char (char_of (48 + n) :: char) :: nat) = 48 + n" by (simp add: of_char_of)
  then have "(of_char (char_of (48 + n) :: char) :: int) = int (48 + n)"
    by (metis of_nat_of_char)
  with \<open>n < 10\<close> show ?thesis by (simp add: digit_val_def Let_def)
qed

lemma itoa_nat_val: "digits_val 0 (itoa_nat n) = Some (int n)"
proof (induction n rule: itoa_nat.induct)
  case (1 n)
  show ?case
  proof (cases "n < 10")
    case True
    then show ?thesis by (subst itoa_nat.simps) (simp add: digit_val_char_of)
  next
    case False
    then have "digits_val 0 (itoa_nat (n div 10)) = Some (int (n div 10))" using "1" by simp
    moreover have "int (n div 10) * 10 + int (n mod 10) = int n"
      by (metis div_mult_mod_eq of_nat_add of_nat_mult of_nat_numeral)
    ultimately show ?thesis using False
      by (subst itoa_nat.simps) (simp add: digits_val_append digit_val_char_of)
  qed
qed

lemma itoa_nat_ne [simp]: "itoa_nat n \<noteq> []"
  by (subst itoa_nat.simps) simp

lemma hd_itoa_nat: "hd (itoa_nat n) \<noteq> CHR ''-'' \<and> hd (itoa_nat n) \<noteq> CHR ''+''"
proof -
  have "\<exists>d. digit_val (hd (itoa_nat n)) = Some d"
    using itoa_nat_val [of n] by (cases "itoa_nat n") (auto split: option.splits)
  then show ?thesis by (auto simp: digit_val_def Let_def split: if_splits)
qed

lemma Atoi_Itoa: "in_i64 i \<Longrightarrow> Atoi (Itoa i) = Some i"
  using hd_itoa_nat by (auto simp: Atoi_def Itoa_def Let_def itoa_nat_val)

end
