(* ===== verification/Float64.thy ===== *)
theory Float64
  imports Complex_Main Go_Prelude
begin

text \<open>
  Go's \<open>float64\<close> arithmetic as the sync engine and the rate limiter use it. A value is a
  rational; every operation rounds its exact result to 53 significant bits, ties to even
  (IEEE 754 binary64). The exponent is not bounded: the quantities of the program (positions
  and drifts in milliseconds, seconds between two messages, rates near 1) stay far inside
  binary64's exponent range, so no overflow, no subnormal and no NaN arises.

  The locale \<open>rounding\<close> states what the clients rely on; \<open>f64\<close> is proved to satisfy it.
\<close>

section \<open>Rounding to 53 bits\<close>

definition round_even :: "rat \<Rightarrow> int" where
  "round_even x =
     (let f = \<lfloor>x\<rfloor>; d = x - of_int f
      in if d < 1/2 then f else if 1/2 < d then f + 1 else if even f then f else f + 1)"

function exp_up :: "rat \<Rightarrow> nat" where
  "exp_up x = (if 2 \<le> x then Suc (exp_up (x / 2)) else 0)"
  by pat_completeness auto
termination
proof (relation "measure (\<lambda>x. nat \<lfloor>x\<rfloor>)", simp)
  fix x :: rat assume "2 \<le> x"
  then have "\<lfloor>x / 2\<rfloor> < \<lfloor>x\<rfloor>" by linarith
  then show "(x / 2, x) \<in> measure (\<lambda>x. nat \<lfloor>x\<rfloor>)"
    using \<open>2 \<le> x\<close> by (simp add: zless_nat_eq_int_zless)
qed

function exp_down :: "rat \<Rightarrow> nat" where
  "exp_down x = (if 0 < x \<and> x < 1 then Suc (exp_down (2 * x)) else 0)"
  by pat_completeness auto
termination
proof (relation "measure (\<lambda>x. nat \<lfloor>2 / x\<rfloor>)", simp)
  fix x :: rat assume h: "0 < x \<and> x < 1"
  then have "2 / (2 * x) = (2 / x) / 2" "2 < 2 / x" by (simp_all add: field_simps)
  then have "\<lfloor>2 / (2 * x)\<rfloor> < \<lfloor>2 / x\<rfloor>" by linarith
  then show "(2 * x, x) \<in> measure (\<lambda>x. nat \<lfloor>2 / x\<rfloor>)"
    using h \<open>2 < 2 / x\<close> by (simp add: zless_nat_eq_int_zless)
qed

declare exp_up.simps [simp del] exp_down.simps [simp del]

definition expo :: "rat \<Rightarrow> int" where
  "expo x = (if 1 \<le> x then int (exp_up x) else - int (exp_down x))"

definition ulp64 :: "rat \<Rightarrow> rat" where
  "ulp64 x = 2 powi (expo \<bar>x\<bar> - 52)"

definition f64 :: "rat \<Rightarrow> rat" where
  "f64 x = (if x = 0 then 0 else of_int (round_even (x / ulp64 x)) * ulp64 x)"

definition fadd :: "rat \<Rightarrow> rat \<Rightarrow> rat" where "fadd a b = f64 (a + b)"

definition fsub :: "rat \<Rightarrow> rat \<Rightarrow> rat" where "fsub a b = f64 (a - b)"

definition fmul :: "rat \<Rightarrow> rat \<Rightarrow> rat" where "fmul a b = f64 (a * b)"

definition fdiv :: "rat \<Rightarrow> rat \<Rightarrow> rat" where "fdiv a b = f64 (a / b)"

definition float_of_int :: "int \<Rightarrow> rat" where
  \<comment> \<open>the conversion \<open>float64(n)\<close>\<close>
  "float_of_int n = f64 (of_int n)"

definition duration_seconds :: "duration \<Rightarrow> rat" where
  \<comment> \<open>\<open>Duration.Seconds\<close>: whole seconds plus the nanosecond remainder over 1e9\<close>
  "duration_seconds d =
     fadd (float_of_int (go_quot d 1000000000))
          (fdiv (float_of_int (go_rem d 1000000000)) 1000000000)"

section \<open>The contract of rounding\<close>

locale rounding =
  fixes rnd :: "rat \<Rightarrow> rat"
  assumes rnd_mono: "x \<le> y \<Longrightarrow> rnd x \<le> rnd y"
    and rnd_exact: "\<bar>n\<bar> \<le> 2 ^ 53 \<Longrightarrow> rnd (of_int n) = of_int n"
    and rnd_neg: "rnd (- x) = - rnd x"
begin

lemma rnd_0: "rnd 0 = 0"
  using rnd_exact [of 0] by simp

lemma rnd_1: "rnd 1 = 1"
  using rnd_exact [of 1] by simp

lemma rnd_le_int: "x \<le> of_int n \<Longrightarrow> \<bar>n\<bar> \<le> 2 ^ 53 \<Longrightarrow> rnd x \<le> of_int n"
  using rnd_mono [of x "of_int n"] by (simp add: rnd_exact)

lemma int_le_rnd: "of_int n \<le> x \<Longrightarrow> \<bar>n\<bar> \<le> 2 ^ 53 \<Longrightarrow> of_int n \<le> rnd x"
  using rnd_mono [of "of_int n" x] by (simp add: rnd_exact)

lemma rnd_nonneg: "0 \<le> x \<Longrightarrow> 0 \<le> rnd x"
  using int_le_rnd [of 0 x] by simp

lemma rnd_nonpos: "x \<le> 0 \<Longrightarrow> rnd x \<le> 0"
  using rnd_le_int [of x 0] by simp

lemma rnd_ge_1: "1 \<le> x \<Longrightarrow> 1 \<le> rnd x"
  using int_le_rnd [of 1 x] by simp

lemma rnd_le_1: "x \<le> 1 \<Longrightarrow> rnd x \<le> 1"
  using rnd_le_int [of x 1] by simp

end

section \<open>\<open>f64\<close> satisfies it\<close>

lemma round_even_mono: "x \<le> y \<Longrightarrow> round_even x \<le> round_even y"
proof -
  assume h: "x \<le> y"
  then have f: "\<lfloor>x\<rfloor> \<le> \<lfloor>y\<rfloor>" by (rule floor_mono)
  show ?thesis
  proof (cases "\<lfloor>x\<rfloor> = \<lfloor>y\<rfloor>")
    case True
    with h show ?thesis by (auto simp: round_even_def Let_def)
  next
    case False
    with f have "\<lfloor>x\<rfloor> + 1 \<le> \<lfloor>y\<rfloor>" by linarith
    then show ?thesis by (auto simp: round_even_def Let_def)
  qed
qed

lemma round_even_of_int [simp]: "round_even (of_int n) = n"
  by (simp add: round_even_def)

lemma round_even_neg: "round_even (- x) = - round_even x"
proof (cases "x = of_int \<lfloor>x\<rfloor>")
  case True
  then show ?thesis by (metis of_int_minus round_even_of_int)
next
  case False
  then have "\<lfloor>- x\<rfloor> = - \<lfloor>x\<rfloor> - 1"
    by (simp add: floor_minus ceiling_altdef)
  then show ?thesis by (auto simp: round_even_def Let_def)
qed

lemma exp_up_bounds: "1 \<le> x \<Longrightarrow> 2 ^ exp_up x \<le> x \<and> x < 2 ^ Suc (exp_up x)"
proof (induction x rule: exp_up.induct)
  case (1 x)
  show ?case
  proof (cases "2 \<le> x")
    case True
    with "1.IH" have "2 ^ exp_up (x / 2) \<le> x / 2 \<and> x / 2 < 2 ^ Suc (exp_up (x / 2))" by simp
    with True show ?thesis by (subst (1 2) exp_up.simps) (simp add: field_simps)
  next
    case False
    with "1.prems" show ?thesis by (subst (1 2) exp_up.simps) simp
  qed
qed

lemma exp_down_bounds:
  "0 < x \<Longrightarrow> x < 2 \<Longrightarrow> 1 \<le> x * 2 ^ exp_down x \<and> x * 2 ^ exp_down x < 2"
proof (induction x rule: exp_down.induct)
  case (1 x)
  show ?case
  proof (cases "x < 1")
    case True
    with "1" have "1 \<le> (2 * x) * 2 ^ exp_down (2 * x) \<and> (2 * x) * 2 ^ exp_down (2 * x) < 2" by simp
    with True "1.prems" show ?thesis by (subst (1 2) exp_down.simps) (simp add: mult.assoc mult.left_commute)
  next
    case False
    with "1.prems" show ?thesis by (subst (1 2) exp_down.simps) simp
  qed
qed

lemma expo_bounds:
  assumes "0 < x"
  shows "2 powi expo x \<le> x" and "x < 2 powi (expo x + 1)"
proof -
  have "2 powi expo x \<le> x \<and> x < 2 powi (expo x + 1)"
  proof (cases "1 \<le> x")
    case True
    then show ?thesis using exp_up_bounds [OF True]
      by (simp add: expo_def power_int_add_1')
  next
    case False
    then have "1 \<le> x * 2 ^ exp_down x \<and> x * 2 ^ exp_down x < 2"
      using assms by (intro exp_down_bounds) auto
    then have "1 / 2 ^ exp_down x \<le> x" "x < 2 / 2 ^ exp_down x"
      by (simp_all add: field_simps)
    moreover have "2 powi (1 - int (exp_down x)) = (2 :: rat) / 2 ^ exp_down x"
      by (simp add: power_int_diff)
    ultimately show ?thesis using False
      by (simp add: expo_def power_int_minus inverse_eq_divide)
  qed
  then show "2 powi expo x \<le> x" "x < 2 powi (expo x + 1)" by auto
qed

lemma ulp64_pos [simp]: "0 < ulp64 x"
  by (simp add: ulp64_def)

lemma ulp64_scale: "0 < x \<Longrightarrow> 2 powi (expo x + k) / ulp64 x = 2 powi (52 + k)"
proof -
  assume "0 < x"
  have "2 powi (expo x + k) = ulp64 x * 2 powi (52 + k)"
    using \<open>0 < x\<close> by (simp add: ulp64_def flip: power_int_add)
  then show ?thesis using ulp64_pos [of x] by (simp add: field_simps less_imp_neq [THEN not_sym])
qed

lemma f64_lower: assumes "0 < x" shows "2 powi expo x \<le> f64 x"
proof -
  have "of_int (2 ^ 52) \<le> x / ulp64 x"
    using ulp64_scale [OF assms, of 0] divide_right_mono [OF expo_bounds(1) [OF assms], of "ulp64 x"]
      ulp64_pos [of x] by simp
  then have "2 ^ 52 \<le> round_even (x / ulp64 x)"
    using round_even_mono by (metis round_even_of_int)
  then have "of_int (2 ^ 52) * ulp64 x \<le> of_int (round_even (x / ulp64 x)) * ulp64 x"
    using ulp64_pos [of x] by (intro mult_right_mono) (simp_all only: of_int_le_iff less_imp_le)
  moreover have "of_int (2 ^ 52) * ulp64 x = 2 powi expo x"
    using ulp64_scale [OF assms, of 0] ulp64_pos [of x] by (simp add: field_simps)
  ultimately have "2 powi expo x \<le> of_int (round_even (x / ulp64 x)) * ulp64 x" by metis
  then show ?thesis using assms by (simp add: f64_def)
qed

lemma f64_upper: assumes "0 < x" shows "f64 x \<le> 2 powi (expo x + 1)"
proof -
  have "x / ulp64 x \<le> of_int (2 ^ 53)"
    using ulp64_scale [OF assms, of 1]
      divide_right_mono [OF less_imp_le [OF expo_bounds(2) [OF assms]], of "ulp64 x"]
      ulp64_pos [of x] by simp
  then have "round_even (x / ulp64 x) \<le> 2 ^ 53"
    using round_even_mono by (metis round_even_of_int)
  then have "of_int (round_even (x / ulp64 x)) * ulp64 x \<le> of_int (2 ^ 53) * ulp64 x"
    using ulp64_pos [of x] by (intro mult_right_mono) (simp_all only: of_int_le_iff less_imp_le)
  moreover have "of_int (2 ^ 53) * ulp64 x = 2 powi (expo x + 1)"
    using ulp64_scale [OF assms, of 1] ulp64_pos [of x] by (simp add: field_simps)
  ultimately have "of_int (round_even (x / ulp64 x)) * ulp64 x \<le> 2 powi (expo x + 1)" by metis
  then show ?thesis using assms by (simp add: f64_def)
qed

lemma powi2_mono: "i \<le> j \<Longrightarrow> (2 :: rat) powi i \<le> 2 powi j"
  by (simp add: power_int_increasing)

lemma f64_mono_pos: assumes "0 < x" and "x \<le> y" shows "f64 x \<le> f64 y"
proof -
  have y: "0 < y" using assms by simp
  consider "expo x = expo y" | "expo x < expo y" | "expo y < expo x" by linarith
  then show ?thesis
  proof cases
    case 1
    then have u: "ulp64 y = ulp64 x" using assms y by (simp add: ulp64_def)
    have "x / ulp64 x \<le> y / ulp64 x"
      using assms(2) ulp64_pos [of x] by (intro divide_right_mono) (simp_all add: less_imp_le)
    then have "round_even (x / ulp64 x) \<le> round_even (y / ulp64 x)" by (rule round_even_mono)
    then show ?thesis using assms y u ulp64_pos [of x]
      by (simp add: f64_def mult_right_mono less_imp_le)
  next
    case 2
    have "f64 x \<le> 2 powi (expo x + 1)" by (rule f64_upper [OF assms(1)])
    also have "\<dots> \<le> 2 powi expo y" using 2 by (intro powi2_mono) simp
    also have "\<dots> \<le> f64 y" by (rule f64_lower [OF y])
    finally show ?thesis .
  next
    case 3
    have "y < 2 powi (expo y + 1)" by (rule expo_bounds(2) [OF y])
    also have "\<dots> \<le> 2 powi expo x" using 3 by (intro powi2_mono) simp
    also have "\<dots> \<le> x" by (rule expo_bounds(1) [OF assms(1)])
    finally show ?thesis using assms(2) by simp
  qed
qed

lemma f64_neg: "f64 (- x) = - f64 x"
proof -
  have "ulp64 (- x) = ulp64 x" by (simp add: ulp64_def)
  then show ?thesis by (simp add: f64_def round_even_neg)
qed

lemma f64_pos: "0 < x \<Longrightarrow> 0 < f64 x"
  using f64_lower [of x] zero_less_power_int [of "2 :: rat" "expo x"] by linarith

lemma f64_mono: "x \<le> y \<Longrightarrow> f64 x \<le> f64 y"
proof -
  assume h: "x \<le> y"
  consider "0 < x" | "x \<le> 0" "0 \<le> y" | "y < 0" using h by linarith
  then show ?thesis
  proof cases
    case 1
    then show ?thesis using h by (rule f64_mono_pos)
  next
    case 2
    have "f64 0 = 0" by (simp add: f64_def)
    then have "f64 x \<le> 0" "0 \<le> f64 y"
      using f64_pos [of "- x"] f64_pos [of y] 2 by (cases "x = 0"; cases "y = 0"; simp add: f64_neg)+
    then show ?thesis by simp
  next
    case 3
    then have "f64 (- y) \<le> f64 (- x)" using h by (intro f64_mono_pos) auto
    then show ?thesis by (simp add: f64_neg)
  qed
qed

lemma f64_on_grid: assumes "x / ulp64 x = of_int k" shows "f64 x = x"
proof -
  have "round_even (x / ulp64 x) = k" by (simp add: assms)
  moreover have "of_int k * ulp64 x = x"
    unfolding assms [symmetric] using ulp64_pos [of x] by (simp add: less_imp_neq [THEN not_sym])
  ultimately show ?thesis by (simp add: f64_def)
qed

lemma expo_le: assumes "0 < x" and "x < 2 ^ k" shows "expo x < int k"
proof (rule ccontr)
  assume "\<not> expo x < int k"
  then have "(2 :: rat) powi int k \<le> 2 powi expo x" by (intro powi2_mono) simp
  also have "\<dots> \<le> x" by (rule expo_bounds(1) [OF assms(1)])
  finally show False using assms(2) by simp
qed

lemma f64_small_nat: assumes "0 < n" and "n < 2 ^ 53" shows "f64 (of_int n) = of_int n"
proof -
  have "of_int n < (2 :: rat) ^ 53" using assms(2) by (metis of_int_less_iff of_int_numeral of_int_power)
  then have "expo (of_int n) < 53"
    using expo_le [of "of_int n" 53] assms(1) by simp
  then obtain k :: nat where k: "52 - expo (of_int n) = int k"
    using nonneg_int_cases [of "52 - expo (of_int n)"] by force
  have "of_int n / ulp64 (of_int n) = of_int n * 2 powi (52 - expo (of_int n))"
    using assms(1) by (simp add: ulp64_def power_int_diff field_simps)
  also have "\<dots> = of_int (n * 2 ^ k)" unfolding k by simp
  finally show ?thesis by (rule f64_on_grid)
qed

lemma f64_2_53: "f64 (of_int (2 ^ 53)) = of_int (2 ^ 53)"
proof -
  let ?x = "of_int (2 ^ 53) :: rat"
  have "f64 ?x \<ge> 2 powi expo ?x" by (rule f64_lower) simp
  have "expo ?x < 54" using expo_le [of ?x 54] by simp
  moreover have "53 < expo ?x + 1"
  proof (rule ccontr)
    assume "\<not> 53 < expo ?x + 1"
    then have "(2 :: rat) powi (expo ?x + 1) \<le> 2 powi 53" by (intro powi2_mono) simp
    then show False using expo_bounds(2) [of ?x] by simp
  qed
  ultimately have "expo ?x = 53" by linarith
  then have "?x / ulp64 ?x = of_int (2 ^ 52)" by (simp add: ulp64_def)
  then show ?thesis by (rule f64_on_grid)
qed

lemma f64_exact: assumes "\<bar>n\<bar> \<le> 2 ^ 53" shows "f64 (of_int n) = of_int n"
proof -
  have nonneg: "f64 (of_int k) = of_int k" if k: "0 \<le> k" "k \<le> 2 ^ 53" for k :: int
  proof -
    consider "k = 0" | "0 < k" "k < 2 ^ 53" | "k = 2 ^ 53" using k by linarith
    then show ?thesis
    proof cases
      case 1 then show ?thesis by (simp add: f64_def)
    next
      case 2 then show ?thesis by (rule f64_small_nat)
    next
      case 3 then show ?thesis using f64_2_53 by simp
    qed
  qed
  show ?thesis
  proof (cases "0 \<le> n")
    case True then show ?thesis using nonneg assms by simp
  next
    case False
    then have "f64 (of_int (- n)) = of_int (- n)" using assms by (intro nonneg) auto
    then show ?thesis by (simp add: f64_neg)
  qed
qed

interpretation f64: rounding f64
  by unfold_locales (auto intro: f64_mono simp: f64_exact f64_neg)

section \<open>The rounding error\<close>

lemma round_even_error: "\<bar>of_int (round_even y) - y\<bar> \<le> 1 / 2"
proof -
  have "of_int \<lfloor>y\<rfloor> \<le> y" "y < of_int \<lfloor>y\<rfloor> + 1" by linarith+
  then show ?thesis unfolding round_even_def Let_def
    by (cases "y - of_int \<lfloor>y\<rfloor> < 1/2"; cases "1/2 < y - of_int \<lfloor>y\<rfloor>"; simp add: abs_if; linarith)
qed

definition eps64 :: rat where "eps64 = 1 / 2 ^ 53"

lemma f64_error: assumes "0 \<le> x" shows "\<bar>f64 x - x\<bar> \<le> x * eps64"
proof (cases "x = 0")
  case True
  then show ?thesis by (simp add: f64_def)
next
  case False
  then have pos: "0 < x" using assms by simp
  let ?u = "ulp64 x"
  have "f64 x - x = (of_int (round_even (x / ?u)) - x / ?u) * ?u"
    using False ulp64_pos [of x] by (simp add: f64_def left_diff_distrib less_imp_neq [THEN not_sym])
  then have "\<bar>f64 x - x\<bar> = \<bar>of_int (round_even (x / ?u)) - x / ?u\<bar> * ?u"
    using ulp64_pos [of x] by (simp add: abs_mult less_imp_le)
  also have "\<dots> \<le> 1 / 2 * ?u"
    using round_even_error [of "x / ?u"] by (intro mult_right_mono) (simp_all add: less_imp_le)
  also have "2 ^ 52 * ?u \<le> x"
    using expo_bounds(1) [OF pos] ulp64_scale [OF pos, of 0] ulp64_pos [of x] by (simp add: field_simps)
  then have "1 / 2 * ?u \<le> x * eps64" by (simp add: eps64_def)
  finally show ?thesis .
qed

lemma f64_le: "0 \<le> x \<Longrightarrow> f64 x \<le> x * (1 + eps64)"
  using f64_error [of x] by (simp add: algebra_simps abs_le_iff)

lemma f64_ge: "0 \<le> x \<Longrightarrow> x * (1 - eps64) \<le> f64 x"
  using f64_error [of x] by (simp add: algebra_simps abs_le_iff)

lemma eps64_small: "0 < eps64" "eps64 < 1 / 1000000"
  by (simp_all add: eps64_def)

lemma f64_within: "0 \<le> x \<Longrightarrow> a * 1000001 \<le> x * 1000000 \<Longrightarrow> a \<ge> 0 \<Longrightarrow> a \<le> f64 x"
proof -
  assume h: "0 \<le> x" "a * 1000001 \<le> x * 1000000" "a \<ge> 0"
  have "x * eps64 \<le> x * (1 / 1000001)" using h(1) by (intro mult_left_mono) (simp_all add: eps64_def)
  then show ?thesis using f64_ge [OF h(1)] h(2) by (simp add: algebra_simps)
qed

lemma f64_below: "0 \<le> x \<Longrightarrow> x * 1000001 \<le> b * 1000000 \<Longrightarrow> f64 x \<le> b"
proof -
  assume h: "0 \<le> x" "x * 1000001 \<le> b * 1000000"
  have "x * eps64 \<le> x * (1 / 1000000)" using h(1) by (intro mult_left_mono) (simp_all add: eps64_def)
  then show ?thesis using f64_le [OF h(1)] h(2) by (simp add: algebra_simps)
qed

end
