(* ===== verification/Party_Sync.thy ===== *)
theory Party_Sync
  imports Float64
begin

text \<open>
  The Watch Party sync engines of \<open>internal/party\<close>: the authoritative Host clock
  (\<open>host.go\<close>), the follower that extrapolates it and corrects its player (\<open>viewer.go\<close>)
  and their shared data (\<open>party.go\<close>).

  Each engine method takes the engine's record and returns it updated; the method bodies run
  under the engine's mutex, so one call is one step. The injected \<open>Clock\<close> is the \<open>now\<close>
  argument. \<open>Viewer_OnState\<close> is an instance of the \<open>versioned\<close> contract.
\<close>

section \<open>Data of \<open>party.go\<close>\<close>

record Config =
  HeartbeatInterval :: duration
  SeekThresholdMS :: int
  DeadbandMS :: int
  MinRate :: rat
  MaxRate :: rat
  Kp :: rat
  MaxOWDMS :: int
  SeekDebounce :: duration
  DanmakuBurst :: rat
  DanmakuRefillPerSec :: rat

definition DefaultConfig :: Config where
  "DefaultConfig =
     \<lparr>HeartbeatInterval = 500 * millisecond, SeekThresholdMS = 1000, DeadbandMS = 80,
      MinRate = f64 (92/100), MaxRate = f64 (108/100), Kp = f64 (2/10), MaxOWDMS = 250,
      SeekDebounce = 175 * millisecond, DanmakuBurst = 3, DanmakuRefillPerSec = 1\<rparr>"

record State =
  PartyID :: string
  Playing :: bool
  PositionMS :: int
  Rate :: rat
  Seq :: u64

record Action =
  a_Play :: bool
  a_Seek :: bool
  a_SeekMS :: int
  a_Rate :: rat
  a_DriftMS :: int

record Member =
  m_NodeID :: NodeID
  m_DisplayName :: string

definition clamp :: "rat \<Rightarrow> rat \<Rightarrow> rat \<Rightarrow> rat" where
  "clamp v lo hi = (if v < lo then lo else if v > hi then hi else v)"

section \<open>The Host engine\<close>

record Host =
  h_cfg :: Config
  h_partyID :: string
  h_contentID :: string
  h_playing :: bool
  h_posMS :: int
  h_sampledAt :: time
  h_rate :: rat
  h_seq :: u64
  h_scrubbing :: bool
  h_pendingSeekMS :: int
  h_lastSeekInput :: time
  h_audience :: "(NodeID, string) gomap"

definition NewHost :: "time \<Rightarrow> Config \<Rightarrow> string \<Rightarrow> string \<Rightarrow> Host" where
  "NewHost now cfg partyID contentID =
     \<lparr>h_cfg = cfg, h_partyID = partyID, h_contentID = contentID, h_playing = False, h_posMS = 0,
      h_sampledAt = now, h_rate = 1, h_seq = 0, h_scrubbing = False, h_pendingSeekMS = 0,
      h_lastSeekInput = 0, h_audience = []\<rparr>"

definition Host_OnPlay :: "int \<Rightarrow> time \<Rightarrow> Host \<Rightarrow> Host" where
  "Host_OnPlay posMS now h =
     h\<lparr>h_playing := True, h_posMS := posMS, h_sampledAt := now, h_scrubbing := False,
       h_seq := h_seq h + 1\<rparr>"

definition Host_OnPause :: "int \<Rightarrow> time \<Rightarrow> Host \<Rightarrow> Host" where
  "Host_OnPause posMS now h =
     h\<lparr>h_playing := False, h_posMS := posMS, h_sampledAt := now, h_scrubbing := False,
       h_seq := h_seq h + 1\<rparr>"

definition Host_OnReport :: "int \<Rightarrow> time \<Rightarrow> Host \<Rightarrow> Host" where
  "Host_OnReport posMS now h =
     (if h_scrubbing h then h else h\<lparr>h_posMS := posMS, h_sampledAt := now\<rparr>)"

definition Host_OnSeek :: "int \<Rightarrow> time \<Rightarrow> Host \<Rightarrow> Host" where
  "Host_OnSeek posMS now h =
     h\<lparr>h_scrubbing := True, h_pendingSeekMS := posMS, h_lastSeekInput := now\<rparr>"

definition Host_Snapshot :: "time \<Rightarrow> Host \<Rightarrow> State" where
  "Host_Snapshot now h =
     (if h_scrubbing h
      then \<lparr>PartyID = h_partyID h, Playing = False, PositionMS = h_pendingSeekMS h,
            Rate = h_rate h, Seq = h_seq h\<rparr>
      else let pos = (if h_playing h
                      then i64 (h_posMS h + milliseconds (time_sub now (h_sampledAt h)))
                      else h_posMS h)
           in \<lparr>PartyID = h_partyID h, Playing = h_playing h, PositionMS = pos,
               Rate = h_rate h, Seq = h_seq h\<rparr>)"

definition Host_Tick :: "time \<Rightarrow> Host \<Rightarrow> Host \<times> State \<times> bool" where
  "Host_Tick now h =
     (let committed = (h_scrubbing h \<and> SeekDebounce (h_cfg h) \<le> time_sub now (h_lastSeekInput h));
          h' = (if committed
                then h\<lparr>h_posMS := h_pendingSeekMS h, h_sampledAt := now, h_scrubbing := False,
                       h_seq := h_seq h + 1\<rparr>
                else h)
      in (h', Host_Snapshot now h', committed))"

definition Host_Join :: "NodeID \<Rightarrow> string \<Rightarrow> Host \<Rightarrow> Host" where
  "Host_Join node name h = h\<lparr>h_audience := AList.update node name (h_audience h)\<rparr>"

definition Host_Leave :: "NodeID \<Rightarrow> Host \<Rightarrow> Host" where
  "Host_Leave node h = h\<lparr>h_audience := AList.delete node (h_audience h)\<rparr>"

definition Host_Members :: "Host \<Rightarrow> Member list" where
  "Host_Members h = map (\<lambda>(n, name). \<lparr>m_NodeID = n, m_DisplayName = name\<rparr>) (h_audience h)"

definition Host_Member :: "Host \<Rightarrow> NodeID \<Rightarrow> string option" where
  \<comment> \<open>the pair \<open>(name, ok)\<close> of the source as an option\<close>
  "Host_Member h node = map_of (h_audience h) node"

definition Host_ViewerCount :: "Host \<Rightarrow> nat" where
  "Host_ViewerCount h = length (h_audience h)"

section \<open>The Viewer engine\<close>

record Viewer =
  v_cfg :: Config
  v_haveState :: bool
  v_last :: State
  v_recvAt :: time
  v_owdMS :: int

definition zero_State :: State where
  "zero_State = \<lparr>PartyID = '''', Playing = False, PositionMS = 0, Rate = 0, Seq = 0\<rparr>"

definition NewViewer :: "Config \<Rightarrow> Viewer" where
  "NewViewer cfg =
     \<lparr>v_cfg = cfg, v_haveState = False, v_last = zero_State, v_recvAt = 0, v_owdMS = 0\<rparr>"

definition Viewer_OnState :: "State \<Rightarrow> time \<Rightarrow> Viewer \<Rightarrow> Viewer" where
  "Viewer_OnState s now v =
     (if v_haveState v \<and> Seq s \<le> Seq (v_last v) then v
      else v\<lparr>v_last := s, v_recvAt := now, v_haveState := True\<rparr>)"

definition Viewer_OnRTT :: "duration \<Rightarrow> Viewer \<Rightarrow> Viewer" where
  "Viewer_OnRTT rtt v =
     (let owd = go_quot (milliseconds rtt) 2;
          owd = (if owd > MaxOWDMS (v_cfg v) then MaxOWDMS (v_cfg v) else owd);
          owd = (if owd < 0 then 0 else owd)
      in v\<lparr>v_owdMS := owd\<rparr>)"

definition expectedHostPosLocked :: "time \<Rightarrow> Viewer \<Rightarrow> int" where
  "expectedHostPosLocked now v =
     (if \<not> Playing (v_last v) then PositionMS (v_last v)
      else i64 (i64 (PositionMS (v_last v) + v_owdMS v) + milliseconds (time_sub now (v_recvAt v))))"

definition Viewer_Decide :: "int \<Rightarrow> bool \<Rightarrow> time \<Rightarrow> Viewer \<Rightarrow> Action" where
  "Viewer_Decide playerPosMS playerPlaying now v =
     (if \<not> v_haveState v
      then \<lparr>a_Play = playerPlaying, a_Seek = False, a_SeekMS = 0, a_Rate = 1, a_DriftMS = 0\<rparr>
      else let h = expectedHostPosLocked now v;
               drift = i64 (playerPosMS - h);
               abs = (if drift < 0 then i64 (- drift) else drift);
               play = Playing (v_last v)
           in if abs > SeekThresholdMS (v_cfg v)
              then \<lparr>a_Play = play, a_Seek = True, a_SeekMS = h, a_Rate = 1, a_DriftMS = drift\<rparr>
              else if abs > DeadbandMS (v_cfg v)
              then let rate = clamp (fsub 1 (fmul (Kp (v_cfg v)) (fdiv (float_of_int drift) 1000)))
                                    (MinRate (v_cfg v)) (MaxRate (v_cfg v))
                   in \<lparr>a_Play = play, a_Seek = False, a_SeekMS = 0, a_Rate = rate, a_DriftMS = drift\<rparr>
              else \<lparr>a_Play = play, a_Seek = False, a_SeekMS = 0, a_Rate = 1, a_DriftMS = drift\<rparr>)"

lemmas host_defs [go_defs] =
  NewHost_def Host_OnPlay_def Host_OnPause_def Host_OnReport_def Host_OnSeek_def
  Host_Join_def Host_Leave_def

section \<open>Histories of the Host engine\<close>

datatype host_event =
    EvPlay int time | EvPause int time | EvReport int time | EvSeek int time
  | EvTick time | EvJoin NodeID string | EvLeave NodeID

primrec host_step :: "host_event \<Rightarrow> Host \<Rightarrow> Host" where
  "host_step (EvPlay p t) h = Host_OnPlay p t h"
| "host_step (EvPause p t) h = Host_OnPause p t h"
| "host_step (EvReport p t) h = Host_OnReport p t h"
| "host_step (EvSeek p t) h = Host_OnSeek p t h"
| "host_step (EvTick t) h = fst (Host_Tick t h)"
| "host_step (EvJoin n d) h = Host_Join n d h"
| "host_step (EvLeave n) h = Host_Leave n h"

definition observable :: "Host \<Rightarrow> host_event \<Rightarrow> bool" where
  \<comment> \<open>the events that change what Viewers must do: play, pause and a committed seek\<close>
  "observable h e =
     (case e of EvPlay _ _ \<Rightarrow> True | EvPause _ _ \<Rightarrow> True
      | EvTick t \<Rightarrow> h_scrubbing h \<and> SeekDebounce (h_cfg h) \<le> time_sub t (h_lastSeekInput h)
      | _ \<Rightarrow> False)"

fun observable_count :: "host_event list \<Rightarrow> Host \<Rightarrow> nat" where
  "observable_count [] h = 0"
| "observable_count (e # es) h =
     (if observable h e then 1 else 0) + observable_count es (host_step e h)"

section \<open>Host lemmas\<close>

lemma Host_Tick_fst:
  "fst (Host_Tick now h) =
     (if h_scrubbing h \<and> SeekDebounce (h_cfg h) \<le> time_sub now (h_lastSeekInput h)
      then h\<lparr>h_posMS := h_pendingSeekMS h, h_sampledAt := now, h_scrubbing := False,
             h_seq := h_seq h + 1\<rparr>
      else h)"
  by (simp add: Host_Tick_def Let_def)

lemma host_step_cfg [simp]: "h_cfg (host_step e h) = h_cfg h"
  by (cases e) (simp_all add: go_defs Host_Tick_fst)

lemma host_step_ids [simp]:
  "h_partyID (host_step e h) = h_partyID h" "h_contentID (host_step e h) = h_contentID h"
  "h_rate (host_step e h) = h_rate h"
  by (cases e; simp add: go_defs Host_Tick_fst)+

lemma host_step_seq: "h_seq (host_step e h) = h_seq h + (if observable h e then 1 else 0)"
  by (cases e) (simp_all add: go_defs Host_Tick_fst observable_def)

lemma host_step_audience_wf: "wf_map (h_audience h) \<Longrightarrow> wf_map (h_audience (host_step e h))"
  by (cases e) (simp_all add: go_defs Host_Tick_fst)

lemma host_run_seq:
  "h_seq (fold host_step es h) = h_seq h + word_of_nat (observable_count es h)"
  by (induction es arbitrary: h) (auto simp: host_step_seq)

lemma host_run_audience_wf:
  "wf_map (h_audience h) \<Longrightarrow> wf_map (h_audience (fold host_step es h))"
  by (induction es arbitrary: h) (auto intro: host_step_audience_wf)

text \<open>The Audience is a keyed register: \<open>Join\<close> stores, \<open>Leave\<close> deletes, \<open>Member\<close> reads.\<close>

interpretation audience: register Host_Join Host_Leave Host_Member
  by unfold_locales (auto simp: go_defs Host_Member_def)

lemma Host_ViewerCount_card:
  "wf_map (h_audience h) \<Longrightarrow> Host_ViewerCount h = card {n. Host_Member h n \<noteq> None}"
  by (simp add: Host_ViewerCount_def Host_Member_def length_wf_map dom_def)

lemma seeks_only_pending:
  "fold host_step (map (\<lambda>(p, t). EvSeek p t) (seeks @ [(p, t)])) h =
     h\<lparr>h_scrubbing := True, h_pendingSeekMS := p, h_lastSeekInput := t\<rparr>"
  by (induction seeks arbitrary: h) (auto simp: Host_OnSeek_def)

lemma Snapshot_settled:
  assumes "\<not> h_scrubbing h"
  shows "Host_Snapshot now h =
     \<lparr>PartyID = h_partyID h, Playing = h_playing h,
      PositionMS = (if h_playing h then i64 (h_posMS h + milliseconds (time_sub now (h_sampledAt h)))
                    else h_posMS h),
      Rate = h_rate h, Seq = h_seq h\<rparr>"
  using assms by (simp add: Host_Snapshot_def)

lemma Snapshot_Seq [simp]: "Seq (Host_Snapshot now h) = h_seq h"
  by (simp add: Host_Snapshot_def Let_def)

section \<open>Viewer lemmas\<close>

definition viewer_cur :: "Viewer \<Rightarrow> (State \<times> time) option" where
  "viewer_cur v = (if v_haveState v then Some (v_last v, v_recvAt v) else None)"

interpretation party_state: versioned
  "\<lambda>(s, now). Viewer_OnState s now" viewer_cur "\<lambda>(s, now). Seq s" "\<lambda>_. True"
  by unfold_locales (auto simp: Viewer_OnState_def viewer_cur_def split: if_splits)

lemma viewer_cur_NewViewer [simp]: "viewer_cur (NewViewer cfg) = None"
  by (simp add: viewer_cur_def NewViewer_def)

lemma Viewer_OnRTT_bounds:
  "0 \<le> MaxOWDMS (v_cfg v) \<Longrightarrow>
     0 \<le> v_owdMS (Viewer_OnRTT rtt v) \<and> v_owdMS (Viewer_OnRTT rtt v) \<le> MaxOWDMS (v_cfg v)"
  by (auto simp: Viewer_OnRTT_def Let_def)

lemma clamp_bounds: "lo \<le> hi \<Longrightarrow> lo \<le> clamp v lo hi \<and> clamp v lo hi \<le> hi"
  by (auto simp: clamp_def)

lemma clamp_mono_one: "lo \<le> 1 \<Longrightarrow> 1 \<le> hi \<Longrightarrow> v \<le> 1 \<Longrightarrow> clamp v lo hi \<le> 1"
  by (auto simp: clamp_def)

lemma one_clamp_mono: "lo \<le> 1 \<Longrightarrow> 1 \<le> hi \<Longrightarrow> 1 \<le> v \<Longrightarrow> 1 \<le> clamp v lo hi"
  by (auto simp: clamp_def)

definition nudge_rate :: "Config \<Rightarrow> int \<Rightarrow> rat" where
  \<comment> \<open>the playback rate of the proportional branch of \<open>Decide\<close>\<close>
  "nudge_rate cfg drift =
     clamp (fsub 1 (fmul (Kp cfg) (fdiv (float_of_int drift) 1000))) (MinRate cfg) (MaxRate cfg)"

lemma nudge_slows:
  assumes "0 \<le> drift" "0 \<le> Kp cfg" "MinRate cfg \<le> 1" "1 \<le> MaxRate cfg"
  shows "nudge_rate cfg drift \<le> 1"
proof -
  have "0 \<le> fdiv (float_of_int drift) 1000"
    using assms(1) by (simp add: fdiv_def float_of_int_def f64.rnd_nonneg)
  then have "0 \<le> fmul (Kp cfg) (fdiv (float_of_int drift) 1000)"
    using assms(2) by (simp add: fmul_def f64.rnd_nonneg)
  then have "fsub 1 (fmul (Kp cfg) (fdiv (float_of_int drift) 1000)) \<le> 1"
    by (simp add: fsub_def f64.rnd_le_1)
  then show ?thesis using assms(3,4) by (simp add: nudge_rate_def clamp_mono_one)
qed

lemma nudge_speeds:
  assumes "drift \<le> 0" "0 \<le> Kp cfg" "MinRate cfg \<le> 1" "1 \<le> MaxRate cfg"
  shows "1 \<le> nudge_rate cfg drift"
proof -
  have "fdiv (float_of_int drift) 1000 \<le> 0"
    using assms(1) by (simp add: fdiv_def float_of_int_def f64.rnd_nonpos divide_nonpos_pos)
  then have "fmul (Kp cfg) (fdiv (float_of_int drift) 1000) \<le> 0"
    using assms(2) by (simp add: fmul_def f64.rnd_nonpos mult_nonneg_nonpos)
  then have "1 \<le> fsub 1 (fmul (Kp cfg) (fdiv (float_of_int drift) 1000))"
    by (simp add: fsub_def f64.rnd_ge_1)
  then show ?thesis using assms(3,4) by (simp add: nudge_rate_def one_clamp_mono)
qed

lemma i64_abs: "in_i64 d \<Longrightarrow> d \<noteq> - (2 ^ 63) \<Longrightarrow> (if d < 0 then i64 (- d) else d) = \<bar>d\<bar>"
  by (auto simp: i64_id in_i64_def)

text \<open>\<open>Decide\<close> as a function of the drift, where the drift is representable.\<close>

lemma Viewer_Decide_cases:
  assumes "v_haveState v" and "in_i64 drift" and "drift \<noteq> - (2 ^ 63)"
    and "drift = pos - expectedHostPosLocked now v"
  shows "Viewer_Decide pos playing now v =
    \<lparr>a_Play = Playing (v_last v),
     a_Seek = (\<bar>drift\<bar> > SeekThresholdMS (v_cfg v)),
     a_SeekMS = (if \<bar>drift\<bar> > SeekThresholdMS (v_cfg v) then expectedHostPosLocked now v else 0),
     a_Rate = (if \<bar>drift\<bar> \<le> SeekThresholdMS (v_cfg v) \<and> \<bar>drift\<bar> > DeadbandMS (v_cfg v)
               then nudge_rate (v_cfg v) drift else 1),
     a_DriftMS = drift\<rparr>"
proof -
  have "i64 (pos - expectedHostPosLocked now v) = drift" using assms by (simp add: i64_id)
  then show ?thesis using assms(1) i64_abs [OF assms(2,3)]
    by (cases "drift < 0") (simp_all add: Viewer_Decide_def Let_def nudge_rate_def)
qed

text \<open>Splitting an interval: whole milliseconds add up to within one.\<close>

lemma ms_split:
  fixes a b :: int
  assumes "0 \<le> a" "0 \<le> b"
  shows "milliseconds a + milliseconds b \<le> milliseconds (a + b)"
    and "milliseconds (a + b) \<le> milliseconds a + milliseconds b + 1"
  using assms unfolding milliseconds_def by (simp_all add: go_quot_pos)

section \<open>Properties\<close>

text \<open>
  Highest sequence number wins. Whatever the order and the repetition in which a Viewer
  receives a non-empty list of \<open>PartyState\<close> messages, it ends up holding one of them whose
  sequence number no other received message exceeds.
\<close>

theorem viewer_highest_seq_wins:
  assumes "msgs \<noteq> []"
  shows "\<exists>(s, t) \<in> set msgs.
           let v = fold (\<lambda>(s, t). Viewer_OnState s t) msgs (NewViewer cfg)
           in v_haveState v \<and> v_last v = s \<and> v_recvAt v = t \<and>
              (\<forall>(s', t') \<in> set msgs. Seq s' \<le> Seq s)"
proof -
  from party_state.run_highest_wins [of msgs "NewViewer cfg"] assms
  obtain s t where "(s, t) \<in> set msgs"
    "viewer_cur (fold (\<lambda>(s, t). Viewer_OnState s t) msgs (NewViewer cfg)) = Some (s, t)"
    "\<forall>(s', t') \<in> set msgs. Seq s' \<le> Seq s" by fastforce
  then show ?thesis by (intro bexI [of _ "(s, t)"]) (auto simp: viewer_cur_def Let_def split: if_splits)
qed

theorem viewer_highest_seq_wins_witness:
  "\<exists>(s, t) \<in> set [(zero_State\<lparr>Seq := 2\<rparr>, 5), (zero_State\<lparr>Seq := 1\<rparr>, 9)].
     let v = fold (\<lambda>(s, t). Viewer_OnState s t)
               [(zero_State\<lparr>Seq := 2\<rparr>, 5), (zero_State\<lparr>Seq := 1\<rparr>, 9)] (NewViewer DefaultConfig)
     in v_haveState v \<and> v_last v = s \<and> v_recvAt v = t \<and>
        (\<forall>(s', t' :: time) \<in> set [(zero_State\<lparr>Seq := 2\<rparr>, 5), (zero_State\<lparr>Seq := 1\<rparr>, 9)]. Seq s' \<le> Seq s)"
  by (rule viewer_highest_seq_wins) simp

text \<open>
  The Host's sequence number counts exactly the observable changes (play, pause, committed
  seek), modulo \<open>2 ^ 64\<close>, over every history of player events, heartbeat ticks and Audience
  changes; reports, scrub inputs, joins and leaves never bump it.
\<close>

theorem host_seq_counts_observables:
  "h_seq (fold host_step es (NewHost now cfg pid cid)) =
     word_of_nat (observable_count es (NewHost now cfg pid cid))"
  by (simp add: host_run_seq) (simp add: NewHost_def)

text \<open>
  C33. Seek debounce. A scrub is any sequence of seek inputs ending at position \<open>p\<close>, time \<open>t\<close>.
  A tick less than \<open>SeekDebounce\<close> after the last input commits nothing; the first tick at least
  that late commits exactly the final position, once: the sequence number grows by one and a
  further tick commits nothing.
\<close>

theorem scrub_commits_final_position:
  assumes "h' = fold host_step (map (\<lambda>(p, t). EvSeek p t) (seeks @ [(p, t)])) h"
    and "0 \<le> SeekDebounce (h_cfg h)" and "SeekDebounce (h_cfg h) < 2 ^ 63" and "in_i64 p"
  shows "if now - t < SeekDebounce (h_cfg h)
         then Host_Tick now h' = (h', Host_Snapshot now h', False)
         else \<exists>h'' st. Host_Tick now h' = (h'', st, True) \<and> PositionMS st = p \<and> h_posMS h'' = p \<and>
                Playing st = h_playing h \<and> h_seq h'' = h_seq h + 1 \<and> Seq st = h_seq h'' \<and>
                \<not> snd (snd (Host_Tick later h''))"
proof -
  have h': "h' = h\<lparr>h_scrubbing := True, h_pendingSeekMS := p, h_lastSeekInput := t\<rparr>"
    unfolding assms(1) by (rule seeks_only_pending)
  have ge: "SeekDebounce (h_cfg h) \<le> time_sub now t \<longleftrightarrow> \<not> now - t < SeekDebounce (h_cfg h)"
    using time_sub_ge_iff [OF assms(2,3)] by (simp add: not_less)
  show ?thesis
    using ge assms(4) by (simp add: h' Host_Tick_def Let_def Snapshot_settled i64_id milliseconds_def
        go_quot_def)
qed

theorem scrub_commits_final_position_witness:
  "\<exists>h'' st. Host_Tick 500000000
       (fold host_step (map (\<lambda>(p, t). EvSeek p t) ([(10, 1), (20, 2)] @ [(30, 3)]))
         (NewHost 0 DefaultConfig ''p'' ''c'')) = (h'', st, True) \<and>
     PositionMS st = 30 \<and> h_posMS h'' = 30 \<and> h_seq h'' = 1"
proof -
  let ?h = "NewHost 0 DefaultConfig ''p'' ''c''"
  have "0 \<le> SeekDebounce (h_cfg ?h)" "SeekDebounce (h_cfg ?h) < 2 ^ 63" "in_i64 30"
    by (simp_all add: NewHost_def DefaultConfig_def millisecond_def in_i64_def)
  from scrub_commits_final_position [OF refl this, where seeks = "[(10, 1), (20, 2)]" and t = 3
      and now = 500000000 and later = 0]
  show ?thesis by (auto simp: NewHost_def DefaultConfig_def millisecond_def)
qed

text \<open>
  C34. Sync accuracy without synchronised clocks. A Host playing since its last sample sends a
  state at time \<open>sent\<close>; the Viewer, whose clock is off by any \<open>off\<close>, receives it \<open>delay\<close> later.
  Until the Host's next observable change, the Viewer's extrapolated position differs from the
  Host's own position at the same instant by at most the error of the one-way-delay estimate
  plus two milliseconds of rounding.
\<close>

theorem viewer_tracks_host:
  assumes host: "h_playing h" "\<not> h_scrubbing h"
    and times: "h_sampledAt h \<le> sent" "0 \<le> delay" "sent + delay \<le> t" "t - h_sampledAt h < 2 ^ 61"
    and range: "\<bar>h_posMS h\<bar> < 2 ^ 61" "\<bar>v_owdMS v\<bar> < 2 ^ 61"
    and fresh: "\<not> (v_haveState v \<and> h_seq h \<le> Seq (v_last v))"
  shows "\<bar>PositionMS (Host_Snapshot t h) -
          expectedHostPosLocked (t + off) (Viewer_OnState (Host_Snapshot sent h) (sent + delay + off) v)\<bar>
         \<le> \<bar>milliseconds delay - v_owdMS v\<bar> + 2"
proof -
  let ?a = "sent - h_sampledAt h" and ?b = "t - (sent + delay)"
  have sub: "time_sub t (h_sampledAt h) = t - h_sampledAt h" "time_sub sent (h_sampledAt h) = ?a"
    "time_sub (t + off) (sent + delay + off) = ?b"
    using times by (simp_all add: time_sub_id in_i64_def algebra_simps)
  have nonneg: "0 \<le> ?a" "0 \<le> ?b" using times by simp_all
  have small: "0 \<le> milliseconds x \<and> milliseconds x < 2 ^ 61"
    if "0 \<le> x" "x < 2 ^ 61" for x
    using that by (simp add: milliseconds_def go_quot_pos) linarith
  have b1: "0 \<le> milliseconds ?a \<and> milliseconds ?a < 2 ^ 61"
           "0 \<le> milliseconds ?b \<and> milliseconds ?b < 2 ^ 61"
           "0 \<le> milliseconds (t - h_sampledAt h) \<and> milliseconds (t - h_sampledAt h) < 2 ^ 61"
    using small times nonneg by auto
  have rng: "in_i64 (h_posMS h + milliseconds (t - h_sampledAt h))" "in_i64 (h_posMS h + milliseconds ?a)"
    "in_i64 (h_posMS h + milliseconds ?a + v_owdMS v)"
    "in_i64 (h_posMS h + milliseconds ?a + v_owdMS v + milliseconds ?b)"
    using range b1 by (auto simp: in_i64_def abs_less_iff)
  have host_now: "PositionMS (Host_Snapshot t h) = h_posMS h + milliseconds (t - h_sampledAt h)"
    using host rng by (simp add: Snapshot_settled sub i64_id)
  have msg: "PositionMS (Host_Snapshot sent h) = h_posMS h + milliseconds ?a"
    "Playing (Host_Snapshot sent h)" "Seq (Host_Snapshot sent h) = h_seq h"
    using host rng by (simp_all add: Snapshot_settled sub i64_id)
  have "expectedHostPosLocked (t + off) (Viewer_OnState (Host_Snapshot sent h) (sent + delay + off) v)
      = h_posMS h + milliseconds ?a + v_owdMS v + milliseconds ?b"
    using fresh rng by (auto simp: Viewer_OnState_def expectedHostPosLocked_def msg sub i64_id)
  moreover have "t - h_sampledAt h = (?a + delay) + ?b" by simp
  ultimately show ?thesis
    using ms_split [OF nonneg(1) times(2)] ms_split [of "?a + delay" ?b] nonneg times(2) host_now
    by (simp add: abs_if)
qed

theorem viewer_tracks_host_witness:
  "let h = Host_OnPlay 1000 0 (NewHost 0 DefaultConfig ''p'' ''c'');
       v = Viewer_OnRTT 100000000 (NewViewer DefaultConfig)
   in \<bar>PositionMS (Host_Snapshot 3000000000 h) -
       expectedHostPosLocked (3000000000 + 7)
         (Viewer_OnState (Host_Snapshot 2000000000 h) (2000000000 + 50000000 + 7) v)\<bar> \<le> 2"
proof -
  let ?h = "Host_OnPlay 1000 0 (NewHost 0 DefaultConfig ''p'' ''c'')"
  let ?v = "Viewer_OnRTT 100000000 (NewViewer DefaultConfig)"
  have v: "v_owdMS ?v = 50" "\<not> v_haveState ?v"
    by (simp_all add: Viewer_OnRTT_def Let_def milliseconds_def go_quot_def DefaultConfig_def NewViewer_def)
  have "\<bar>PositionMS (Host_Snapshot 3000000000 ?h) -
       expectedHostPosLocked (3000000000 + 7)
         (Viewer_OnState (Host_Snapshot 2000000000 ?h) (2000000000 + 50000000 + 7) ?v)\<bar>
       \<le> \<bar>milliseconds 50000000 - v_owdMS ?v\<bar> + 2"
    by (rule viewer_tracks_host) (simp_all add: Host_OnPlay_def NewHost_def v)
  then show ?thesis by (simp add: v milliseconds_def go_quot_def)
qed

text \<open>
  C35. The control law of \<open>Decide\<close>. With a state received and a representable drift: the play
  flag follows the Host; a seek is ordered exactly when the drift exceeds the seek threshold, to
  the extrapolated Host position; otherwise outside the deadband the rate stays inside
  \<open>[MinRate, MaxRate]\<close> and pulls towards the Host (at most 1 when ahead, at least 1 when
  behind); inside the deadband it is 1. A player that obeys a seek needs no further correction
  at that instant.
\<close>

theorem decide_control_law:
  assumes "v_haveState v" and "drift = pos - expectedHostPosLocked now v"
    and "in_i64 drift" and "drift \<noteq> - (2 ^ 63)"
    and "0 \<le> Kp (v_cfg v)" "MinRate (v_cfg v) \<le> 1" "1 \<le> MaxRate (v_cfg v)"
    and "0 \<le> DeadbandMS (v_cfg v)" "DeadbandMS (v_cfg v) \<le> SeekThresholdMS (v_cfg v)"
    and act: "act = Viewer_Decide pos playing now v"
  shows "a_Play act = Playing (v_last v) \<and> a_DriftMS act = drift \<and>
    (a_Seek act \<longleftrightarrow> \<bar>drift\<bar> > SeekThresholdMS (v_cfg v)) \<and>
    (a_Seek act \<longrightarrow> a_Rate act = 1 \<and> a_SeekMS act = expectedHostPosLocked now v \<and>
       (let again = Viewer_Decide (a_SeekMS act) playing now v
        in \<not> a_Seek again \<and> a_Rate again = 1 \<and> a_DriftMS again = 0)) \<and>
    MinRate (v_cfg v) \<le> a_Rate act \<and> a_Rate act \<le> MaxRate (v_cfg v) \<and>
    (\<bar>drift\<bar> \<le> DeadbandMS (v_cfg v) \<longrightarrow> a_Rate act = 1) \<and>
    (0 \<le> drift \<longrightarrow> a_Rate act \<le> 1) \<and> (drift \<le> 0 \<longrightarrow> 1 \<le> a_Rate act)"
proof -
  have at: "act = \<lparr>a_Play = Playing (v_last v),
     a_Seek = (\<bar>drift\<bar> > SeekThresholdMS (v_cfg v)),
     a_SeekMS = (if \<bar>drift\<bar> > SeekThresholdMS (v_cfg v) then expectedHostPosLocked now v else 0),
     a_Rate = (if \<bar>drift\<bar> \<le> SeekThresholdMS (v_cfg v) \<and> \<bar>drift\<bar> > DeadbandMS (v_cfg v)
               then nudge_rate (v_cfg v) drift else 1),
     a_DriftMS = drift\<rparr>"
    unfolding act by (rule Viewer_Decide_cases [OF assms(1,3,4,2)])
  have again: "Viewer_Decide (expectedHostPosLocked now v) playing now v =
     \<lparr>a_Play = Playing (v_last v), a_Seek = False, a_SeekMS = 0, a_Rate = 1, a_DriftMS = 0\<rparr>"
    using Viewer_Decide_cases [OF assms(1), of 0 "expectedHostPosLocked now v" now playing] assms(8,9)
    by (simp add: in_i64_def)
  have rate: "MinRate (v_cfg v) \<le> nudge_rate (v_cfg v) drift \<and> nudge_rate (v_cfg v) drift \<le> MaxRate (v_cfg v)"
    unfolding nudge_rate_def by (rule clamp_bounds) (use assms(6,7) in simp)
  show ?thesis
    using rate nudge_slows [OF _ assms(5-7), of drift] nudge_speeds [OF _ assms(5-7), of drift] assms(6-9)
    by (simp add: at again)
qed

theorem decide_control_law_witness:
  "let v = Viewer_OnState (zero_State\<lparr>PositionMS := 5000, Seq := 1\<rparr>) 0 (NewViewer DefaultConfig);
       act = Viewer_Decide 9000 True 0 v
   in a_Seek act \<and> a_SeekMS act = 5000 \<and> a_DriftMS act = 4000"
proof -
  let ?v = "Viewer_OnState (zero_State\<lparr>PositionMS := 5000, Seq := 1\<rparr>) 0 (NewViewer DefaultConfig)"
  have v: "v_haveState ?v" "expectedHostPosLocked 0 ?v = 5000" "v_cfg ?v = DefaultConfig"
    by (simp_all add: Viewer_OnState_def NewViewer_def expectedHostPosLocked_def zero_State_def)
  have c: "0 \<le> Kp DefaultConfig" "MinRate DefaultConfig \<le> 1" "1 \<le> MaxRate DefaultConfig"
    by (simp_all add: DefaultConfig_def f64.rnd_nonneg f64.rnd_le_1 f64.rnd_ge_1)
  from decide_control_law [of ?v 4000 9000 0 "Viewer_Decide 9000 True 0 ?v" True] v c
  show ?thesis by (simp add: in_i64_def DefaultConfig_def Let_def)
qed

lemma default_nudge_margin:
  assumes "81 \<le> drift" "drift \<le> 2 ^ 53"
  shows "nudge_rate DefaultConfig drift \<le> 99 / 100"
    and "91 / 100 \<le> nudge_rate DefaultConfig drift"
proof -
  have kp: "199/1000 \<le> f64 (2/10)" by (rule f64_within) simp_all
  have lo: "91/100 \<le> f64 (92/100)" "f64 (92/100) \<le> 99/100"
    by (rule f64_within; simp) (rule f64_below; simp)
  have hi: "1 \<le> f64 (108/100)" by (simp add: f64.rnd_ge_1)
  have "(80/1000) \<le> fdiv (float_of_int drift) 1000"
    unfolding fdiv_def float_of_int_def using assms
    by (intro f64_within) (simp_all add: f64_exact)
  with kp have "199/1000 * (80/1000) \<le> f64 (2/10) * fdiv (float_of_int drift) 1000"
    by (intro mult_mono) simp_all
  then have "15/1000 \<le> fmul (f64 (2/10)) (fdiv (float_of_int drift) 1000)"
    unfolding fmul_def by (intro f64_within) simp_all
  then have "fsub 1 (fmul (f64 (2/10)) (fdiv (float_of_int drift) 1000)) \<le> f64 (985/1000)"
    unfolding fsub_def by (intro f64_mono) simp
  also have "\<dots> \<le> 99 / 100" by (rule f64_below) simp_all
  finally have up: "fsub 1 (fmul (f64 (2/10)) (fdiv (float_of_int drift) 1000)) \<le> 99 / 100" .
  show "nudge_rate DefaultConfig drift \<le> 99 / 100"
    using up lo by (simp add: nudge_rate_def DefaultConfig_def clamp_def)
  have "f64 (92/100) \<le> nudge_rate DefaultConfig drift"
    unfolding nudge_rate_def DefaultConfig_def using clamp_bounds [of "f64 (92/100)" "f64 (108/100)"] lo hi
    by simp
  then show "91 / 100 \<le> nudge_rate DefaultConfig drift" using lo by linarith
qed

lemma default_nudge_odd:
  "fsub 1 (fmul k (fdiv (float_of_int (- d)) 1000)) = f64 (1 + fmul k (fdiv (float_of_int d) 1000))"
  by (simp add: fsub_def fmul_def fdiv_def float_of_int_def f64_neg)

lemma default_nudge_margin_behind:
  assumes "drift \<le> - 81" "- (2 ^ 53) \<le> drift"
  shows "101 / 100 \<le> nudge_rate DefaultConfig drift"
    and "nudge_rate DefaultConfig drift \<le> 109 / 100"
proof -
  have kp: "199/1000 \<le> f64 (2/10)" by (rule f64_within) simp_all
  have lo: "f64 (92/100) \<le> 1" by (simp add: f64.rnd_le_1)
  have hi: "107/100 \<le> f64 (108/100)" "f64 (108/100) \<le> 109/100"
    by (rule f64_within; simp) (rule f64_below; simp)
  have "(80/1000) \<le> fdiv (float_of_int (- drift)) 1000"
    unfolding fdiv_def float_of_int_def using assms
    by (intro f64_within) (simp_all add: f64_exact f64_neg)
  with kp have "199/1000 * (80/1000) \<le> f64 (2/10) * fdiv (float_of_int (- drift)) 1000"
    by (intro mult_mono) simp_all
  then have "15/1000 \<le> fmul (f64 (2/10)) (fdiv (float_of_int (- drift)) 1000)"
    unfolding fmul_def by (intro f64_within) simp_all
  then have "101/100 \<le> f64 (1 + fmul (f64 (2/10)) (fdiv (float_of_int (- drift)) 1000))"
    by (intro f64_within) simp_all
  then have "101/100 \<le> fsub 1 (fmul (f64 (2/10)) (fdiv (float_of_int drift) 1000))"
    using default_nudge_odd [of "f64 (2/10)" "- drift"] by simp
  then show "101 / 100 \<le> nudge_rate DefaultConfig drift"
    using hi lo by (simp add: nudge_rate_def DefaultConfig_def clamp_def)
  have "nudge_rate DefaultConfig drift \<le> f64 (108/100)"
    unfolding nudge_rate_def DefaultConfig_def using clamp_bounds [of "f64 (92/100)" "f64 (108/100)"] lo hi
    by simp
  then show "nudge_rate DefaultConfig drift \<le> 109 / 100" using hi by linarith
qed

text \<open>
  C36. Nudging converges without overshoot. With the default tunables, a player that is between
  the deadband and the seek threshold away from the Host and follows the ordered rate for up to
  one Action tick (250 ms of \<open>serveViewerWS\<close>) ends strictly closer to the Host and on the same
  side of it.
\<close>

theorem nudge_converges_without_overshoot:
  assumes "v_haveState v" "v_cfg v = DefaultConfig" "drift = pos - expectedHostPosLocked now v"
    and "80 < \<bar>drift\<bar>" "\<bar>drift\<bar> \<le> 1000" and "0 < dt" "dt \<le> 250"
  shows "let act = Viewer_Decide pos playing now v;
             drift' = of_int drift + (a_Rate act - 1) * dt
         in \<not> a_Seek act \<and> \<bar>drift'\<bar> < \<bar>of_int drift\<bar> \<and> sgn drift' = sgn (of_int drift)"
proof -
  have "Viewer_Decide pos playing now v =
    \<lparr>a_Play = Playing (v_last v), a_Seek = False, a_SeekMS = 0,
     a_Rate = nudge_rate DefaultConfig drift, a_DriftMS = drift\<rparr>"
  proof -
    have "in_i64 drift" "drift \<noteq> - (2 ^ 63)" using assms(5) by (auto simp: in_i64_def)
    from Viewer_Decide_cases [OF assms(1) this assms(3), of playing]
    show ?thesis using assms(2,4,5) by (simp add: DefaultConfig_def)
  qed
  moreover have "\<bar>of_int drift + (nudge_rate DefaultConfig drift - 1) * dt\<bar> < \<bar>of_int drift\<bar> \<and>
      sgn (of_int drift + (nudge_rate DefaultConfig drift - 1) * dt) = sgn (of_int drift :: rat)"
  proof (cases "0 \<le> drift")
    case True
    let ?c = "(1 - nudge_rate DefaultConfig drift) * dt"
    have d: "81 \<le> (of_int drift :: rat)" using True assms(4) by linarith
    have m: "1/100 \<le> 1 - nudge_rate DefaultConfig drift" "1 - nudge_rate DefaultConfig drift \<le> 9/100"
      using default_nudge_margin [of drift] True assms(4,5) by auto
    then have "0 < ?c" using assms(6) by (intro mult_pos_pos) linarith+
    moreover have "?c \<le> 9/100 * 250" using m assms(6,7) by (intro mult_mono) linarith+
    ultimately have "0 < ?c" "?c \<le> 9/100 * 250" by blast+
    then show ?thesis using d by (simp add: algebra_simps sgn_if abs_if)
  next
    case False
    let ?c = "(nudge_rate DefaultConfig drift - 1) * dt"
    have d: "(of_int drift :: rat) \<le> - 81" using False assms(4) by linarith
    have m: "1/100 \<le> nudge_rate DefaultConfig drift - 1" "nudge_rate DefaultConfig drift - 1 \<le> 9/100"
      using default_nudge_margin_behind [of drift] False assms(4,5) by auto
    then have "0 < ?c" using assms(6) by (intro mult_pos_pos) linarith+
    moreover have "?c \<le> 9/100 * 250" using m assms(6,7) by (intro mult_mono) linarith+
    ultimately have "0 < ?c" "?c \<le> 9/100 * 250" by blast+
    then show ?thesis using d by (simp add: algebra_simps sgn_if abs_if)
  qed
  ultimately show ?thesis by simp
qed

theorem nudge_converges_without_overshoot_witness:
  "let v = Viewer_OnState (zero_State\<lparr>PositionMS := 5000, Seq := 1\<rparr>) 0 (NewViewer DefaultConfig);
       act = Viewer_Decide 5500 True 0 v;
       drift' = of_int 500 + (a_Rate act - 1) * 250
   in \<not> a_Seek act \<and> \<bar>drift'\<bar> < \<bar>of_int 500\<bar> \<and> sgn drift' = sgn (of_int 500)"
proof -
  let ?v = "Viewer_OnState (zero_State\<lparr>PositionMS := 5000, Seq := 1\<rparr>) 0 (NewViewer DefaultConfig)"
  have "v_haveState ?v" "v_cfg ?v = DefaultConfig" "500 = 5500 - expectedHostPosLocked 0 ?v"
    by (simp_all add: Viewer_OnState_def NewViewer_def expectedHostPosLocked_def zero_State_def)
  from nudge_converges_without_overshoot [OF this, of 250 True] show ?thesis by (simp add: Let_def)
qed

text \<open>
  A scrub does not hold Viewers that already follow the Host, and a periodic report does not
  correct them. \<open>Snapshot\<close> reports a paused state at the scrub target "to hold viewers during a
  scrub" and \<open>OnReport\<close> refreshes the anchor that heartbeats broadcast, but neither bumps the
  sequence number, so a Viewer that has received any state with that number discards every such
  heartbeat and keeps extrapolating the old one.
\<close>

theorem scrub_hold_and_reports_ignored:
  assumes "v_haveState v" and "h_seq h \<le> Seq (v_last v)"
    and "e = EvSeek p t \<or> e = EvReport p t"
  shows "Viewer_OnState (Host_Snapshot now (host_step e h)) recv v = v \<and>
         (e = EvSeek p t \<longrightarrow> Host_Snapshot now (host_step e h) =
            \<lparr>PartyID = h_partyID h, Playing = False, PositionMS = p, Rate = h_rate h, Seq = h_seq h\<rparr>)"
  using assms host_step_seq [of e h]
  by (auto simp: Viewer_OnState_def observable_def Host_OnSeek_def Host_Snapshot_def)

theorem scrub_hold_and_reports_ignored_witness:
  "let h = Host_OnPlay 1000 0 (NewHost 0 DefaultConfig ''p'' ''c'');
       v = Viewer_OnState (Host_Snapshot 0 h) 5 (NewViewer DefaultConfig)
   in Viewer_OnState (Host_Snapshot 10 (host_step (EvSeek 90000 9) h)) 15 v = v \<and> Playing (v_last v)"
proof -
  let ?h = "Host_OnPlay 1000 0 (NewHost 0 DefaultConfig ''p'' ''c'')"
  let ?v = "Viewer_OnState (Host_Snapshot 0 ?h) 5 (NewViewer DefaultConfig)"
  have "v_haveState ?v" "h_seq ?h \<le> Seq (v_last ?v)" "Playing (v_last ?v)"
    by (simp_all add: Viewer_OnState_def NewViewer_def Host_Snapshot_def Host_OnPlay_def NewHost_def)
  then show ?thesis
    unfolding Let_def
    using scrub_hold_and_reports_ignored [of ?v ?h "EvSeek 90000 9" 90000 9 10 15] by blast
qed

end
