(* ===== verification/Danmaku.thy ===== *)
theory Danmaku
  imports Go_Strings Party_Sync
begin

text \<open>
  Danmaku moderation, \<open>internal/party/danmaku.go\<close>: the text cap \<open>CapText\<close> and the per-sender token
  bucket \<open>DanmakuGate\<close>. Grapheme segmentation is the third-party package \<open>uniseg\<close>; it is the
  parameter \<open>graphemes\<close>, the list of clusters of a string.
\<close>

definition MaxDanmakuLen :: nat where "MaxDanmakuLen = 100"

fun cap_loop :: "nat \<Rightarrow> string list \<Rightarrow> string" where
  \<comment> \<open>the loop over grapheme clusters: the builder's content from \<open>runes\<close> on\<close>
  "cap_loop runes [] = []"
| "cap_loop runes (g # gs) =
     (let n = rune_count g
      in if runes + n > MaxDanmakuLen then [] else g @ cap_loop (runes + n) gs)"

definition CapText :: "(string \<Rightarrow> string list) \<Rightarrow> string \<Rightarrow> string" where
  "CapText graphemes s =
     (let s = TrimSpace s
      in if rune_count s \<le> MaxDanmakuLen then s
         else TrimSpace (cap_loop 0 (graphemes s)))"

record tokenBucket =
  tb_tokens :: rat
  tb_last :: time

record DanmakuGate =
  dg_burst :: rat
  dg_refill :: rat
  dg_state :: "(NodeID, tokenBucket) gomap"

definition NewDanmakuGate :: "Config \<Rightarrow> DanmakuGate" where
  "NewDanmakuGate cfg =
     \<lparr>dg_burst = DanmakuBurst cfg, dg_refill = DanmakuRefillPerSec cfg, dg_state = []\<rparr>"

definition Gate_Allow :: "NodeID \<Rightarrow> time \<Rightarrow> DanmakuGate \<Rightarrow> bool \<times> DanmakuGate" where
  "Gate_Allow sender now g =
     (let b = (case map_of (dg_state g) sender of
                 None \<Rightarrow> \<lparr>tb_tokens = dg_burst g, tb_last = now\<rparr> | Some b \<Rightarrow> b);
          elapsed = duration_seconds (time_sub now (tb_last b));
          b = (if elapsed > 0
               then (let t = fadd (tb_tokens b) (fmul elapsed (dg_refill g))
                     in \<lparr>tb_tokens = (if t > dg_burst g then dg_burst g else t), tb_last = now\<rparr>)
               else b)
      in if tb_tokens b \<ge> 1
         then (True, g\<lparr>dg_state :=
                 AList.update sender (b\<lparr>tb_tokens := fsub (tb_tokens b) 1\<rparr>) (dg_state g)\<rparr>)
         else (False, g\<lparr>dg_state := AList.update sender b (dg_state g)\<rparr>))"

fun gate_run :: "(NodeID \<times> time) list \<Rightarrow> DanmakuGate \<Rightarrow> bool list \<times> DanmakuGate" where
  "gate_run [] g = ([], g)"
| "gate_run ((s, t) # cs) g =
     (let (ok, g') = Gate_Allow s t g; (oks, g'') = gate_run cs g' in (ok # oks, g''))"

definition allowed_of :: "NodeID \<Rightarrow> (NodeID \<times> time) list \<Rightarrow> DanmakuGate \<Rightarrow> nat" where
  \<comment> \<open>how many of the calls are sends of \<open>s\<close> that the gate lets through\<close>
  "allowed_of s cs g = length (filter (\<lambda>((s', t), ok). s' = s \<and> ok) (zip cs (fst (gate_run cs g))))"

definition calls_of :: "NodeID \<Rightarrow> (NodeID \<times> time) list \<Rightarrow> nat" where
  "calls_of s cs = length (filter (\<lambda>(s', t). s' = s) cs)"

section \<open>Text\<close>

lemma cap_loop_count: "runes \<le> MaxDanmakuLen \<Longrightarrow> runes + rune_count (cap_loop runes gs) \<le> MaxDanmakuLen"
proof (induction runes gs rule: cap_loop.induct)
  case (1 runes)
  then show ?case by simp
next
  case (2 runes g gs)
  show ?case
  proof (cases "runes + rune_count g > MaxDanmakuLen")
    case True
    with "2.prems" show ?thesis by simp
  next
    case False
    with "2.IH" [OF refl] have "runes + rune_count g + rune_count (cap_loop (runes + rune_count g) gs) \<le> MaxDanmakuLen"
      by simp
    with False show ?thesis
      using rune_count_append_le [of g "cap_loop (runes + rune_count g) gs"] by (simp add: Let_def)
  qed
qed

lemma cap_loop_clusters:
  "\<exists>k. cap_loop runes gs = concat (take k gs) \<and>
       (k < length gs \<longrightarrow> MaxDanmakuLen < runes + sum_list (map rune_count (take (Suc k) gs)))"
proof (induction runes gs rule: cap_loop.induct)
  case (1 runes)
  then show ?case by simp
next
  case (2 runes g gs)
  show ?case
  proof (cases "runes + rune_count g > MaxDanmakuLen")
    case True
    then show ?thesis by (intro exI [of _ 0]) simp
  next
    case False
    from "2.IH" [OF refl] False obtain k where
      k: "cap_loop (runes + rune_count g) gs = concat (take k gs)"
         "k < length gs \<longrightarrow> MaxDanmakuLen < runes + rune_count g + sum_list (map rune_count (take (Suc k) gs))"
      by auto
    then show ?thesis using False by (intro exI [of _ "Suc k"]) (simp add: Let_def add.assoc)
  qed
qed

lemma CapText_len: "rune_count (CapText graphemes s) \<le> MaxDanmakuLen"
proof -
  have "rune_count (TrimSpace (cap_loop 0 (graphemes (TrimSpace s)))) \<le> MaxDanmakuLen"
    using rune_count_TrimSpace [of "cap_loop 0 (graphemes (TrimSpace s))"]
      cap_loop_count [of 0 "graphemes (TrimSpace s)"] by simp
  then show ?thesis by (simp add: CapText_def Let_def)
qed

lemma CapText_trimmed: "TrimSpace (CapText graphemes s) = CapText graphemes s"
  by (simp add: CapText_def Let_def)

lemma CapText_idem: "CapText graphemes (CapText graphemes s) = CapText graphemes s"
proof -
  have "CapText graphemes t = t" if "TrimSpace t = t" "rune_count t \<le> MaxDanmakuLen" for t
    using that by (simp add: CapText_def)
  then show ?thesis using CapText_trimmed CapText_len by blast
qed

section \<open>The bucket\<close>

definition bucket_ok :: "DanmakuGate \<Rightarrow> bool" where
  "bucket_ok g \<longleftrightarrow> (\<forall>s b. map_of (dg_state g) s = Some b \<longrightarrow> 0 \<le> tb_tokens b \<and> tb_tokens b \<le> dg_burst g)"

definition bucket_of :: "DanmakuGate \<Rightarrow> NodeID \<Rightarrow> time \<Rightarrow> tokenBucket" where
  "bucket_of g s now =
     (case map_of (dg_state g) s of None \<Rightarrow> \<lparr>tb_tokens = dg_burst g, tb_last = now\<rparr> | Some b \<Rightarrow> b)"

definition refilled :: "DanmakuGate \<Rightarrow> time \<Rightarrow> tokenBucket \<Rightarrow> tokenBucket" where
  "refilled g now b =
     (let elapsed = duration_seconds (time_sub now (tb_last b))
      in if elapsed > 0
         then (let t = fadd (tb_tokens b) (fmul elapsed (dg_refill g))
               in \<lparr>tb_tokens = (if t > dg_burst g then dg_burst g else t), tb_last = now\<rparr>)
         else b)"

lemma Gate_Allow_alt:
  "Gate_Allow s now g =
     (let b = refilled g now (bucket_of g s now)
      in if tb_tokens b \<ge> 1
         then (True, g\<lparr>dg_state := AList.update s (b\<lparr>tb_tokens := fsub (tb_tokens b) 1\<rparr>) (dg_state g)\<rparr>)
         else (False, g\<lparr>dg_state := AList.update s b (dg_state g)\<rparr>))"
  unfolding Gate_Allow_def refilled_def bucket_of_def Let_def by (rule refl)

lemma Gate_Allow_frame:
  "s' \<noteq> s \<Longrightarrow> map_of (dg_state (snd (Gate_Allow s now g))) s' = map_of (dg_state g) s'"
  by (simp add: Gate_Allow_alt Let_def)

lemma Gate_Allow_params [simp]:
  "dg_burst (snd (Gate_Allow s now g)) = dg_burst g" "dg_refill (snd (Gate_Allow s now g)) = dg_refill g"
  by (simp_all add: Gate_Allow_alt Let_def)

lemma duration_seconds_bounds:
  assumes "0 \<le> d" "d < 2 ^ 63"
  shows "0 \<le> duration_seconds d" and "duration_seconds d \<le> of_int d / 1000000000 * (1 + eps64)\<^sup>2"
    and "of_int (d div 1000000000) \<le> duration_seconds d"
    and "duration_seconds d = 0 \<longleftrightarrow> d = 0"
proof -
  let ?s = "d div 1000000000" and ?n = "d mod 1000000000"
  have q: "go_quot d 1000000000 = ?s" "go_rem d 1000000000 = ?n"
    using assms(1) by (simp_all add: go_rem_def go_quot_pos minus_mult_div_eq_mod)
  have s: "0 \<le> ?s" "?s \<le> 2 ^ 53" using assms by (simp_all add: pos_imp_zdiv_nonneg_iff)
  have n: "0 \<le> ?n" "?n \<le> 2 ^ 53" by (simp_all add: less_imp_le order_trans [OF less_imp_le [OF pos_mod_bound]])
  define f where "f = f64 (of_int ?n / 1000000000)"
  have ds: "duration_seconds d = f64 (of_int ?s + f)"
    using s n by (simp add: duration_seconds_def fadd_def fdiv_def float_of_int_def q f64_exact f_def)
  have f0: "0 \<le> f" unfolding f_def using n by (intro f64.rnd_nonneg) simp
  have fle: "f \<le> of_int ?n / 1000000000 * (1 + eps64)" unfolding f_def by (rule f64_le) simp
  show "0 \<le> duration_seconds d" unfolding ds by (rule f64.rnd_nonneg) (use s f0 in simp)
  show "of_int ?s \<le> duration_seconds d" unfolding ds
    by (rule f64.int_le_rnd) (use s f0 in simp_all)
  have sum: "of_int ?s + of_int ?n / 1000000000 = (of_int d / 1000000000 :: rat)"
  proof -
    have "(of_int d :: rat) = of_int (?s * 1000000000 + ?n)" by simp
    then show ?thesis by (simp only: of_int_add of_int_mult) (simp add: field_simps)
  qed
  have "duration_seconds d \<le> (of_int ?s + f) * (1 + eps64)" unfolding ds by (rule f64_le) (use s f0 in simp)
  also have "\<dots> \<le> ((of_int ?s + of_int ?n / 1000000000) * (1 + eps64)) * (1 + eps64)"
  proof (rule mult_right_mono)
    have "(of_int ?s :: rat) \<le> of_int ?s * (1 + eps64)" using s eps64_small by (simp add: algebra_simps)
    then show "of_int ?s + f \<le> (of_int ?s + of_int ?n / 1000000000) * (1 + eps64)"
      using fle unfolding distrib_right by linarith
  qed (use eps64_small in simp)
  finally show "duration_seconds d \<le> of_int d / 1000000000 * (1 + eps64)\<^sup>2"
    unfolding sum by (simp add: power2_eq_square mult.assoc)
  show "duration_seconds d = 0 \<longleftrightarrow> d = 0"
  proof
    assume z: "duration_seconds d = 0"
    have "of_int ?s + f = 0" using f64_pos [of "of_int ?s + f"] z s f0 by (cases "of_int ?s + f > 0") (auto simp: ds)
    then have "?s = 0" "f = 0" using s f0 by (auto simp: add_nonneg_eq_0_iff)
    moreover have "?n = 0" using f64_pos [of "of_int ?n / 1000000000"] \<open>f = 0\<close> n
      by (cases "?n = 0") (auto simp: f_def)
    ultimately show "d = 0" by (metis div_mult_mod_eq add_0 mult_zero_left)
  next
    assume "d = 0"
    then show "duration_seconds d = 0" unfolding ds f_def by (simp add: f64_def)
  qed
qed

lemma refilled_bounds:
  assumes "0 \<le> tb_tokens b" "tb_tokens b \<le> dg_burst g" "0 \<le> dg_refill g"
    and "tb_last b \<le> now" "now - tb_last b < 2 ^ 63"
  shows "0 \<le> tb_tokens (refilled g now b)" and "tb_tokens (refilled g now b) \<le> dg_burst g"
    and "tb_last (refilled g now b) = now"
    and "tb_tokens (refilled g now b) \<le> tb_tokens b
           + dg_refill g * (of_int (now - tb_last b) / 1000000000) * (1 + eps64) ^ 3 + dg_burst g * eps64"
proof -
  let ?d = "now - tb_last b"
  have d: "time_sub now (tb_last b) = ?d" "0 \<le> ?d"
    using assms(4,5) by (simp_all add: time_sub_id in_i64_def)
  note el = duration_seconds_bounds [OF d(2) assms(5)]
  define inc where "inc = fmul (duration_seconds ?d) (dg_refill g)"
  have inc0: "0 \<le> inc" unfolding inc_def fmul_def
    by (rule f64.rnd_nonneg) (use el(1) assms(3) in simp)
  have "inc \<le> duration_seconds ?d * dg_refill g * (1 + eps64)" unfolding inc_def fmul_def
    by (rule f64_le) (use el(1) assms(3) in simp)
  also have "\<dots> \<le> of_int ?d / 1000000000 * (1 + eps64)\<^sup>2 * dg_refill g * (1 + eps64)"
    by (intro mult_right_mono) (use el(2) assms(3) eps64_small in simp_all)
  also have "\<dots> = dg_refill g * (of_int ?d / 1000000000) * (1 + eps64) ^ 3"
    by (simp add: power2_eq_square power3_eq_cube)
  finally have inc: "inc \<le> dg_refill g * (of_int ?d / 1000000000) * (1 + eps64) ^ 3" .
  define t where "t = fadd (tb_tokens b) inc"
  have t0: "0 \<le> t" unfolding t_def fadd_def by (rule f64.rnd_nonneg) (use assms(1) inc0 in simp)
  have tle: "t \<le> (tb_tokens b + inc) * (1 + eps64)" unfolding t_def fadd_def
    by (rule f64_le) (use assms(1) inc0 in simp)
  have r: "refilled g now b = (if ?d = 0 then b
      else \<lparr>tb_tokens = (if t > dg_burst g then dg_burst g else t), tb_last = now\<rparr>)"
    using el(1,4) by (auto simp: refilled_def d Let_def t_def inc_def less_le)
  show "0 \<le> tb_tokens (refilled g now b)" "tb_tokens (refilled g now b) \<le> dg_burst g"
    using assms(1,2) t0 by (simp_all add: r)
  show "tb_last (refilled g now b) = now" using d(2) by (simp add: r)
  have "tb_tokens (refilled g now b) \<le> tb_tokens b + inc + dg_burst g * eps64"
  proof (cases "dg_burst g \<le> tb_tokens b + inc")
    case True
    moreover have "0 \<le> dg_burst g * eps64" using assms(1,2) eps64_small by simp
    ultimately show ?thesis using inc0 assms(2) by (simp add: r)
  next
    case False
    then have "(tb_tokens b + inc) * eps64 \<le> dg_burst g * eps64" using eps64_small by simp
    then have "t \<le> tb_tokens b + inc + dg_burst g * eps64" using tle by (simp add: algebra_simps)
    moreover have "0 \<le> dg_burst g * eps64" using assms(1,2) eps64_small by simp
    ultimately show ?thesis using inc0 by (auto simp: r)
  qed
  then show "tb_tokens (refilled g now b) \<le> tb_tokens b
           + dg_refill g * (of_int ?d / 1000000000) * (1 + eps64) ^ 3 + dg_burst g * eps64"
    using inc by linarith
qed

lemma consume_bounds:
  assumes "1 \<le> x" "x \<le> B" "f64 B = B"
  shows "0 \<le> fsub x 1" "fsub x 1 \<le> B" "fsub x 1 \<le> x - 1 + B * eps64"
proof -
  show "0 \<le> fsub x 1" unfolding fsub_def by (rule f64.rnd_nonneg) (use assms in simp)
  have "fsub x 1 \<le> (x - 1) * (1 + eps64)" unfolding fsub_def by (rule f64_le) (use assms in simp)
  moreover have "(x - 1) * eps64 \<le> B * eps64" using assms eps64_small by simp
  ultimately show "fsub x 1 \<le> x - 1 + B * eps64" by (simp add: algebra_simps)
  show "fsub x 1 \<le> B" using f64_mono [of "x - 1" B] assms by (simp add: fsub_def)
qed

definition gate_ok :: "DanmakuGate \<Rightarrow> bool" where
  "gate_ok g \<longleftrightarrow> 0 \<le> dg_burst g \<and> f64 (dg_burst g) = dg_burst g \<and> 0 \<le> dg_refill g \<and> bucket_ok g"

definition clock_ok :: "time \<Rightarrow> time \<Rightarrow> DanmakuGate \<Rightarrow> bool" where
  \<comment> \<open>every bucket was last refilled between \<open>t0\<close> and \<open>t\<close>\<close>
  "clock_ok t0 t g \<longleftrightarrow> (\<forall>s b. map_of (dg_state g) s = Some b \<longrightarrow> t0 \<le> tb_last b \<and> tb_last b \<le> t)"

lemma bucket_of_ok:
  "gate_ok g \<Longrightarrow> clock_ok t0 t g \<Longrightarrow> t0 \<le> t \<Longrightarrow> t - t0 < 2 ^ 63 \<Longrightarrow>
     0 \<le> tb_tokens (bucket_of g s t) \<and> tb_tokens (bucket_of g s t) \<le> dg_burst g \<and>
     tb_last (bucket_of g s t) \<le> t \<and> t - tb_last (bucket_of g s t) < 2 ^ 63"
  by (fastforce simp: gate_ok_def bucket_ok_def clock_ok_def bucket_of_def split: option.splits)

lemma Gate_Allow_step:
  assumes "gate_ok g" "clock_ok t0 t g" "t0 \<le> t" "t - t0 < 2 ^ 63"
  shows "gate_ok (snd (Gate_Allow s t g))"
    and "\<exists>b. map_of (dg_state (snd (Gate_Allow s t g))) s = Some b \<and> tb_last b = t \<and>
           tb_tokens b + (if fst (Gate_Allow s t g) then 1 else 0)
             \<le> tb_tokens (bucket_of g s t)
               + dg_refill g * (of_int (t - tb_last (bucket_of g s t)) / 1000000000) * (1 + eps64) ^ 3
               + 2 * (dg_burst g * eps64)"
proof -
  let ?b = "bucket_of g s t"
  let ?r = "refilled g t ?b"
  have ok: "0 \<le> dg_burst g" "f64 (dg_burst g) = dg_burst g" "0 \<le> dg_refill g" "bucket_ok g"
    using assms(1) by (auto simp: gate_ok_def)
  have r: "0 \<le> tb_tokens ?r" "tb_tokens ?r \<le> dg_burst g" "tb_last ?r = t"
    "tb_tokens ?r \<le> tb_tokens ?b + dg_refill g * (of_int (t - tb_last ?b) / 1000000000) * (1 + eps64) ^ 3
       + dg_burst g * eps64"
    using refilled_bounds [of ?b g t] bucket_of_ok [OF assms, of s] ok by blast+
  note c = consume_bounds [OF _ r(2) ok(2)]
  show "gate_ok (snd (Gate_Allow s t g))"
    using ok r c by (auto simp: gate_ok_def bucket_ok_def Gate_Allow_alt Let_def)
  have "0 \<le> dg_burst g * eps64" using ok(1) eps64_small by simp
  then show "\<exists>b. map_of (dg_state (snd (Gate_Allow s t g))) s = Some b \<and> tb_last b = t \<and>
           tb_tokens b + (if fst (Gate_Allow s t g) then 1 else 0)
             \<le> tb_tokens ?b + dg_refill g * (of_int (t - tb_last ?b) / 1000000000) * (1 + eps64) ^ 3
               + 2 * (dg_burst g * eps64)"
    using r c(3) by (auto simp: Gate_Allow_alt Let_def)
qed

lemma Gate_Allow_clock:
  assumes "gate_ok g" "clock_ok t0 t g" "t0 \<le> t" "t - t0 < 2 ^ 63" "t \<le> t'"
  shows "clock_ok t0 t' (snd (Gate_Allow s t g))"
  unfolding clock_ok_def
proof (intro allI impI)
  fix s' b' assume b': "map_of (dg_state (snd (Gate_Allow s t g))) s' = Some b'"
  show "t0 \<le> tb_last b' \<and> tb_last b' \<le> t'"
  proof (cases "s' = s")
    case True
    with b' Gate_Allow_step(2) [OF assms(1-4), of s] have "tb_last b' = t" by auto
    with assms show ?thesis by simp
  next
    case False
    with b' have "map_of (dg_state g) s' = Some b'" by (simp add: Gate_Allow_frame)
    with assms(2,5) show ?thesis by (fastforce simp: clock_ok_def)
  qed
qed

definition budget :: "DanmakuGate \<Rightarrow> duration \<Rightarrow> nat \<Rightarrow> rat" where
  \<comment> \<open>tokens that \<open>n\<close> calls over a time span can add to a bucket, rounding included\<close>
  "budget g d n = dg_refill g * (of_int d / 1000000000) * (1 + eps64) ^ 3
                  + of_nat n * (2 * (dg_burst g * eps64))"

lemma allowed_of_Cons:
  "allowed_of s ((s', t) # cs) g =
     (if s' = s \<and> fst (Gate_Allow s' t g) then 1 else 0) + allowed_of s cs (snd (Gate_Allow s' t g))"
  by (auto simp: allowed_of_def split: prod.splits)

lemma calls_of_Cons: "calls_of s ((s', t) # cs) = (if s' = s then 1 else 0) + calls_of s cs"
  by (simp add: calls_of_def)

lemma budget_add: "budget g d m + budget g e n = budget g (d + e) (m + n)"
  by (simp add: budget_def add_divide_distrib distrib_left distrib_right)

lemma allowed_of_bound:
  assumes "gate_ok g" "clock_ok t0 t g" "t0 \<le> t" "t1 - t0 < 2 ^ 63"
    and "sorted (t # map snd cs)" "\<forall>t' \<in> set (map snd cs). t' \<le> t1" "t \<le> t1"
  shows "of_nat (allowed_of s cs g) \<le>
           (case map_of (dg_state g) s of
              Some b \<Rightarrow> tb_tokens b + budget g (t1 - tb_last b) (calls_of s cs)
            | None \<Rightarrow> dg_burst g + budget g (t1 - t) (calls_of s cs))"
  using assms
proof (induction cs arbitrary: g t)
  case Nil
  have "0 \<le> budget g d 0" if "0 \<le> d" for d
    using that Nil.prems(1) eps64_small by (simp add: budget_def gate_ok_def)
  moreover have "0 \<le> t1 - t" using Nil.prems by simp
  moreover have "0 \<le> tb_tokens b \<and> 0 \<le> t1 - tb_last b" if "map_of (dg_state g) s = Some b" for b
    using that Nil.prems by (fastforce simp: gate_ok_def bucket_ok_def clock_ok_def)
  ultimately show ?case using Nil.prems(1)
    by (auto simp: allowed_of_def calls_of_def gate_ok_def split: option.splits)
next
  case (Cons c cs)
  obtain s' u where c: "c = (s', u)" by (cases c)
  let ?g = "snd (Gate_Allow s' u g)"
  have u: "t \<le> u" "u \<le> t1" "t0 \<le> u" "u - t0 < 2 ^ 63" using Cons.prems by (auto simp: c)
  have clk: "clock_ok t0 u g" using Cons.prems(2) u(1) by (fastforce simp: clock_ok_def)
  note st = Gate_Allow_step [OF Cons.prems(1) clk u(3,4), of s']
  have clk': "clock_ok t0 u ?g" by (rule Gate_Allow_clock [OF Cons.prems(1) clk u(3,4)]) simp
  have bud: "budget ?g d n = budget g d n" for d n by (simp add: budget_def)
  have IH: "of_nat (allowed_of s cs ?g) \<le>
           (case map_of (dg_state ?g) s of
              Some b \<Rightarrow> tb_tokens b + budget g (t1 - tb_last b) (calls_of s cs)
            | None \<Rightarrow> dg_burst g + budget g (t1 - u) (calls_of s cs))"
    using Cons.IH [OF st(1) clk' u(3)] Cons.prems u by (simp add: c bud cong: option.case_cong)
  show ?case
  proof (cases "s' = s")
    case True
    let ?b = "bucket_of g s u"
    from st(2) True obtain b where b: "map_of (dg_state ?g) s = Some b" "tb_last b = u"
      "tb_tokens b + (if fst (Gate_Allow s u g) then 1 else 0) \<le> tb_tokens ?b + budget g (u - tb_last ?b) 1"
      by (auto simp: budget_def)
    have "of_nat (allowed_of s (c # cs) g) \<le>
        (if fst (Gate_Allow s u g) then 1 else 0) + tb_tokens b + budget g (t1 - u) (calls_of s cs)"
      using IH b(1,2) True by (simp add: c allowed_of_Cons)
    also have "\<dots> \<le> tb_tokens ?b + (budget g (u - tb_last ?b) 1 + budget g (t1 - u) (calls_of s cs))"
      using b(3) by linarith
    also have "\<dots> = tb_tokens ?b + budget g (t1 - tb_last ?b) (calls_of s (c # cs))"
      using True by (simp add: budget_add c calls_of_Cons)
    finally have main: "of_nat (allowed_of s (c # cs) g) \<le> tb_tokens ?b + budget g (t1 - tb_last ?b) (calls_of s (c # cs))" .
    show ?thesis
    proof (cases "map_of (dg_state g) s")
      case (Some b0)
      then show ?thesis using main by (simp add: bucket_of_def)
    next
      case None
      have "budget g (t1 - u) n \<le> budget g (t1 - t) n" for n
        using u(1) Cons.prems(1) eps64_small
        by (auto simp: budget_def gate_ok_def intro!: mult_right_mono mult_left_mono divide_right_mono)
      then show ?thesis using main None by (simp add: bucket_of_def) (meson add_left_mono order_trans)
    qed
  next
    case False
    then have same: "map_of (dg_state ?g) s = map_of (dg_state g) s" by (simp add: Gate_Allow_frame)
    have "budget g (t1 - u) n \<le> budget g (t1 - t) n" for n
      using u(1) Cons.prems(1) eps64_small
      by (auto simp: budget_def gate_ok_def intro!: mult_right_mono mult_left_mono divide_right_mono)
    then show ?thesis using IH False same
      by (auto simp: c allowed_of_Cons calls_of_Cons split: option.splits intro: order_trans add_left_mono)
  qed
qed

section \<open>Properties\<close>

lemma NewDanmakuGate_ok:
  "0 \<le> DanmakuBurst cfg \<Longrightarrow> f64 (DanmakuBurst cfg) = DanmakuBurst cfg \<Longrightarrow> 0 \<le> DanmakuRefillPerSec cfg \<Longrightarrow>
     gate_ok (NewDanmakuGate cfg) \<and> clock_ok t0 t (NewDanmakuGate cfg)"
  by (simp add: NewDanmakuGate_def gate_ok_def bucket_ok_def clock_ok_def)

text \<open>
  C37. Rate limit. In any time-ordered sequence of sends by any senders inside \<open>[t0, t1]\<close>, a fresh
  gate lets through at most \<open>DanmakuBurst + DanmakuRefillPerSec * (t1 - t0)\<close> sends of each sender,
  up to the rounding of \<open>float64\<close> (a relative \<open>4 * eps64\<close> on the refill and \<open>2 * burst * eps64\<close>
  per send); other senders' traffic never changes a sender's budget.
\<close>

theorem danmaku_rate_limit:
  assumes "0 \<le> DanmakuBurst cfg" "f64 (DanmakuBurst cfg) = DanmakuBurst cfg"
    and "0 \<le> DanmakuRefillPerSec cfg"
    and "sorted (map snd cs)" "\<forall>t \<in> set (map snd cs). t0 \<le> t \<and> t \<le> t1" "t0 \<le> t1" "t1 - t0 < 2 ^ 63"
  shows "of_nat (allowed_of s cs (NewDanmakuGate cfg)) \<le>
           DanmakuBurst cfg
           + DanmakuRefillPerSec cfg * (of_int (t1 - t0) / 1000000000) * (1 + eps64) ^ 3
           + of_nat (calls_of s cs) * (2 * (DanmakuBurst cfg * eps64))"
proof -
  let ?g = "NewDanmakuGate cfg"
  have "of_nat (allowed_of s cs ?g) \<le> dg_burst ?g + budget ?g (t1 - t0) (calls_of s cs)"
    using allowed_of_bound [of ?g t0 t0 t1 cs s] NewDanmakuGate_ok [OF assms(1-3)] assms(4-7)
    by (auto simp: NewDanmakuGate_def)
  then show ?thesis by (simp add: budget_def NewDanmakuGate_def)
qed

theorem danmaku_rate_limit_witness:
  "of_nat (allowed_of ''a'' [(''a'', 0), (''b'', 1), (''a'', 2)] (NewDanmakuGate DefaultConfig)) \<le>
     3 + 1 * (of_int (2 - 0) / 1000000000) * (1 + eps64) ^ 3 + of_nat 2 * (2 * (3 * eps64))"
proof -
  have "f64 3 = 3" using f64_exact [of 3] by simp
  then have "0 \<le> DanmakuBurst DefaultConfig" "f64 (DanmakuBurst DefaultConfig) = DanmakuBurst DefaultConfig"
    "0 \<le> DanmakuRefillPerSec DefaultConfig" by (simp_all add: DefaultConfig_def)
  from danmaku_rate_limit [OF this, of "[(''a'', 0), (''b'', 1), (''a'', 2)]" 0 2 "''a''"]
  show ?thesis by (simp add: DefaultConfig_def calls_of_def)
qed

text \<open>
  No starvation. A sender whose bucket was last refilled a second or more ago is always let
  through, whenever the gate holds at least one token per second and per burst: a client that
  keeps the one-per-second cooldown of the configuration is never throttled.
\<close>

theorem danmaku_cooldown_suffices:
  assumes "gate_ok g" and "1 \<le> dg_burst g" and "1 \<le> dg_refill g"
    and "map_of (dg_state g) s = Some b" and "second \<le> now - tb_last b" and "now - tb_last b < 2 ^ 63"
  shows "fst (Gate_Allow s now g)"
proof -
  let ?d = "now - tb_last b"
  have d: "time_sub now (tb_last b) = ?d" "0 \<le> ?d"
    using assms(5,6) by (simp_all add: time_sub_id in_i64_def second_def)
  have "1 \<le> ?d div 1000000000" using assms(5) by (simp add: second_def)
  then have one: "1 \<le> duration_seconds ?d"
    using duration_seconds_bounds(3) [OF d(2) assms(6)] by (meson of_int_1_le_iff order_trans)
  have "1 * 1 \<le> duration_seconds ?d * dg_refill g" using one assms(3) by (intro mult_mono) simp_all
  then have "1 \<le> fmul (duration_seconds ?d) (dg_refill g)" by (simp add: fmul_def f64.rnd_ge_1)
  moreover have "0 \<le> tb_tokens b" using assms(1,4) by (auto simp: gate_ok_def bucket_ok_def)
  ultimately have "1 \<le> fadd (tb_tokens b) (fmul (duration_seconds ?d) (dg_refill g))"
    by (simp add: fadd_def f64.rnd_ge_1)
  then show ?thesis using one assms(2,4)
    by (simp add: Gate_Allow_alt Let_def bucket_of_def refilled_def d)
qed

theorem danmaku_cooldown_suffices_witness:
  "fst (Gate_Allow ''a'' 1000000005
     (NewDanmakuGate DefaultConfig\<lparr>dg_state := [(''a'', \<lparr>tb_tokens = 0, tb_last = 5\<rparr>)]\<rparr>))"
proof -
  have "f64 3 = 3" using f64_exact [of 3] by simp
  then show ?thesis
    by (intro danmaku_cooldown_suffices [where b = "\<lparr>tb_tokens = 0, tb_last = 5\<rparr>"])
       (simp_all add: gate_ok_def bucket_ok_def NewDanmakuGate_def DefaultConfig_def second_def)
qed

text \<open>
  The text cap. For every grapheme segmentation, a capped text has at most \<open>MaxDanmakuLen\<close>
  runes and no surrounding white space, capping again changes nothing (the Host caps a Danmaku
  twice on its way to the Audience), a text that fits is only trimmed, and a longer one is cut
  after a whole number of clusters, the first one left out being one that does not fit.
\<close>

theorem captext_cap:
  "rune_count (CapText graphemes s) \<le> MaxDanmakuLen \<and>
   TrimSpace (CapText graphemes s) = CapText graphemes s \<and>
   CapText graphemes (CapText graphemes s) = CapText graphemes s \<and>
   (if rune_count (TrimSpace s) \<le> MaxDanmakuLen then CapText graphemes s = TrimSpace s
    else \<exists>k. CapText graphemes s = TrimSpace (concat (take k (graphemes (TrimSpace s)))) \<and>
           (k < length (graphemes (TrimSpace s)) \<longrightarrow>
              MaxDanmakuLen < sum_list (map rune_count (take (Suc k) (graphemes (TrimSpace s))))))"
proof -
  obtain k where "cap_loop 0 (graphemes (TrimSpace s)) = concat (take k (graphemes (TrimSpace s))) \<and>
      (k < length (graphemes (TrimSpace s)) \<longrightarrow>
         MaxDanmakuLen < 0 + sum_list (map rune_count (take (Suc k) (graphemes (TrimSpace s)))))"
    using cap_loop_clusters by blast
  then show ?thesis using CapText_len CapText_trimmed CapText_idem
    by (auto simp: CapText_def Let_def)
qed

theorem captext_cap_witness:
  "CapText (map (\<lambda>c. [c])) ''  hi '' = ''hi'' \<and>
   rune_count (CapText (map (\<lambda>c. [c])) (replicate 200 CHR ''x'')) \<le> MaxDanmakuLen"
proof -
  have t: "TrimSpace ''  hi '' = ''hi''" by code_simp
  have r: "rune_count ''hi'' \<le> MaxDanmakuLen" by code_simp
  show ?thesis
    using captext_cap [of "map (\<lambda>c. [c])" "''  hi ''"]
      captext_cap [of "map (\<lambda>c. [c])" "replicate 200 CHR ''x''"] by (simp only: t r if_True simp_thms)
qed

end
