(* ===== verification/Swarm_Engine.thy ===== *)
theory Swarm_Engine
  imports Go_Strings "HOL-Library.List_Lexorder" "HOL-Library.Char_ord"
begin

text \<open>
  The mesh decision engine of \<open>internal/swarm\<close>: local haves and their bitmap encoding
  (\<open>haves.go\<close>), peer records fed by gossip (\<open>peers.go\<close>), source and gossip-target selection
  (\<open>select.go\<close>) and the shared data (\<open>swarm.go\<close>).

  A \<open>map[int]bool\<close> that only ever holds \<open>true\<close> is the list of its keys. The injected clock is
  the \<open>now\<close> argument; the injected \<open>*rand.Rand\<close> is the argument \<open>intn\<close>, \<open>intn i n\<close> being the
  value of the \<open>i\<close>-th call of \<open>Intn(n)\<close>. Node IDs are ordered as Go orders strings, bytewise.
\<close>

unbundle bit_operations_syntax

section \<open>Data and construction: \<open>swarm.go\<close>\<close>

record SwarmConfig =
  GossipInterval :: duration
  Fanout :: int
  RandomLinks :: int
  HaveTTL :: duration
  WindowLag :: int
  WindowLead :: int
  UploadCap :: int
  PullTimeout :: duration
  BusyCooldown :: duration

definition SwarmDefaultConfig :: SwarmConfig where
  "SwarmDefaultConfig =
     \<lparr>GossipInterval = 1 * second, Fanout = 3, RandomLinks = 1, HaveTTL = 10 * second,
      WindowLag = 6, WindowLead = 6, UploadCap = 4, PullTimeout = 5 * second,
      BusyCooldown = 2 * second\<rparr>"

definition SegIndex :: "string \<Rightarrow> int option" where
  "SegIndex name =
     (if \<not> HasPrefix name ''seg'' \<or> \<not> HasSuffix name ''.ts'' then None
      else Atoi (TrimSuffix (TrimPrefix name ''seg'') ''.ts''))"

record peerInfo =
  p_have :: "int list"
  p_epoch :: u64
  p_rtt :: duration
  p_haveRTT :: bool
  p_lastSeen :: time
  p_busyUntil :: time
  p_demoted :: bool

record Swarm =
  s_self :: NodeID
  s_cfg :: SwarmConfig
  s_have :: "int list"
  s_haveEpoch :: u64
  s_peers :: "(NodeID, peerInfo) gomap"

definition Swarm_New :: "NodeID \<Rightarrow> SwarmConfig \<Rightarrow> Swarm" where
  "Swarm_New self cfg = \<lparr>s_self = self, s_cfg = cfg, s_have = [], s_haveEpoch = 0, s_peers = []\<rparr>"

definition fresh_peer :: peerInfo where
  \<comment> \<open>\<open>&peerInfo{have: map[int]bool{}}\<close>\<close>
  "fresh_peer = \<lparr>p_have = [], p_epoch = 0, p_rtt = 0, p_haveRTT = False, p_lastSeen = 0,
                 p_busyUntil = 0, p_demoted = False\<rparr>"

section \<open>Local haves: \<open>haves.go\<close>\<close>

definition SetHave :: "int \<Rightarrow> Swarm \<Rightarrow> Swarm" where
  "SetHave idx s =
     (if idx \<in> set (s_have s) then s
      else s\<lparr>s_have := s_have s @ [idx], s_haveEpoch := s_haveEpoch s + 1\<rparr>)"

definition Swarm_Have :: "Swarm \<Rightarrow> int \<Rightarrow> bool" where
  "Swarm_Have s idx \<longleftrightarrow> idx \<in> set (s_have s)"

definition Retain :: "int \<Rightarrow> int \<Rightarrow> Swarm \<Rightarrow> int list \<times> Swarm" where
  "Retain lo hi s =
     (let evicted = filter (\<lambda>idx. idx < lo \<or> idx > hi) (s_have s)
      in if evicted \<noteq> []
         then (evicted, s\<lparr>s_have := filter (\<lambda>idx. idx \<notin> set evicted) (s_have s),
                          s_haveEpoch := s_haveEpoch s + 1\<rparr>)
         else (evicted, s))"

definition set_bits :: "int \<Rightarrow> int list \<Rightarrow> bytes \<Rightarrow> bytes" where
  \<comment> \<open>the loop \<open>bits[off/8] |= 1 << uint(off%8)\<close>\<close>
  "set_bits lo have bits =
     fold (\<lambda>idx bits. let off = nat (idx - lo)
                      in bits[off div 8 := bits ! (off div 8) OR push_bit (off mod 8) 1]) have bits"

definition HaveMsg :: "Swarm \<Rightarrow> u32 \<times> bytes \<times> u64" where
  "HaveMsg s =
     (if s_have s = [] then (0, [], s_haveEpoch s)
      else let lo = fold (\<lambda>idx m. if idx < m then idx else m) (s_have s) (2 ^ 63 - 1);
               hi = fold (\<lambda>idx m. if idx > m then idx else m) (s_have s) 0;
               bits = replicate (nat (go_quot (i64 (hi - lo)) 8 + 1)) 0
           in (word_of_int lo, set_bits lo (s_have s) bits, s_haveEpoch s))"

definition decodeBitmap :: "u32 \<Rightarrow> bytes \<Rightarrow> int list" where
  "decodeBitmap base bitmap =
     map (\<lambda>i. uint base + int i)
       (filter (\<lambda>i. bitmap ! (i div 8) AND push_bit (i mod 8) 1 \<noteq> 0) [0 ..< length bitmap * 8])"

section \<open>Peer records: \<open>peers.go\<close>\<close>

definition SetPeers :: "NodeID list \<Rightarrow> Swarm \<Rightarrow> Swarm" where
  "SetPeers members s =
     (let want = filter (\<lambda>m. m \<noteq> s_self s) members;
          added = fold (\<lambda>m ps. if map_of ps m = None then AList.update m fresh_peer ps else ps) want (s_peers s)
      in s\<lparr>s_peers := filter (\<lambda>(id, p). id \<in> set want) added\<rparr>)"

definition Swarm_Peers :: "Swarm \<Rightarrow> NodeID list" where
  "Swarm_Peers s = map fst (filter (\<lambda>(id, p). \<not> p_demoted p) (s_peers s))"

definition OnPeerHave :: "NodeID \<Rightarrow> u32 \<Rightarrow> bytes \<Rightarrow> u64 \<Rightarrow> time \<Rightarrow> Swarm \<Rightarrow> Swarm" where
  "OnPeerHave node base bitmap epoch now s =
     (let p = (case map_of (s_peers s) node of None \<Rightarrow> fresh_peer | Some p \<Rightarrow> p);
          p = p\<lparr>p_lastSeen := now\<rparr>;
          p = (if epoch \<le> p_epoch p \<and> p_epoch p \<noteq> 0 then p
               else p\<lparr>p_epoch := epoch, p_have := decodeBitmap base bitmap\<rparr>)
      in s\<lparr>s_peers := AList.update node p (s_peers s)\<rparr>)"

definition peerHas :: "Swarm \<Rightarrow> NodeID \<Rightarrow> int \<Rightarrow> bool" where
  "peerHas s node idx = (case map_of (s_peers s) node of None \<Rightarrow> False | Some p \<Rightarrow> idx \<in> set (p_have p))"

definition PeerHasForTest :: "Swarm \<Rightarrow> NodeID \<Rightarrow> int \<Rightarrow> bool \<times> bool" where
  "PeerHasForTest s node idx =
     (case map_of (s_peers s) node of None \<Rightarrow> (False, False)
      | Some p \<Rightarrow> if p_demoted p then (False, False) else (idx \<in> set (p_have p), True))"

definition ExpireStale :: "time \<Rightarrow> Swarm \<Rightarrow> Swarm" where
  "ExpireStale now s =
     s\<lparr>s_peers := map (\<lambda>(id, p).
        (id, if p_lastSeen p \<noteq> 0 \<and> time_sub now (p_lastSeen p) > HaveTTL (s_cfg s)
             then p\<lparr>p_have := [], p_epoch := 0\<rparr> else p)) (s_peers s)\<rparr>"

section \<open>Selection: \<open>select.go\<close>\<close>

definition upd_peer :: "NodeID \<Rightarrow> (peerInfo \<Rightarrow> peerInfo) \<Rightarrow> Swarm \<Rightarrow> Swarm" where
  \<comment> \<open>an assignment through the pointer \<open>s.peers[node]\<close>, none when it is nil\<close>
  "upd_peer node f s =
     (case map_of (s_peers s) node of None \<Rightarrow> s
      | Some p \<Rightarrow> s\<lparr>s_peers := AList.update node (f p) (s_peers s)\<rparr>)"

definition Swarm_OnRTT :: "NodeID \<Rightarrow> duration \<Rightarrow> Swarm \<Rightarrow> Swarm" where
  "Swarm_OnRTT node rtt s = upd_peer node (\<lambda>p. p\<lparr>p_rtt := rtt, p_haveRTT := True\<rparr>) s"

definition MarkBusy :: "NodeID \<Rightarrow> time \<Rightarrow> Swarm \<Rightarrow> Swarm" where
  "MarkBusy node now s =
     upd_peer node (\<lambda>p. p\<lparr>p_busyUntil := time_add now (BusyCooldown (s_cfg s))\<rparr>) s"

definition Demote :: "NodeID \<Rightarrow> Swarm \<Rightarrow> Swarm" where
  "Demote node s = upd_peer node (\<lambda>p. p\<lparr>p_demoted := True, p_have := []\<rparr>) s"

definition rttOf :: "Swarm \<Rightarrow> NodeID \<Rightarrow> duration" where
  "rttOf s node =
     (case map_of (s_peers s) node of None \<Rightarrow> hour | Some p \<Rightarrow> if p_haveRTT p then p_rtt p else hour)"

fun draw_links :: "(nat \<Rightarrow> nat \<Rightarrow> nat) \<Rightarrow> nat \<Rightarrow> nat \<Rightarrow> int \<Rightarrow> NodeID list \<Rightarrow> NodeID list \<Rightarrow> NodeID list" where
  \<comment> \<open>the random-link loop: call number, links left to draw, \<open>Fanout\<close>, \<open>out\<close>, \<open>pool\<close>\<close>
  "draw_links intn i 0 fanout out pool = out"
| "draw_links intn i (Suc n) fanout out pool =
     (if int (length out) < fanout \<and> pool \<noteq> []
      then let k = intn i (length pool)
           in draw_links intn (Suc i) n fanout (out @ [pool ! k]) (take k pool @ drop (Suc k) pool)
      else out)"

definition GossipTargets :: "(nat \<Rightarrow> nat \<Rightarrow> nat) \<Rightarrow> Swarm \<Rightarrow> NodeID list" where
  "GossipTargets intn s =
     (let peers = Swarm_Peers s in
      if int (length peers) \<le> Fanout (s_cfg s) then peers
      else let peers = sort peers;
               near = nat (max 0 (Fanout (s_cfg s) - RandomLinks (s_cfg s)));
               byRTT = sort_key (rttOf s) peers;
               out = take near byRTT;
               pool = filter (\<lambda>id. id \<notin> set out) peers
           in draw_links intn 0 (nat (RandomLinks (s_cfg s))) (Fanout (s_cfg s)) out pool)"

definition select_step ::
  "int \<Rightarrow> time \<Rightarrow> NodeID \<times> peerInfo \<Rightarrow> (NodeID \<times> duration) option \<Rightarrow> (NodeID \<times> duration) option" where
  \<comment> \<open>one iteration of the loop of \<open>SelectSource\<close>; \<open>None\<close> is \<open>!found\<close>\<close>
  "select_step idx now = (\<lambda>(id, p) best.
     if p_demoted p \<or> idx \<notin> set (p_have p) then best
     else if now < p_busyUntil p then best
     else let rtt = (if p_haveRTT p then p_rtt p else hour)
          in case best of None \<Rightarrow> Some (id, rtt)
             | Some (bid, brtt) \<Rightarrow>
                 if rtt < brtt \<or> (rtt = brtt \<and> id < bid) then Some (id, rtt) else Some (bid, brtt))"

definition SelectSource :: "int \<Rightarrow> time \<Rightarrow> Swarm \<Rightarrow> NodeID option" where
  "SelectSource idx now s = map_option fst (fold (select_step idx now) (s_peers s) None)"

section \<open>The engine's invariant\<close>

definition swarm_ok :: "Swarm \<Rightarrow> bool" where
  "swarm_ok s \<longleftrightarrow> distinct (s_have s) \<and> wf_map (s_peers s)"

lemma swarm_ok_New [simp]: "swarm_ok (Swarm_New self cfg)"
  by (simp add: swarm_ok_def Swarm_New_def)

lemma swarm_ok_SetHave: "swarm_ok s \<Longrightarrow> swarm_ok (SetHave idx s)"
  by (simp add: swarm_ok_def SetHave_def)

lemma swarm_ok_Retain: "swarm_ok s \<Longrightarrow> swarm_ok (snd (Retain lo hi s))"
  by (simp add: swarm_ok_def Retain_def Let_def)

lemma upd_peer_map_of:
  "map_of (s_peers (upd_peer node f s)) n =
     (if n = node then map_option f (map_of (s_peers s) n) else map_of (s_peers s) n)"
  by (auto simp: upd_peer_def split: option.splits)

lemma upd_peer_frame [simp]:
  "s_have (upd_peer node f s) = s_have s" "s_haveEpoch (upd_peer node f s) = s_haveEpoch s"
  "s_cfg (upd_peer node f s) = s_cfg s" "s_self (upd_peer node f s) = s_self s"
  by (simp_all add: upd_peer_def split: option.splits)

lemma swarm_ok_upd_peer: "swarm_ok s \<Longrightarrow> swarm_ok (upd_peer node f s)"
  by (auto simp: swarm_ok_def upd_peer_def split: option.splits)

lemma swarm_ok_OnPeerHave: "swarm_ok s \<Longrightarrow> swarm_ok (OnPeerHave node base bitmap epoch now s)"
  by (simp add: swarm_ok_def OnPeerHave_def Let_def)

lemma swarm_ok_ExpireStale: "swarm_ok s \<Longrightarrow> swarm_ok (ExpireStale now s)"
  by (simp add: swarm_ok_def ExpireStale_def)

lemma add_peers_wf:
  "wf_map ps \<Longrightarrow> wf_map (fold (\<lambda>m ps. if map_of ps m = None then AList.update m fresh_peer ps else ps) ms ps)"
  by (induction ms arbitrary: ps) auto

lemma add_peers_map_of:
  "map_of (fold (\<lambda>m ps. if map_of ps m = None then AList.update m fresh_peer ps else ps) ms ps) n =
     (case map_of ps n of Some p \<Rightarrow> Some p | None \<Rightarrow> if n \<in> set ms then Some fresh_peer else None)"
  by (induction ms arbitrary: ps) (auto split: option.splits)

lemma swarm_ok_SetPeers: "swarm_ok s \<Longrightarrow> swarm_ok (SetPeers members s)"
  by (simp add: swarm_ok_def SetPeers_def Let_def add_peers_wf)

lemma SetPeers_map_of:
  "map_of (s_peers (SetPeers members s)) n =
     (if n \<in> set members \<and> n \<noteq> s_self s
      then Some (case map_of (s_peers s) n of Some p \<Rightarrow> p | None \<Rightarrow> fresh_peer) else None)"
  by (simp add: SetPeers_def Let_def map_of_filter_key add_peers_map_of split: option.splits)

lemmas swarm_ok_intros =
  swarm_ok_New swarm_ok_SetHave swarm_ok_Retain swarm_ok_upd_peer swarm_ok_OnPeerHave
  swarm_ok_ExpireStale swarm_ok_SetPeers

lemma Retain_have: "set (s_have (snd (Retain lo hi s))) = {i \<in> set (s_have s). lo \<le> i \<and> i \<le> hi}"
  by (auto simp: Retain_def Let_def filter_empty_conv)

lemma Retain_frame [simp]:
  "s_peers (snd (Retain lo hi s)) = s_peers s" "s_cfg (snd (Retain lo hi s)) = s_cfg s"
  "s_self (snd (Retain lo hi s)) = s_self s"
  by (simp_all add: Retain_def Let_def)

lemma SetHave_frame [simp]:
  "s_peers (SetHave i s) = s_peers s" "s_cfg (SetHave i s) = s_cfg s" "s_self (SetHave i s) = s_self s"
  by (simp_all add: SetHave_def)

lemma SetHave_have: "set (s_have (SetHave i s)) = insert i (set (s_have s))"
  by (auto simp: SetHave_def)

section \<open>The have-map encoding\<close>

lemma fold_min: "fold (\<lambda>idx m. if idx < m then idx else (m :: int)) xs a = fold min xs a"
  by (rule fold_cong) (auto simp: min_def)

lemma fold_max: "fold (\<lambda>idx m. if idx > m then idx else (m :: int)) xs a = fold max xs a"
  by (rule fold_cong) (auto simp: max_def)

lemma fold_min_le: "x \<in> insert a (set xs) \<Longrightarrow> fold min xs a \<le> (x :: int)"
  using Min.set_eq_fold [of a xs] by (metis List.finite_set Min_le finite_insert list.set(2))

lemma le_fold_max: "x \<in> insert a (set xs) \<Longrightarrow> (x :: int) \<le> fold max xs a"
  using Max.set_eq_fold [of a xs] by (metis List.finite_set Max_ge finite_insert list.set(2))

lemma fold_min_mem: "fold min xs a \<in> insert a (set (xs :: int list))"
  using Min.set_eq_fold [of a xs] by (metis Min_in List.finite_set finite_insert insert_not_empty list.set(2))

lemma fold_max_mem: "fold max xs a \<in> insert a (set (xs :: int list))"
  using Max.set_eq_fold [of a xs] by (metis Max_in List.finite_set finite_insert insert_not_empty list.set(2))

definition bitmap_bit :: "bytes \<Rightarrow> nat \<Rightarrow> bool" where
  "bitmap_bit bits i \<longleftrightarrow> i div 8 < length bits \<and> bit (bits ! (i div 8)) (i mod 8)"

lemma bitmap_bit_replicate [simp]: "\<not> bitmap_bit (replicate n 0) i"
  by (auto simp: bitmap_bit_def)

lemma bitmap_bit_set:
  "off div 8 < length bits \<Longrightarrow>
     bitmap_bit (bits[off div 8 := bits ! (off div 8) OR 2 ^ (off mod 8)]) i
       \<longleftrightarrow> i = off \<or> bitmap_bit bits i"
proof -
  assume h: "off div 8 < length bits"
  have "i = off \<longleftrightarrow> i div 8 = off div 8 \<and> i mod 8 = off mod 8" by (metis div_mult_mod_eq)
  with h show ?thesis
    by (cases "i div 8 = off div 8") (auto simp: bitmap_bit_def bit_simps)
qed

lemma set_bits_length [simp]: "length (set_bits lo have bits) = length bits"
  unfolding set_bits_def by (induction "have" arbitrary: bits) (auto simp: Let_def)

lemma set_bits_bit:
  "\<forall>idx \<in> set have. nat (idx - lo) div 8 < length bits \<Longrightarrow>
     bitmap_bit (set_bits lo have bits) i \<longleftrightarrow> i \<in> (\<lambda>idx. nat (idx - lo)) ` set have \<or> bitmap_bit bits i"
proof (induction "have" arbitrary: bits)
  case Nil
  then show ?case by (simp add: set_bits_def)
next
  case (Cons x xs)
  let ?b = "bits[nat (x - lo) div 8 := bits ! (nat (x - lo) div 8) OR push_bit (nat (x - lo) mod 8) 1]"
  have "set_bits lo (x # xs) bits = set_bits lo xs ?b" by (simp add: set_bits_def Let_def)
  then show ?case using Cons.IH [of ?b] Cons.prems by (auto simp: bitmap_bit_set)
qed

lemma decodeBitmap_alt:
  "decodeBitmap base bits = map (\<lambda>i. uint base + int i) (filter (bitmap_bit bits) [0 ..< length bits * 8])"
  unfolding decodeBitmap_def
  by (intro arg_cong [where f = "map _"] filter_cong refl) (auto simp: bitmap_bit_def and_exp_eq_0_iff_not_bit)

lemma decodeBitmap_sorted: "sorted (decodeBitmap base bits)" "distinct (decodeBitmap base bits)"
  by (auto simp: decodeBitmap_alt sorted_map sorted_wrt_filter distinct_map inj_on_def
      intro!: sorted_wrt_mono_rel [OF _ sorted_wrt_filter [OF sorted_wrt_upt]])

lemma decodeBitmap_set: "set (decodeBitmap base bits) = {uint base + int i | i. bitmap_bit bits i}"
  by (auto simp: decodeBitmap_alt bitmap_bit_def)

lemma HaveMsg_decode:
  assumes "s_have s \<noteq> []" and rng: "\<forall>i \<in> set (s_have s). 0 \<le> i \<and> i < 2 ^ 32"
    and m: "HaveMsg s = (base, bitmap, epoch)"
  shows "set (decodeBitmap base bitmap) = set (s_have s)"
    and "int (length bitmap) = (Max (set (s_have s)) - Min (set (s_have s))) div 8 + 1"
proof -
  define lo where "lo = fold min (s_have s) (2 ^ 63 - 1)"
  define hi where "hi = fold max (s_have s) 0"
  obtain x where x: "x \<in> set (s_have s)" using assms(1) by (cases "s_have s") auto
  have lo_le: "lo \<le> i" if "i \<in> set (s_have s)" for i unfolding lo_def by (rule fold_min_le) (use that in simp)
  have le_hi: "i \<le> hi" if "i \<in> set (s_have s)" for i unfolding hi_def by (rule le_fold_max) (use that in simp)
  have lo_in: "lo \<in> set (s_have s)"
    using fold_min_mem [of "s_have s" "2 ^ 63 - 1"] lo_le [OF x] rng x unfolding lo_def by fastforce
  have hi_in: "hi \<in> set (s_have s)"
    using fold_max_mem [of "s_have s" 0] le_hi [OF x] rng x unfolding hi_def
    by (metis insertE order_antisym)
  have lohi: "0 \<le> lo" "lo \<le> hi" "hi < 2 ^ 32" using rng lo_in hi_in lo_le by auto
  let ?n = "nat (go_quot (i64 (hi - lo)) 8 + 1)"
  have q: "go_quot (i64 (hi - lo)) 8 = (hi - lo) div 8"
    using lohi by (simp add: i64_id in_i64_def go_quot_pos)
  have b: "base = word_of_int lo" "bitmap = set_bits lo (s_have s) (replicate ?n 0)"
    using m assms(1) by (simp_all add: HaveMsg_def Let_def fold_min fold_max lo_def hi_def)
  have idx: "nat (i - lo) div 8 < ?n" if "i \<in> set (s_have s)" for i
    using lo_le [OF that] le_hi [OF that] lohi unfolding q by (simp add: nat_less_iff zdiv_int [symmetric] flip: nat_div_distrib)
  have bits: "bitmap_bit bitmap i \<longleftrightarrow> i \<in> (\<lambda>i. nat (i - lo)) ` set (s_have s)" for i
    unfolding b(2) by (subst set_bits_bit) (use idx in auto)
  have ub: "uint base = lo" unfolding b(1) using lohi by (simp add: uint_word_of_int)
  show "set (decodeBitmap base bitmap) = set (s_have s)"
    unfolding decodeBitmap_set bits ub using lo_le by (force simp: image_iff)
  have "Max (set (s_have s)) = hi" "Min (set (s_have s)) = lo"
    using hi_in lo_in le_hi lo_le by (auto intro!: Max_eqI Min_eqI)
  then show "int (length bitmap) = (Max (set (s_have s)) - Min (set (s_have s))) div 8 + 1"
    unfolding b(2) using lohi q by simp
qed

section \<open>Peer haves: the highest epoch wins\<close>

type_synonym have_msg = "u32 \<times> bytes \<times> u64 \<times> time"

definition peer_cur :: "NodeID \<Rightarrow> Swarm \<Rightarrow> (u64 \<times> int list) option" where
  "peer_cur node s =
     (case map_of (s_peers s) node of None \<Rightarrow> None
      | Some p \<Rightarrow> if p_epoch p = 0 then None else Some (p_epoch p, p_have p))"

definition accept_have :: "NodeID \<Rightarrow> u64 \<times> int list \<Rightarrow> Swarm \<Rightarrow> Swarm" where
  \<comment> \<open>\<open>OnPeerHave\<close> seen as the receipt of a decoded have-set\<close>
  "accept_have node m s =
     (let p = (case map_of (s_peers s) node of None \<Rightarrow> fresh_peer | Some p \<Rightarrow> p)
      in if fst m \<le> p_epoch p \<and> p_epoch p \<noteq> 0 then s
         else s\<lparr>s_peers := AList.update node (p\<lparr>p_epoch := fst m, p_have := snd m\<rparr>) (s_peers s)\<rparr>)"

interpretation peer_have: versioned "accept_have node" "peer_cur node" fst "\<lambda>m. fst m \<noteq> 0"
  for node
  by unfold_locales
    (auto simp: accept_have_def peer_cur_def Let_def fresh_peer_def split: option.splits if_splits)

lemma OnPeerHave_accept:
  "peer_cur n (OnPeerHave node base bitmap epoch now s) =
   peer_cur n (accept_have node (epoch, decodeBitmap base bitmap) s)"
  by (auto simp: peer_cur_def OnPeerHave_def accept_have_def Let_def fresh_peer_def split: option.splits)

lemma accept_have_cong:
  "peer_cur node s = peer_cur node t \<Longrightarrow> fst m \<noteq> 0 \<Longrightarrow>
     peer_cur node (accept_have node m s) = peer_cur node (accept_have node m t)"
  by (auto simp: accept_have_def peer_cur_def Let_def fresh_peer_def split: option.splits if_splits)

lemma OnPeerHave_run:
  assumes "\<forall>(base, bitmap, epoch, now) \<in> set ms. epoch \<noteq> 0" and "peer_cur node s = peer_cur node t"
  shows "peer_cur node (fold (\<lambda>(base, bitmap, epoch, now). OnPeerHave node base bitmap epoch now) ms s) =
         peer_cur node (fold (accept_have node)
            (map (\<lambda>(base, bitmap, epoch, now). (epoch, decodeBitmap base bitmap)) ms) t)"
  using assms
proof (induction ms arbitrary: s t)
  case Nil
  then show ?case by simp
next
  case (Cons m ms)
  obtain base bitmap epoch now where m: "m = (base, bitmap, epoch, now)" by (cases m)
  have "peer_cur node (OnPeerHave node base bitmap epoch now s) =
        peer_cur node (accept_have node (epoch, decodeBitmap base bitmap) t)"
    unfolding OnPeerHave_accept by (rule accept_have_cong) (use Cons.prems in \<open>auto simp: m\<close>)
  moreover have "\<forall>(base, bitmap, epoch, now) \<in> set ms. epoch \<noteq> 0" using Cons.prems(1) by simp
  ultimately show ?case
    using Cons.IH [of "OnPeerHave node base bitmap epoch now s"
        "accept_have node (epoch, decodeBitmap base bitmap) t"] by (simp only: m fold.simps list.map case_prod_conv comp_def)
qed

section \<open>Source selection\<close>

definition eligible :: "int \<Rightarrow> time \<Rightarrow> peerInfo \<Rightarrow> bool" where
  "eligible idx now p \<longleftrightarrow> \<not> p_demoted p \<and> idx \<in> set (p_have p) \<and> p_busyUntil p \<le> now"

definition prtt :: "peerInfo \<Rightarrow> duration" where
  "prtt p = (if p_haveRTT p then p_rtt p else hour)"

definition better :: "NodeID \<times> duration \<Rightarrow> NodeID \<times> duration \<Rightarrow> bool" where
  \<comment> \<open>at least as good a source: lower RTT, then lower Node ID\<close>
  "better a b \<longleftrightarrow> snd a < snd b \<or> (snd a = snd b \<and> fst a \<le> fst b)"

lemma better_refl [simp]: "better a a" and better_trans: "better a b \<Longrightarrow> better b c \<Longrightarrow> better a c"
  by (auto simp: better_def)

lemma better_antisym: "better a b \<Longrightarrow> better b a \<Longrightarrow> a = b"
  by (auto simp: better_def prod_eq_iff)

lemma better_total: "better a b \<or> better b a"
  by (auto simp: better_def)

lemma select_step_alt:
  "select_step idx now (i, p) best =
     (if eligible idx now p
      then (case best of None \<Rightarrow> Some (i, prtt p)
            | Some b \<Rightarrow> if better b (i, prtt p) then Some b else Some (i, prtt p))
      else best)"
  by (auto simp: select_step_def eligible_def prtt_def better_def Let_def split: option.splits)

lemma select_fold:
  "(case fold (select_step idx now) ps best of
      None \<Rightarrow> best = None \<and> (\<forall>(i, p) \<in> set ps. \<not> eligible idx now p)
    | Some b \<Rightarrow> (best = Some b \<or> (\<exists>p. (fst b, p) \<in> set ps \<and> eligible idx now p \<and> snd b = prtt p)) \<and>
               (\<forall>b0. best = Some b0 \<longrightarrow> better b b0) \<and>
               (\<forall>(i, p) \<in> set ps. eligible idx now p \<longrightarrow> better b (i, prtt p)))"
proof (induction ps arbitrary: best)
  case Nil
  then show ?case by (auto split: option.splits)
next
  case (Cons ip ps)
  obtain i p where ip: "ip = (i, p)" by (cases ip)
  let ?b = "select_step idx now (i, p) best"
  have "better b (i, prtt p) \<or> better (i, prtt p) b" for b by (rule better_total)
  then show ?case using Cons.IH [of ?b]
    by (auto simp: ip select_step_alt split: option.splits if_splits intro: better_trans)
qed

lemma SelectSource_None: "SelectSource idx now s = None \<longleftrightarrow> (\<forall>(i, p) \<in> set (s_peers s). \<not> eligible idx now p)"
  using select_fold [where idx = idx and now = now and ps = "s_peers s" and best = None]
  by (auto simp: SelectSource_def split: option.splits)

lemma SelectSource_Some:
  "SelectSource idx now s = Some n \<Longrightarrow>
     \<exists>p. (n, p) \<in> set (s_peers s) \<and> eligible idx now p \<and>
         (\<forall>(i, q) \<in> set (s_peers s). eligible idx now q \<longrightarrow> better (n, prtt p) (i, prtt q))"
  using select_fold [where idx = idx and now = now and ps = "s_peers s" and best = None]
  by (auto simp: SelectSource_def split: option.splits)


section \<open>Gossip targets\<close>

lemma draw_links_props:
  assumes intn: "\<And>i n. 0 < n \<Longrightarrow> intn i n < n"
    and "distinct (out @ pool)" and "int (length out) \<le> fanout"
  shows "distinct (draw_links intn i n fanout out pool)
       \<and> set out \<subseteq> set (draw_links intn i n fanout out pool)
       \<and> set (draw_links intn i n fanout out pool) \<subseteq> set out \<union> set pool
       \<and> int (length (draw_links intn i n fanout out pool)) =
           min fanout (int (length out) + int (min n (length pool)))"
  using assms(2,3)
proof (induction n arbitrary: i out pool)
  case 0
  then show ?case by simp
next
  case (Suc n)
  show ?case
  proof (cases "int (length out) < fanout \<and> pool \<noteq> []")
    case False
    then show ?thesis using Suc.prems by auto
  next
    case True
    define k where "k = intn i (length pool)"
    have k: "k < length pool" using True intn by (simp add: k_def)
    let ?out = "out @ [pool ! k]" and ?pool = "take k pool @ drop (Suc k) pool"
    have pool: "pool = take k pool @ pool ! k # drop (Suc k) pool" using k by (rule id_take_nth_drop)
    have sp: "set pool = insert (pool ! k) (set ?pool)" by (subst pool) simp
    have "distinct (out @ take k pool @ pool ! k # drop (Suc k) pool)" using Suc.prems(1) pool by simp
    then have d: "distinct (?out @ ?pool)" by auto
    have l: "length pool = Suc (length ?pool)" using k by simp
    have "int (length ?out) \<le> fanout" using True by simp
    note IH = Suc.IH [OF d this, of "Suc i"]
    have eq: "draw_links intn i (Suc n) fanout out pool = draw_links intn (Suc i) n fanout ?out ?pool"
      using True by (simp add: k_def Let_def)
    have "min fanout (int (length ?out) + int (min n (length ?pool))) =
          min fanout (int (length out) + int (min (Suc n) (length pool)))"
      unfolding l by (simp add: algebra_simps)
    moreover have "set ?out \<union> set ?pool = set out \<union> set pool" unfolding sp by auto
    ultimately show ?thesis unfolding eq using IH by (metis Un_upper1 order_trans set_append)
  qed
qed

lemma distinct_Peers: "swarm_ok s \<Longrightarrow> distinct (Swarm_Peers s)"
  by (auto simp: swarm_ok_def wf_map_def Swarm_Peers_def distinct_map intro: inj_on_subset)

lemma set_Peers:
  "swarm_ok s \<Longrightarrow> set (Swarm_Peers s) = {n. \<exists>p. map_of (s_peers s) n = Some p \<and> \<not> p_demoted p}"
  by (force simp: swarm_ok_def wf_map_def Swarm_Peers_def)

lemma not_in_take: "x \<in> set xs \<Longrightarrow> x \<notin> set (take k (sort_key f xs)) \<Longrightarrow> x \<in> set (drop k (sort_key f xs))"
  by (metis UnE append_take_drop_id set_append set_sort)

lemma sort_key_take_le:
  assumes "a \<in> set (take k (sort_key f xs))" and "b \<in> set (drop k (sort_key f xs))"
  shows "f a \<le> f b"
proof -
  have "sorted (map f (take k (sort_key f xs) @ drop k (sort_key f xs)))" by simp
  then show ?thesis using assms unfolding map_append sorted_append by auto
qed

section \<open>Runs of engine operations\<close>

datatype swarm_op =
    OpSetHave int
  | OpRetain int int
  | OpSetPeers "NodeID list"
  | OpPeerHave NodeID u32 bytes u64 time
  | OpExpire time
  | OpRTT NodeID duration
  | OpBusy NodeID time
  | OpDemote NodeID

fun swarm_do :: "swarm_op \<Rightarrow> Swarm \<Rightarrow> Swarm" where
  "swarm_do (OpSetHave i) s = SetHave i s"
| "swarm_do (OpRetain lo hi) s = snd (Retain lo hi s)"
| "swarm_do (OpSetPeers ms) s = SetPeers ms s"
| "swarm_do (OpPeerHave n base bitmap epoch now) s = OnPeerHave n base bitmap epoch now s"
| "swarm_do (OpExpire now) s = ExpireStale now s"
| "swarm_do (OpRTT n rtt) s = Swarm_OnRTT n rtt s"
| "swarm_do (OpBusy n now) s = MarkBusy n now s"
| "swarm_do (OpDemote n) s = Demote n s"

lemma swarm_ok_do: "swarm_ok s \<Longrightarrow> swarm_ok (swarm_do op s)"
  by (cases op) (auto intro: swarm_ok_intros simp: Swarm_OnRTT_def MarkBusy_def Demote_def)

lemma swarm_ok_run: "swarm_ok s \<Longrightarrow> swarm_ok (fold swarm_do ops s)"
  by (induction ops arbitrary: s) (auto simp: swarm_ok_do)

definition peer_demoted :: "NodeID \<Rightarrow> Swarm \<Rightarrow> bool" where
  "peer_demoted node s = (case map_of (s_peers s) node of None \<Rightarrow> False | Some p \<Rightarrow> p_demoted p)"

definition keeps_member :: "NodeID \<Rightarrow> swarm_op \<Rightarrow> bool" where
  "keeps_member node op = (case op of OpSetPeers ms \<Rightarrow> node \<in> set ms | _ \<Rightarrow> True)"

lemma swarm_do_self [simp]: "s_self (swarm_do op s) = s_self s"
  by (cases op) (simp_all add: SetPeers_def OnPeerHave_def ExpireStale_def Swarm_OnRTT_def MarkBusy_def Demote_def Let_def)

lemma ExpireStale_map_of:
  "map_of (s_peers (ExpireStale now s)) n =
     map_option (\<lambda>p. if p_lastSeen p \<noteq> 0 \<and> time_sub now (p_lastSeen p) > HaveTTL (s_cfg s)
             then p\<lparr>p_have := [], p_epoch := 0\<rparr> else p) (map_of (s_peers s) n)"
  unfolding ExpireStale_def by (simp add: map_of_map_vals)

lemma peer_demoted_do:
  "peer_demoted node s \<Longrightarrow> node \<noteq> s_self s \<Longrightarrow> keeps_member node op \<Longrightarrow> peer_demoted node (swarm_do op s)"
  by (cases op)
    (auto simp: peer_demoted_def keeps_member_def SetPeers_map_of OnPeerHave_def Let_def ExpireStale_map_of
      Swarm_OnRTT_def MarkBusy_def Demote_def upd_peer_map_of split: option.splits)

lemma peer_demoted_run:
  "peer_demoted node s \<Longrightarrow> node \<noteq> s_self s \<Longrightarrow> \<forall>op \<in> set ops. keeps_member node op \<Longrightarrow>
     peer_demoted node (fold swarm_do ops s)"
  by (induction ops arbitrary: s) (auto simp: peer_demoted_do)

lemma demoted_not_selected:
  "swarm_ok s \<Longrightarrow> peer_demoted node s \<Longrightarrow> SelectSource idx now s \<noteq> Some node"
  using SelectSource_Some [of idx now s node]
  by (auto simp: peer_demoted_def eligible_def swarm_ok_def wf_map_def)

section \<open>The sender's history\<close>

datatype have_op = HSet int | HRetain int int

primrec have_do :: "have_op \<Rightarrow> Swarm \<Rightarrow> Swarm" where
  "have_do (HSet i) s = SetHave i s"
| "have_do (HRetain lo hi) s = snd (Retain lo hi s)"

definition have_at :: "have_op list \<Rightarrow> Swarm \<Rightarrow> nat \<Rightarrow> Swarm" where
  \<comment> \<open>the sender's engine after its first \<open>k\<close> cache changes\<close>
  "have_at ops s k = fold have_do (take k ops) s"

lemma have_do_epoch:
  "s_haveEpoch (have_do op s) = s_haveEpoch s \<and> s_have (have_do op s) = s_have s \<or>
   s_haveEpoch (have_do op s) = s_haveEpoch s + 1"
  by (cases op) (auto simp: SetHave_def Retain_def Let_def)

lemma swarm_ok_have_run: "swarm_ok s \<Longrightarrow> swarm_ok (fold have_do ops s)"
proof (induction ops arbitrary: s)
  case (Cons op ops)
  then show ?case by (cases op) (auto intro: swarm_ok_intros)
qed simp

lemma have_range_run:
  assumes "\<forall>i. HSet i \<in> set ops \<longrightarrow> P i" and "\<forall>i \<in> set (s_have s). P i"
  shows "\<forall>i \<in> set (s_have (fold have_do ops s)). P i"
  using assms
proof (induction ops arbitrary: s)
  case (Cons op ops)
  have "\<forall>i \<in> set (s_have (have_do op s)). P i"
    using Cons.prems by (cases op) (auto simp: SetHave_have Retain_have)
  from Cons.IH [OF _ this] Cons.prems(1) show ?case by simp
qed simp

lemma unat_plus_one: "unat (w :: u64) + 1 < 2 ^ 64 \<Longrightarrow> unat (w + 1) = unat w + 1"
  using unat_add_lem [of w 1] by simp

lemma epoch_bound:
  "s_haveEpoch s = 0 \<Longrightarrow> length ops < 2 ^ 64 \<Longrightarrow> unat (s_haveEpoch (fold have_do ops s)) \<le> length ops"
proof (induction ops rule: rev_induct)
  case (snoc op ops)
  let ?t = "fold have_do ops s"
  have "unat (s_haveEpoch ?t) \<le> length ops" using snoc by simp
  then show ?case
    using have_do_epoch [of op ?t] unat_plus_one [of "s_haveEpoch ?t"] snoc.prems by auto
qed simp

lemma have_at_Suc:
  "k < length ops \<Longrightarrow> have_at ops s (Suc k) = have_do (ops ! k) (have_at ops s k)"
  by (simp add: have_at_def take_Suc_conv_app_nth)

lemma have_at_step:
  assumes "s_haveEpoch s = 0" and "length ops < 2 ^ 64" and "k < length ops"
  shows "s_haveEpoch (have_at ops s k) < s_haveEpoch (have_at ops s (Suc k)) \<or>
         s_haveEpoch (have_at ops s (Suc k)) = s_haveEpoch (have_at ops s k) \<and>
         s_have (have_at ops s (Suc k)) = s_have (have_at ops s k)"
proof -
  let ?t = "have_at ops s k"
  have "unat (s_haveEpoch ?t) \<le> k"
    using epoch_bound [OF assms(1), of "take k ops"] assms(2,3) by (simp add: have_at_def)
  then have "unat (s_haveEpoch ?t + 1) = unat (s_haveEpoch ?t) + 1"
    using assms(2,3) by (intro unat_plus_one) simp
  then have "s_haveEpoch ?t < s_haveEpoch ?t + 1" by (simp add: word_less_nat_alt)
  then show ?thesis
    using have_do_epoch [of "ops ! k" ?t] by (auto simp: have_at_Suc [OF assms(3)])
qed

lemma have_at_mono:
  assumes "s_haveEpoch s = 0" and "length ops < 2 ^ 64" and "j \<le> k" and "k \<le> length ops"
  shows "s_haveEpoch (have_at ops s j) < s_haveEpoch (have_at ops s k) \<or>
         s_haveEpoch (have_at ops s k) = s_haveEpoch (have_at ops s j) \<and>
         s_have (have_at ops s k) = s_have (have_at ops s j)"
  using assms(3,4)
proof (induction k rule: dec_induct)
  case (step k)
  then show ?case using have_at_step [OF assms(1,2), of k] by auto
qed simp

section \<open>Properties\<close>

text \<open>
  The have-map encoding loses nothing: for an engine whose held indices fit a \<open>uint32\<close>, decoding the
  \<open>(base, bitmap)\<close> pair that \<open>HaveMsg\<close> produces gives exactly the held indices, in increasing order.
\<close>
theorem have_map_roundtrip:
  assumes "swarm_ok s" and "\<forall>i \<in> set (s_have s). 0 \<le> i \<and> i < 2 ^ 32"
    and "HaveMsg s = (base, bitmap, epoch)"
  shows "decodeBitmap base bitmap = sort (s_have s)"
proof (cases "s_have s = []")
  case True
  then show ?thesis using assms(3) by (auto simp: HaveMsg_def decodeBitmap_def)
next
  case False
  have "set (decodeBitmap base bitmap) = set (sort (s_have s))"
    using HaveMsg_decode(1) [OF False assms(2,3)] by simp
  then show ?thesis
    using assms(1) by (intro sorted_distinct_set_unique decodeBitmap_sorted) (simp_all add: swarm_ok_def)
qed

theorem have_map_roundtrip_witness:
  "let s = fold SetHave [8, 14, 5] (Swarm_New ''me'' SwarmDefaultConfig)
   in HaveMsg s = (5, [0x09, 0x02], 3) \<and> decodeBitmap 5 [0x09, 0x02] = sort (s_have s)"
proof -
  let ?s = "fold SetHave [8, 14, 5] (Swarm_New ''me'' SwarmDefaultConfig)"
  have "swarm_ok ?s" "\<forall>i \<in> set (s_have ?s). 0 \<le> i \<and> i < 2 ^ 32" "HaveMsg ?s = (5, [0x09, 0x02], 3)"
    by code_simp+
  from this(3) have_map_roundtrip [OF this] show ?thesis unfolding Let_def by (rule conjI)
qed

lemma peerHas_cur: "peer_cur node s = Some (e, hs) \<Longrightarrow> peerHas s node idx \<longleftrightarrow> idx \<in> set hs"
  by (auto simp: peer_cur_def peerHas_def split: option.splits if_splits)

definition sent_have :: "have_op list \<Rightarrow> Swarm \<Rightarrow> nat \<times> time \<Rightarrow> have_msg" where
  \<comment> \<open>the message gossiped after \<open>k\<close> changes of the sender's cache, with its time of receipt\<close>
  "sent_have ops s0 = (\<lambda>(k, now). case HaveMsg (have_at ops s0 k) of (base, bitmap, epoch) \<Rightarrow> (base, bitmap, epoch, now))"

definition receive_have :: "NodeID \<Rightarrow> have_msg \<Rightarrow> Swarm \<Rightarrow> Swarm" where
  "receive_have node = (\<lambda>(base, bitmap, epoch, now). OnPeerHave node base bitmap epoch now)"

lemma HaveMsg_epoch: "snd (snd (HaveMsg s)) = s_haveEpoch s"
  by (simp add: HaveMsg_def Let_def)

lemma HaveMsg_decode_set:
  assumes "swarm_ok s" and "\<forall>i \<in> set (s_have s). 0 \<le> i \<and> i < 2 ^ 32"
    and "HaveMsg s = (base, bitmap, epoch)"
  shows "set (decodeBitmap base bitmap) = set (s_have s)"
proof (cases "s_have s = []")
  case True
  then show ?thesis using assms(3) by (auto simp: HaveMsg_def decodeBitmap_def)
next
  case False
  then show ?thesis using HaveMsg_decode(1) [OF False assms(2,3)] by simp
qed

text \<open>
  C38. Gossip converges whatever the network does to it: let a sender change its cache by any sequence of
  \<open>SetHave\<close> and \<open>Retain\<close> calls and gossip its have-map at any moments \<open>ks\<close> after the first change. A
  receiver that holds no have-map of the sender and gets these messages in any order, with any
  repetitions, believes exactly the sender's cache content at the latest of these moments.
\<close>
theorem gossip_converges:
  assumes ops: "length ops < 2 ^ 64" "\<forall>i. HSet i \<in> set ops \<longrightarrow> 0 \<le> i \<and> i < 2 ^ 32"
    and ks: "ks \<noteq> []" "\<forall>(k, now) \<in> set ks. k \<le> length ops \<and> s_haveEpoch (have_at ops (Swarm_New self cfg) k) \<noteq> 0"
    and r: "peer_cur self r = None"
    and kmax: "kmax = Max (fst ` set ks)"
  shows "peerHas (fold (receive_have self) (map (sent_have ops (Swarm_New self cfg)) ks) r) self idx \<longleftrightarrow>
         Swarm_Have (have_at ops (Swarm_New self cfg) kmax) idx"
proof -
  let ?s0 = "Swarm_New self cfg"
  let ?at = "have_at ops ?s0"
  define dec where "dec = (\<lambda>(base, bitmap, epoch, now :: time). (epoch :: u64, decodeBitmap base bitmap))"
  have e0: "s_haveEpoch ?s0 = 0" by (simp add: Swarm_New_def)
  have ok: "swarm_ok (?at k)" for k by (simp add: have_at_def swarm_ok_have_run)
  have rng: "\<forall>i \<in> set (s_have (?at k)). 0 \<le> i \<and> i < 2 ^ 32" for k
    unfolding have_at_def using ops(2)
    by (intro have_range_run) (auto simp: Swarm_New_def dest: in_set_takeD)
  have dec: "fst (dec (sent_have ops ?s0 kn)) = s_haveEpoch (?at (fst kn)) \<and>
             set (snd (dec (sent_have ops ?s0 kn))) = set (s_have (?at (fst kn)))" for kn
    using HaveMsg_decode_set [OF ok rng, of "fst kn"] HaveMsg_epoch [of "?at (fst kn)"]
    by (auto simp: dec_def sent_have_def split: prod.splits)
  let ?ms = "map (sent_have ops ?s0) ks"
  have val: "\<forall>m \<in> set (map dec ?ms). fst m \<noteq> 0" using ks(2) dec by auto
  from val have "\<forall>(base, bitmap, epoch, now) \<in> set ?ms. epoch \<noteq> 0" by (auto simp: dec_def)
  from OnPeerHave_run [OF this refl]
  have run: "peer_cur self (fold (receive_have self) ?ms r) = peer_cur self (fold (accept_have self) (map dec ?ms) r)"
    unfolding receive_have_def dec_def by simp
  have "map dec ?ms \<noteq> []" using ks(1) by simp
  from peer_have.run_highest_wins [OF val r this] obtain m where
    m: "m \<in> set (map dec ?ms)" "peer_cur self (fold (accept_have self) (map dec ?ms) r) = Some m"
       "\<forall>m' \<in> set (map dec ?ms). fst m' \<le> fst m" by blast
  from m(1) obtain k now where k: "(k, now) \<in> set ks" "m = dec (sent_have ops ?s0 (k, now))" by auto
  have kmax_in: "kmax \<in> fst ` set ks" "k \<le> kmax" unfolding kmax using k(1) ks(1)
    by (rule_tac Max_in, simp_all del: set_keys_dom) (rule Max_ge, simp_all del: set_keys_dom add: rev_image_eqI)
  then obtain now' where l: "(kmax, now') \<in> set ks" by (auto simp del: set_keys_dom)
  have "s_haveEpoch (?at kmax) \<le> s_haveEpoch (?at k)" using m(3) l dec k(2) by force
  moreover have "kmax \<le> length ops" using l ks(2) by auto
  ultimately have "s_have (?at kmax) = s_have (?at k)"
    using have_at_mono [OF e0 ops(1) kmax_in(2)] by auto
  then have "set (snd m) = set (s_have (?at kmax))" using dec k(2) by simp
  then show ?thesis
    using peerHas_cur [of self _ "fst m" "snd m"] run m(2) by (simp add: Swarm_Have_def)
qed

theorem gossip_converges_witness:
  "let ops = [HSet 3, HSet 4, HSet 12, HRetain 4 20];
       sender = Swarm_New ''peer'' SwarmDefaultConfig;
       r = fold (receive_have ''peer'') (map (sent_have ops sender) [(4, 70), (2, 80), (3, 90), (4, 95)])
             (Swarm_New ''me'' SwarmDefaultConfig)
   in peerHas r ''peer'' 3 = Swarm_Have (have_at ops sender 4) 3"
proof -
  let ?ops = "[HSet 3, HSet 4, HSet 12, HRetain 4 20]" and ?ks = "[(4, 70), (2, 80), (3, 90), (4 :: nat, 95 :: time)]"
  have "length ?ops < 2 ^ 64" "\<forall>i. HSet i \<in> set ?ops \<longrightarrow> 0 \<le> i \<and> i < 2 ^ 32" "?ks \<noteq> []"
    by auto
  moreover have "\<forall>(k, now) \<in> set ?ks. k \<le> length ?ops \<and>
      s_haveEpoch (have_at ?ops (Swarm_New ''peer'' SwarmDefaultConfig) k) \<noteq> 0"
    "peer_cur ''peer'' (Swarm_New ''me'' SwarmDefaultConfig) = None" "4 = Max (fst ` set ?ks)"
    by code_simp+
  ultimately show ?thesis unfolding Let_def by (rule gossip_converges)
qed

lemma SelectSource_iff:
  assumes "swarm_ok s"
  shows "SelectSource idx now s = Some n \<longleftrightarrow>
     (\<exists>p. map_of (s_peers s) n = Some p \<and> eligible idx now p \<and>
        (\<forall>m q. map_of (s_peers s) m = Some q \<and> eligible idx now q \<longrightarrow> better (n, prtt p) (m, prtt q)))"
    (is "?l \<longleftrightarrow> ?r")
proof
  assume ?l
  then show ?r using SelectSource_Some [of idx now s n] assms
    by (fastforce simp: swarm_ok_def wf_map_def map_of_mem_iff dest: map_of_SomeD)
next
  assume r: ?r
  then obtain m where m: "SelectSource idx now s = Some m"
    using SelectSource_None [of idx now s] by (cases "SelectSource idx now s") (auto dest: map_of_SomeD)
  with r SelectSource_Some [OF m] assms have "\<exists>p q. better (n, p) (m, q) \<and> better (m, q) (n, p)"
    by (fastforce simp: swarm_ok_def wf_map_def dest: map_of_SomeD)
  then show ?l using m better_antisym by fastforce
qed

definition example_mesh :: Swarm where
  "example_mesh = fold swarm_do
     [OpSetPeers [''a'', ''b'', ''c'', ''d'', ''me''], OpPeerHave ''c'' 7 [1] 1 100,
      OpPeerHave ''b'' 6 [2] 4 110, OpPeerHave ''a'' 7 [1] 1 120, OpPeerHave ''d'' 7 [1] 1 120,
      OpRTT ''c'' 500, OpRTT ''b'' 500, OpRTT ''d'' 100, OpRTT ''a'' 200, OpBusy ''d'' 130, OpDemote ''a'']
     (Swarm_New ''me'' SwarmDefaultConfig)"

lemma example_mesh_ok: "swarm_ok example_mesh"
  by (simp add: example_mesh_def swarm_ok_run del: fold_simps fold.simps)

text \<open>
  \<open>SelectSource\<close> picks exactly the best eligible peer: \<open>n\<close> is returned iff its record is not
  demoted, advertises the Segment and is out of its busy cooldown, and every other such peer has a
  larger RTT (one hour when unmeasured), or the same RTT and a larger Node ID. So the result does not
  depend on the iteration order of the peer map.
\<close>
theorem select_source_best:
  assumes "swarm_ok s"
  shows "SelectSource idx now s = Some n \<longleftrightarrow>
     (\<exists>p. map_of (s_peers s) n = Some p \<and> \<not> p_demoted p \<and> idx \<in> set (p_have p) \<and> p_busyUntil p \<le> now \<and>
        (\<forall>m q. m \<noteq> n \<and> map_of (s_peers s) m = Some q \<and> \<not> p_demoted q \<and> idx \<in> set (p_have q) \<and> p_busyUntil q \<le> now
           \<longrightarrow> rttOf s n < rttOf s m \<or> rttOf s n = rttOf s m \<and> n < m))"
proof -
  have b: "better (n, prtt p) (m, prtt q) \<longleftrightarrow> rttOf s n < rttOf s m \<or> rttOf s n = rttOf s m \<and> n \<le> m"
    if "map_of (s_peers s) n = Some p" "map_of (s_peers s) m = Some q" for p m q
    using that by (simp add: better_def prtt_def rttOf_def)
  have c: "(\<forall>m q. map_of (s_peers s) m = Some q \<and> eligible idx now q \<longrightarrow> better (n, prtt p) (m, prtt q)) \<longleftrightarrow>
     (\<forall>m q. m \<noteq> n \<and> map_of (s_peers s) m = Some q \<and> eligible idx now q
        \<longrightarrow> rttOf s n < rttOf s m \<or> rttOf s n = rttOf s m \<and> n < m)" if "map_of (s_peers s) n = Some p" for p
    by (intro all_cong1) (use b [OF that] that in \<open>auto simp: order_le_less\<close>)
  show ?thesis unfolding SelectSource_iff [OF assms] eligible_def
    by (rule ex_cong1) (use c [unfolded eligible_def] in blast)
qed

theorem select_source_best_witness:
  "SelectSource 7 200 example_mesh = Some ''b'' \<and>
   (\<exists>p. map_of (s_peers example_mesh) ''b'' = Some p \<and> \<not> p_demoted p \<and> 7 \<in> set (p_have p) \<and> p_busyUntil p \<le> 200 \<and>
     (\<forall>m q. m \<noteq> ''b'' \<and> map_of (s_peers example_mesh) m = Some q \<and> \<not> p_demoted q \<and> 7 \<in> set (p_have q) \<and> p_busyUntil q \<le> 200
        \<longrightarrow> rttOf example_mesh ''b'' < rttOf example_mesh m \<or> rttOf example_mesh ''b'' = rttOf example_mesh m \<and> ''b'' < m))"
proof -
  have "SelectSource 7 200 example_mesh = Some ''b''" by code_simp
  then show ?thesis using select_source_best [OF example_mesh_ok, of 7 200 "''b''"] by simp
qed

text \<open>
  \<open>GossipTargets\<close> returns distinct, non-demoted peers, as many as \<open>Fanout\<close> allows, and among them
  the \<open>Fanout - RandomLinks\<close> nearest: no peer left out of these is closer than one of them. The
  random source is only assumed to answer \<open>Intn n\<close> below \<open>n\<close>.
\<close>
theorem gossip_targets_spec:
  assumes intn: "\<And>i n. 0 < n \<Longrightarrow> intn i n < n" and ok: "swarm_ok s"
    and cfg: "0 \<le> RandomLinks (s_cfg s)" "RandomLinks (s_cfg s) \<le> Fanout (s_cfg s)"
    and ts: "ts = GossipTargets intn s"
  shows "distinct ts \<and> set ts \<subseteq> set (Swarm_Peers s) \<and>
    int (length ts) = min (Fanout (s_cfg s)) (int (length (Swarm_Peers s))) \<and>
    (\<exists>near \<subseteq> set ts. int (card near) = min (Fanout (s_cfg s) - RandomLinks (s_cfg s)) (int (length (Swarm_Peers s))) \<and>
       (\<forall>a \<in> near. \<forall>b \<in> set (Swarm_Peers s) - near. rttOf s a \<le> rttOf s b))"
proof (cases "int (length (Swarm_Peers s)) \<le> Fanout (s_cfg s)")
  case True
  let ?near = "take (nat (Fanout (s_cfg s) - RandomLinks (s_cfg s))) (sort_key (rttOf s) (Swarm_Peers s))"
  have d: "distinct (Swarm_Peers s)" by (rule distinct_Peers [OF ok])
  have "set ?near \<subseteq> set (Swarm_Peers s)" by (metis set_sort set_take_subset)
  moreover have "int (card (set ?near)) = min (Fanout (s_cfg s) - RandomLinks (s_cfg s)) (int (length (Swarm_Peers s)))"
    using d cfg by (simp add: distinct_card)
  moreover have "rttOf s a \<le> rttOf s b" if "a \<in> set ?near" "b \<in> set (Swarm_Peers s) - set ?near" for a b
    using that by (intro sort_key_take_le [where k = "nat (Fanout (s_cfg s) - RandomLinks (s_cfg s))"])
      (auto intro: not_in_take)
  ultimately show ?thesis using True d unfolding ts GossipTargets_def by (auto simp: Let_def)
next
  case False
  let ?peers = "sort (Swarm_Peers s)" and ?k = "nat (Fanout (s_cfg s) - RandomLinks (s_cfg s))"
  let ?near = "take ?k (sort_key (rttOf s) ?peers)"
  let ?pool = "filter (\<lambda>i. i \<notin> set ?near) ?peers"
  have d: "distinct (Swarm_Peers s)" by (rule distinct_Peers [OF ok])
  have n: "length ?near = ?k" using False cfg by simp
  have sub: "set ?near \<subseteq> set (Swarm_Peers s)" by (metis set_sort set_take_subset)
  have "set ?pool = set (Swarm_Peers s) - set ?near" by auto
  moreover have "card (set ?near) = ?k" using d n by (simp add: distinct_card)
  moreover have "card (set ?pool) = length ?pool" by (rule distinct_card) (use d in simp)
  ultimately have lp: "length ?pool = length (Swarm_Peers s) - ?k"
    using sub d by (metis List.finite_set card_Diff_subset distinct_card)
  have ts': "ts = draw_links intn 0 (nat (RandomLinks (s_cfg s))) (Fanout (s_cfg s)) ?near ?pool"
    using False cfg unfolding ts GossipTargets_def by (simp add: Let_def max_def)
  have "distinct (?near @ ?pool)" "int (length ?near) \<le> Fanout (s_cfg s)" using d cfg n by auto
  from draw_links_props [where intn = intn and i = 0 and n = "nat (RandomLinks (s_cfg s))", OF intn this]
  have dl: "distinct ts" "set ?near \<subseteq> set ts" "set ts \<subseteq> set ?near \<union> set ?pool"
    "int (length ts) = min (Fanout (s_cfg s)) (int (length ?near) + int (min (nat (RandomLinks (s_cfg s))) (length ?pool)))"
    unfolding ts' by auto
  have "int (length ts) = min (Fanout (s_cfg s)) (int (length (Swarm_Peers s)))"
    unfolding dl(4) n lp using False cfg by auto
  moreover have "int (card (set ?near)) = min (Fanout (s_cfg s) - RandomLinks (s_cfg s)) (int (length (Swarm_Peers s)))"
    using d n False cfg by (simp add: distinct_card)
  moreover have "rttOf s a \<le> rttOf s b" if "a \<in> set ?near" "b \<in> set (Swarm_Peers s) - set ?near" for a b
    using that by (intro sort_key_take_le [where k = ?k]) (auto intro: not_in_take)
  moreover have "set ?pool \<subseteq> set (Swarm_Peers s)" by auto
  ultimately show ?thesis using dl(1-3) sub
    by (intro conjI exI [where x = "set ?near"]) (assumption | blast)+
qed

theorem gossip_targets_spec_witness:
  "let s = SetPeers [''a'', ''b'', ''c'', ''d'', ''e''] example_mesh; ts = GossipTargets (\<lambda>i n. n - 1) s
   in ts = [''d'', ''b'', ''e''] \<and> distinct ts \<and> set ts \<subseteq> set (Swarm_Peers s)"
proof -
  let ?s = "SetPeers [''a'', ''b'', ''c'', ''d'', ''e''] example_mesh"
  let ?ts = "GossipTargets (\<lambda>i n. n - 1) ?s"
  have ok: "swarm_ok ?s" by (rule swarm_ok_SetPeers [OF example_mesh_ok])
  have "?ts = [''d'', ''b'', ''e'']" by code_simp
  moreover have "distinct ?ts \<and> set ?ts \<subseteq> set (Swarm_Peers ?s)"
  proof -
    have "0 \<le> RandomLinks (s_cfg ?s)" "RandomLinks (s_cfg ?s) \<le> Fanout (s_cfg ?s)" by code_simp+
    from gossip_targets_spec [where intn = "\<lambda>i n. n - 1", OF _ ok this refl] show ?thesis by simp
  qed
  ultimately show ?thesis by (simp add: Let_def)
qed

text \<open>
  A demoted peer is never a source again, whatever gossip, RTT samples, busy replies, cache changes
  and Audience updates follow, as long as every Audience update still lists the peer.
\<close>
theorem demoted_never_selected:
  assumes "swarm_ok s" and "node \<noteq> s_self s" and "map_of (s_peers s) node \<noteq> None"
    and "\<forall>op \<in> set ops. keeps_member node op"
  shows "SelectSource idx now (fold swarm_do ops (Demote node s)) \<noteq> Some node"
proof -
  have "peer_demoted node (Demote node s)"
    using assms(3) by (auto simp: peer_demoted_def Demote_def upd_peer_map_of)
  then have "peer_demoted node (fold swarm_do ops (Demote node s))"
    using assms(2,4) by (intro peer_demoted_run) (auto simp: Demote_def)
  moreover have "swarm_ok (fold swarm_do ops (Demote node s))"
    using assms(1) by (intro swarm_ok_run) (simp add: Demote_def swarm_ok_upd_peer)
  ultimately show ?thesis by (rule demoted_not_selected [rotated])
qed

theorem demoted_never_selected_witness:
  "SelectSource 7 (10 * second)
     (fold swarm_do [OpSetPeers [''b'', ''x''], OpPeerHave ''b'' 7 [1] 9 100, OpRTT ''b'' 1] (Demote ''b'' example_mesh))
   \<noteq> Some ''b''"
proof (rule demoted_never_selected [OF example_mesh_ok])
  show "''b'' \<noteq> s_self example_mesh" and "map_of (s_peers example_mesh) ''b'' \<noteq> None" by code_simp+
qed (simp add: keeps_member_def)

text \<open>
  The demotion does not last for the rest of the party: one Audience update without the peer followed
  by one that lists it again replaces its record by an empty one, and the peer's next have-map makes it
  the selected source again, with no Segment verified in between.
\<close>
theorem demotion_forgotten_on_rejoin:
  assumes "node \<noteq> s_self s" and "node \<notin> set ms" and "decodeBitmap base bitmap = idx # rest" and "epoch \<noteq> 0"
    and "0 \<le> now"
  shows "SelectSource idx now (fold swarm_do
     [OpSetPeers ms, OpSetPeers [node], OpPeerHave node base bitmap epoch now] (Demote node s)) = Some node"
proof -
  let ?t = "fold swarm_do [OpSetPeers ms, OpSetPeers [node], OpPeerHave node base bitmap epoch now] (Demote node s)"
  have self: "s_self (Demote node s) = s_self s" "s_self (SetPeers ms (Demote node s)) = s_self s"
    by (simp_all add: Demote_def SetPeers_def Let_def)
  have m: "map_of (s_peers ?t) n = (if n = node then Some (fresh_peer\<lparr>p_lastSeen := now, p_epoch := epoch,
             p_have := idx # rest\<rparr>) else None)" for n
    using assms(1-4) by (simp add: OnPeerHave_def Let_def SetPeers_map_of self fresh_peer_def)
  have el: "eligible idx now (fresh_peer\<lparr>p_lastSeen := now, p_epoch := epoch, p_have := idx # rest\<rparr>)"
    using assms(5) by (simp add: eligible_def fresh_peer_def)
  then obtain n where n: "SelectSource idx now ?t = Some n"
    using SelectSource_None [of idx now ?t] m [of node] by (cases "SelectSource idx now ?t") (auto dest: map_of_SomeD)
  from SelectSource_Some [OF n] obtain p where "(n, p) \<in> set (s_peers ?t)" by blast
  then have "n \<in> dom (map_of (s_peers ?t))" unfolding set_keys_dom [symmetric] by (rule rev_image_eqI) simp
  then show ?thesis using n m by (auto split: if_splits)
qed

theorem demotion_forgotten_on_rejoin_witness:
  "SelectSource 7 500 (fold swarm_do [OpSetPeers [''b''], OpSetPeers [''a''], OpPeerHave ''a'' 7 [1] 2 500]
     (Demote ''a'' example_mesh)) = Some ''a''"
proof (rule demotion_forgotten_on_rejoin)
  show "''a'' \<noteq> s_self example_mesh" and "decodeBitmap 7 [1] = 7 # []" by code_simp+
qed simp_all

end
