(* ===== verification/Go_Path.thy ===== *)
theory Go_Path
  imports Go_Strings
begin

text \<open>
  The lexical path functions of Go's \<open>path/filepath\<close> on Unix, on byte strings: \<open>Clean\<close>, \<open>Join\<close>,
  \<open>Base\<close>, \<open>Dir\<close> and \<open>Ext\<close>. \<open>Clean\<close> works on the slash-separated components with a stack, as the
  Go code does on its output buffer.
\<close>

definition slash :: char where
  "slash = CHR ''/''"

definition clean_step :: "bool \<Rightarrow> string \<Rightarrow> string list \<Rightarrow> string list" where
  \<comment> \<open>one component; the stack holds the kept components, last first\<close>
  "clean_step rooted c st =
     (if c = '''' \<or> c = ''.'' then st
      else if c = ''..'' then
        (case st of [] \<Rightarrow> if rooted then [] else [''..'']
         | t # ts \<Rightarrow> if t = ''..'' then c # st else ts)
      else c # st)"

definition path_Clean :: "string \<Rightarrow> string" where
  "path_Clean p =
     (let rooted = HasPrefix p ''/'';
          comps = rev (fold (clean_step rooted) (split_on slash p) []);
          body = join_with ''/'' comps
      in if rooted then slash # body else if body = '''' then ''.'' else body)"

definition path_Join :: "string list \<Rightarrow> string" where
  "path_Join es =
     (let ne = filter (\<lambda>e. e \<noteq> '''') es
      in if ne = [] then '''' else path_Clean (join_with ''/'' ne))"

definition strip_slashes :: "string \<Rightarrow> string" where
  "strip_slashes p = rev (dropWhile (\<lambda>c. c = slash) (rev p))"

definition path_Base :: "string \<Rightarrow> string" where
  "path_Base p =
     (if p = '''' then ''.''
      else let q = strip_slashes p
           in if q = '''' then ''/'' else rev (takeWhile (\<lambda>c. c \<noteq> slash) (rev q)))"

definition path_Dir :: "string \<Rightarrow> string" where
  "path_Dir p = path_Clean (rev (dropWhile (\<lambda>c. c \<noteq> slash) (rev p)))"

definition path_Ext :: "string \<Rightarrow> string" where
  \<comment> \<open>from the last dot of the last component, empty when it has none\<close>
  "path_Ext p =
     (let b = rev (takeWhile (\<lambda>c. c \<noteq> slash) (rev p));
          e = takeWhile (\<lambda>c. c \<noteq> CHR ''.'') (rev b)
      in if CHR ''.'' \<in> set b then CHR ''.'' # rev e else '''')"

lemma strip_slashes_last: "strip_slashes p \<noteq> '''' \<Longrightarrow> last (strip_slashes p) \<noteq> slash"
  using hd_dropWhile [of "\<lambda>c. c = slash" "rev p"] by (auto simp: strip_slashes_def last_rev)

text \<open>The last component of a path never leads out of a directory: it has no separator.\<close>
lemma path_Base_no_slash: "path_Base p \<noteq> ''/'' \<Longrightarrow> slash \<notin> set (path_Base p)"
  by (auto simp: path_Base_def slash_def Let_def dest: set_takeWhileD split: if_splits)

lemma path_Base_ne [simp]: "path_Base p \<noteq> ''''"
proof -
  have "takeWhile (\<lambda>c. c \<noteq> slash) (rev q) \<noteq> []" if "q \<noteq> ''''" "last q \<noteq> slash" for q
    using that by (cases "rev q") (auto simp: last_rev [of "rev q", simplified, symmetric] hd_rev dest: arg_cong [where f = rev])
  then show ?thesis using strip_slashes_last [of p] by (auto simp: path_Base_def Let_def)
qed

lemma path_Base_id: "p \<noteq> '''' \<Longrightarrow> slash \<notin> set p \<Longrightarrow> path_Base p = p"
proof -
  assume p: "p \<noteq> ''''" "slash \<notin> set p"
  then have "dropWhile (\<lambda>c. c = slash) (rev p) = rev p"
    by (cases "rev p") (auto dest: arg_cong [where f = set])
  then have s: "strip_slashes p = p" by (simp add: strip_slashes_def)
  have "takeWhile (\<lambda>c. c \<noteq> slash) (rev p) = rev p" using p(2) by (simp add: takeWhile_eq_all_conv) blast
  then show ?thesis using p by (simp only: path_Base_def Let_def s if_False rev_rev_ident)
qed

section \<open>\<open>Rel\<close>\<close>

definition path_comps :: "string \<Rightarrow> string list" where
  \<comment> \<open>the elements of a clean path; a rooted path has a leading empty one\<close>
  "path_comps p = (if p = '''' then [] else if p = ''/'' then [''''] else split_on slash p)"

fun strip_common :: "'a list \<Rightarrow> 'a list \<Rightarrow> 'a list \<times> 'a list" where
  "strip_common (x # xs) (y # ys) = (if x = y then strip_common xs ys else (x # xs, y # ys))"
| "strip_common xs ys = (xs, ys)"

definition path_Rel :: "string \<Rightarrow> string \<Rightarrow> string option" where
  \<comment> \<open>\<open>None\<close> is the error "can't make relative"\<close>
  "path_Rel basepath targpath =
     (let base = path_Clean basepath; targ = path_Clean targpath
      in if targ = base then Some ''.''
         else let base = (if base = ''.'' then '''' else base)
              in if HasPrefix base ''/'' \<noteq> HasPrefix targ ''/'' then None
                 else case strip_common (path_comps base) (path_comps targ) of
                        (b, t) \<Rightarrow>
                          if b \<noteq> [] \<and> t \<noteq> [] \<and> hd b = ''..'' then None
                          else Some (join_with ''/'' (replicate (length b) ''..'' @ t)))"

section \<open>Case and fields\<close>

definition lower1 :: "char \<Rightarrow> char" where
  "lower1 c = (let n = of_char c :: nat in if 65 \<le> n \<and> n \<le> 90 then char_of (n + 32) else c)"

function ToLower :: "string \<Rightarrow> string" where
  \<comment> \<open>\<open>strings.ToLower\<close> on the runes whose lower case is ASCII: the ASCII letters, \<open>U+212A\<close> and
     \<open>U+0130\<close>; other runes are kept, the results being compared with ASCII literals only\<close>
  "ToLower s =
     (if s = [] then []
      else if HasPrefix s [CHR 0xE2, CHR 0x84, CHR 0xAA] then CHR ''k'' # ToLower (drop 3 s)
      else if HasPrefix s [CHR 0xC4, CHR 0xB0] then CHR ''i'' # ToLower (drop 2 s)
      else lower1 (hd s) # ToLower (tl s))"
  by pat_completeness auto
termination by (relation "measure length") auto

declare ToLower.simps [simp del]

function fields_from :: "string \<Rightarrow> string \<Rightarrow> string list" where
  "fields_from cur s =
     (if s = [] then (if cur = [] then [] else [cur])
      else if ws_prefix s = 0 then fields_from (cur @ [hd s]) (tl s)
      else (if cur = [] then [] else [cur]) @ fields_from [] (drop (ws_prefix s) s))"
  by pat_completeness auto
termination by (relation "measure (\<lambda>(cur, s). length s)") auto

declare fields_from.simps [simp del]

definition Fields :: "string \<Rightarrow> string list" where
  "Fields s = fields_from [] s"

definition TrimChar :: "char \<Rightarrow> string \<Rightarrow> string" where
  \<comment> \<open>\<open>strings.Trim\<close> with a one-byte cutset\<close>
  "TrimChar c s = rev (dropWhile (\<lambda>x. x = c) (rev (dropWhile (\<lambda>x. x = c) s)))"

end
