(* ===== verification/Swarm_Integrity.thy ===== *)
theory Swarm_Integrity
  imports Swarm_Engine Go_Path
begin

text \<open>
  The Segment integrity chain: the Host hashes its Segments and publishes the hashes in the media
  playlist (\<open>internal/media/hash.go\<close>), a viewer reads them back from the playlist and verifies what
  its mesh peers send (\<open>internal/swarm/integrity.go\<close>).

  \<open>blake3.Sum256\<close> is the parameter \<open>sum256\<close>; the file system as \<open>os.ReadFile\<close> sees it is the
  parameter \<open>fs\<close>, from paths to contents.
\<close>

section \<open>\<open>encoding/hex\<close>\<close>

definition hex_digit :: "nat \<Rightarrow> char" where
  "hex_digit n = ''0123456789abcdef'' ! n"

definition hex_EncodeToString :: "bytes \<Rightarrow> string" where
  "hex_EncodeToString bs = concat (map (\<lambda>b. [hex_digit (unat b div 16), hex_digit (unat b mod 16)]) bs)"

definition fromHexChar :: "char \<Rightarrow> nat option" where
  "fromHexChar c =
     (let n = of_char c :: nat
      in if 48 \<le> n \<and> n \<le> 57 then Some (n - 48)
         else if 97 \<le> n \<and> n \<le> 102 then Some (n - 97 + 10)
         else if 65 \<le> n \<and> n \<le> 70 then Some (n - 65 + 10)
         else None)"

fun hex_DecodeString :: "string \<Rightarrow> bytes option" where
  \<comment> \<open>\<open>None\<close> is a non-nil error: an odd length or a byte that is no hex digit\<close>
  "hex_DecodeString [] = Some []"
| "hex_DecodeString [c] = None"
| "hex_DecodeString (a # b # s) =
     (case (fromHexChar a, fromHexChar b, hex_DecodeString s) of
        (Some x, Some y, Some bs) \<Rightarrow> Some (word_of_nat (16 * x + y) # bs)
      | _ \<Rightarrow> None)"

lemma less_16_cases: "n < 16 \<Longrightarrow> n \<in> set [0 ..< 16]"
  by simp

lemma hex_digit_decode: "n < 16 \<Longrightarrow> fromHexChar (hex_digit n) = Some n"
proof -
  have "\<forall>n \<in> set [0 ..< 16]. fromHexChar (hex_digit n) = Some n" by code_simp
  then show "n < 16 \<Longrightarrow> ?thesis" by simp
qed

lemma hex_roundtrip: "hex_DecodeString (hex_EncodeToString bs) = Some bs"
proof (induction bs)
  case Nil
  then show ?case by (simp add: hex_EncodeToString_def)
next
  case (Cons b bs)
  have "unat b < 2 ^ LENGTH(8)" by (rule unsigned_less)
  then have "unat b div 16 < 16" by (simp add: less_mult_imp_div_less)
  moreover have "word_of_nat (16 * (unat b div 16) + unat b mod 16) = b" by simp
  ultimately show ?case using Cons by (simp add: hex_EncodeToString_def hex_digit_decode)
qed

lemma hex_digit_plain:
  "n < 16 \<Longrightarrow> (of_char (hex_digit n) :: nat) \<in> {48 .. 57} \<union> {97 .. 102}"
proof -
  have "\<forall>n \<in> set [0 ..< 16]. (of_char (hex_digit n) :: nat) \<in> set ([48 ..< 58] @ [97 ..< 103])" by code_simp
  then show "n < 16 \<Longrightarrow> ?thesis" by force
qed

lemma hex_chars: "c \<in> set (hex_EncodeToString bs) \<Longrightarrow> (of_char c :: nat) \<in> {48 .. 57} \<union> {97 .. 102}"
proof -
  assume "c \<in> set (hex_EncodeToString bs)"
  then obtain b where c: "c = hex_digit (unat b div 16) \<or> c = hex_digit (unat (b :: byte) mod 16)"
    by (auto simp: hex_EncodeToString_def)
  have "unat b < 2 ^ LENGTH(8)" by (rule unsigned_less)
  then have "unat b div 16 < 16" by (simp add: less_mult_imp_div_less)
  then show ?thesis using c hex_digit_plain [of "unat b div 16"] hex_digit_plain [of "unat b mod 16"] by auto
qed

lemma hex_Encode_Nil_iff [simp]: "hex_EncodeToString bs = [] \<longleftrightarrow> bs = []"
  by (cases bs) (auto simp: hex_EncodeToString_def)

section \<open>Verification: \<open>integrity.go\<close>\<close>

definition hashTag :: string where
  "hashTag = ''#EXT-X-P2P-HASH:''"

definition parse_line :: "string \<Rightarrow> (string, string) gomap \<times> string \<Rightarrow> (string, string) gomap \<times> string" where
  "parse_line ln = (\<lambda>(out, pending).
     let t = TrimSpace ln
     in if HasPrefix t hashTag then (out, TrimPrefix t hashTag)
        else if HasSuffix t ''.ts'' \<and> \<not> HasPrefix t ''#'' then
          (if pending \<noteq> '''' then (AList.update t pending out, '''') else (out, pending))
        else (out, pending))"

definition ParseHashes :: "bytes \<Rightarrow> (string, string) gomap" where
  "ParseHashes playlist =
     fst (fold parse_line (split_on (CHR 0x0A) (string_of_bytes playlist)) ([], ''''))"

definition ConstantTimeCompare :: "bytes \<Rightarrow> bytes \<Rightarrow> int" where
  "ConstantTimeCompare x y = (if length x \<noteq> length y then 0 else if x = y then 1 else 0)"

definition VerifySegment :: "(bytes \<Rightarrow> bytes) \<Rightarrow> bytes \<Rightarrow> string \<Rightarrow> bool" where
  "VerifySegment sum256 data expectHex =
     (case hex_DecodeString expectHex of None \<Rightarrow> False
      | Some want \<Rightarrow> want \<noteq> [] \<and> ConstantTimeCompare (sum256 data) want = 1)"

section \<open>Publication: \<open>hash.go\<close>\<close>

record SegmentHashes =
  sh_dir :: string
  sh_cache :: "(string, string) gomap"

definition NewSegmentHashes :: "string \<Rightarrow> SegmentHashes" where
  "NewSegmentHashes dir = \<lparr>sh_dir = dir, sh_cache = []\<rparr>"

definition SegmentHashes_Hash ::
  "(bytes \<Rightarrow> bytes) \<Rightarrow> (string \<Rightarrow> bytes option) \<Rightarrow> string \<Rightarrow> SegmentHashes \<Rightarrow> string option \<times> SegmentHashes" where
  "SegmentHashes_Hash sum256 fs segName h =
     (case map_of (sh_cache h) segName of
        Some hexstr \<Rightarrow> (Some hexstr, h)
      | None \<Rightarrow>
          (case fs (path_Join [sh_dir h, path_Base segName]) of
             None \<Rightarrow> (None, h)
           | Some data \<Rightarrow>
               let hexstr = hex_EncodeToString (sum256 data)
               in (Some hexstr, h\<lparr>sh_cache := AList.update segName hexstr (sh_cache h)\<rparr>)))"

definition inject_line ::
  "(bytes \<Rightarrow> bytes) \<Rightarrow> (string \<Rightarrow> bytes option) \<Rightarrow> string \<Rightarrow> string list \<times> SegmentHashes \<Rightarrow> string list \<times> SegmentHashes" where
  "inject_line sum256 fs ln = (\<lambda>(out, h).
     let trimmed = TrimSpace ln
     in if HasSuffix trimmed ''.ts'' \<and> \<not> HasPrefix trimmed ''#'' then
          (case SegmentHashes_Hash sum256 fs trimmed h of
             (Some hexstr, h') \<Rightarrow> (out @ [''#EXT-X-P2P-HASH:'' @ hexstr] @ [ln], h')
           | (None, h') \<Rightarrow> (out @ [ln], h'))
        else (out @ [ln], h))"

definition InjectHashes ::
  "(bytes \<Rightarrow> bytes) \<Rightarrow> (string \<Rightarrow> bytes option) \<Rightarrow> bytes \<Rightarrow> SegmentHashes \<Rightarrow> bytes \<times> SegmentHashes" where
  "InjectHashes sum256 fs playlist h =
     (case fold (inject_line sum256 fs) (split_on (CHR 0x0A) (string_of_bytes playlist)) ([], h) of
        (out, h') \<Rightarrow> (bytes_of_string (join_with [CHR 0x0A] out), h'))"

section \<open>From the Host's files to the viewer's table\<close>

definition is_seg :: "string \<Rightarrow> bool" where
  "is_seg t \<longleftrightarrow> HasSuffix t ''.ts'' \<and> \<not> HasPrefix t ''#''"

definition published :: "(bytes \<Rightarrow> bytes) \<Rightarrow> (string \<Rightarrow> bytes option) \<Rightarrow> string \<Rightarrow> string \<Rightarrow> string option" where
  \<comment> \<open>the hash of the Segment file, if it is on disk\<close>
  "published sum256 fs dir n = map_option (\<lambda>data. hex_EncodeToString (sum256 data)) (fs (path_Join [dir, path_Base n]))"

definition hashes_coherent :: "(bytes \<Rightarrow> bytes) \<Rightarrow> (string \<Rightarrow> bytes option) \<Rightarrow> SegmentHashes \<Rightarrow> bool" where
  \<comment> \<open>every memoised hash is that of the file on disk\<close>
  "hashes_coherent sum256 fs h \<longleftrightarrow>
     (\<forall>n x. map_of (sh_cache h) n = Some x \<longrightarrow> published sum256 fs (sh_dir h) n = Some x)"

lemma coherent_New [simp]: "hashes_coherent sum256 fs (NewSegmentHashes dir)"
  by (simp add: hashes_coherent_def NewSegmentHashes_def)

lemma Hash_coherent:
  assumes "hashes_coherent sum256 fs h" and "SegmentHashes_Hash sum256 fs n h = (r, h')"
  shows "r = published sum256 fs (sh_dir h) n" "sh_dir h' = sh_dir h" "hashes_coherent sum256 fs h'"
proof -
  have "r = published sum256 fs (sh_dir h) n \<and> sh_dir h' = sh_dir h \<and> hashes_coherent sum256 fs h'"
  proof (cases "map_of (sh_cache h) n")
    case None
    with assms show ?thesis
      by (auto simp: SegmentHashes_Hash_def published_def hashes_coherent_def Let_def split: option.splits if_splits)
  next
    case (Some x)
    with assms(2) have "r = Some x" "h' = h" by (simp_all add: SegmentHashes_Hash_def)
    with Some assms(1) show ?thesis by (simp add: hashes_coherent_def)
  qed
  then show "r = published sum256 fs (sh_dir h) n" "sh_dir h' = sh_dir h" "hashes_coherent sum256 fs h'"
    by simp_all
qed

definition annotate :: "(string \<Rightarrow> string option) \<Rightarrow> string \<Rightarrow> string list" where
  "annotate pub ln =
     (if is_seg (TrimSpace ln)
      then (case pub (TrimSpace ln) of Some x \<Rightarrow> [hashTag @ x, ln] | None \<Rightarrow> [ln]) else [ln])"

lemma inject_fold:
  "hashes_coherent sum256 fs h \<Longrightarrow>
     fst (fold (inject_line sum256 fs) lns (out, h)) =
       out @ concat (map (annotate (published sum256 fs (sh_dir h))) lns)"
proof (induction lns arbitrary: out h)
  case Nil
  then show ?case by simp
next
  case (Cons ln lns)
  obtain r h' where rh: "SegmentHashes_Hash sum256 fs (TrimSpace ln) h = (r, h')" by fastforce
  note c = Hash_coherent [OF Cons.prems rh]
  have line: "inject_line sum256 fs ln (out, h) =
      (out @ annotate (published sum256 fs (sh_dir h)) ln, if is_seg (TrimSpace ln) then h' else h)"
    using rh c(1) by (auto simp: inject_line_def annotate_def is_seg_def hashTag_def Let_def split: option.splits)
  show ?case
    unfolding fold.simps comp_def line using Cons.IH Cons.prems c(2,3) by (cases "is_seg (TrimSpace ln)") auto
qed

lemma ws_first: "(of_char c :: nat) \<notin> {9 .. 13} \<union> {32} \<Longrightarrow> (of_char c :: nat) < 128 \<Longrightarrow> ws_prefix (c # s) = 0"
  by (auto simp: ws_prefix_eq_0 ws_runes_def)

lemma ws_last: "(of_char c :: nat) \<notin> {9 .. 13} \<union> {32} \<Longrightarrow> (of_char c :: nat) < 128 \<Longrightarrow> ws_suffix (s @ [c]) = 0"
  by (auto simp: ws_suffix_eq_0 ws_runes_def suffix_def append_eq_append_conv2 Cons_eq_append_conv)

lemma hash_line_trim: "TrimSpace (hashTag @ hex_EncodeToString bs) = hashTag @ hex_EncodeToString bs"
proof (rule TrimSpace_id)
  show "ws_prefix (hashTag @ hex_EncodeToString bs) = 0"
    unfolding hashTag_def by (simp add: ws_first)
  show "ws_suffix (hashTag @ hex_EncodeToString bs) = 0"
  proof (cases "bs = []")
    case True
    then show ?thesis using ws_last [of "CHR '':''" "butlast hashTag"] by (simp add: hashTag_def hex_EncodeToString_def)
  next
    case False
    then have ne: "hex_EncodeToString bs \<noteq> []" by simp
    have "last (hex_EncodeToString bs) \<in> set (hex_EncodeToString bs)" using ne by (rule last_in_set)
    from hex_chars [OF this] have "ws_suffix ((hashTag @ butlast (hex_EncodeToString bs)) @ [last (hex_EncodeToString bs)]) = 0"
      by (intro ws_last) auto
    then show ?thesis using ne by simp
  qed
qed

lemma parse_annotate:
  assumes "\<not> HasPrefix (TrimSpace ln) hashTag"
    and pub: "\<forall>x. pub (TrimSpace ln) = Some x \<longrightarrow> (\<exists>bs. x = hex_EncodeToString bs \<and> bs \<noteq> [])"
  shows "fold parse_line (annotate pub ln) (out, '''') =
    (if is_seg (TrimSpace ln) then (case pub (TrimSpace ln) of Some x \<Rightarrow> AList.update (TrimSpace ln) x out | None \<Rightarrow> out)
     else out, '''')"
  using assms
  by (auto simp: annotate_def parse_line_def is_seg_def hash_line_trim Let_def split: option.splits)

lemma parse_inject_fold:
  assumes "\<forall>ln \<in> set lns. \<not> HasPrefix (TrimSpace ln) hashTag"
    and "\<forall>n x. pub n = Some x \<longrightarrow> (\<exists>bs. x = hex_EncodeToString bs \<and> bs \<noteq> [])"
  shows "map_of (fst (fold parse_line (concat (map (annotate pub) lns)) (out, ''''))) n =
    (if n \<in> TrimSpace ` set lns \<and> is_seg n \<and> pub n \<noteq> None then pub n else map_of out n)"
  using assms(1)
proof (induction lns arbitrary: out)
  case Nil
  then show ?case by simp
next
  case (Cons ln lns)
  have "fold parse_line (annotate pub ln) (out, '''') =
    (if is_seg (TrimSpace ln) then (case pub (TrimSpace ln) of Some x \<Rightarrow> AList.update (TrimSpace ln) x out | None \<Rightarrow> out)
     else out, '''')"
    using Cons.prems assms(2) by (intro parse_annotate) auto
  then show ?case using Cons.IH Cons.prems by (auto split: option.splits)
qed

text \<open>
  The integrity chain from the Host's disk to the viewer's table: for a playlist without hash tags,
  parsing what \<open>InjectHashes\<close> made of it gives exactly, for each Segment line whose file is on disk, the
  hex BLAKE3 of that file, and nothing else (a memoised hash is assumed to be the file's: Segments are
  immutable).
\<close>
theorem inject_parse_roundtrip:
  assumes sum: "\<And>d. length (sum256 d) = 32" and h: "hashes_coherent sum256 fs h"
    and tags: "\<forall>ln \<in> set (split_on (CHR 0x0A) (string_of_bytes playlist)). \<not> HasPrefix (TrimSpace ln) hashTag"
  shows "map_of (ParseHashes (fst (InjectHashes sum256 fs playlist h))) n =
    (if n \<in> TrimSpace ` set (split_on (CHR 0x0A) (string_of_bytes playlist)) \<and> HasSuffix n ''.ts'' \<and> \<not> HasPrefix n ''#''
     then map_option (\<lambda>data. hex_EncodeToString (sum256 data)) (fs (path_Join [sh_dir h, path_Base n]))
     else None)"
proof -
  let ?lns = "split_on (CHR 0x0A) (string_of_bytes playlist)" and ?pub = "published sum256 fs (sh_dir h)"
  let ?out = "concat (map (annotate ?pub) ?lns)"
  have ne: "sum256 d \<noteq> []" for d using sum [of d] by auto
  have pub: "\<forall>n x. ?pub n = Some x \<longrightarrow> (\<exists>bs. x = hex_EncodeToString bs \<and> bs \<noteq> [])"
    using ne by (auto simp: published_def)
  have "CHR 0x0A \<notin> set l" if "l \<in> set ?out" for l
  proof -
    from that obtain ln where "ln \<in> set ?lns" "l \<in> set (annotate ?pub ln)" by auto
    moreover have "CHR 0x0A \<notin> set x" if "?pub n = Some x" for n x
      using that pub hex_chars [of "CHR 0x0A"] by force
    ultimately show ?thesis using split_on_parts [of ln "CHR 0x0A"]
      by (auto simp: annotate_def hashTag_def split: if_splits option.splits)
  qed
  moreover have "?out \<noteq> []"
    by (cases ?lns) (auto simp: annotate_def split: option.splits)
  ultimately have split: "split_on (CHR 0x0A) (join_with [CHR 0x0A] ?out) = ?out" by (intro split_join) auto
  have "fst (InjectHashes sum256 fs playlist h) = bytes_of_string (join_with [CHR 0x0A] ?out)"
    using inject_fold [OF h, of ?lns "[]"] by (auto simp: InjectHashes_def split: prod.splits)
  then have "ParseHashes (fst (InjectHashes sum256 fs playlist h)) = fst (fold parse_line ?out ([], ''''))"
    by (simp add: ParseHashes_def split)
  then show ?thesis unfolding published_def [of _ _ _ n, symmetric]
    using parse_inject_fold [OF tags pub, of "[]" n] by (auto simp: is_seg_def)
qed

definition example_sum256 :: "bytes \<Rightarrow> bytes" where
  \<comment> \<open>a 32-byte digest for examples\<close>
  "example_sum256 d = replicate 31 (of_nat (length d)) @ [sum_list d]"

theorem inject_parse_roundtrip_witness:
  "let fs = (\<lambda>p. if p = ''/c/seg00000.ts'' then Some [1, 2] else None);
       pl = bytes_of_string (''#EXTM3U'' @ [CHR 0x0A] @ ''seg00000.ts'' @ [CHR 0x0D, CHR 0x0A] @ ''seg00001.ts'')
   in map_of (ParseHashes (fst (InjectHashes example_sum256 fs pl (NewSegmentHashes ''/c'')))) ''seg00000.ts'' =
        Some (hex_EncodeToString (example_sum256 [1, 2]))"
proof -
  let ?fs = "\<lambda>p. if p = ''/c/seg00000.ts'' then Some [1, 2] else None"
  let ?pl = "bytes_of_string (''#EXTM3U'' @ [CHR 0x0A] @ ''seg00000.ts'' @ [CHR 0x0D, CHR 0x0A] @ ''seg00001.ts'')"
  have tags: "\<forall>ln \<in> set (split_on (CHR 0x0A) (string_of_bytes ?pl)). \<not> HasPrefix (TrimSpace ln) hashTag" by code_simp
  have p: "path_Join [sh_dir (NewSegmentHashes ''/c''), path_Base ''seg00000.ts''] = ''/c/seg00000.ts''" by code_simp
  have n: "''seg00000.ts'' \<in> TrimSpace ` set (split_on (CHR 0x0A) (string_of_bytes ?pl))"
    "HasSuffix ''seg00000.ts'' ''.ts'' \<and> \<not> HasPrefix ''seg00000.ts'' ''#''" by code_simp+
  have "length (example_sum256 d) = 32" for d by (simp add: example_sum256_def)
  from inject_parse_roundtrip [of example_sum256 ?fs "NewSegmentHashes ''/c''" ?pl "''seg00000.ts''",
      OF this coherent_New tags] n
  show ?thesis unfolding Let_def by (simp only: p if_True option.map simp_thms)
qed

lemma VerifySegment_hex:
  "VerifySegment sum256 data (hex_EncodeToString bs) \<longleftrightarrow> bs \<noteq> [] \<and> sum256 data = bs"
  by (auto simp: VerifySegment_def hex_roundtrip ConstantTimeCompare_def)

lemma VerifySegment_nonempty: "VerifySegment sum256 data want \<Longrightarrow> want \<noteq> ''''"
  by (auto simp: VerifySegment_def)

end
