(* ===== verification/Peer_Wire.thy ===== *)
theory Peer_Wire
  imports Go_Strings Float64
begin

text \<open>
  The wire vocabulary of the peer protocol: the control-channel messages of
  \<open>proto/peer/v1\<close> as records and the \<open>Envelope\<close> sum, and the RPC errors of
  \<open>internal/peer/errors.go\<close> with their mapping to and from status codes.

  A Go \<open>error\<close> is a sentinel, an opaque text, or a \<open>%w\<close>-wrapped error; \<open>errors.Is\<close> walks the
  wrapping. A pointer to a message that a getter may find nil is an \<open>option\<close>. The protobuf codec is
  third-party: \<open>Marshal\<close> and \<open>Unmarshal\<close> are the fields of the parameter \<open>codec\<close>.
\<close>

section \<open>Errors: \<open>errors.go\<close>\<close>

datatype gerror = ErrDenied | ErrNotFound | ErrUnavailable | ErrBusy | ErrText string
  | ErrWrap gerror string  \<comment> \<open>\<open>%w: text\<close>\<close>
  | ErrCtx string gerror   \<comment> \<open>\<open>text: %w\<close>\<close>

fun err_Error :: "gerror \<Rightarrow> string" where
  "err_Error ErrDenied = ''access denied''"
| "err_Error ErrNotFound = ''not found''"
| "err_Error ErrUnavailable = ''unavailable''"
| "err_Error ErrBusy = ''busy''"
| "err_Error (ErrText t) = t"
| "err_Error (ErrWrap e d) = err_Error e @ '': '' @ d"
| "err_Error (ErrCtx d e) = d @ '': '' @ err_Error e"

fun errors_Is :: "gerror \<Rightarrow> gerror \<Rightarrow> bool" where
  "errors_Is (ErrWrap e d) target \<longleftrightarrow> ErrWrap e d = target \<or> errors_Is e target"
| "errors_Is (ErrCtx d e) target \<longleftrightarrow> ErrCtx d e = target \<or> errors_Is e target"
| "errors_Is e target \<longleftrightarrow> e = target"

datatype Error_Status = STATUS_UNSPECIFIED | DENIED | NOT_FOUND | UNAVAILABLE | INTERNAL | BUSY

record PeerError =
  pe_status :: Error_Status
  pe_detail :: string

definition statusOf :: "gerror \<Rightarrow> Error_Status" where
  "statusOf err =
     (if errors_Is err ErrDenied then DENIED
      else if errors_Is err ErrNotFound then NOT_FOUND
      else if errors_Is err ErrUnavailable then UNAVAILABLE
      else if errors_Is err ErrBusy then BUSY
      else INTERNAL)"

definition statusErr :: "PeerError \<Rightarrow> gerror" where
  "statusErr e =
     (let base = (case pe_status e of
                    DENIED \<Rightarrow> ErrDenied | NOT_FOUND \<Rightarrow> ErrNotFound
                  | UNAVAILABLE \<Rightarrow> ErrUnavailable | BUSY \<Rightarrow> ErrBusy
                  | _ \<Rightarrow> ErrText (''remote error: '' @ pe_detail e))
      in if pe_detail e \<noteq> '''' then ErrWrap base (pe_detail e) else base)"

section \<open>Messages: \<open>proto/peer/v1\<close>\<close>

record Handshake =
  hs_protocol_version :: u32
  hs_capabilities :: "string list"

record SubtitleTrack =
  st_id :: string
  st_language :: string
  st_label :: string
  st_kind :: string

record TitleMeta =
  tm_content_id :: string
  tm_display_title :: string
  tm_duration_ms :: int
  tm_container :: string
  tm_video_codec :: string
  tm_audio_codecs :: "string list"
  tm_width :: int
  tm_height :: int
  tm_size_bytes :: int
  tm_hls_compatible :: bool
  tm_subtitles :: "SubtitleTrack list"
  tm_party_live :: bool
  tm_party_viewers :: int
  tm_thumbnail :: bytes
  tm_rel_dir :: string
  tm_root_label :: string

record PlaylistMsg =
  pl_data :: bytes
  pl_content_type :: string
  pl_complete :: bool

record PartyState =
  ps_party_id :: string
  ps_playing :: bool
  ps_position_ms :: int
  ps_host_clock_ms :: int
  ps_rate :: rat
  ps_seq :: u64

record AudienceMember =
  am_node_id :: string
  am_display_name :: string

record PartyAudience =
  pa_party_id :: string
  pa_members :: "AudienceMember list"

record PartyWelcome =
  pw_party_id :: string
  pw_initial :: "PartyState option"
  pw_audience :: "PartyAudience option"

record PartyInvite =
  pi_content_id :: string
  pi_party_id :: string
  pi_host_display :: string

record PartyEnded =
  pd_party_id :: string
  pd_reason :: string

record SwarmHave =
  sh_party_id :: string
  sh_rendition :: string
  sh_base_index :: u32
  sh_bitmap :: bytes
  sh_epoch :: u64

record GetSwarmSegment =
  gs_party_id :: string
  gs_rendition :: string
  gs_seg_name :: string

record PartyDanmaku =
  dm_party_id :: string
  dm_sender_node_id :: string
  dm_sender_display :: string
  dm_text :: string

record LivePartyMeta =
  lp_content_id :: string
  lp_viewers :: int

datatype Body =
    BHandshake Handshake
  | BPing string
  | BPong string
  | BBrowse
  | BCatalog "TitleMeta list"
  | BGetMetadata string
  | BTitleMeta TitleMeta
  | BRequestAccess string
  | BAccessGranted
  | BAck
  | BError PeerError
  | BGetPlaylist string string
  | BPlaylist PlaylistMsg
  | BGetSegment string string
  | BDownload string
  | BJoinParty string
  | BPartyWelcome PartyWelcome
  | BPartyInvite PartyInvite
  | BPartyState PartyState
  | BPartyAudience PartyAudience
  | BLeaveParty string
  | BPartyEnded PartyEnded
  | BSwarmHave SwarmHave
  | BGetSwarmSegment GetSwarmSegment
  | BPartyDanmaku PartyDanmaku
  | BGetLiveParties
  | BLiveParties "LivePartyMeta list"

record Envelope =
  RequestId :: u64
  EBody :: "Body option"

definition envelope :: "u64 \<Rightarrow> Body \<Rightarrow> Envelope" where
  "envelope reqID b = \<lparr>RequestId = reqID, EBody = Some b\<rparr>"

definition errEnvelope :: "u64 \<Rightarrow> gerror \<Rightarrow> Envelope" where
  "errEnvelope reqID err = envelope reqID (BError \<lparr>pe_status = statusOf err, pe_detail = err_Error err\<rparr>)"

lemma envelope_simps [simp]:
  "RequestId (envelope i b) = i" "EBody (envelope i b) = Some b" "envelope i b = envelope j c \<longleftrightarrow> i = j \<and> b = c"
  by (simp_all add: envelope_def)

section \<open>Properties\<close>

definition sentinel :: "gerror \<Rightarrow> bool" where
  "sentinel e \<longleftrightarrow> e \<in> {ErrDenied, ErrNotFound, ErrUnavailable, ErrBusy}"

lemma errors_Is_unique: "errors_Is e s \<Longrightarrow> errors_Is e t \<Longrightarrow> sentinel s \<Longrightarrow> sentinel t \<Longrightarrow> s = t"
  by (induction e s rule: errors_Is.induct) (auto simp: sentinel_def)

lemma statusOf_sentinel:
  "sentinel s \<Longrightarrow> errors_Is e s \<longleftrightarrow> statusOf e = statusOf s \<and> (\<exists>t. sentinel t \<and> errors_Is e t)"
  using errors_Is_unique [of e] by (auto simp: statusOf_def sentinel_def)

lemma statusOf_sentinel_iff: "sentinel s \<Longrightarrow> statusOf e = statusOf s \<longleftrightarrow> errors_Is e s"
  using errors_Is_unique [of e] by (auto simp: statusOf_def sentinel_def split: if_splits)

text \<open>
  C39. RPC errors survive the wire: the error a caller gets from the \<open>Error\<close> envelope of a handler's error
  is of a sentinel kind exactly when the handler's error was, whatever was wrapped around it, and its
  text ends with the handler's text.
\<close>
theorem rpc_error_roundtrip:
  assumes "sentinel s" and "EBody (errEnvelope reqID err) = Some (BError e)"
  shows "(errors_Is (statusErr e) s \<longleftrightarrow> errors_Is err s) \<and>
         (err_Error err \<noteq> '''' \<longrightarrow> suffix (err_Error err) (err_Error (statusErr e)))"
proof -
  have e: "pe_status e = statusOf err" "pe_detail e = err_Error err"
    using assms(2) by (auto simp: errEnvelope_def)
  have "statusOf (statusErr e) = statusOf err"
    unfolding statusErr_def e by (auto simp: statusOf_def Let_def split: if_splits)
  then have "errors_Is (statusErr e) s \<longleftrightarrow> errors_Is err s"
    using statusOf_sentinel_iff [OF assms(1)] by metis
  moreover have "suffix (err_Error err) (err_Error (statusErr e))" if "err_Error err \<noteq> ''''"
    using that by (simp add: statusErr_def e Let_def suffix_def)
  ultimately show ?thesis by blast
qed

theorem rpc_error_roundtrip_witness:
  "let err = ErrWrap ErrNotFound ''title x''; e = \<lparr>pe_status = NOT_FOUND, pe_detail = ''not found: title x''\<rparr>
   in errors_Is (statusErr e) ErrNotFound = errors_Is err ErrNotFound"
  unfolding Let_def
  by (rule rpc_error_roundtrip [THEN conjunct1, of _ 7])
    (simp_all add: sentinel_def errEnvelope_def statusOf_def)

end
