(* ===== verification/Swarm_Session.thy ===== *)
theory Swarm_Session
  imports Swarm_Integrity Peer_Wire
begin

text \<open>
  The I/O shell of the mesh for one viewed party: the byte cache (\<open>internal/app/swarm_cache.go\<close>)
  and the swarm session (\<open>internal/app/swarm_session.go\<close>).

  The network (the \<open>swarmTransport\<close> interface) is the parameter \<open>tr\<close>, a record of the calls a
  session makes on a world of type \<open>'w\<close>: each call returns its result and the world after it.
  \<open>t_now\<close> is the injected clock in a world, and \<open>t_meanwhile\<close> the engine operations the other
  goroutines ran while the call was in progress (the session's mutex is not held across a call). The
  retry loop of \<open>FetchSegment\<close> has no bound in the source, so it takes fuel and \<open>None\<close> is "still
  running": a claim that it returns gives the fuel that is enough.
\<close>

unbundle bit_operations_syntax

section \<open>The byte cache: \<open>swarm_cache.go\<close>\<close>

type_synonym segCache = "(int, bytes) gomap"

definition newSegCache :: segCache where "newSegCache = []"

definition cache_put :: "int \<Rightarrow> bytes \<Rightarrow> segCache \<Rightarrow> segCache" where
  "cache_put idx b c = AList.update idx b c"

definition cache_get :: "segCache \<Rightarrow> int \<Rightarrow> bytes option" where
  "cache_get c idx = map_of c idx"

definition cache_retain :: "int \<Rightarrow> int \<Rightarrow> segCache \<Rightarrow> segCache" where
  "cache_retain lo hi c = filter (\<lambda>(idx, b). \<not> (idx < lo \<or> idx > hi)) c"

section \<open>The session: \<open>swarm_session.go\<close>\<close>

definition swarmRendition :: string where "swarmRendition = ''v0''"

record swarmSession =
  ss_self :: NodeID
  ss_host :: NodeID
  ss_contentID :: string
  ss_partyID :: string
  ss_cfg :: SwarmConfig
  ss_eng :: Swarm
  ss_cache :: segCache
  ss_hashes :: "(string, string) gomap"
  ss_lastIdx :: int
  ss_uploads :: int          \<comment> \<open>occupancy of \<open>uploadSem\<close>\<close>
  ss_stopped :: bool         \<comment> \<open>\<open>stop\<close> is closed\<close>

definition newSwarmSession :: "NodeID \<Rightarrow> NodeID \<Rightarrow> string \<Rightarrow> SwarmConfig \<Rightarrow> swarmSession" where
  "newSwarmSession self host contentID cfg =
     \<lparr>ss_self = self, ss_host = host, ss_contentID = contentID, ss_partyID = '''', ss_cfg = cfg,
      ss_eng = Swarm_New self cfg, ss_cache = newSegCache, ss_hashes = [], ss_lastIdx = 0,
      ss_uploads = 0, ss_stopped = False\<rparr>"

definition seedFor :: "NodeID \<Rightarrow> int" where
  "seedFor nid =
     (let h = fold (\<lambda>b h. i64 ((h XOR uint b) * 1099511628211)) (bytes_of_string nid) 1469598103934665603
      in if h < 0 then i64 (- h) else h)"

definition setPartyID :: "string \<Rightarrow> swarmSession \<Rightarrow> swarmSession" where
  "setPartyID pid ss = ss\<lparr>ss_partyID := pid\<rparr>"

definition setPeers :: "NodeID list \<Rightarrow> swarmSession \<Rightarrow> swarmSession \<times> NodeID list" where
  \<comment> \<open>the session and the nodes on which \<open>ensurePeer\<close> is called\<close>
  "setPeers members ss =
     (ss\<lparr>ss_eng := SetPeers members (ss_eng ss)\<rparr>, filter (\<lambda>m. m \<noteq> ss_self ss) members)"

definition OnSwarmHave :: "NodeID \<Rightarrow> SwarmHave \<Rightarrow> time \<Rightarrow> swarmSession \<Rightarrow> swarmSession" where
  "OnSwarmHave remote h now ss =
     ss\<lparr>ss_eng := OnPeerHave remote (sh_base_index h) (sh_bitmap h) (sh_epoch h) now (ss_eng ss)\<rparr>"

definition SwarmSegment :: "GetSwarmSegment \<Rightarrow> swarmSession \<Rightarrow> (gerror + bytes) \<times> swarmSession" where
  \<comment> \<open>on success the upload slot stays taken until \<open>release\<close>\<close>
  "SwarmSegment req ss =
     (case SegIndex (gs_seg_name req) of None \<Rightarrow> (Inl ErrNotFound, ss)
      | Some idx \<Rightarrow>
          if \<not> ss_uploads ss < UploadCap (ss_cfg ss) then (Inl ErrBusy, ss)
          else let ss1 = ss\<lparr>ss_uploads := ss_uploads ss + 1\<rparr>
               in case cache_get (ss_cache ss1) idx of
                    None \<Rightarrow> (Inl ErrNotFound, ss1\<lparr>ss_uploads := ss_uploads ss1 - 1\<rparr>)
                  | Some b \<Rightarrow> (Inr b, ss1))"

definition upload_release :: "swarmSession \<Rightarrow> swarmSession" where
  "upload_release ss = ss\<lparr>ss_uploads := ss_uploads ss - 1\<rparr>"

definition sess_store :: "int \<Rightarrow> bytes \<Rightarrow> swarmSession \<Rightarrow> swarmSession" where
  "sess_store idx data ss =
     (let ss1 = ss\<lparr>ss_cache := cache_put idx data (ss_cache ss)\<rparr>;
          eng1 = SetHave idx (ss_eng ss1);
          lo = i64 (ss_lastIdx ss1 - WindowLag (ss_cfg ss1));
          hi = i64 (ss_lastIdx ss1 + WindowLead (ss_cfg ss1));
          lo = (if lo < 0 then 0 else lo);
          eng2 = snd (Retain lo hi eng1)
      in ss1\<lparr>ss_eng := eng2, ss_cache := cache_retain lo hi (ss_cache ss1)\<rparr>)"

record 'w transport =
  t_now :: "'w \<Rightarrow> time"
  t_fetchSwarmSegment :: "NodeID \<Rightarrow> GetSwarmSegment \<Rightarrow> 'w \<Rightarrow> (gerror + bytes) \<times> 'w"
  t_hostPlaylist :: "NodeID \<Rightarrow> string \<Rightarrow> string \<Rightarrow> 'w \<Rightarrow> (gerror + bytes) \<times> 'w"
  t_hostSegment :: "NodeID \<Rightarrow> string \<Rightarrow> string \<Rightarrow> 'w \<Rightarrow> (gerror + bytes) \<times> 'w"
  t_meanwhile :: "'w \<Rightarrow> swarm_op list"

definition expectedHash :: "'w transport \<Rightarrow> string \<Rightarrow> swarmSession \<Rightarrow> 'w \<Rightarrow> string \<times> swarmSession \<times> 'w" where
  "expectedHash tr segName ss w =
     (case map_of (ss_hashes ss) segName of Some h \<Rightarrow> (h, ss, w)
      | None \<Rightarrow>
          (case t_hostPlaylist tr (ss_host ss) (ss_contentID ss) ''index.m3u8'' w of
             (Inl err, w') \<Rightarrow> ('''', ss, w')
           | (Inr pl, w') \<Rightarrow>
               let parsed = ParseHashes pl;
                   hs = fold (\<lambda>(k, v). AList.update k v) parsed (ss_hashes ss)
               in (case map_of hs segName of None \<Rightarrow> '''' | Some h \<Rightarrow> h, ss\<lparr>ss_hashes := hs\<rparr>, w')))"

definition on_eng :: "(Swarm \<Rightarrow> Swarm) \<Rightarrow> swarmSession \<Rightarrow> swarmSession" where
  "on_eng f ss = ss\<lparr>ss_eng := f (ss_eng ss)\<rparr>"

fun pull_loop ::
  "(bytes \<Rightarrow> bytes) \<Rightarrow> 'w transport \<Rightarrow> nat \<Rightarrow> int \<Rightarrow> string \<Rightarrow> string \<Rightarrow> swarmSession \<Rightarrow> 'w
     \<Rightarrow> (bytes option \<times> swarmSession \<times> 'w) option" where
  \<comment> \<open>the \<open>for\<close> loop over peers; \<open>Some (None, _)\<close> is the \<open>break\<close> when no source is left\<close>
  "pull_loop blake tr 0 idx segName want ss w = None"
| "pull_loop blake tr (Suc fuel) idx segName want ss w =
     (case SelectSource idx (t_now tr w) (ss_eng ss) of
        None \<Rightarrow> Some (None, ss, w)
      | Some src \<Rightarrow>
          (case t_fetchSwarmSegment tr src
                  \<lparr>gs_party_id = ss_partyID ss, gs_rendition = swarmRendition, gs_seg_name = segName\<rparr> w of
             (res, w1) \<Rightarrow>
               let ss1 = on_eng (fold swarm_do (t_meanwhile tr w1)) ss
               in (case res of
                     Inl err \<Rightarrow>
                       if errors_Is err ErrNotFound
                       then pull_loop blake tr fuel idx segName want (on_eng (Demote src) ss1) w1
                       else pull_loop blake tr fuel idx segName want (on_eng (MarkBusy src (t_now tr w1)) ss1) w1
                   | Inr data \<Rightarrow>
                       if \<not> VerifySegment blake data want
                       then pull_loop blake tr fuel idx segName want (on_eng (Demote src) ss1) w1
                       else Some (Some data, sess_store idx data ss1, w1))))"

definition FetchSegment ::
  "(bytes \<Rightarrow> bytes) \<Rightarrow> 'w transport \<Rightarrow> nat \<Rightarrow> string \<Rightarrow> swarmSession \<Rightarrow> 'w
     \<Rightarrow> ((gerror + bytes) \<times> swarmSession \<times> 'w) option" where
  "FetchSegment blake tr fuel segName ss w =
     (case SegIndex segName of
        None \<Rightarrow> (case t_hostSegment tr (ss_host ss) (ss_contentID ss) segName w of (r, w1) \<Rightarrow> Some (r, ss, w1))
      | Some idx \<Rightarrow>
          let ss0 = ss\<lparr>ss_lastIdx := idx\<rparr>
          in (case cache_get (ss_cache ss0) idx of
                Some b \<Rightarrow> Some (Inr b, ss0, w)
              | None \<Rightarrow>
                  (case expectedHash tr segName ss0 w of (want, ss1, w1) \<Rightarrow>
                     (case (if want \<noteq> '''' then pull_loop blake tr fuel idx segName want ss1 w1
                            else Some (None, ss1, w1)) of
                        None \<Rightarrow> None
                      | Some (Some data, ss2, w2) \<Rightarrow> Some (Inr data, ss2, w2)
                      | Some (None, ss2, w2) \<Rightarrow>
                          (case t_hostSegment tr (ss_host ss2) (ss_contentID ss2) segName w2 of
                             (Inl err, w3) \<Rightarrow> Some (Inl err, ss2, w3)
                           | (Inr data, w3) \<Rightarrow>
                               if want \<noteq> '''' \<and> \<not> VerifySegment blake data want
                               then Some (Inl ErrUnavailable, ss2, w3)
                               else Some (Inr data, sess_store idx data ss2, w3))))))"

definition gossip_tick ::
  "(nat \<Rightarrow> nat \<Rightarrow> nat) \<Rightarrow> time \<Rightarrow> (NodeID \<Rightarrow> duration option) \<Rightarrow> swarmSession
     \<Rightarrow> (NodeID \<times> Envelope) list \<times> swarmSession" where
  \<comment> \<open>one tick of \<open>gossipLoop\<close>: the sends, in order, and the session after the RTT samples
     (\<open>rtt\<close>: the result of \<open>measureRTT\<close>, \<open>None\<close> an error)\<close>
  "gossip_tick intn now rtt ss =
     (let eng = ExpireStale now (ss_eng ss)
      in case HaveMsg eng of (base, bitmap, epoch) \<Rightarrow>
           let targets = GossipTargets intn eng;
               h = \<lparr>sh_party_id = ss_partyID ss, sh_rendition = swarmRendition, sh_base_index = base,
                    sh_bitmap = bitmap, sh_epoch = epoch\<rparr>;
               eng' = fold (\<lambda>tgt e. case rtt tgt of None \<Rightarrow> e | Some d \<Rightarrow> Swarm_OnRTT tgt d e) targets eng
           in (map (\<lambda>tgt. (tgt, envelope 0 (BSwarmHave h))) targets, ss\<lparr>ss_eng := eng'\<rparr>))"

definition sess_close :: "swarmSession \<Rightarrow> swarmSession option" where
  \<comment> \<open>closing a closed channel panics\<close>
  "sess_close ss = (if ss_stopped ss then None else Some (ss\<lparr>ss_stopped := True\<rparr>))"

section \<open>The cache is the advertised have-set\<close>

definition peer_op :: "swarm_op \<Rightarrow> bool" where
  \<comment> \<open>operations on peer records only; cache changes go through the session\<close>
  "peer_op op = (case op of OpSetHave _ \<Rightarrow> False | OpRetain _ _ \<Rightarrow> False | _ \<Rightarrow> True)"

definition sess_ok :: "swarmSession \<Rightarrow> bool" where
  "sess_ok ss \<longleftrightarrow>
     swarm_ok (ss_eng ss) \<and> wf_map (ss_cache ss) \<and> set (s_have (ss_eng ss)) = fst ` set (ss_cache ss) \<and>
     int (length (ss_cache ss)) \<le> WindowLag (ss_cfg ss) + WindowLead (ss_cfg ss) + 1 \<and>
     0 \<le> ss_uploads ss \<and> ss_uploads ss \<le> UploadCap (ss_cfg ss)"

definition cfg_ok :: "SwarmConfig \<Rightarrow> bool" where
  "cfg_ok c \<longleftrightarrow> 0 \<le> WindowLag c \<and> WindowLag c < 2 ^ 62 \<and> 0 \<le> WindowLead c \<and> WindowLead c < 2 ^ 62 \<and> 0 \<le> UploadCap c"

lemma sess_ok_new: "cfg_ok cfg \<Longrightarrow> sess_ok (newSwarmSession self host cid cfg)"
  by (auto simp: sess_ok_def newSwarmSession_def cfg_ok_def Swarm_New_def newSegCache_def swarm_ok_def)

lemma peer_op_have: "peer_op op \<Longrightarrow> s_have (swarm_do op s) = s_have s"
  by (cases op) (simp_all add: peer_op_def SetPeers_def OnPeerHave_def ExpireStale_def Swarm_OnRTT_def
      MarkBusy_def Demote_def Let_def)

lemma peer_ops_have: "\<forall>op \<in> set ops. peer_op op \<Longrightarrow> s_have (fold swarm_do ops s) = s_have s"
  by (induction ops arbitrary: s) (auto simp: peer_op_have)

lemma sess_ok_eng:
  "sess_ok ss \<Longrightarrow> \<forall>op \<in> set ops. peer_op op \<Longrightarrow> sess_ok (on_eng (fold swarm_do ops) ss)"
  by (simp add: sess_ok_def on_eng_def peer_ops_have swarm_ok_run)

lemma sess_ok_eng1: "sess_ok ss \<Longrightarrow> peer_op op \<Longrightarrow> sess_ok (on_eng (swarm_do op) ss)"
  using sess_ok_eng [of ss "[op]"] by (simp add: id_def fold_Cons fold_Nil comp_def)

lemma retain_window:
  assumes "in_i64 c" and "0 \<le> lag" "lag < 2 ^ 62" "0 \<le> lead" "lead < 2 ^ 62"
  shows "int (card {max 0 (i64 (c - lag)) .. i64 (c + lead)}) \<le> lag + lead + 1"
proof (cases "in_i64 (c + lead)")
  case hi: True
  show ?thesis
  proof (cases "in_i64 (c - lag)")
    case True
    then show ?thesis using hi assms by (simp add: i64_id max_def)
  next
    case False
    then have "c < 0" "c + lead < 0" using assms by (auto simp: in_i64_def)
    then show ?thesis using hi assms by (simp add: i64_id)
  qed
next
  case False
  then have r: "2 ^ 63 \<le> c + lead" "c + lead < 2 ^ 63 + 2 ^ 62" using assms by (auto simp: in_i64_def)
  have "(c + lead + 2 ^ 63) mod 2 ^ 64 = (c + lead + 2 ^ 63 - 2 ^ 64) mod 2 ^ 64"
    by (rule minus_mod_self2 [symmetric])
  also have "\<dots> = c + lead + 2 ^ 63 - 2 ^ 64" by (rule mod_pos_pos_trivial) (use r in simp_all)
  finally have "i64 (c + lead) = c + lead - 2 ^ 64"
    by (simp add: i64_def signed_take_bit_eq_take_bit_shift take_bit_int_def)
  moreover have "c + lead - 2 ^ 64 < 0" using assms by (auto simp: in_i64_def)
  ultimately show ?thesis using assms by simp
qed

lemma sess_store_ok:
  assumes "sess_ok ss" and "cfg_ok (ss_cfg ss)" and "in_i64 (ss_lastIdx ss)"
  shows "sess_ok (sess_store idx data ss)"
proof -
  define lo where "lo = max 0 (i64 (ss_lastIdx ss - WindowLag (ss_cfg ss)))"
  define hi where "hi = i64 (ss_lastIdx ss + WindowLead (ss_cfg ss))"
  let ?c = "AList.update idx data (ss_cache ss)"
  have eq: "sess_store idx data ss = ss\<lparr>ss_cache := cache_retain lo hi ?c, ss_eng := snd (Retain lo hi (SetHave idx (ss_eng ss)))\<rparr>"
    by (simp add: sess_store_def Let_def cache_put_def lo_def hi_def max_def)
  have wf: "wf_map ?c" "wf_map (cache_retain lo hi ?c)"
    using assms(1) by (simp_all add: sess_ok_def cache_retain_def)
  have keys: "fst ` set (cache_retain lo hi ?c) = {i \<in> insert idx (fst ` set (ss_cache ss)). lo \<le> i \<and> i \<le> hi}"
    unfolding dom_update [of idx data "ss_cache ss", simplified insert_is_Un [symmetric], symmetric] cache_retain_def
    by (force simp del: set_keys_dom)
  have "length (cache_retain lo hi ?c) = card (fst ` set (cache_retain lo hi ?c))"
    using length_wf_map [OF wf(2)] by simp
  also have "\<dots> \<le> card {lo .. hi}" unfolding keys by (intro card_mono) auto
  also have "int (card {lo .. hi}) \<le> WindowLag (ss_cfg ss) + WindowLead (ss_cfg ss) + 1"
    unfolding lo_def hi_def using assms(2,3) by (intro retain_window) (auto simp: cfg_ok_def)
  finally have len: "int (length (cache_retain lo hi ?c)) \<le> WindowLag (ss_cfg ss) + WindowLead (ss_cfg ss) + 1"
    by simp
  have "swarm_ok (snd (Retain lo hi (SetHave idx (ss_eng ss))))"
    using assms(1) by (auto simp: sess_ok_def intro: swarm_ok_intros)
  moreover have "set (s_have (snd (Retain lo hi (SetHave idx (ss_eng ss))))) = fst ` set (cache_retain lo hi ?c)"
    unfolding Retain_have SetHave_have keys using assms(1) by (simp add: sess_ok_def del: set_keys_dom)
  ultimately show ?thesis
    unfolding sess_ok_def eq using wf(2) len assms(1) by (simp add: sess_ok_def del: set_keys_dom)
qed

lemma sess_ok_upd [simp]:
  "sess_ok (ss\<lparr>ss_hashes := hs\<rparr>) = sess_ok ss" "sess_ok (ss\<lparr>ss_lastIdx := i\<rparr>) = sess_ok ss"
  by (simp_all add: sess_ok_def)

lemma on_eng_frame [simp]:
  "ss_cfg (on_eng f ss) = ss_cfg ss" "ss_lastIdx (on_eng f ss) = ss_lastIdx ss" "ss_cache (on_eng f ss) = ss_cache ss"
  "ss_hashes (on_eng f ss) = ss_hashes ss" "ss_host (on_eng f ss) = ss_host ss" "ss_contentID (on_eng f ss) = ss_contentID ss"
  "ss_uploads (on_eng f ss) = ss_uploads ss" "ss_eng (on_eng f ss) = f (ss_eng ss)"
  by (simp_all add: on_eng_def)

lemma sess_store_frame [simp]:
  "ss_cfg (sess_store i d ss) = ss_cfg ss" "ss_lastIdx (sess_store i d ss) = ss_lastIdx ss"
  "ss_hashes (sess_store i d ss) = ss_hashes ss" "ss_host (sess_store i d ss) = ss_host ss"
  "ss_contentID (sess_store i d ss) = ss_contentID ss" "ss_uploads (sess_store i d ss) = ss_uploads ss"
  by (simp_all add: sess_store_def Let_def)

lemma sess_ok_Demote: "sess_ok ss \<Longrightarrow> sess_ok (on_eng (Demote src) ss)"
  using sess_ok_eng1 [of ss "OpDemote src"] by (simp add: peer_op_def on_eng_def)

lemma sess_ok_MarkBusy: "sess_ok ss \<Longrightarrow> sess_ok (on_eng (MarkBusy src now) ss)"
  using sess_ok_eng1 [of ss "OpBusy src now"] by (simp add: peer_op_def on_eng_def)

lemma pull_loop_Suc_cases [consumes 1, case_names none found again]:
  assumes "pull_loop blake tr (Suc fuel) idx segName want ss w = Some (r, ss', w')"
  obtains "SelectSource idx (t_now tr w) (ss_eng ss) = None" "r = None" "ss' = ss" "w' = w"
  | src data w1 where "SelectSource idx (t_now tr w) (ss_eng ss) = Some src" "VerifySegment blake data want"
      "r = Some data" "ss' = sess_store idx data (on_eng (fold swarm_do (t_meanwhile tr w1)) ss)"
  | src g w1 where "SelectSource idx (t_now tr w) (ss_eng ss) = Some src" "g = Demote src \<or> g = MarkBusy src (t_now tr w1)"
      "pull_loop blake tr fuel idx segName want (on_eng g (on_eng (fold swarm_do (t_meanwhile tr w1)) ss)) w1 = Some (r, ss', w')"
proof (cases "SelectSource idx (t_now tr w) (ss_eng ss)")
  case None
  have "r = None" "ss' = ss" "w' = w" using assms None by simp_all
  then show ?thesis by (rule that(1) [OF None])
next
  case (Some src)
  obtain res w1 where f: "t_fetchSwarmSegment tr src
      \<lparr>gs_party_id = ss_partyID ss, gs_rendition = swarmRendition, gs_seg_name = segName\<rparr> w = (res, w1)"
    by fastforce
  note again = that(3) [OF Some, of "Demote src" w1] that(3) [OF Some, of "MarkBusy src (t_now tr w1)" w1]
  show ?thesis
  proof (cases res)
    case (Inl err)
    then show ?thesis using assms Some f again by (cases "errors_Is err ErrNotFound") (simp_all add: Let_def)
  next
    case (Inr data)
    then show ?thesis using assms Some f again that(2) [OF Some, of data w1]
      by (cases "VerifySegment blake data want") (auto simp: Let_def)
  qed
qed

lemma pull_loop_ok:
  assumes "\<forall>w. \<forall>op \<in> set (t_meanwhile tr w). peer_op op"
    and "sess_ok ss" and "cfg_ok (ss_cfg ss)" and "in_i64 (ss_lastIdx ss)"
    and "pull_loop blake tr fuel idx segName want ss w = Some (r, ss', w')"
  shows "sess_ok ss' \<and> ss_cfg ss' = ss_cfg ss \<and> ss_lastIdx ss' = ss_lastIdx ss \<and> ss_uploads ss' = ss_uploads ss"
  using assms(2-)
proof (induction fuel arbitrary: ss w)
  case 0
  then show ?case by simp
next
  case (Suc fuel)
  have ok: "sess_ok (on_eng (fold swarm_do (t_meanwhile tr w1)) ss)" for w1
    using assms(1) Suc.prems(1) by (intro sess_ok_eng) auto
  from Suc.prems(4) show ?case
  proof (cases rule: pull_loop_Suc_cases)
    case none
    then show ?thesis using Suc.prems by simp
  next
    case (found src data w1)
    then show ?thesis using sess_store_ok [OF ok] Suc.prems by simp
  next
    case (again src g w1)
    then have "sess_ok (on_eng g (on_eng (fold swarm_do (t_meanwhile tr w1)) ss))"
      using sess_ok_Demote [OF ok] sess_ok_MarkBusy [OF ok] by auto
    from Suc.IH [OF this _ _ again(3)] show ?thesis using Suc.prems by simp
  qed
qed

lemma expectedHash_frame:
  "expectedHash tr segName ss w = (want, ss', w') \<Longrightarrow> \<exists>hs. ss' = ss\<lparr>ss_hashes := hs\<rparr>"
proof -
  assume h: "expectedHash tr segName ss w = (want, ss', w')"
  have ex: "\<exists>hs. s = s\<lparr>ss_hashes := hs\<rparr>" for s :: swarmSession by (rule exI [of _ "ss_hashes s"]) simp
  show ?thesis using h by (auto simp: expectedHash_def Let_def intro: ex split: option.splits sum.splits prod.splits)
qed

lemma SegIndex_in_i64: "SegIndex n = Some i \<Longrightarrow> in_i64 i"
  by (auto simp: SegIndex_def Atoi_in_i64 split: if_splits)

lemma FetchSegment_ok:
  assumes "\<forall>w. \<forall>op \<in> set (t_meanwhile tr w). peer_op op"
    and "sess_ok ss" and "cfg_ok (ss_cfg ss)" 
    and "FetchSegment blake tr fuel segName ss w = Some (r, ss', w')"
  shows "sess_ok ss' \<and> ss_cfg ss' = ss_cfg ss \<and> ss_uploads ss' = ss_uploads ss"
proof (cases "SegIndex segName")
  case None
  then show ?thesis using assms by (auto simp: FetchSegment_def split: prod.splits)
next
  case (Some idx)
  let ?ss0 = "ss\<lparr>ss_lastIdx := idx\<rparr>"
  show ?thesis
  proof (cases "cache_get (ss_cache ss) idx")
    case (Some b)
    then show ?thesis using assms \<open>SegIndex segName = Some idx\<close> by (auto simp: FetchSegment_def Let_def)
  next
    case None
    obtain want ss1 w1 where e: "expectedHash tr segName ?ss0 w = (want, ss1, w1)" by (metis prod_cases3)
    obtain hs where ss1: "ss1 = ?ss0\<lparr>ss_hashes := hs\<rparr>" using expectedHash_frame [OF e] by blast
    obtain d ss2 w2 where l: "(if want \<noteq> '''' then pull_loop blake tr fuel idx segName want ss1 w1
        else Some (None, ss1, w1)) = Some (d, ss2, w2)"
      using assms(4) None e \<open>SegIndex segName = Some idx\<close>
      by (auto simp: FetchSegment_def Let_def split: option.splits)
    have ok1: "sess_ok ss1" "cfg_ok (ss_cfg ss1)" "in_i64 (ss_lastIdx ss1)"
      using assms(2,3) SegIndex_in_i64 [OF Some] by (simp_all add: ss1)
    have ss2: "sess_ok ss2 \<and> ss_cfg ss2 = ss_cfg ss1 \<and> ss_lastIdx ss2 = ss_lastIdx ss1 \<and> ss_uploads ss2 = ss_uploads ss1"
    proof (cases "want = ''''")
      case True
      then show ?thesis using l ok1 by simp
    next
      case False
      then show ?thesis using l pull_loop_ok [OF assms(1) ok1] by simp
    qed
    then have st: "sess_ok (sess_store idx data ss2)" for data using ok1 by (intro sess_store_ok) auto
    have "ss' = ss2 \<or> (\<exists>data. ss' = sess_store idx data ss2)"
      using assms(4) None e l \<open>SegIndex segName = Some idx\<close>
      by (cases d) (auto simp: FetchSegment_def Let_def split: prod.splits sum.splits if_splits)
    then show ?thesis using ss2 st by (auto simp: ss1)
  qed
qed

section \<open>Reachable sessions\<close>

inductive sess_step ::
  "(bytes \<Rightarrow> bytes) \<Rightarrow> 'w transport \<Rightarrow> swarmSession \<times> 'w \<Rightarrow> swarmSession \<times> 'w \<Rightarrow> bool"
  for blake tr where
  step_audience: "sess_step blake tr (ss, w) (fst (setPeers members ss), w)"
| step_have: "sess_step blake tr (ss, w) (OnSwarmHave remote h (t_now tr w) ss, w)"
| step_serve: "sess_step blake tr (ss, w) (snd (SwarmSegment req ss), w)"
| step_release: "0 < ss_uploads ss \<Longrightarrow> sess_step blake tr (ss, w) (upload_release ss, w)"
| step_gossip: "sess_step blake tr (ss, w) (snd (gossip_tick intn (t_now tr w) rtt ss), w)"
| step_fetch: "FetchSegment blake tr fuel segName ss w = Some (r, ss', w') \<Longrightarrow> sess_step blake tr (ss, w) (ss', w')"

inductive_cases sess_stepE: "sess_step blake tr (ss, w) (ss', w')"

lemma gossip_eng:
  "\<exists>ops. (\<forall>op \<in> set ops. peer_op op) \<and> snd (gossip_tick intn now rtt ss) = on_eng (fold swarm_do ops) ss"
proof -
  obtain base bitmap epoch where h: "HaveMsg (ExpireStale now (ss_eng ss)) = (base, bitmap, epoch)" by (metis prod_cases3)
  let ?ts = "GossipTargets intn (ExpireStale now (ss_eng ss))"
  let ?ops = "concat (map (\<lambda>tgt. case rtt tgt of None \<Rightarrow> [] | Some d \<Rightarrow> [OpRTT tgt d]) ?ts)"
  have f: "fold (\<lambda>tgt e. case rtt tgt of None \<Rightarrow> e | Some d \<Rightarrow> Swarm_OnRTT tgt d e) ts e =
        fold swarm_do (concat (map (\<lambda>tgt. case rtt tgt of None \<Rightarrow> [] | Some d \<Rightarrow> [OpRTT tgt d]) ts)) e" for ts e
    by (induction ts arbitrary: e) (auto split: option.splits)
  have "snd (gossip_tick intn now rtt ss) = on_eng (fold swarm_do (OpExpire now # ?ops)) ss"
    by (simp add: gossip_tick_def h Let_def on_eng_def f)
  moreover have "\<forall>op \<in> set (OpExpire now # ?ops). peer_op op" by (auto simp: peer_op_def split: option.splits)
  ultimately show ?thesis by blast
qed

lemma sess_step_ok:
  assumes "\<forall>w. \<forall>op \<in> set (t_meanwhile tr w). peer_op op"
  shows "sess_step blake tr (ss, w) (ss', w') \<Longrightarrow> sess_ok ss \<Longrightarrow> cfg_ok (ss_cfg ss) \<Longrightarrow>
    sess_ok ss' \<and> ss_cfg ss' = ss_cfg ss"
proof (induction rule: sess_stepE [consumes 1])
  case (1 members)
  then show ?case using sess_ok_eng1 [of ss "OpSetPeers members"]
    by (simp add: setPeers_def peer_op_def on_eng_def)
next
  case (2 remote h)
  then show ?case
    using sess_ok_eng1 [of ss "OpPeerHave remote (sh_base_index h) (sh_bitmap h) (sh_epoch h) (t_now tr w)"]
    by (simp add: OnSwarmHave_def peer_op_def on_eng_def)
next
  case (3 req)
  then show ?case by (auto simp: SwarmSegment_def sess_ok_def Let_def split: option.splits)
next
  case 4
  then show ?case by (simp add: upload_release_def sess_ok_def)
next
  case (5 intn rtt)
  then show ?case using gossip_eng [of intn "t_now tr w" rtt ss] sess_ok_eng [of ss] by auto
next
  case (6 fuel segName r)
  then show ?case using FetchSegment_ok [OF assms] by blast
qed

lemma sess_reachable_ok:
  assumes "\<forall>w. \<forall>op \<in> set (t_meanwhile tr w). peer_op op" and "cfg_ok (ss_cfg ss)" and "sess_ok ss"
    and "(sess_step blake tr)\<^sup>*\<^sup>* (ss, w) (ss', w')"
  shows "sess_ok ss' \<and> ss_cfg ss' = ss_cfg ss"
  using assms(4)
proof (induction "(ss', w')" arbitrary: ss' w' rule: rtranclp_induct)
  case base
  then show ?case using assms by simp
next
  case (step y)
  obtain ss1 w1 where y: "y = (ss1, w1)" by fastforce
  then show ?case using step sess_step_ok [OF assms(1), of blake ss1 w1 ss' w'] assms(2) by auto
qed


section \<open>Authenticity\<close>

definition auth_ok :: "(bytes \<Rightarrow> bytes) \<Rightarrow> (int \<Rightarrow> bytes) \<Rightarrow> swarmSession \<Rightarrow> bool" where
  "auth_ok blake orig ss \<longleftrightarrow>
     (\<forall>i d. cache_get (ss_cache ss) i = Some d \<longrightarrow> d = orig i) \<and>
     (\<forall>n x i. map_of (ss_hashes ss) n = Some x \<and> SegIndex n = Some i \<longrightarrow> x = hex_EncodeToString (blake (orig i)))"

lemma auth_ok_frame [simp]:
  "auth_ok blake orig (on_eng f ss) = auth_ok blake orig ss"
  "auth_ok blake orig (ss\<lparr>ss_lastIdx := i\<rparr>) = auth_ok blake orig ss"
  "auth_ok blake orig (ss\<lparr>ss_uploads := u\<rparr>) = auth_ok blake orig ss"
  "auth_ok blake orig (ss\<lparr>ss_eng := e\<rparr>) = auth_ok blake orig ss"
  by (simp_all add: auth_ok_def)

lemma auth_ok_store: "auth_ok blake orig ss \<Longrightarrow> auth_ok blake orig (sess_store i (orig i) ss)"
  by (auto simp: auth_ok_def sess_store_def Let_def cache_get_def cache_retain_def cache_put_def map_of_filter_key
      split: if_splits)

lemma fold_update_map_of:
  "map_of (fold (\<lambda>(k, v). AList.update k v) kvs m) n =
     (case map_of (rev kvs) n of Some v \<Rightarrow> Some v | None \<Rightarrow> map_of m n)"
  by (induction kvs arbitrary: m) (auto simp: map_add_def split: option.splits)

lemma wf_parse_fold: "wf_map (fst st) \<Longrightarrow> wf_map (fst (fold parse_line lns st))"
  by (induction lns arbitrary: st) (auto simp: parse_line_def Let_def split: prod.splits)

lemma wf_ParseHashes: "wf_map (ParseHashes pl)"
  unfolding ParseHashes_def by (rule wf_parse_fold) simp

lemma ParseHashes_rev: "map_of (rev (ParseHashes pl)) = map_of (ParseHashes pl)"
proof (rule ext, rule option.expand)
  fix n
  have wf: "wf_map (ParseHashes pl)" "wf_map (rev (ParseHashes pl))"
    using wf_ParseHashes [of pl] by (simp_all add: wf_map_def rev_map [symmetric])
  have eq: "map_of (rev (ParseHashes pl)) n = Some v \<longleftrightarrow> map_of (ParseHashes pl) n = Some v" for v
    by (simp add: map_of_mem_iff wf)
  then show "(map_of (rev (ParseHashes pl)) n = None) = (map_of (ParseHashes pl) n = None)"
    by (metis not_None_eq)
  assume "map_of (rev (ParseHashes pl)) n \<noteq> None"
  then obtain v where v: "map_of (rev (ParseHashes pl)) n = Some v" by blast
  with eq have "map_of (ParseHashes pl) n = Some v" by blast
  with v show "the (map_of (rev (ParseHashes pl)) n) = the (map_of (ParseHashes pl) n)" by simp
qed

lemma VerifySegment_orig:
  assumes "VerifySegment blake d (hex_EncodeToString (blake o1))" and "\<forall>d. blake d = blake o1 \<longrightarrow> d = o1"
  shows "d = o1"
  using assms by (auto simp: VerifySegment_hex)

lemma expectedHash_auth:
  assumes all: "\<forall>m h c n w w' pl x i. t_hostPlaylist tr h c n w = (Inr pl, w') \<and> SegIndex m = Some i \<and>
        map_of (ParseHashes pl) m = Some x \<longrightarrow> x = hex_EncodeToString (blake (orig i))"
    and "auth_ok blake orig ss" and "expectedHash tr m ss w = (want, ss', w')" and "SegIndex m = Some i"
  shows "auth_ok blake orig ss' \<and> (want \<noteq> '''' \<longrightarrow> want = hex_EncodeToString (blake (orig i)))"
proof (cases "map_of (ss_hashes ss) m")
  case (Some h)
  then show ?thesis using assms by (auto simp: expectedHash_def auth_ok_def)
next
  case None
  obtain r w1 where r: "t_hostPlaylist tr (ss_host ss) (ss_contentID ss) ''index.m3u8'' w = (r, w1)" by fastforce
  show ?thesis
  proof (cases r)
    case (Inl e)
    then show ?thesis using None r assms(2,3) by (auto simp: expectedHash_def)
  next
    case (Inr p)
    let ?hs = "fold (\<lambda>(k, v). AList.update k v) (ParseHashes p) (ss_hashes ss)"
    have hs: "x = hex_EncodeToString (blake (orig j))" if "map_of ?hs n = Some x" "SegIndex n = Some j" for n x j
      using that assms(2) all r Inr
      by (auto simp: fold_update_map_of ParseHashes_rev auth_ok_def split: option.splits)
    have "ss' = ss\<lparr>ss_hashes := ?hs\<rparr>" "want = (case map_of ?hs m of None \<Rightarrow> '''' | Some h \<Rightarrow> h)"
      using assms(3) None r Inr by (simp_all add: expectedHash_def Let_def)
    then show ?thesis using hs assms(2,4) by (auto simp: auth_ok_def split: option.splits)
  qed
qed

lemma pull_loop_auth:
  assumes "\<forall>d. blake d = blake (orig idx) \<longrightarrow> d = orig idx" and "auth_ok blake orig ss"
    and "pull_loop blake tr fuel idx segName (hex_EncodeToString (blake (orig idx))) ss w = Some (r, ss', w')"
  shows "auth_ok blake orig ss' \<and> (\<forall>d. r = Some d \<longrightarrow> d = orig idx)"
  using assms(2,3)
proof (induction fuel arbitrary: ss w)
  case 0
  then show ?case by simp
next
  case (Suc fuel)
  from Suc.prems(2) show ?case
  proof (cases rule: pull_loop_Suc_cases)
    case none
    then show ?thesis using Suc.prems by simp
  next
    case (found src data w1)
    from VerifySegment_orig [OF found(2) assms(1)] show ?thesis
      using found Suc.prems(1) by (simp add: auth_ok_store)
  next
    case (again src g w1)
    then show ?thesis using Suc.IH [OF _ again(3)] Suc.prems(1) by simp
  qed
qed

lemma FetchSegment_auth:
  assumes coll: "\<forall>i d. blake d = blake (orig i) \<longrightarrow> d = orig i"
    and host_pl: "\<forall>m h c n w w' pl x i. t_hostPlaylist tr h c n w = (Inr pl, w') \<and> SegIndex m = Some i \<and>
        map_of (ParseHashes pl) m = Some x \<longrightarrow> x = hex_EncodeToString (blake (orig i))"
    and host_seg: "\<forall>h c n w w' d i. t_hostSegment tr h c n w = (Inr d, w') \<and> SegIndex n = Some i \<longrightarrow> d = orig i"
    and ok: "auth_ok blake orig ss"
    and fetch: "FetchSegment blake tr fuel segName ss w = Some (r, ss', w')"
  shows "auth_ok blake orig ss' \<and> (\<forall>d i. r = Inr d \<and> SegIndex segName = Some i \<longrightarrow> d = orig i)"
proof (cases "SegIndex segName")
  case None
  then show ?thesis using fetch ok by (auto simp: FetchSegment_def split: prod.splits)
next
  case idx: (Some idx)
  let ?ss0 = "ss\<lparr>ss_lastIdx := idx\<rparr>"
  have ok0: "auth_ok blake orig ?ss0" using ok by simp
  show ?thesis
  proof (cases "cache_get (ss_cache ss) idx")
    case (Some b)
    then show ?thesis using fetch idx ok by (auto simp: FetchSegment_def Let_def auth_ok_def)
  next
    case None
    obtain want ss1 w1 where e: "expectedHash tr segName ?ss0 w = (want, ss1, w1)" by (metis prod_cases3)
    note e1 = expectedHash_auth [OF host_pl ok0 e idx]
    obtain d ss2 w2 where l: "(if want \<noteq> '''' then pull_loop blake tr fuel idx segName want ss1 w1
        else Some (None, ss1, w1)) = Some (d, ss2, w2)"
      using fetch None e idx by (auto simp: FetchSegment_def Let_def split: option.splits)
    have ss2: "auth_ok blake orig ss2 \<and> (\<forall>x. d = Some x \<longrightarrow> x = orig idx)"
    proof (cases "want = ''''")
      case True
      then show ?thesis using l e1 by auto
    next
      case False
      then have "want = hex_EncodeToString (blake (orig idx))" using e1 by simp
      then show ?thesis using l False e1 coll pull_loop_auth [of blake orig idx ss1] by fastforce
    qed
    have h: "t_hostSegment tr h c segName w2 = (Inr x, w3) \<Longrightarrow> x = orig idx" for h c x w3
      using host_seg idx by blast
    show ?thesis
    proof (cases d)
      case (Some x)
      then show ?thesis using fetch None e l idx ss2 by (auto simp: FetchSegment_def Let_def)
    next
      case None': None
      then show ?thesis using fetch None e l idx ss2 h auth_ok_store [of blake orig ss2 idx]
        by (auto simp: FetchSegment_def Let_def split: prod.splits sum.splits if_splits)
    qed
  qed
qed

lemma sess_step_auth:
  assumes "\<forall>i d. blake d = blake (orig i) \<longrightarrow> d = orig i"
    and "\<forall>m h c n w w' pl x i. t_hostPlaylist tr h c n w = (Inr pl, w') \<and> SegIndex m = Some i \<and>
        map_of (ParseHashes pl) m = Some x \<longrightarrow> x = hex_EncodeToString (blake (orig i))"
    and "\<forall>h c n w w' d i. t_hostSegment tr h c n w = (Inr d, w') \<and> SegIndex n = Some i \<longrightarrow> d = orig i"
  shows "sess_step blake tr (ss, w) (ss', w') \<Longrightarrow> auth_ok blake orig ss \<Longrightarrow> auth_ok blake orig ss'"
proof (induction rule: sess_stepE [consumes 1])
  case (5 intn rtt)
  then show ?case using gossip_eng [of intn "t_now tr w" rtt ss] by auto
next
  case (6 fuel segName r)
  then show ?case using FetchSegment_auth [OF assms] by blast
qed (auto simp: setPeers_def OnSwarmHave_def SwarmSegment_def upload_release_def Let_def split: option.splits)

lemma auth_ok_reachable:
  assumes "\<forall>i d. blake d = blake (orig i) \<longrightarrow> d = orig i"
    and "\<forall>m h c n w w' pl x i. t_hostPlaylist tr h c n w = (Inr pl, w') \<and> SegIndex m = Some i \<and>
        map_of (ParseHashes pl) m = Some x \<longrightarrow> x = hex_EncodeToString (blake (orig i))"
    and "\<forall>h c n w w' d i. t_hostSegment tr h c n w = (Inr d, w') \<and> SegIndex n = Some i \<longrightarrow> d = orig i"
    and "auth_ok blake orig ss0" and "(sess_step blake tr)\<^sup>*\<^sup>* (ss0, w0) (ss, w)"
  shows "auth_ok blake orig ss"
  using assms(5)
proof (induction "(ss, w)" arbitrary: ss w rule: rtranclp_induct)
  case base
  then show ?case using assms(4) by simp
next
  case (step y)
  obtain ss1 w1 where "y = (ss1, w1)" by fastforce
  then show ?case using step sess_step_auth [OF assms(1-3)] by blast
qed

text \<open>
  C1. Mesh playback is authentic: let the Host publish the true hashes and serve the true bytes \<open>orig i\<close> of
  Segment \<open>i\<close>, and let no other bytes have the hash of a Segment. Then in every reachable state of a
  session, whatever its peers gossip and send, a Segment fetch that returns bytes returns the true ones,
  and every Segment the session serves to a peer is true.
\<close>
theorem mesh_segments_authentic:
  assumes coll: "\<forall>i d. blake d = blake (orig i) \<longrightarrow> d = orig i"
    and host_pl: "\<forall>m h c n w w' pl x i. t_hostPlaylist tr h c n w = (Inr pl, w') \<and> SegIndex m = Some i \<and>
        map_of (ParseHashes pl) m = Some x \<longrightarrow> x = hex_EncodeToString (blake (orig i))"
    and host_seg: "\<forall>h c n w w' d i. t_hostSegment tr h c n w = (Inr d, w') \<and> SegIndex n = Some i \<longrightarrow> d = orig i"
    and reach: "(sess_step blake tr)\<^sup>*\<^sup>* (newSwarmSession self host cid cfg, w0) (ss, w)"
    and i: "SegIndex segName = Some i"
  shows "(FetchSegment blake tr fuel segName ss w = Some (Inr d, ss', w') \<longrightarrow> d = orig i) \<and>
         (SwarmSegment \<lparr>gs_party_id = pid, gs_rendition = rend, gs_seg_name = segName\<rparr> ss = (Inr d, ss'') \<longrightarrow> d = orig i)"
proof -
  have "auth_ok blake orig (newSwarmSession self host cid cfg)"
    by (simp add: auth_ok_def newSwarmSession_def newSegCache_def cache_get_def)
  from auth_ok_reachable [OF coll host_pl host_seg this reach] have ok: "auth_ok blake orig ss" .
  then show ?thesis using FetchSegment_auth [OF coll host_pl host_seg ok] i
    by (auto simp: SwarmSegment_def auth_ok_def Let_def split: option.splits if_splits)
qed

section \<open>Termination of the retry loop\<close>

definition usable :: "time \<Rightarrow> SwarmConfig \<Rightarrow> NodeID \<times> peerInfo \<Rightarrow> bool" where
  \<comment> \<open>may still be selected before \<open>T + BusyCooldown\<close>\<close>
  "usable T cfg = (\<lambda>(n, p). \<not> p_demoted p \<and> p_busyUntil p < T + BusyCooldown cfg)"

lemma filter_update_less:
  "map_of m k = Some v \<Longrightarrow> P (k, v) \<Longrightarrow> \<not> P (k, v') \<Longrightarrow>
     length (filter P (AList.update k v' m)) < length (filter P m)"
proof (induction m)
  case (Cons x m)
  then show ?case by (cases x) (auto split: if_splits)
qed simp

lemma upd_peer_usable:
  assumes "map_of (s_peers s) src = Some p" and "usable T cfg (src, p)" and "\<not> usable T cfg (src, f p)"
  shows "length (filter (usable T cfg) (s_peers (upd_peer src f s))) < length (filter (usable T cfg) (s_peers s))"
  using filter_update_less [OF assms] assms(1) by (simp add: upd_peer_def)

lemma pull_loop_returns:
  assumes alone: "\<forall>w. P w \<longrightarrow> t_meanwhile tr w = []" and closed: "\<forall>w src req. P w \<longrightarrow> P (snd (t_fetchSwarmSegment tr src req w))"
    and clock: "\<forall>w. P w \<longrightarrow> T \<le> t_now tr w \<and> t_now tr w < T + BusyCooldown (s_cfg (ss_eng ss))"
    and "P w" and "swarm_ok (ss_eng ss)"
    and "length (filter (usable T (s_cfg (ss_eng ss))) (s_peers (ss_eng ss))) < fuel"
  shows "pull_loop blake tr fuel idx segName want ss w \<noteq> None"
  using assms(3-)
proof (induction fuel arbitrary: ss w)
  case 0
  then show ?case by simp
next
  case (Suc fuel)
  let ?cfg = "s_cfg (ss_eng ss)"
  show ?case
  proof (cases "SelectSource idx (t_now tr w) (ss_eng ss)")
    case None
    then show ?thesis by simp
  next
    case (Some src)
    obtain p where p: "(src, p) \<in> set (s_peers (ss_eng ss))" "eligible idx (t_now tr w) p"
      using SelectSource_Some [OF Some] by blast
    have mp: "map_of (s_peers (ss_eng ss)) src = Some p"
      using p(1) Suc.prems(3) by (simp add: swarm_ok_def map_of_mem_iff)
    have us: "usable T ?cfg (src, p)" using p(2) Suc.prems(1,2) by (auto simp: usable_def eligible_def)
    obtain res w1 where f: "t_fetchSwarmSegment tr src
        \<lparr>gs_party_id = ss_partyID ss, gs_rendition = swarmRendition, gs_seg_name = segName\<rparr> w = (res, w1)"
      by fastforce
    have P1: "P w1" using closed Suc.prems(2) f by (metis snd_conv)
    have again: "pull_loop blake tr fuel idx segName want (on_eng (upd_peer src g) ss) w1 \<noteq> None"
      if "\<not> usable T ?cfg (src, g p)" for g
    proof (rule Suc.IH)
      have "length (filter (usable T ?cfg) (s_peers (upd_peer src g (ss_eng ss)))) < length (filter (usable T ?cfg) (s_peers (ss_eng ss)))"
        using mp us that by (rule upd_peer_usable)
      then show "length (filter (usable T (s_cfg (ss_eng (on_eng (upd_peer src g) ss)))) (s_peers (ss_eng (on_eng (upd_peer src g) ss)))) < fuel"
        using Suc.prems(4) by simp
    qed (use Suc.prems P1 in \<open>simp_all add: swarm_ok_upd_peer\<close>)
    have d: "on_eng (Demote src) ss = on_eng (upd_peer src (\<lambda>p. p\<lparr>p_demoted := True, p_have := []\<rparr>)) ss"
      by (simp add: on_eng_def Demote_def)
    have b: "on_eng (MarkBusy src (t_now tr w1)) ss =
        on_eng (upd_peer src (\<lambda>p. p\<lparr>p_busyUntil := time_add (t_now tr w1) (BusyCooldown ?cfg)\<rparr>)) ss"
      by (simp add: on_eng_def MarkBusy_def)
    have "pull_loop blake tr fuel idx segName want (on_eng (Demote src) ss) w1 \<noteq> None"
      unfolding d by (rule again) (simp add: usable_def)
    moreover have "pull_loop blake tr fuel idx segName want (on_eng (MarkBusy src (t_now tr w1)) ss) w1 \<noteq> None"
      unfolding b by (rule again) (use Suc.prems(1) P1 in \<open>auto simp: usable_def time_add_def\<close>)
    moreover have "on_eng (fold swarm_do (t_meanwhile tr w1)) ss = ss" using alone P1 by (simp add: on_eng_def)
    ultimately show ?thesis using Some f by (auto split: sum.splits simp: Let_def)
  qed
qed

lemma FetchSegment_host_up:
  assumes ne: "\<forall>i. blake (orig i) \<noteq> []"
    and host_pl: "\<forall>m h c n w w' pl x i. t_hostPlaylist tr h c n w = (Inr pl, w') \<and> SegIndex m = Some i \<and>
        map_of (ParseHashes pl) m = Some x \<longrightarrow> x = hex_EncodeToString (blake (orig i))"
    and host_up: "\<forall>h c n w i. SegIndex n = Some i \<longrightarrow> fst (t_hostSegment tr h c n w) = Inr (orig i)"
    and auth: "auth_ok blake orig ss" and i: "SegIndex segName = Some i"
  shows "FetchSegment blake tr fuel segName ss w \<noteq> Some (Inl e, ss', w')"
proof (cases "cache_get (ss_cache ss) i")
  case (Some b)
  then show ?thesis using i by (simp add: FetchSegment_def Let_def)
next
  case None
  obtain want ss1 w1 where e: "expectedHash tr segName (ss\<lparr>ss_lastIdx := i\<rparr>) w = (want, ss1, w1)" by (metis prod_cases3)
  have a0: "auth_ok blake orig (ss\<lparr>ss_lastIdx := i\<rparr>)" using auth by simp
  have "want \<noteq> '''' \<longrightarrow> want = hex_EncodeToString (blake (orig i))"
    using expectedHash_auth [OF host_pl a0 e i] by simp
  then have v: "want \<noteq> '''' \<longrightarrow> VerifySegment blake (orig i) want" using ne by (auto simp: VerifySegment_hex)
  have h: "t_hostSegment tr h c segName w2 = (r, w3) \<Longrightarrow> r = Inr (orig i)" for h c w2 r w3
    using host_up i by (metis fst_conv)
  show ?thesis using i None e v
    by (auto simp: FetchSegment_def Let_def dest!: h split: option.splits prod.splits sum.splits if_splits)
qed


section \<open>Without a pull timeout the loop need not end\<close>

definition wants :: "int \<Rightarrow> NodeID \<Rightarrow> Swarm \<Rightarrow> time \<Rightarrow> bool" where
  "wants idx n s t \<longleftrightarrow> (\<exists>p. map_of (s_peers s) n = Some p \<and> \<not> p_demoted p \<and> idx \<in> set (p_have p) \<and> p_busyUntil p \<le> t)"

lemma wants_mono: "wants idx n s t \<Longrightarrow> t \<le> u \<Longrightarrow> wants idx n s u"
  by (fastforce simp: wants_def)

lemma wants_MarkBusy:
  "wants idx n s t \<Longrightarrow> wants idx n (MarkBusy src u s) (if n = src then u + BusyCooldown (s_cfg s) else t)"
  by (auto simp: wants_def MarkBusy_def upd_peer_map_of time_add_def)

lemma pull_loop_diverges:
  assumes alone: "\<forall>w. t_meanwhile tr w = []"
    and slow: "\<forall>src req w. \<exists>e w'. t_fetchSwarmSegment tr src req w = (Inl e, w') \<and> \<not> errors_Is e ErrNotFound \<and>
        t_now tr w + BusyCooldown (s_cfg (ss_eng ss)) \<le> t_now tr w'"
    and cd: "0 \<le> BusyCooldown (s_cfg (ss_eng ss))"
    and "a \<noteq> b" and "wants idx a (ss_eng ss) (t_now tr w) \<or> wants idx b (ss_eng ss) (t_now tr w)"
    and "wants idx a (ss_eng ss) (t_now tr w + BusyCooldown (s_cfg (ss_eng ss)))"
    and "wants idx b (ss_eng ss) (t_now tr w + BusyCooldown (s_cfg (ss_eng ss)))"
    and "swarm_ok (ss_eng ss)"
  shows "pull_loop blake tr fuel idx segName want ss w = None"
  using assms(2-)
proof (induction fuel arbitrary: ss w)
  case 0
  then show ?case by simp
next
  case (Suc fuel)
  let ?cd = "BusyCooldown (s_cfg (ss_eng ss))"
  have "SelectSource idx (t_now tr w) (ss_eng ss) \<noteq> None"
    using Suc.prems(4) unfolding SelectSource_None by (auto simp: wants_def eligible_def dest!: map_of_SomeD)
  then obtain src where src: "SelectSource idx (t_now tr w) (ss_eng ss) = Some src" by blast
  obtain e w' where f: "t_fetchSwarmSegment tr src
      \<lparr>gs_party_id = ss_partyID ss, gs_rendition = swarmRendition, gs_seg_name = segName\<rparr> w = (Inl e, w')"
    and e: "\<not> errors_Is e ErrNotFound" and t: "t_now tr w + ?cd \<le> t_now tr w'" using Suc.prems(1) by blast
  let ?ss = "on_eng (MarkBusy src (t_now tr w')) ss"
  have cfg: "s_cfg (ss_eng ?ss) = s_cfg (ss_eng ss)" by (simp add: MarkBusy_def)
  have late: "wants idx n (ss_eng ?ss) (t_now tr w')" if "n \<noteq> src" "wants idx n (ss_eng ss) (t_now tr w + ?cd)" for n
    using wants_MarkBusy [OF that(2), of src "t_now tr w'"] that(1) t by (auto intro: wants_mono)
  have cool: "wants idx n (ss_eng ?ss) (t_now tr w' + ?cd)" if "wants idx n (ss_eng ss) (t_now tr w + ?cd)" for n
  proof (cases "n = src")
    case True
    then show ?thesis using wants_MarkBusy [OF that, of src "t_now tr w'"] by simp
  next
    case False
    show ?thesis by (rule wants_mono [OF late [OF False that]]) (use Suc.prems(2) in simp)
  qed
  have "pull_loop blake tr fuel idx segName want ?ss w' = None"
  proof (rule Suc.IH)
    show "wants idx a (ss_eng ?ss) (t_now tr w') \<or> wants idx b (ss_eng ?ss) (t_now tr w')"
      using late [OF _ Suc.prems(5)] late [OF _ Suc.prems(6)] Suc.prems(3) by (cases "a = src") auto
    show "wants idx a (ss_eng ?ss) (t_now tr w' + BusyCooldown (s_cfg (ss_eng ?ss)))"
      "wants idx b (ss_eng ?ss) (t_now tr w' + BusyCooldown (s_cfg (ss_eng ?ss)))"
      unfolding cfg by (rule cool [OF Suc.prems(5)], rule cool [OF Suc.prems(6)])
    show "swarm_ok (ss_eng ?ss)" using Suc.prems(7) by (simp add: MarkBusy_def swarm_ok_upd_peer)
  qed (use Suc.prems(1-3) in \<open>simp_all add: MarkBusy_def\<close>)
  moreover have "on_eng (fold swarm_do (t_meanwhile tr w')) ss = ss" using alone by (simp add: on_eng_def)
  ultimately show ?case using src f e by (simp add: Let_def)
qed

text \<open>
  The fetch loop has no bound of its own: with two peers that advertise a Segment and whose pulls each take
  at least \<open>BusyCooldown\<close> to fail (with any error but not-found), the cooldown of one has passed when the
  other fails, so \<open>FetchSegment\<close> never returns and never falls back to the Host. The configured
  \<open>PullTimeout\<close> would bound each pull but is not used.
\<close>
theorem fetch_never_returns:
  assumes "\<forall>w. t_meanwhile tr w = []"
    and "\<forall>src req w. \<exists>e w'. t_fetchSwarmSegment tr src req w = (Inl e, w') \<and> \<not> errors_Is e ErrNotFound \<and>
        t_now tr w + BusyCooldown (s_cfg (ss_eng ss)) \<le> t_now tr w'"
    and "0 \<le> BusyCooldown (s_cfg (ss_eng ss))" and "swarm_ok (ss_eng ss)"
    and "SegIndex segName = Some idx" and "cache_get (ss_cache ss) idx = None"
    and "map_of (ss_hashes ss) segName = Some want" and "want \<noteq> ''''"
    and "a \<noteq> b" and "wants idx a (ss_eng ss) (t_now tr w)" and "wants idx b (ss_eng ss) (t_now tr w)"
  shows "FetchSegment blake tr fuel segName ss w = None"
proof -
  have "wants idx n (ss_eng ss) (t_now tr w + BusyCooldown (s_cfg (ss_eng ss)))" if "wants idx n (ss_eng ss) (t_now tr w)" for n
    using that assms(3) by (auto intro: wants_mono)
  then have "pull_loop blake tr fuel idx segName want (ss\<lparr>ss_lastIdx := idx\<rparr>) w = None"
    using assms by (intro pull_loop_diverges [where a = a and b = b]) auto
  then show ?thesis using assms(5-8) by (simp add: FetchSegment_def Let_def expectedHash_def)
qed

section \<open>Example network\<close>

definition example_blake :: "bytes \<Rightarrow> bytes" where "example_blake d = 1 # d"

definition example_orig :: "int \<Rightarrow> bytes" where "example_orig i = [7, 8]"

definition example_playlist :: bytes where
  "example_playlist = bytes_of_string (''#EXT-X-P2P-HASH:010708'' @ [CHR 0x0A] @ ''seg00000.ts'')"

definition example_net :: "int transport" where
  \<comment> \<open>the world is the clock; every peer sends poison; the Host is honest\<close>
  "example_net =
     \<lparr>t_now = (\<lambda>w. w), t_fetchSwarmSegment = (\<lambda>src req w. (Inr [66], w)),
      t_hostPlaylist = (\<lambda>h c n w. (Inr example_playlist, w)),
      t_hostSegment = (\<lambda>h c n w. (Inr [7, 8], w)), t_meanwhile = (\<lambda>w. [])\<rparr>"

definition example_sess :: swarmSession where
  "example_sess = OnSwarmHave ''a'' \<lparr>sh_party_id = ''p'', sh_rendition = ''v0'', sh_base_index = 0, sh_bitmap = [1], sh_epoch = 1\<rparr>
     5 (fst (setPeers [''a'', ''b''] (newSwarmSession ''me'' ''host'' ''cid'' SwarmDefaultConfig)))"

lemma example_parse: "ParseHashes example_playlist = [(''seg00000.ts'', ''010708'')]"
  by code_simp

lemma example_hash: "hex_EncodeToString (example_blake (example_orig i)) = ''010708''"
  unfolding example_blake_def example_orig_def by code_simp

lemma example_coll: "\<forall>i d. example_blake d = example_blake (example_orig i) \<longrightarrow> d = example_orig i"
  by (simp add: example_blake_def)

lemma example_host_pl:
  "\<forall>m h c n w w' pl x i. t_hostPlaylist example_net h c n w = (Inr pl, w') \<and> SegIndex m = Some i \<and>
     map_of (ParseHashes pl) m = Some x \<longrightarrow> x = hex_EncodeToString (example_blake (example_orig i))"
  by (auto simp: example_net_def example_parse example_hash split: if_splits)

lemma example_cfg_ok: "cfg_ok SwarmDefaultConfig"
  by (simp add: cfg_ok_def SwarmDefaultConfig_def)

lemma example_reach:
  "(sess_step example_blake example_net)\<^sup>*\<^sup>* (newSwarmSession ''me'' ''host'' ''cid'' SwarmDefaultConfig, 5) (example_sess, 5)"
proof -
  let ?n = "newSwarmSession ''me'' ''host'' ''cid'' SwarmDefaultConfig"
  have "sess_step example_blake example_net (?n, 5) (fst (setPeers [''a'', ''b''] ?n), 5)" by (rule step_audience)
  moreover have "sess_step example_blake example_net (fst (setPeers [''a'', ''b''] ?n), 5) (example_sess, 5)"
    using step_have [of example_blake example_net _ 5] by (simp add: example_sess_def example_net_def)
  ultimately show ?thesis by (meson rtranclp.rtrancl_into_rtrancl rtranclp.rtrancl_refl)
qed


theorem mesh_segments_authentic_witness:
  "\<exists>d. map_option fst (FetchSegment example_blake example_net 3 ''seg00000.ts'' example_sess 5) = Some (Inr d) \<and> d = [7, 8]"
proof -
  have s: "\<forall>h c n w w' d i. t_hostSegment example_net h c n w = (Inr d, w') \<and> SegIndex n = Some i \<longrightarrow> d = example_orig i"
    by (simp add: example_net_def example_orig_def)
  have i: "SegIndex ''seg00000.ts'' = Some 0" by code_simp
  have f: "map_option (\<lambda>r. isl (fst r)) (FetchSegment example_blake example_net 3 ''seg00000.ts'' example_sess 5) = Some False"
    by code_simp
  then obtain d ss' w' where "FetchSegment example_blake example_net 3 ''seg00000.ts'' example_sess 5 = Some (Inr d, ss', w')"
    by (cases "fst (the (FetchSegment example_blake example_net 3 ''seg00000.ts'' example_sess 5))") auto
  with mesh_segments_authentic [OF example_coll example_host_pl s example_reach i] show ?thesis
    by (auto simp: example_orig_def)
qed


definition example_slow :: "int transport" where
  "example_slow = example_net\<lparr>t_fetchSwarmSegment := (\<lambda>src req w. (Inl ErrBusy, w + 2 * second))\<rparr>"

definition example_two :: swarmSession where
  "example_two = OnSwarmHave ''b'' \<lparr>sh_party_id = ''p'', sh_rendition = ''v0'', sh_base_index = 0, sh_bitmap = [1], sh_epoch = 1\<rparr>
     5 (example_sess\<lparr>ss_hashes := [(''seg00000.ts'', ''010708'')]\<rparr>)"

theorem fetch_never_returns_witness:
  "FetchSegment example_blake example_slow 1000000 ''seg00000.ts'' example_two 5 = None"
proof (rule fetch_never_returns [where a = "''a''" and b = "''b''" and want = "''010708''"])
  have c: "s_cfg (ss_eng example_two) = SwarmDefaultConfig" by code_simp
  show "0 \<le> BusyCooldown (s_cfg (ss_eng example_two))" by code_simp
  show "\<forall>src req w. \<exists>e w'. t_fetchSwarmSegment example_slow src req w = (Inl e, w') \<and> \<not> errors_Is e ErrNotFound \<and>
      t_now example_slow w + BusyCooldown (s_cfg (ss_eng example_two)) \<le> t_now example_slow w'"
    unfolding c by (simp add: example_slow_def example_net_def SwarmDefaultConfig_def second_def)
  show "swarm_ok (ss_eng example_two)" "SegIndex ''seg00000.ts'' = Some 0" "cache_get (ss_cache example_two) 0 = None"
    "map_of (ss_hashes example_two) ''seg00000.ts'' = Some ''010708''" by code_simp+
  have "map_of (s_peers (ss_eng example_two)) ''a'' = Some (fresh_peer\<lparr>p_have := [0], p_epoch := 1, p_lastSeen := 5\<rparr>)"
    "map_of (s_peers (ss_eng example_two)) ''b'' = Some (fresh_peer\<lparr>p_have := [0], p_epoch := 1, p_lastSeen := 5\<rparr>)" by code_simp+
  then show "wants 0 ''a'' (ss_eng example_two) (t_now example_slow 5)" "wants 0 ''b'' (ss_eng example_two) (t_now example_slow 5)"
    by (simp_all add: wants_def fresh_peer_def example_slow_def example_net_def)
qed (simp_all add: example_slow_def example_net_def)

end
