(* ===== verification/Party_Coordinator.thy ===== *)
theory Party_Coordinator
  imports Danmaku Swarm_Session
begin

text \<open>
  The watch-party coordinator of a Node, \<open>internal/app/party.go\<close>: it owns the Host engine when the Node
  hosts a party and the Viewer engine and the mesh session when it follows one, answers the party messages
  of the peers and serves the player's socket.

  Each method is a function on the record \<open>partyCoordinator\<close>. What it does outside is logged in the
  record: the envelopes passed to \<open>send.sendTo\<close>, the calls of \<open>ensurePeer\<close>, the calls of the
  callbacks \<open>onAudience\<close> and \<open>onPartyEnded\<close> (which the Node always installs), and the outcome of
  each \<open>close\<close> of a mesh session (\<open>None\<close>: a close of a closed channel, a panic). The clock and the
  results of calls into the network are arguments; \<open>gc\<close> is the grapheme segmentation of \<open>CapText\<close>. The
  browser sink is the list of values marshalled into it. A turn of a loop is a function.
\<close>

section \<open>State\<close>

record danmakuPush =
  dp_Text :: string
  dp_Sender :: string

datatype sinkMsg = SkDanmaku danmakuPush | SkAction Action   \<comment> \<open>what is marshalled into the player's socket\<close>

record partyCoordinator =
  pc_send :: bool                        \<comment> \<open>\<open>pc.send != nil\<close>\<close>
  pc_transport :: bool                   \<comment> \<open>\<open>pc.send\<close> implements \<open>swarmTransport\<close>\<close>
  pc_self :: NodeID
  pc_cfg :: Config
  pc_allowed :: "(NodeID \<Rightarrow> bool) option"
  pc_host :: "Host option"
  pc_viewer :: "Viewer option"
  pc_viewerHost :: NodeID
  pc_swarm :: "swarmSession option"
  pc_lastAudience :: "AudienceMember list"
  pc_stopHB :: bool                      \<comment> \<open>\<open>pc.stopHB != nil\<close>: a heartbeat runs\<close>
  pc_gate :: DanmakuGate
  pc_out :: "sinkMsg list option"        \<comment> \<open>the browser sink, capacity 32\<close>
  pc_outID :: nat                        \<comment> \<open>which socket's channel the sink is\<close>
  pc_sent :: "(NodeID \<times> Envelope) list"
  pc_dialed :: "NodeID list"
  pc_onAudience :: nat                   \<comment> \<open>calls of the callback\<close>
  pc_onPartyEnded :: nat
  pc_closed :: "swarmSession option list"

definition newPartyCoordinator :: "bool \<Rightarrow> bool \<Rightarrow> NodeID \<Rightarrow> Config \<Rightarrow> partyCoordinator" where
  "newPartyCoordinator hasSend tr self cfg =
     \<lparr>pc_send = hasSend, pc_transport = tr, pc_self = self, pc_cfg = cfg, pc_allowed = None, pc_host = None, pc_viewer = None,
      pc_viewerHost = '''', pc_swarm = None, pc_lastAudience = [], pc_stopHB = False, pc_gate = NewDanmakuGate cfg,
      pc_out = None, pc_outID = 0, pc_sent = [], pc_dialed = [], pc_onAudience = 0, pc_onPartyEnded = 0, pc_closed = []\<rparr>"

definition setAllowed :: "(NodeID \<Rightarrow> bool) \<Rightarrow> partyCoordinator \<Rightarrow> partyCoordinator" where
  "setAllowed fn pc = pc\<lparr>pc_allowed := Some fn\<rparr>"

section \<open>Wire conversions\<close>

definition toWireState :: "State \<Rightarrow> PartyState" where
  "toWireState s = \<lparr>ps_party_id = PartyID s, ps_playing = Playing s, ps_position_ms = PositionMS s, ps_host_clock_ms = 0,
                    ps_rate = Rate s, ps_seq = Seq s\<rparr>"

definition fromWireState :: "PartyState \<Rightarrow> State" where
  "fromWireState s = \<lparr>PartyID = ps_party_id s, Playing = ps_playing s, PositionMS = ps_position_ms s, Rate = ps_rate s, Seq = ps_seq s\<rparr>"

definition wire_members :: "Host \<Rightarrow> AudienceMember list" where
  "wire_members h = map (\<lambda>m. \<lparr>am_node_id = m_NodeID m, am_display_name = m_DisplayName m\<rparr>) (Host_Members h)"

definition toWireAudience :: "Host \<Rightarrow> PartyAudience" where
  "toWireAudience h = \<lparr>pa_party_id = h_partyID h, pa_members = wire_members h\<rparr>"

section \<open>Sending\<close>

definition sendTo :: "NodeID \<Rightarrow> Envelope \<Rightarrow> partyCoordinator \<Rightarrow> partyCoordinator" where
  "sendTo node env pc = pc\<lparr>pc_sent := pc_sent pc @ [(node, env)]\<rparr>"

definition sendMembers :: "Host \<Rightarrow> Body \<Rightarrow> partyCoordinator \<Rightarrow> partyCoordinator" where
  \<comment> \<open>\<open>for _, m := range h.Members() { _ = pc.send.sendTo(m.NodeID, env) }\<close>\<close>
  "sendMembers h b pc = fold (\<lambda>m. sendTo (m_NodeID m) (envelope 0 b)) (Host_Members h) pc"

definition close_swarm :: "swarmSession option \<Rightarrow> partyCoordinator \<Rightarrow> partyCoordinator" where
  \<comment> \<open>\<open>if ss != nil { ss.close() }\<close>\<close>
  "close_swarm x pc = (case x of None \<Rightarrow> pc | Some ss \<Rightarrow> pc\<lparr>pc_closed := pc_closed pc @ [sess_close ss]\<rparr>)"

definition broadcastAudience :: "Host \<Rightarrow> partyCoordinator \<Rightarrow> partyCoordinator" where
  "broadcastAudience h pc =
     (if \<not> pc_send pc then pc
      else (sendMembers h (BPartyAudience (toWireAudience h)) pc)\<lparr>pc_onAudience := Suc (pc_onAudience pc)\<rparr>)"

section \<open>Entry points\<close>

definition StartParty :: "string \<Rightarrow> time \<Rightarrow> partyCoordinator \<Rightarrow> string \<times> partyCoordinator" where
  "StartParty contentID now pc =
     (let pid = pc_self pc @ '':'' @ contentID
      in (pid, pc\<lparr>pc_host := Some (NewHost now (pc_cfg pc) pid contentID), pc_stopHB := True\<rparr>))"

definition EndParty :: "string \<Rightarrow> partyCoordinator \<Rightarrow> partyCoordinator" where
  "EndParty reason pc =
     (let pc1 = pc\<lparr>pc_host := None, pc_stopHB := False\<rparr>
      in case pc_host pc of None \<Rightarrow> pc1
         | Some h \<Rightarrow> if \<not> pc_send pc then pc1
                     else sendMembers h (BPartyEnded \<lparr>pd_party_id = h_partyID h, pd_reason = reason\<rparr>) pc1)"

definition pc_close :: "partyCoordinator \<Rightarrow> partyCoordinator" where
  "pc_close pc = close_swarm (pc_swarm pc) (pc\<lparr>pc_stopHB := False, pc_swarm := None\<rparr>)"

definition party_id_of :: "swarmSession option \<Rightarrow> string" where
  "party_id_of x = (case x of None \<Rightarrow> '''' | Some ss \<Rightarrow> ss_partyID ss)"

definition LeaveParty :: "partyCoordinator \<Rightarrow> partyCoordinator" where
  "LeaveParty pc =
     (let pc1 = pc\<lparr>pc_viewer := None, pc_swarm := None, pc_viewerHost := ''''\<rparr>
      in case pc_viewer pc of None \<Rightarrow> pc1
         | Some v \<Rightarrow>
             close_swarm (pc_swarm pc)
               (if pc_send pc then sendTo (pc_viewerHost pc) (envelope 0 (BLeaveParty (party_id_of (pc_swarm pc)))) pc1 else pc1))"

definition beginViewer :: "NodeID \<Rightarrow> partyCoordinator \<Rightarrow> partyCoordinator" where
  "beginViewer host pc = pc\<lparr>pc_viewer := Some (NewViewer (pc_cfg pc)), pc_viewerHost := host\<rparr>"

definition set_swarm_peers :: "AudienceMember list \<Rightarrow> partyCoordinator \<Rightarrow> partyCoordinator" where
  \<comment> \<open>\<open>ss.setPeers(members)\<close> on the current session\<close>
  "set_swarm_peers ms pc =
     (case pc_swarm pc of None \<Rightarrow> pc
      | Some ss \<Rightarrow> (case setPeers (map am_node_id ms) ss of (ss', dials) \<Rightarrow>
          pc\<lparr>pc_swarm := Some ss', pc_dialed := pc_dialed pc @ dials\<rparr>))"

definition OnPartyState :: "NodeID \<Rightarrow> PartyState \<Rightarrow> time \<Rightarrow> partyCoordinator \<Rightarrow> partyCoordinator" where
  "OnPartyState remote s now pc =
     (case pc_viewer pc of None \<Rightarrow> pc
      | Some v \<Rightarrow> if remote \<noteq> pc_viewerHost pc then pc
                  else pc\<lparr>pc_viewer := Some (Viewer_OnState (fromWireState s) now v)\<rparr>)"

definition pc_JoinParty :: "NodeID \<Rightarrow> string \<Rightarrow> gerror + PartyWelcome \<Rightarrow> time \<Rightarrow> partyCoordinator \<Rightarrow> gerror option \<times> partyCoordinator" where
  \<comment> \<open>the third argument is the result of \<open>do(ctx)\<close>\<close>
  "pc_JoinParty host contentID rpc now pc =
     (case rpc of Inl err \<Rightarrow> (Some err, pc)
      | Inr w \<Rightarrow>
          let pc1 = beginViewer host pc;
              pc2 = (if pc_transport pc1
                     then let ss = setPartyID (pw_party_id w) (newSwarmSession (pc_self pc1) host contentID SwarmDefaultConfig);
                              pc' = close_swarm (pc_swarm pc1) (pc1\<lparr>pc_swarm := Some ss\<rparr>)
                          in (case pw_audience w of None \<Rightarrow> pc' | Some a \<Rightarrow> set_swarm_peers (pa_members a) pc')
                     else pc1)
          in (None, case pw_initial w of None \<Rightarrow> pc2 | Some s \<Rightarrow> OnPartyState host s now pc2))"

definition LiveParty :: "string \<Rightarrow> partyCoordinator \<Rightarrow> bool \<times> nat" where
  "LiveParty contentID pc =
     (case pc_host pc of Some h \<Rightarrow> if h_contentID h = contentID then (True, Host_ViewerCount h) else (False, 0)
      | None \<Rightarrow> (False, 0))"

section \<open>Messages of the peers\<close>

definition OnJoinParty :: "NodeID \<Rightarrow> string \<Rightarrow> time \<Rightarrow> partyCoordinator \<Rightarrow> (gerror + PartyWelcome) \<times> partyCoordinator" where
  "OnJoinParty remote contentID now pc =
     (case pc_host pc of None \<Rightarrow> (Inl ErrNotFound, pc)
      | Some h \<Rightarrow>
          if h_contentID h \<noteq> contentID then (Inl ErrNotFound, pc)
          else if (case pc_allowed pc of None \<Rightarrow> False | Some ok \<Rightarrow> \<not> ok remote) then (Inl ErrDenied, pc)
          else let h' = Host_Join remote remote h;
                   pc' = broadcastAudience h' (pc\<lparr>pc_host := Some h'\<rparr>)
               in (Inr \<lparr>pw_party_id = h_partyID h', pw_initial = Some (toWireState (Host_Snapshot now h')),
                        pw_audience = Some (toWireAudience h')\<rparr>, pc'))"

definition OnLeaveParty :: "NodeID \<Rightarrow> partyCoordinator \<Rightarrow> partyCoordinator" where
  "OnLeaveParty remote pc =
     (case pc_host pc of None \<Rightarrow> pc
      | Some h \<Rightarrow> let h' = Host_Leave remote h in broadcastAudience h' (pc\<lparr>pc_host := Some h'\<rparr>))"

definition OnPartyAudience :: "NodeID \<Rightarrow> PartyAudience \<Rightarrow> partyCoordinator \<Rightarrow> partyCoordinator" where
  "OnPartyAudience remote a pc =
     (let pc1 = pc\<lparr>pc_lastAudience := pa_members a\<rparr>
      in case pc_swarm pc1 of None \<Rightarrow> pc1
         | Some _ \<Rightarrow> (set_swarm_peers (pa_members a) pc1)\<lparr>pc_onAudience := Suc (pc_onAudience pc1)\<rparr>)"

definition OnPartyInvite :: "NodeID \<Rightarrow> PartyInvite \<Rightarrow> partyCoordinator \<Rightarrow> partyCoordinator" where
  "OnPartyInvite remote invite pc = pc"

definition OnPartyEnded :: "NodeID \<Rightarrow> partyCoordinator \<Rightarrow> partyCoordinator" where
  "OnPartyEnded remote pc =
     (if remote = pc_viewerHost pc
      then (close_swarm (pc_swarm pc) (pc\<lparr>pc_viewer := None, pc_swarm := None, pc_viewerHost := ''''\<rparr>))
             \<lparr>pc_onPartyEnded := Suc (pc_onPartyEnded pc)\<rparr>
      else pc)"

definition pushDanmaku :: "string \<Rightarrow> string \<Rightarrow> partyCoordinator \<Rightarrow> partyCoordinator" where
  "pushDanmaku txt sender pc =
     (case pc_out pc of None \<Rightarrow> pc
      | Some out \<Rightarrow> if length out < 32 then pc\<lparr>pc_out := Some (out @ [SkDanmaku \<lparr>dp_Text = txt, dp_Sender = sender\<rparr>])\<rparr> else pc)"

definition broadcastDanmaku ::
  "(string \<Rightarrow> string list) \<Rightarrow> Host \<Rightarrow> NodeID \<Rightarrow> string \<Rightarrow> string \<Rightarrow> partyCoordinator \<Rightarrow> partyCoordinator" where
  "broadcastDanmaku gc h senderNode senderDisplay txt pc =
     (let txt = CapText gc txt
      in if txt = '''' then pc
         else let pc1 = (if pc_send pc
                         then sendMembers h (BPartyDanmaku \<lparr>dm_party_id = h_partyID h, dm_sender_node_id = senderNode,
                                dm_sender_display = senderDisplay, dm_text = txt\<rparr>) pc
                         else pc)
              in pushDanmaku txt senderDisplay pc1)"

definition OnPartyDanmaku ::
  "(string \<Rightarrow> string list) \<Rightarrow> NodeID \<Rightarrow> PartyDanmaku \<Rightarrow> time \<Rightarrow> partyCoordinator \<Rightarrow> partyCoordinator" where
  "OnPartyDanmaku gc remote d now pc =
     (case pc_host pc of
        Some h \<Rightarrow>
          (case Host_Member h remote of None \<Rightarrow> pc
           | Some nm \<Rightarrow>
               let txt = CapText gc (dm_text d)
               in if txt = '''' then pc
                  else (case Gate_Allow remote now (pc_gate pc) of (ok, g) \<Rightarrow>
                          let pc1 = pc\<lparr>pc_gate := g\<rparr>
                          in if ok then broadcastDanmaku gc h remote nm txt pc1 else pc1))
      | None \<Rightarrow>
          if pc_viewer pc \<noteq> None \<and> remote = pc_viewerHost pc
          then let txt = CapText gc (dm_text d) in if txt \<noteq> '''' then pushDanmaku txt (dm_sender_display d) pc else pc
          else pc)"

definition handlePlayerDanmaku :: "(string \<Rightarrow> string list) \<Rightarrow> string \<Rightarrow> partyCoordinator \<Rightarrow> partyCoordinator" where
  "handlePlayerDanmaku gc txt pc =
     (case pc_host pc of
        Some h \<Rightarrow> broadcastDanmaku gc h (pc_self pc) (pc_self pc) txt pc
      | None \<Rightarrow>
          if pc_viewer pc = None \<or> pc_viewerHost pc = '''' \<or> \<not> pc_send pc then pc
          else let t = CapText gc txt
               in if t = '''' then pc
                  else sendTo (pc_viewerHost pc) (envelope 0 (BPartyDanmaku \<lparr>dm_party_id = party_id_of (pc_swarm pc),
                         dm_sender_node_id = '''', dm_sender_display = '''', dm_text = t\<rparr>)) pc)"

definition heartbeat_tick :: "time \<Rightarrow> partyCoordinator \<Rightarrow> partyCoordinator" where
  \<comment> \<open>one tick of the running \<open>heartbeat\<close>, which holds the current Host engine\<close>
  "heartbeat_tick now pc =
     (case pc_host pc of
        Some h \<Rightarrow>
          if \<not> pc_stopHB pc \<or> \<not> pc_send pc then pc
          else (case Host_Tick now h of (h', st, _) \<Rightarrow> sendMembers h' (BPartyState (toWireState st)) (pc\<lparr>pc_host := Some h'\<rparr>))
      | None \<Rightarrow> pc)"

section \<open>The mesh and the views\<close>

definition pc_OnSwarmHave :: "NodeID \<Rightarrow> SwarmHave \<Rightarrow> time \<Rightarrow> partyCoordinator \<Rightarrow> partyCoordinator" where
  "pc_OnSwarmHave remote h now pc =
     (case pc_swarm pc of None \<Rightarrow> pc | Some ss \<Rightarrow> pc\<lparr>pc_swarm := Some (OnSwarmHave remote h now ss)\<rparr>)"

definition pc_SwarmSegment :: "NodeID \<Rightarrow> GetSwarmSegment \<Rightarrow> partyCoordinator \<Rightarrow> (gerror + bytes) \<times> partyCoordinator" where
  "pc_SwarmSegment remote req pc =
     (case pc_swarm pc of None \<Rightarrow> (Inl ErrUnavailable, pc)
      | Some ss \<Rightarrow> (case SwarmSegment req ss of (r, ss') \<Rightarrow> (r, pc\<lparr>pc_swarm := Some ss'\<rparr>)))"

definition swarmFor :: "NodeID \<Rightarrow> string \<Rightarrow> partyCoordinator \<Rightarrow> swarmSession option" where
  "swarmFor host contentID pc =
     (case pc_swarm pc of Some ss \<Rightarrow> if ss_host ss = host \<and> ss_contentID ss = contentID then Some ss else None | None \<Rightarrow> None)"

record currentPartyInfo =
  cp_active :: bool
  cp_role :: string
  cp_host :: NodeID
  cp_contentID :: string
  cp_viewers :: nat

definition currentParty :: "partyCoordinator \<Rightarrow> currentPartyInfo" where
  "currentParty pc =
     (case pc_host pc of
        Some h \<Rightarrow> \<lparr>cp_active = True, cp_role = ''host'', cp_host = pc_self pc, cp_contentID = h_contentID h, cp_viewers = Host_ViewerCount h\<rparr>
      | None \<Rightarrow>
          (case pc_viewer pc of
             Some _ \<Rightarrow> \<lparr>cp_active = True, cp_role = ''viewer'', cp_host = pc_viewerHost pc,
                        cp_contentID = (case pc_swarm pc of None \<Rightarrow> '''' | Some ss \<Rightarrow> ss_contentID ss),
                        cp_viewers = length (pc_lastAudience pc)\<rparr>
           | None \<Rightarrow> \<lparr>cp_active = False, cp_role = '''', cp_host = '''', cp_contentID = '''', cp_viewers = 0\<rparr>))"

definition audienceView :: "partyCoordinator \<Rightarrow> AudienceMember list" where
  "audienceView pc = (case pc_host pc of Some h \<Rightarrow> wire_members h | None \<Rightarrow> pc_lastAudience pc)"

definition viewerDecide :: "int \<Rightarrow> bool \<Rightarrow> time \<Rightarrow> partyCoordinator \<Rightarrow> Action" where
  "viewerDecide posMS playing now pc =
     (case pc_viewer pc of
        None \<Rightarrow> \<lparr>a_Play = playing, a_Seek = False, a_SeekMS = 0, a_Rate = 1, a_DriftMS = 0\<rparr>
      | Some v \<Rightarrow> Viewer_Decide posMS playing now v)"

definition refreshViewerRTT :: "(NodeID \<Rightarrow> gerror + duration) \<Rightarrow> partyCoordinator \<Rightarrow> partyCoordinator" where
  \<comment> \<open>the argument is \<open>s.measureRTT\<close>\<close>
  "refreshViewerRTT measureRTT pc =
     (case pc_viewer pc of None \<Rightarrow> pc
      | Some v \<Rightarrow> if \<not> pc_send pc then pc
                  else (case measureRTT (pc_viewerHost pc) of Inl _ \<Rightarrow> pc | Inr rtt \<Rightarrow> pc\<lparr>pc_viewer := Some (Viewer_OnRTT rtt v)\<rparr>))"

section \<open>The player's socket\<close>

record playerMsg =
  pm_Type :: string
  pm_Role :: string
  pm_PosMS :: int
  pm_Playing :: bool
  pm_Text :: string

definition serveWS_open :: "partyCoordinator \<Rightarrow> partyCoordinator" where
  \<comment> \<open>a fresh channel becomes the sink\<close>
  "serveWS_open pc = pc\<lparr>pc_out := Some [], pc_outID := Suc (pc_outID pc)\<rparr>"

definition serveWS_exit :: "nat \<Rightarrow> partyCoordinator \<Rightarrow> partyCoordinator" where
  \<comment> \<open>the deferred reset of socket \<open>k\<close>: only when the sink is still its channel\<close>
  "serveWS_exit k pc = (if pc_outID pc = k then pc\<lparr>pc_out := None\<rparr> else pc)"

definition hostWS_msg :: "(string \<Rightarrow> string list) \<Rightarrow> playerMsg \<Rightarrow> time \<Rightarrow> partyCoordinator \<Rightarrow> partyCoordinator option" where
  \<comment> \<open>one turn of \<open>serveHostWS\<close> on a decoded message; \<open>None\<close>: the loop returns\<close>
  "hostWS_msg gc m now pc =
     (if pm_Type m = ''danmaku'' then Some (handlePlayerDanmaku gc (pm_Text m) pc)
      else case pc_host pc of None \<Rightarrow> None
      | Some h \<Rightarrow>
          Some (if pm_Type m = ''play'' then pc\<lparr>pc_host := Some (Host_OnPlay (pm_PosMS m) now h)\<rparr>
                else if pm_Type m = ''pause'' then pc\<lparr>pc_host := Some (Host_OnPause (pm_PosMS m) now h)\<rparr>
                else if pm_Type m = ''seek'' then pc\<lparr>pc_host := Some (Host_OnSeek (pm_PosMS m) now h)\<rparr>
                else if pm_Type m = ''report'' then pc\<lparr>pc_host := Some (Host_OnReport (pm_PosMS m) now h)\<rparr>
                else pc))"

definition viewerWS_msg :: "(string \<Rightarrow> string list) \<Rightarrow> playerMsg \<Rightarrow> playerMsg list \<Rightarrow> partyCoordinator \<Rightarrow> playerMsg list \<times> partyCoordinator" where
  \<comment> \<open>the reader goroutine of \<open>serveViewerWS\<close>: the channel \<open>reports\<close> has capacity 8\<close>
  "viewerWS_msg gc m reports pc =
     (if pm_Type m = ''danmaku'' then (reports, handlePlayerDanmaku gc (pm_Text m) pc)
      else (if length reports < 8 then reports @ [m] else reports, pc))"

definition viewerWS_tick :: "playerMsg \<Rightarrow> time \<Rightarrow> partyCoordinator \<Rightarrow> Action" where
  \<comment> \<open>the 250 ms ticker: the Action marshalled for the player from its last report\<close>
  "viewerWS_tick lastm now pc = viewerDecide (pm_PosMS lastm) (pm_Playing lastm) now pc"

section \<open>Executions\<close>

datatype pc_ev =
    PStart string time | PEnd string | PLeave | PJoin NodeID string "gerror + PartyWelcome" time | PClose
  | PInJoin NodeID string time | PInLeave NodeID | PInState NodeID PartyState time | PInAudience NodeID PartyAudience
  | PInEnded NodeID | PInDanmaku NodeID PartyDanmaku time | PPlayer playerMsg time | PSay string | PBeat time
  | PHave NodeID SwarmHave time | PServe NodeID GetSwarmSegment | PRtt "NodeID \<Rightarrow> gerror + duration" | PSockOpen | PSockExit nat

fun pc_do :: "(string \<Rightarrow> string list) \<Rightarrow> pc_ev \<Rightarrow> partyCoordinator \<Rightarrow> partyCoordinator" where
  "pc_do gc (PStart cid now) pc = snd (StartParty cid now pc)"
| "pc_do gc (PEnd reason) pc = EndParty reason pc"
| "pc_do gc PLeave pc = LeaveParty pc"
| "pc_do gc (PJoin host cid rpc now) pc = snd (pc_JoinParty host cid rpc now pc)"
| "pc_do gc PClose pc = pc_close pc"
| "pc_do gc (PInJoin r cid now) pc = snd (OnJoinParty r cid now pc)"
| "pc_do gc (PInLeave r) pc = OnLeaveParty r pc"
| "pc_do gc (PInState r s now) pc = OnPartyState r s now pc"
| "pc_do gc (PInAudience r a) pc = OnPartyAudience r a pc"
| "pc_do gc (PInEnded r) pc = OnPartyEnded r pc"
| "pc_do gc (PInDanmaku r d now) pc = OnPartyDanmaku gc r d now pc"
| "pc_do gc (PPlayer m now) pc = (case hostWS_msg gc m now pc of None \<Rightarrow> pc | Some pc' \<Rightarrow> pc')"
| "pc_do gc (PSay txt) pc = handlePlayerDanmaku gc txt pc"
| "pc_do gc (PBeat now) pc = heartbeat_tick now pc"
| "pc_do gc (PHave r h now) pc = pc_OnSwarmHave r h now pc"
| "pc_do gc (PServe r req) pc = snd (pc_SwarmSegment r req pc)"
| "pc_do gc (PRtt f) pc = refreshViewerRTT f pc"
| "pc_do gc PSockOpen pc = serveWS_open pc"
| "pc_do gc (PSockExit k) pc = serveWS_exit k pc"

lemmas pc_defs =
  StartParty_def EndParty_def LeaveParty_def pc_JoinParty_def pc_close_def OnJoinParty_def OnLeaveParty_def OnPartyState_def
  OnPartyAudience_def OnPartyEnded_def OnPartyDanmaku_def hostWS_msg_def handlePlayerDanmaku_def heartbeat_tick_def
  pc_OnSwarmHave_def pc_SwarmSegment_def refreshViewerRTT_def serveWS_open_def serveWS_exit_def beginViewer_def
  set_swarm_peers_def close_swarm_def broadcastDanmaku_def pushDanmaku_def broadcastAudience_def Let_def

lemma sendMembers_eq:
  "sendMembers h b pc = pc\<lparr>pc_sent := pc_sent pc @ map (\<lambda>(n, _). (n, envelope 0 b)) (h_audience h)\<rparr>"
proof -
  have "fold (\<lambda>m. sendTo (m_NodeID m) (envelope 0 b)) (map (\<lambda>(n, nm). \<lparr>m_NodeID = n, m_DisplayName = nm\<rparr>) ms) pc =
      pc\<lparr>pc_sent := pc_sent pc @ map (\<lambda>(n, _). (n, envelope 0 b)) ms\<rparr>" for ms
    by (induction ms arbitrary: pc) (auto simp: sendTo_def)
  then show ?thesis by (simp add: sendMembers_def Host_Members_def)
qed

lemma sendMembers_fields [simp]:
  "pc_host (sendMembers h b pc) = pc_host pc" "pc_viewer (sendMembers h b pc) = pc_viewer pc"
  "pc_viewerHost (sendMembers h b pc) = pc_viewerHost pc" "pc_swarm (sendMembers h b pc) = pc_swarm pc"
  "pc_closed (sendMembers h b pc) = pc_closed pc" "pc_stopHB (sendMembers h b pc) = pc_stopHB pc"
  "pc_allowed (sendMembers h b pc) = pc_allowed pc" "pc_gate (sendMembers h b pc) = pc_gate pc"
  "pc_send (sendMembers h b pc) = pc_send pc" "pc_transport (sendMembers h b pc) = pc_transport pc"
  "pc_out (sendMembers h b pc) = pc_out pc" "pc_self (sendMembers h b pc) = pc_self pc" "pc_cfg (sendMembers h b pc) = pc_cfg pc"
  by (simp_all add: sendMembers_eq)

lemma sendTo_fields [simp]:
  "pc_host (sendTo n e pc) = pc_host pc" "pc_viewer (sendTo n e pc) = pc_viewer pc"
  "pc_viewerHost (sendTo n e pc) = pc_viewerHost pc" "pc_swarm (sendTo n e pc) = pc_swarm pc"
  "pc_closed (sendTo n e pc) = pc_closed pc" "pc_stopHB (sendTo n e pc) = pc_stopHB pc"
  "pc_allowed (sendTo n e pc) = pc_allowed pc" "pc_gate (sendTo n e pc) = pc_gate pc"
  by (simp_all add: sendTo_def)

section \<open>The coordinator's invariant\<close>

definition pc_ok :: "partyCoordinator \<Rightarrow> bool" where
  \<comment> \<open>a heartbeat runs exactly for a hosted party (until shutdown); a mesh session belongs to the followed Host and
     is not stopped; without a followed party there is neither Host nor mesh session; nothing was closed twice\<close>
  "pc_ok pc \<longleftrightarrow>
     (pc_stopHB pc \<longrightarrow> pc_host pc \<noteq> None) \<and>
     (\<forall>ss. pc_swarm pc = Some ss \<longrightarrow> \<not> ss_stopped ss \<and> ss_host ss = pc_viewerHost pc \<and> ss_self ss = pc_self pc \<and> pc_transport pc) \<and>
     (pc_viewer pc = None \<longrightarrow> pc_swarm pc = None \<and> pc_viewerHost pc = '''') \<and>
     None \<notin> set (pc_closed pc)"

lemma setPeers_fields [simp]:
  "ss_stopped (fst (setPeers ms ss)) = ss_stopped ss" "ss_host (fst (setPeers ms ss)) = ss_host ss" "ss_self (fst (setPeers ms ss)) = ss_self ss"
  "ss_stopped (OnSwarmHave r h now ss) = ss_stopped ss" "ss_host (OnSwarmHave r h now ss) = ss_host ss" "ss_self (OnSwarmHave r h now ss) = ss_self ss"
  by (simp_all add: setPeers_def OnSwarmHave_def)

lemma SwarmSegment_fields:
  "SwarmSegment req ss = (r, ss') \<Longrightarrow> ss_stopped ss' = ss_stopped ss \<and> ss_host ss' = ss_host ss \<and> ss_self ss' = ss_self ss"
  by (auto simp: SwarmSegment_def Let_def split: option.splits if_splits)

lemma new_swarm_fields [simp]:
  "\<not> ss_stopped (newSwarmSession self host cid cfg)" "ss_host (newSwarmSession self host cid cfg) = host"
  "ss_self (newSwarmSession self host cid cfg) = self"
  "ss_stopped (setPartyID p ss) = ss_stopped ss" "ss_host (setPartyID p ss) = ss_host ss" "ss_self (setPartyID p ss) = ss_self ss"
  by (simp_all add: newSwarmSession_def setPartyID_def)

lemma pc_ok_close_swarm: "pc_ok pc \<Longrightarrow> None \<notin> set (pc_closed (close_swarm (pc_swarm pc) pc'))" if "pc_closed pc' = pc_closed pc"
  using that by (auto simp: pc_ok_def close_swarm_def sess_close_def split: option.splits)

lemma pc_ok_same:
  assumes "pc_ok pc" and "pc_swarm pc' = pc_swarm pc" and "pc_viewerHost pc' = pc_viewerHost pc" and "pc_self pc' = pc_self pc"
    and "pc_transport pc' = pc_transport pc" and "(pc_viewer pc' = None) = (pc_viewer pc = None)" and "pc_closed pc' = pc_closed pc"
    and "pc_stopHB pc' \<longrightarrow> pc_host pc' \<noteq> None"
  shows "pc_ok pc'"
  using assms by (simp add: pc_ok_def)

lemma pc_ok_swarm:
  assumes "pc_ok pc" and "pc_swarm pc = Some ss" and "ss_stopped ss' = ss_stopped ss" "ss_host ss' = ss_host ss" "ss_self ss' = ss_self ss"
  shows "pc_ok (pc\<lparr>pc_swarm := Some ss'\<rparr>)" and "pc_ok (pc\<lparr>pc_swarm := Some ss', pc_dialed := d\<rparr>)"
  using assms by (auto simp: pc_ok_def)

lemma pc_ok_set_peers: "pc_ok pc \<Longrightarrow> pc_ok (set_swarm_peers ms pc)"
  by (auto simp: set_swarm_peers_def split: option.splits prod.splits intro!: pc_ok_swarm(2)
      dest: arg_cong [where f = fst]) (metis fst_conv setPeers_fields(1-3))+

lemma close_swarm_fields [simp]:
  "pc_swarm (close_swarm x pc) = pc_swarm pc" "pc_viewer (close_swarm x pc) = pc_viewer pc"
  "pc_viewerHost (close_swarm x pc) = pc_viewerHost pc" "pc_self (close_swarm x pc) = pc_self pc"
  "pc_transport (close_swarm x pc) = pc_transport pc" "pc_stopHB (close_swarm x pc) = pc_stopHB pc"
  "pc_host (close_swarm x pc) = pc_host pc" "pc_allowed (close_swarm x pc) = pc_allowed pc"
  by (simp_all add: close_swarm_def split: option.split)

lemma pc_ok_drop:
  \<comment> \<open>the current mesh session is closed and forgotten, or replaced by a fresh one\<close>
  assumes "pc_ok pc" and "pc_closed pc' = pc_closed pc" and "pc_stopHB pc' \<longrightarrow> pc_host pc' \<noteq> None"
    and "\<forall>ss. pc_swarm pc' = Some ss \<longrightarrow> \<not> ss_stopped ss \<and> ss_host ss = pc_viewerHost pc' \<and> ss_self ss = pc_self pc' \<and> pc_transport pc'"
    and "pc_viewer pc' = None \<longrightarrow> pc_swarm pc' = None \<and> pc_viewerHost pc' = ''''"
  shows "pc_ok (close_swarm (pc_swarm pc) pc')"
  unfolding pc_ok_def using assms(3-5) pc_ok_close_swarm [OF assms(2,1)] by simp

lemma pc_ok_state: "pc_ok pc \<Longrightarrow> pc_ok (OnPartyState r s now pc)"
  by (auto simp: OnPartyState_def pc_ok_def split: option.split)

lemma pc_ok_join: "pc_ok pc \<Longrightarrow> pc_ok (snd (pc_JoinParty host cid rpc now pc))"
proof (cases rpc)
  case (Inr w)
  assume ok: "pc_ok pc"
  let ?ss = "setPartyID (pw_party_id w) (newSwarmSession (pc_self pc) host cid SwarmDefaultConfig)"
  let ?pc1 = "beginViewer host pc"
  let ?pc' = "close_swarm (pc_swarm pc) (?pc1\<lparr>pc_swarm := Some ?ss\<rparr>)"
  have tr: "pc_ok ?pc'" if "pc_transport pc"
    using ok that by (intro pc_ok_drop) (auto simp: beginViewer_def pc_ok_def)
  have notr: "pc_ok ?pc1" if "\<not> pc_transport pc"
    using ok that by (auto simp: beginViewer_def pc_ok_def)
  show ?thesis
  proof (cases "pc_transport pc")
    case True
    then show ?thesis using Inr tr
      by (auto simp: pc_JoinParty_def Let_def beginViewer_def intro!: pc_ok_state pc_ok_set_peers split: option.split)
  next
    case False
    then show ?thesis using Inr notr
      by (auto simp: pc_JoinParty_def Let_def beginViewer_def intro!: pc_ok_state split: option.split)
  qed
qed (simp add: pc_JoinParty_def)

lemma pc_ok_leave: "pc_ok pc \<Longrightarrow> pc_ok (LeaveParty pc)"
proof -
  assume ok: "pc_ok pc"
  show ?thesis
  proof (cases "pc_viewer pc")
    case None
    then show ?thesis using ok by (auto simp: LeaveParty_def pc_ok_def)
  next
    case (Some v)
    have "pc_ok (close_swarm (pc_swarm pc) pc')"
      if "pc_viewer pc' = None" "pc_swarm pc' = None" "pc_viewerHost pc' = ''''" "pc_closed pc' = pc_closed pc"
        "pc_stopHB pc' = pc_stopHB pc" "pc_host pc' = pc_host pc" for pc'
      by (rule pc_ok_drop [OF ok]) (use ok that in \<open>auto simp: pc_ok_def\<close>)
    then show ?thesis using Some by (auto simp: LeaveParty_def Let_def)
  qed
qed

definition pc_core :: "partyCoordinator \<Rightarrow> swarmSession option \<times> NodeID \<times> NodeID \<times> bool \<times> bool \<times> swarmSession option list \<times> (NodeID \<Rightarrow> bool) option" where
  "pc_core pc = (pc_swarm pc, pc_viewerHost pc, pc_self pc, pc_transport pc, pc_viewer pc = None, pc_closed pc, pc_allowed pc)"

lemma pc_ok_core: "pc_core pc' = pc_core pc \<Longrightarrow> pc_stopHB pc' \<longrightarrow> pc_host pc' \<noteq> None \<Longrightarrow> pc_ok pc \<Longrightarrow> pc_ok pc'"
  by (simp add: pc_core_def pc_ok_def)

lemma pc_core_updates [simp]:
  "pc_core (pc\<lparr>pc_host := h\<rparr>) = pc_core pc" "pc_core (pc\<lparr>pc_gate := g\<rparr>) = pc_core pc" "pc_core (pc\<lparr>pc_out := out\<rparr>) = pc_core pc"
  "pc_core (pc\<lparr>pc_stopHB := b\<rparr>) = pc_core pc" "pc_core (sendMembers h' body pc) = pc_core pc" "pc_core (sendTo n e pc) = pc_core pc"
  "pc_core (pc\<lparr>pc_onAudience := k\<rparr>) = pc_core pc" "pc_core (pc\<lparr>pc_outID := k\<rparr>) = pc_core pc"
  by (simp_all add: pc_core_def sendMembers_eq sendTo_def)

lemma push_fields [simp]:
  "pc_core (pushDanmaku txt sender pc) = pc_core pc" "pc_host (pushDanmaku txt sender pc) = pc_host pc"
  "pc_stopHB (pushDanmaku txt sender pc) = pc_stopHB pc" "pc_viewer (pushDanmaku txt sender pc) = pc_viewer pc"
  "pc_sent (pushDanmaku txt sender pc) = pc_sent pc"
  by (simp_all add: pushDanmaku_def split: option.split)

lemma broadcast_fields [simp]:
  "pc_core (broadcastDanmaku gc h n nm txt pc) = pc_core pc" "pc_host (broadcastDanmaku gc h n nm txt pc) = pc_host pc"
  "pc_stopHB (broadcastDanmaku gc h n nm txt pc) = pc_stopHB pc" "pc_viewer (broadcastDanmaku gc h n nm txt pc) = pc_viewer pc"
  "pc_core (broadcastAudience h pc) = pc_core pc" "pc_host (broadcastAudience h pc) = pc_host pc"
  "pc_stopHB (broadcastAudience h pc) = pc_stopHB pc" "pc_viewer (broadcastAudience h pc) = pc_viewer pc"
  by (simp_all add: broadcastDanmaku_def broadcastAudience_def Let_def)

lemma pc_ok_ignores: "pc_ok (pc\<lparr>pc_onAudience := k\<rparr>) = pc_ok pc"
  by (simp add: pc_ok_def)

definition hb_ok :: "partyCoordinator \<Rightarrow> bool" where
  "hb_ok pc \<longleftrightarrow> (pc_stopHB pc \<longrightarrow> pc_host pc \<noteq> None)"

lemma host_ops_core:
  "pc_core (snd (StartParty cid now pc)) = pc_core pc" "pc_core (EndParty reason pc) = pc_core pc"
  "pc_core (snd (OnJoinParty r cid now pc)) = pc_core pc" "pc_core (OnLeaveParty r pc) = pc_core pc"
  "pc_core (OnPartyDanmaku gc r d now pc) = pc_core pc" "pc_core (handlePlayerDanmaku gc txt pc) = pc_core pc"
  "pc_core (heartbeat_tick now pc) = pc_core pc" "pc_core (refreshViewerRTT f pc) = pc_core pc"
  "pc_core (serveWS_open pc) = pc_core pc" "pc_core (serveWS_exit k pc) = pc_core pc"
  "hostWS_msg gc m now pc = Some pc' \<Longrightarrow> pc_core pc' = pc_core pc"
  subgoal by (simp add: StartParty_def Let_def pc_core_def)
  subgoal by (simp add: EndParty_def Let_def split: option.split)
  subgoal by (simp add: OnJoinParty_def Let_def split: option.split)
  subgoal by (simp add: OnLeaveParty_def Let_def split: option.split)
  subgoal by (simp add: OnPartyDanmaku_def Let_def split: option.split prod.split)
  subgoal by (simp add: handlePlayerDanmaku_def Let_def split: option.split)
  subgoal by (simp add: heartbeat_tick_def split: option.split prod.split)
  subgoal by (simp add: refreshViewerRTT_def pc_core_def split: option.split sum.split)
  subgoal by (simp add: serveWS_open_def)
  subgoal by (simp add: serveWS_exit_def)
  subgoal by (auto simp: hostWS_msg_def handlePlayerDanmaku_def Let_def split: option.splits if_splits)
  done

lemma host_ops_hb:
  "hb_ok (snd (StartParty cid now pc))" "hb_ok (EndParty reason pc)"
  "hb_ok pc \<Longrightarrow> hb_ok (snd (OnJoinParty r cid now pc))" "hb_ok pc \<Longrightarrow> hb_ok (OnLeaveParty r pc)"
  "hb_ok pc \<Longrightarrow> hb_ok (OnPartyDanmaku gc r d now pc)" "hb_ok pc \<Longrightarrow> hb_ok (handlePlayerDanmaku gc txt pc)"
  "hb_ok pc \<Longrightarrow> hb_ok (heartbeat_tick now pc)" "hb_ok pc \<Longrightarrow> hb_ok (refreshViewerRTT f pc)"
  "hb_ok pc \<Longrightarrow> hb_ok (serveWS_open pc)" "hb_ok pc \<Longrightarrow> hb_ok (serveWS_exit k pc)"
  "hb_ok pc \<Longrightarrow> hostWS_msg gc m now pc = Some pc' \<Longrightarrow> hb_ok pc'"
  subgoal by (simp add: StartParty_def Let_def hb_ok_def)
  subgoal by (simp add: EndParty_def Let_def hb_ok_def split: option.split)
  subgoal by (auto simp: OnJoinParty_def Let_def hb_ok_def split: option.split)
  subgoal by (auto simp: OnLeaveParty_def Let_def hb_ok_def split: option.split)
  subgoal by (auto simp: OnPartyDanmaku_def Let_def hb_ok_def split: option.split prod.split)
  subgoal by (auto simp: handlePlayerDanmaku_def Let_def hb_ok_def split: option.split)
  subgoal by (auto simp: heartbeat_tick_def hb_ok_def split: option.split prod.split)
  subgoal by (auto simp: refreshViewerRTT_def hb_ok_def split: option.split sum.split)
  subgoal by (simp add: serveWS_open_def hb_ok_def)
  subgoal by (simp add: serveWS_exit_def hb_ok_def)
  subgoal by (auto simp: hostWS_msg_def handlePlayerDanmaku_def hb_ok_def Let_def split: option.splits if_splits)
  done

lemma pc_ok_host_op: "pc_ok pc \<Longrightarrow> pc_core pc' = pc_core pc \<Longrightarrow> hb_ok pc' \<Longrightarrow> pc_ok pc'"
  using pc_ok_core by (auto simp: hb_ok_def)

lemma pc_ok_do:
  assumes ok: "pc_ok pc"
  shows "pc_ok (pc_do gc ev pc)"
proof -
  have hb: "hb_ok pc" using ok by (simp add: pc_ok_def hb_ok_def)
  note host_op = pc_ok_host_op [OF ok host_ops_core(1) host_ops_hb(1)] pc_ok_host_op [OF ok host_ops_core(2) host_ops_hb(2)]
    pc_ok_host_op [OF ok host_ops_core(3) host_ops_hb(3) [OF hb]] pc_ok_host_op [OF ok host_ops_core(4) host_ops_hb(4) [OF hb]]
    pc_ok_host_op [OF ok host_ops_core(5) host_ops_hb(5) [OF hb]] pc_ok_host_op [OF ok host_ops_core(6) host_ops_hb(6) [OF hb]]
    pc_ok_host_op [OF ok host_ops_core(7) host_ops_hb(7) [OF hb]] pc_ok_host_op [OF ok host_ops_core(8) host_ops_hb(8) [OF hb]]
    pc_ok_host_op [OF ok host_ops_core(9) host_ops_hb(9) [OF hb]] pc_ok_host_op [OF ok host_ops_core(10) host_ops_hb(10) [OF hb]]
  show ?thesis
  proof (cases ev)
    case (PJoin host cid rpc now)
    show ?thesis using ok PJoin pc_ok_join by simp
  next
    case PLeave
    show ?thesis using ok PLeave pc_ok_leave by simp
  next
    case PClose
    show ?thesis unfolding PClose pc_do.simps pc_close_def
      by (rule pc_ok_drop [OF ok]) (use ok in \<open>auto simp: pc_ok_def\<close>)
  next
    case (PInEnded r)
    have "pc_ok (close_swarm (pc_swarm pc) (pc\<lparr>pc_viewer := None, pc_swarm := None, pc_viewerHost := ''''\<rparr>))"
      by (rule pc_ok_drop [OF ok]) (use ok in \<open>auto simp: pc_ok_def\<close>)
    then show ?thesis using PInEnded ok by (simp add: OnPartyEnded_def pc_ok_def)
  next
    case (PInAudience r a)
    have "pc_ok (pc\<lparr>pc_lastAudience := pa_members a\<rparr>)" using ok by (simp add: pc_ok_def)
    note ok' = this pc_ok_set_peers [OF this, of "pa_members a"]
    show ?thesis using PInAudience ok'
      by (simp add: OnPartyAudience_def Let_def pc_ok_ignores split: option.split)
  next
    case (PServe r req)
    show ?thesis using ok PServe SwarmSegment_fields
      by (auto simp: pc_SwarmSegment_def split: option.splits prod.splits intro!: pc_ok_swarm(1))
  next
    case (PHave r h now)
    show ?thesis using ok PHave
      by (auto simp: pc_OnSwarmHave_def split: option.splits intro!: pc_ok_swarm(1))
  next
    case (PInState r s now)
    show ?thesis using ok PInState pc_ok_state by simp
  next
    case (PPlayer m now)
    then show ?thesis using ok pc_ok_host_op [OF ok host_ops_core(11) host_ops_hb(11) [OF hb]] by (cases "hostWS_msg gc m now pc") auto
  qed (simp_all add: host_op)
qed

lemma pc_ok_run: "pc_ok pc \<Longrightarrow> pc_ok (fold (pc_do gc) evs pc)"
  by (induction evs arbitrary: pc) (simp_all add: pc_ok_do)


section \<open>Admission\<close>

definition host_only :: "Body \<Rightarrow> bool" where
  \<comment> \<open>what a Host sends to its Audience\<close>
  "host_only b \<longleftrightarrow> (case b of BPartyState _ \<Rightarrow> True | BPartyAudience _ \<Rightarrow> True | BPartyEnded _ \<Rightarrow> True
     | BPartyDanmaku d \<Rightarrow> dm_sender_node_id d \<noteq> '''' | _ \<Rightarrow> False)"

definition members_ok :: "(NodeID \<Rightarrow> bool) \<Rightarrow> Host \<Rightarrow> bool" where
  "members_ok ok h \<longleftrightarrow> (\<forall>(n, nm) \<in> set (h_audience h). ok n)"

definition sent_ok :: "(NodeID \<Rightarrow> bool) \<Rightarrow> NodeID \<times> Envelope \<Rightarrow> bool" where
  "sent_ok ok p \<longleftrightarrow> (case EBody (snd p) of Some b \<Rightarrow> host_only b \<longrightarrow> ok (fst p) | None \<Rightarrow> True)"

definition admitted :: "(NodeID \<Rightarrow> bool) \<Rightarrow> partyCoordinator \<Rightarrow> bool" where
  "admitted ok pc \<longleftrightarrow> pc_allowed pc = Some ok \<and> (\<forall>h. pc_host pc = Some h \<longrightarrow> members_ok ok h) \<and> list_all (sent_ok ok) (pc_sent pc)"

lemma admittedD: "admitted ok pc \<Longrightarrow> pc_host pc = Some h \<Longrightarrow> members_ok ok h"
  by (auto simp: admitted_def)

lemma admitted_frame:
  "admitted ok pc \<Longrightarrow> pc_allowed pc' = pc_allowed pc \<Longrightarrow> pc_host pc' = pc_host pc \<Longrightarrow> pc_sent pc' = pc_sent pc \<Longrightarrow> admitted ok pc'"
  by (auto simp: admitted_def)

lemma admitted_host: "admitted ok pc \<Longrightarrow> (\<forall>h. x = Some h \<longrightarrow> members_ok ok h) \<Longrightarrow> admitted ok (pc\<lparr>pc_host := x\<rparr>)"
  by (auto simp: admitted_def)

lemma admitted_send: "admitted ok pc \<Longrightarrow> members_ok ok h \<Longrightarrow> admitted ok (sendMembers h b pc)"
  by (auto simp: admitted_def members_ok_def sendMembers_eq sent_ok_def list_all_iff)

lemma admitted_sendTo: "admitted ok pc \<Longrightarrow> \<not> host_only b \<Longrightarrow> admitted ok (sendTo n (envelope 0 b) pc)"
  by (auto simp: admitted_def sendTo_def sent_ok_def)

lemma members_ok_ops [simp]:
  "members_ok ok (NewHost now cfg pid cid)" "members_ok ok h \<Longrightarrow> members_ok ok (Host_Leave n h)"
  "members_ok ok (Host_OnPlay p now h) = members_ok ok h" "members_ok ok (Host_OnPause p now h) = members_ok ok h"
  "members_ok ok (Host_OnSeek p now h) = members_ok ok h" "members_ok ok (Host_OnReport p now h) = members_ok ok h"
  "members_ok ok (fst (Host_Tick now h)) = members_ok ok h"
  by (auto simp: members_ok_def NewHost_def Host_Leave_def Host_OnPlay_def Host_OnPause_def Host_OnSeek_def Host_OnReport_def
      Host_Tick_def Let_def AList.delete_eq split: prod.splits)

lemma members_ok_join: "members_ok ok h \<Longrightarrow> ok n \<Longrightarrow> members_ok ok (Host_Join n nm h)"
proof -
  have "set (AList.update n nm m) \<subseteq> insert (n, nm) (set m)" for m :: "(string, string) gomap"
    by (induction m) auto
  then show "members_ok ok h \<Longrightarrow> ok n \<Longrightarrow> members_ok ok (Host_Join n nm h)" by (fastforce simp: members_ok_def Host_Join_def)
qed

lemma admitted_push [simp]: "admitted ok pc \<Longrightarrow> admitted ok (pushDanmaku txt sender pc)"
  using admitted_frame [of ok pc "pushDanmaku txt sender pc"] push_fields(1) [of "txt" sender pc] by (simp add: pc_core_def)

lemma admitted_broadcast: "admitted ok pc \<Longrightarrow> members_ok ok h \<Longrightarrow> admitted ok (broadcastDanmaku gc h n nm txt pc)"
  by (simp add: broadcastDanmaku_def Let_def admitted_send)

lemma admitted_audience: "admitted ok pc \<Longrightarrow> members_ok ok h \<Longrightarrow> admitted ok (broadcastAudience h pc)"
  by (auto simp: broadcastAudience_def intro: admitted_frame [OF admitted_send])

lemma admitted_swarm_ops:
  "admitted ok pc \<Longrightarrow> admitted ok (close_swarm x pc)" "admitted ok pc \<Longrightarrow> admitted ok (set_swarm_peers ms pc)"
  "admitted ok pc \<Longrightarrow> admitted ok (OnPartyState r s now pc)" "admitted ok pc \<Longrightarrow> admitted ok (beginViewer r pc)"
  subgoal by (auto simp: close_swarm_def elim: admitted_frame split: option.split)
  subgoal by (auto simp: set_swarm_peers_def elim: admitted_frame split: option.split prod.split)
  subgoal by (auto simp: OnPartyState_def elim: admitted_frame split: option.split)
  subgoal by (auto simp: beginViewer_def elim: admitted_frame)
  done

lemma admitted_join:
  assumes "admitted ok pc"
  shows "admitted ok (snd (OnJoinParty r cid now pc))"
proof (cases "pc_host pc")
  case (Some h)
  have al: "pc_allowed pc = Some ok" using assms by (simp add: admitted_def)
  have "admitted ok (broadcastAudience (Host_Join r r h) (pc\<lparr>pc_host := Some (Host_Join r r h)\<rparr>))" if "ok r"
    using that admittedD [OF assms Some] by (intro admitted_audience admitted_host assms) (auto intro: members_ok_join)
  then show ?thesis using Some al assms by (auto simp: OnJoinParty_def Let_def)
qed (simp add: OnJoinParty_def assms)

lemma admitted_danmaku: "admitted ok pc \<Longrightarrow> admitted ok (OnPartyDanmaku gc r d now pc)"
proof (cases "pc_host pc")
  case (Some h)
  assume a: "admitted ok pc"
  then have "admitted ok (pc\<lparr>pc_gate := g\<rparr>)" for g by (auto elim: admitted_frame)
  then show ?thesis using Some a admittedD [OF a Some]
    by (auto simp: OnPartyDanmaku_def Let_def intro: admitted_broadcast split: option.split prod.split)
qed (auto simp: OnPartyDanmaku_def Let_def)

lemma admitted_say: "admitted ok pc \<Longrightarrow> admitted ok (handlePlayerDanmaku gc txt pc)"
proof (cases "pc_host pc")
  case (Some h)
  assume a: "admitted ok pc"
  then show ?thesis using Some admittedD [OF a Some] by (auto simp: handlePlayerDanmaku_def intro: admitted_broadcast)
qed (auto simp: handlePlayerDanmaku_def Let_def host_only_def intro!: admitted_sendTo)

lemma admitted_beat: "admitted ok pc \<Longrightarrow> admitted ok (heartbeat_tick now pc)"
proof (cases "pc_host pc")
  case (Some h)
  assume a: "admitted ok pc"
  obtain h' st b where t: "Host_Tick now h = (h', st, b)" by (metis prod_cases3)
  have "members_ok ok h'" using admittedD [OF a Some] members_ok_ops(7) [of ok now h] t by simp
  then show ?thesis using Some a t
    by (auto simp: heartbeat_tick_def intro!: admitted_send admitted_host)
qed (simp add: heartbeat_tick_def)

lemma admitted_player: "admitted ok pc \<Longrightarrow> hostWS_msg gc m now pc = Some pc' \<Longrightarrow> admitted ok pc'"
proof (cases "pc_host pc")
  case None
  assume "admitted ok pc" "hostWS_msg gc m now pc = Some pc'"
  then show ?thesis using None admitted_say [of ok pc gc "pm_Text m"] by (auto simp: hostWS_msg_def split: if_splits)
next
  case (Some h)
  assume a: "admitted ok pc" "hostWS_msg gc m now pc = Some pc'"
  then show ?thesis using Some admittedD [OF a(1) Some] admitted_say [of ok pc gc "pm_Text m"]
    by (auto simp: hostWS_msg_def intro!: admitted_host split: if_splits)
qed

lemma admitted_end: "admitted ok pc \<Longrightarrow> admitted ok (EndParty reason pc)"
proof -
  assume a: "admitted ok pc"
  then have "admitted ok (pc\<lparr>pc_host := None, pc_stopHB := False\<rparr>)" by (simp add: admitted_def)
  then show ?thesis using admittedD [OF a] by (auto simp: EndParty_def Let_def intro: admitted_send split: option.split)
qed

lemma admitted_quit: "admitted ok pc \<Longrightarrow> admitted ok (LeaveParty pc)"
proof -
  assume a: "admitted ok pc"
  then have "admitted ok (pc\<lparr>pc_viewer := None, pc_swarm := None, pc_viewerHost := ''''\<rparr>)" by (auto elim: admitted_frame)
  then show ?thesis
    by (auto simp: LeaveParty_def Let_def host_only_def intro!: admitted_swarm_ops admitted_sendTo split: option.split)
qed

lemma admitted_enter: "admitted ok pc \<Longrightarrow> admitted ok (snd (pc_JoinParty host cid rpc now pc))"
proof -
  assume a: "admitted ok pc"
  then have "admitted ok ((beginViewer host pc)\<lparr>pc_swarm := x\<rparr>)" for x
    by (auto simp: beginViewer_def elim: admitted_frame)
  then show ?thesis using a
    by (auto simp: pc_JoinParty_def Let_def intro!: admitted_swarm_ops split: option.split sum.split)
qed

lemma admitted_do: "admitted ok pc \<Longrightarrow> admitted ok (pc_do gc ev pc)"
proof (cases ev)
  case (PPlayer m now)
  assume "admitted ok pc"
  then show ?thesis using PPlayer admitted_player by (cases "hostWS_msg gc m now pc") auto
next
  case (PInLeave r)
  assume a: "admitted ok pc"
  then show ?thesis using PInLeave admittedD [OF a]
    by (auto simp: OnLeaveParty_def Let_def intro!: admitted_audience admitted_host split: option.split)
next
  case (PInAudience r au)
  assume "admitted ok pc"
  then have "admitted ok (pc\<lparr>pc_lastAudience := pa_members au\<rparr>)" by (auto elim: admitted_frame)
  note a = this admitted_swarm_ops(2) [OF this, of "pa_members au"]
  show ?thesis using PInAudience a by (auto simp: OnPartyAudience_def Let_def intro: admitted_frame [OF a(2)] split: option.split)
next
  case (PInEnded r)
  assume a: "admitted ok pc"
  then have "admitted ok (pc\<lparr>pc_viewer := None, pc_swarm := None, pc_viewerHost := ''''\<rparr>)" by (auto elim: admitted_frame)
  from admitted_swarm_ops(1) [OF this, of "pc_swarm pc"] show ?thesis
    using PInEnded a by (auto simp: OnPartyEnded_def elim: admitted_frame)
next
  case PClose
  assume a: "admitted ok pc"
  then have "admitted ok (pc\<lparr>pc_stopHB := False, pc_swarm := None\<rparr>)" by (auto elim: admitted_frame)
  then show ?thesis using PClose by (simp add: pc_close_def admitted_swarm_ops)
next
  case (PStart cid now)
  assume a: "admitted ok pc"
  then show ?thesis using PStart by (simp add: StartParty_def Let_def admitted_def)
qed (auto simp: admitted_join admitted_danmaku admitted_say admitted_beat admitted_end admitted_quit admitted_enter admitted_swarm_ops
    pc_OnSwarmHave_def pc_SwarmSegment_def refreshViewerRTT_def serveWS_open_def serveWS_exit_def elim: admitted_frame
    split: option.split prod.split sum.split)

text \<open>
  C15. Admission control of a Watch Party: under an access policy, whatever messages, players and parties
  come and go, every member of the Audience is a Node the policy admits, and every state, Audience list,
  comment and end notice the Host ever sent went to an admitted Node.
\<close>
theorem party_admission:
  assumes "pc = fold (pc_do gc) evs (setAllowed ok (newPartyCoordinator hasSend tr self cfg))"
  shows "(\<forall>h. pc_host pc = Some h \<longrightarrow> (\<forall>m \<in> set (Host_Members h). ok (m_NodeID m))) \<and>
         (\<forall>(n, env) \<in> set (pc_sent pc). \<forall>b. EBody env = Some b \<and> host_only b \<longrightarrow> ok n)"
proof -
  have base: "admitted ok (setAllowed ok (newPartyCoordinator hasSend tr self cfg))"
    by (simp add: admitted_def setAllowed_def newPartyCoordinator_def)
  have "admitted ok (fold (pc_do gc) evs pc0)" if "admitted ok pc0" for pc0
    using that by (induction evs arbitrary: pc0) (simp_all add: admitted_do)
  from this [OF base] have "admitted ok pc" by (simp add: assms)
  then show ?thesis
    by (fastforce simp: admitted_def members_ok_def Host_Members_def list_all_iff sent_ok_def)
qed

section \<open>Comments\<close>

text \<open>
  Comments cannot be spoofed: a Host that receives a comment fans it out, to exactly its Audience and its
  own player, only when the sending Node is in the Audience, the capped text is not empty and the
  sender's rate allows it; the copies bear the sender's own Node ID and roster name, whatever the
  message claimed. In every other case nobody is sent anything.
\<close>
theorem danmaku_fanout:
  assumes "pc_host pc = Some h" and "pc_send pc"
  shows "let t = CapText gc (dm_text d); pc' = OnPartyDanmaku gc remote d now pc;
             fan = (case Host_Member h remote of None \<Rightarrow> [] | Some nm \<Rightarrow>
                      if t \<noteq> '''' \<and> fst (Gate_Allow remote now (pc_gate pc))
                      then map (\<lambda>m. (m_NodeID m, envelope 0 (BPartyDanmaku \<lparr>dm_party_id = h_partyID h, dm_sender_node_id = remote,
                             dm_sender_display = nm, dm_text = t\<rparr>))) (Host_Members h)
                      else [])
         in pc_sent pc' = pc_sent pc @ fan \<and> pc_host pc' = Some h \<and> (Host_Member h remote = None \<longrightarrow> pc' = pc)"
proof (cases "Host_Member h remote")
  case None
  then show ?thesis using assms by (simp add: OnPartyDanmaku_def)
next
  case (Some nm)
  have m: "map (\<lambda>m. (m_NodeID m, x)) (Host_Members h) = map (\<lambda>(n, _). (n, x)) (h_audience h)" for x :: Envelope
    by (simp add: Host_Members_def comp_def split_def)
  obtain ok g where g: "Gate_Allow remote now (pc_gate pc) = (ok, g)" by fastforce
  show ?thesis using assms Some g
    by (simp add: OnPartyDanmaku_def Let_def m broadcastDanmaku_def sendMembers_eq CapText_idem)
qed

section \<open>Following a Host\<close>

definition keeps_following :: "NodeID \<Rightarrow> pc_ev \<Rightarrow> bool" where
  \<comment> \<open>the event neither joins nor leaves a party, is no end notice of the Host and no RTT sample\<close>
  "keeps_following vh ev \<longleftrightarrow>
     (case ev of PJoin _ _ _ _ \<Rightarrow> False | PLeave \<Rightarrow> False | PInEnded r \<Rightarrow> r \<noteq> vh | PRtt _ \<Rightarrow> False | _ \<Rightarrow> True)"

definition host_state :: "NodeID \<Rightarrow> pc_ev \<Rightarrow> (State \<times> time) option" where
  "host_state vh ev = (case ev of PInState r s now \<Rightarrow> if r = vh then Some (fromWireState s, now) else None | _ \<Rightarrow> None)"

lemma viewer_frame:
  "pc_core pc' = pc_core pc \<Longrightarrow> pc_viewerHost pc' = pc_viewerHost pc"
  by (simp add: pc_core_def)

lemma host_ops_viewer [simp]:
  "pc_viewer (snd (StartParty cid now pc)) = pc_viewer pc" "pc_viewer (EndParty reason pc) = pc_viewer pc"
  "pc_viewer (snd (OnJoinParty r cid now pc)) = pc_viewer pc" "pc_viewer (OnLeaveParty r pc) = pc_viewer pc"
  "pc_viewer (OnPartyDanmaku gc r d now pc) = pc_viewer pc" "pc_viewer (handlePlayerDanmaku gc txt pc) = pc_viewer pc"
  "pc_viewer (heartbeat_tick now pc) = pc_viewer pc" "pc_viewer (pc_close pc) = pc_viewer pc"
  "pc_viewer (serveWS_open pc) = pc_viewer pc" "pc_viewer (serveWS_exit k pc) = pc_viewer pc"
  "pc_viewer (OnPartyAudience r a pc) = pc_viewer pc" "pc_viewer (pc_OnSwarmHave r hv now pc) = pc_viewer pc"
  "pc_viewer (snd (pc_SwarmSegment r req pc)) = pc_viewer pc"
  subgoal by (simp add: StartParty_def Let_def)
  subgoal by (simp add: EndParty_def Let_def split: option.split)
  subgoal by (simp add: OnJoinParty_def Let_def split: option.split)
  subgoal by (simp add: OnLeaveParty_def Let_def split: option.split)
  subgoal by (simp add: OnPartyDanmaku_def Let_def split: option.split prod.split)
  subgoal by (simp add: handlePlayerDanmaku_def Let_def split: option.split)
  subgoal by (simp add: heartbeat_tick_def split: option.split prod.split)
  subgoal by (simp add: pc_close_def)
  subgoal by (simp add: serveWS_open_def)
  subgoal by (simp add: serveWS_exit_def)
  subgoal by (simp add: OnPartyAudience_def Let_def set_swarm_peers_def split: option.split prod.split)
  subgoal by (simp add: pc_OnSwarmHave_def split: option.split)
  subgoal by (simp add: pc_SwarmSegment_def split: option.split prod.split)
  done

lemma other_ops_host [simp]:
  "pc_viewerHost (pc_close pc) = pc_viewerHost pc" "pc_viewerHost (OnPartyAudience r a pc) = pc_viewerHost pc"
  "pc_viewerHost (pc_OnSwarmHave r hv now pc) = pc_viewerHost pc" "pc_viewerHost (snd (pc_SwarmSegment r req pc)) = pc_viewerHost pc"
  "pc_viewerHost (OnPartyState r s now pc) = pc_viewerHost pc"
  by (auto simp: pc_close_def OnPartyAudience_def Let_def set_swarm_peers_def pc_OnSwarmHave_def pc_SwarmSegment_def OnPartyState_def
      split: option.split prod.split)

lemma player_viewer: "hostWS_msg gc m now pc = Some pc' \<Longrightarrow> pc_viewer pc' = pc_viewer pc"
  by (auto simp: hostWS_msg_def split: if_splits option.splits)

lemma follow_step:
  assumes "pc_viewer pc = Some v" and "pc_viewerHost pc = vh" and "keeps_following vh ev"
  shows "pc_viewer (pc_do gc ev pc) = Some (case host_state vh ev of None \<Rightarrow> v | Some (s, now) \<Rightarrow> Viewer_OnState s now v) \<and>
         pc_viewerHost (pc_do gc ev pc) = vh"
proof (cases ev)
  case (PPlayer m now)
  then show ?thesis using assms player_viewer viewer_frame [OF host_ops_core(11)]
    by (cases "hostWS_msg gc m now pc") (auto simp: host_state_def)
next
  case (PInState r s now)
  then show ?thesis using assms by (auto simp: OnPartyState_def host_state_def)
qed (use assms viewer_frame [OF host_ops_core(1)] viewer_frame [OF host_ops_core(2)] viewer_frame [OF host_ops_core(3)]
      viewer_frame [OF host_ops_core(4)] viewer_frame [OF host_ops_core(5)] viewer_frame [OF host_ops_core(6)]
      viewer_frame [OF host_ops_core(7)] viewer_frame [OF host_ops_core(9)] viewer_frame [OF host_ops_core(10)]
    in \<open>simp_all add: keeps_following_def host_state_def OnPartyEnded_def\<close>)


lemma fromWire_toWire [simp]: "fromWireState (toWireState s) = s"
  by (simp add: fromWireState_def toWireState_def)

text \<open>
  A heartbeat carries the Host's state to the Viewers: the message a Host's tick sends to an Audience
  member, received by that member's coordinator, feeds its Viewer engine exactly the state of the tick.
\<close>
theorem heartbeat_reaches_viewer:
  assumes "pc_host a = Some h" and "pc_stopHB a" and "pc_send a" and "Host_Tick now h = (h', st, chg)"
    and "m \<in> set (Host_Members h')" and "pc_viewer b = Some v" and "pc_viewerHost b = pc_self a"
  shows "\<exists>ps. (m_NodeID m, envelope 0 (BPartyState ps)) \<in> set (drop (length (pc_sent a)) (pc_sent (heartbeat_tick now a))) \<and>
              pc_viewer (OnPartyState (pc_self a) ps t b) = Some (Viewer_OnState st t v)"
proof -
  have "pc_sent (heartbeat_tick now a) = pc_sent a @ map (\<lambda>(n, _). (n, envelope 0 (BPartyState (toWireState st)))) (h_audience h')"
    using assms by (simp add: heartbeat_tick_def sendMembers_eq)
  moreover have "(m_NodeID m, envelope 0 (BPartyState (toWireState st))) \<in> (\<lambda>(n, _). (n, envelope 0 (BPartyState (toWireState st)))) ` set (h_audience h')"
    using assms(5) by (force simp: Host_Members_def)
  ultimately show ?thesis using assms(6,7) by (intro exI [of _ "toWireState st"]) (simp add: OnPartyState_def)
qed

section \<open>What the coordinator does not check\<close>

text \<open>
  Any Node can rewrite a Viewer's Audience and mesh: an Audience message is accepted from a Node that is not
  the followed Host, becomes the Audience shown to the user and the peer set of the mesh session, and makes the Node
  dial its members.
\<close>
theorem audience_from_anyone:
  assumes "pc_swarm pc = Some ss" and "remote \<noteq> pc_viewerHost pc"
  shows "let pc' = OnPartyAudience remote a pc
         in pc_lastAudience pc' = pa_members a \<and> pc_swarm pc' = Some (fst (setPeers (map am_node_id (pa_members a)) ss)) \<and>
            pc_dialed pc' = pc_dialed pc @ filter (\<lambda>n. n \<noteq> ss_self ss) (map am_node_id (pa_members a))"
  using assms(1) by (simp add: OnPartyAudience_def set_swarm_peers_def Let_def setPeers_def)

text \<open>
  Starting a party over a running one abandons its Audience: the old Host engine with its members is
  dropped, nothing is sent to them, and the end of the new party notifies none of them.
\<close>
theorem restart_abandons_audience:
  assumes "pc_host pc = Some h"
  shows "pc_sent (EndParty reason (snd (StartParty cid now pc))) = pc_sent pc"
  by (simp add: StartParty_def EndParty_def Let_def NewHost_def sendMembers_eq)

section \<open>Witnesses\<close>

definition example_pc :: partyCoordinator where
  "example_pc = setAllowed (\<lambda>n. n = ''v'') (newPartyCoordinator True True ''me'' DefaultConfig)"

definition example_gc :: "string \<Rightarrow> string list" where "example_gc = map (\<lambda>c. [c])"

definition example_welcome :: PartyWelcome where
  "example_welcome = \<lparr>pw_party_id = ''p'', pw_initial = None, pw_audience = None\<rparr>"


definition example_hosting :: partyCoordinator where
  "example_hosting = fold (pc_do example_gc) [PStart ''c'' 1, PInJoin ''v'' ''c'' 2] example_pc"

definition example_host :: Host where
  "example_host = Host_Join ''v'' ''v'' (NewHost 1 DefaultConfig ''me:c'' ''c'')"

lemma example_hosting_host: "pc_host example_hosting = Some example_host" "pc_send example_hosting" "pc_stopHB example_hosting"
  "pc_self example_hosting = ''me''"
  by (simp_all add: example_hosting_def example_host_def example_pc_def setAllowed_def newPartyCoordinator_def StartParty_def Let_def
      OnJoinParty_def broadcastAudience_def NewHost_def)

theorem party_admission_witness:
  "pc_host (fold (pc_do example_gc) [PStart ''c'' 1, PInJoin ''v'' ''c'' 2] (setAllowed (\<lambda>n. n = ''v'') (newPartyCoordinator True True ''me'' DefaultConfig)))
     = Some example_host \<and> list_all (\<lambda>m. m_NodeID m = ''v'') (Host_Members example_host)"
proof -
  let ?pc = "fold (pc_do example_gc) [PStart ''c'' 1, PInJoin ''v'' ''c'' 2] (setAllowed (\<lambda>n. n = ''v'') (newPartyCoordinator True True ''me'' DefaultConfig))"
  have "pc_host ?pc = Some example_host" using example_hosting_host(1) by (simp only: example_hosting_def example_pc_def)
  moreover from party_admission [OF refl] this have "\<forall>m \<in> set (Host_Members example_host). m_NodeID m = ''v''" by blast
  ultimately show ?thesis by (simp only: list_all_iff)
qed

theorem danmaku_fanout_witness:
  "OnPartyDanmaku example_gc ''x'' \<lparr>dm_party_id = ''p'', dm_sender_node_id = ''v'', dm_sender_display = ''v'', dm_text = ''hi''\<rparr> 7 example_hosting
     = example_hosting"
  using danmaku_fanout [OF example_hosting_host(1,2), where gc = example_gc and remote = "''x''" and now = 7
      and d = "\<lparr>dm_party_id = ''p'', dm_sender_node_id = ''v'', dm_sender_display = ''v'', dm_text = ''hi''\<rparr>"]
  by (simp add: Let_def example_host_def Host_Member_def Host_Join_def NewHost_def)

definition example_following :: partyCoordinator where
  "example_following = example_pc\<lparr>pc_viewer := Some (NewViewer DefaultConfig), pc_viewerHost := ''me''\<rparr>"


theorem heartbeat_reaches_viewer_witness:
  "\<exists>ps. (''v'', envelope 0 (BPartyState ps)) \<in> set (drop (length (pc_sent example_hosting)) (pc_sent (heartbeat_tick 9 example_hosting))) \<and>
        pc_viewer (OnPartyState ''me'' ps 12 example_following) = Some (Viewer_OnState (Host_Snapshot 9 example_host) 12 (NewViewer DefaultConfig))"
proof -
  have t: "Host_Tick 9 example_host = (example_host, Host_Snapshot 9 example_host, False)"
    by (simp add: Host_Tick_def Let_def example_host_def Host_Join_def NewHost_def)
  have m: "\<lparr>m_NodeID = ''v'', m_DisplayName = ''v''\<rparr> \<in> set (Host_Members example_host)"
    by (simp add: Host_Members_def example_host_def Host_Join_def NewHost_def)
  have v: "pc_viewer example_following = Some (NewViewer DefaultConfig)" "pc_viewerHost example_following = pc_self example_hosting"
    by (simp_all add: example_following_def example_hosting_host)
  from heartbeat_reaches_viewer [OF example_hosting_host(1,3,2) t m v, of 12] show ?thesis by (simp add: example_hosting_host)
qed

theorem audience_from_anyone_witness:
  "let pc = example_following\<lparr>pc_swarm := Some (newSwarmSession ''me2'' ''me'' ''c'' SwarmDefaultConfig)\<rparr>
   in pc_lastAudience (OnPartyAudience ''evil'' \<lparr>pa_party_id = ''p'', pa_members = [\<lparr>am_node_id = ''z'', am_display_name = ''z''\<rparr>]\<rparr> pc)
        = [\<lparr>am_node_id = ''z'', am_display_name = ''z''\<rparr>]"
  using audience_from_anyone [of "example_following\<lparr>pc_swarm := Some (newSwarmSession ''me2'' ''me'' ''c'' SwarmDefaultConfig)\<rparr>"
      "newSwarmSession ''me2'' ''me'' ''c'' SwarmDefaultConfig" "''evil''"
      "\<lparr>pa_party_id = ''p'', pa_members = [\<lparr>am_node_id = ''z'', am_display_name = ''z''\<rparr>]\<rparr>"]
  by (simp add: Let_def example_following_def)

theorem restart_abandons_audience_witness:
  "pc_sent (EndParty ''bye'' (snd (StartParty ''d'' 8 example_hosting))) = pc_sent example_hosting"
  using restart_abandons_audience [OF example_hosting_host(1)] by blast

end
