(* ===== verification/Bulk_Framing.thy ===== *)
theory Bulk_Framing
  imports Peer_Wire
begin

text \<open>
  The bulk channel of \<open>internal/peer/bulk.go\<close> and the transfer loops of \<open>session.go\<close>: framing of a
  byte stream into messages of at most \<open>FrameSize\<close> bytes, and the receiving side's sinks.

  An \<open>io.Reader\<close> is the list of results of its successive \<open>Read\<close> calls: the bytes read and what
  follows (more, end of file, an error). An \<open>io.Writer\<close> is the list of accepted bytes with the
  number of \<open>Write\<close> calls it still accepts, \<open>None\<close> for a writer that never fails.
\<close>

unbundle bit_operations_syntax

section \<open>Frames: \<open>bulk.go\<close>\<close>

definition FrameSize :: nat where "FrameSize = 16 * 1024"

definition bulkHeaderSize :: nat where "bulkHeaderSize = 13"

definition payloadMax :: nat where "payloadMax = FrameSize - bulkHeaderSize"

definition flagLast :: byte where "flagLast = 0x01"

definition be_bytes :: "nat \<Rightarrow> 'a::len word \<Rightarrow> bytes" where
  \<comment> \<open>\<open>binary.BigEndian.PutUint64\<close> and \<open>PutUint32\<close>: \<open>n\<close> bytes, most significant first\<close>
  "be_bytes n w = map (\<lambda>i. ucast (drop_bit (8 * (n - 1 - i)) w)) [0 ..< n]"

definition be_word :: "bytes \<Rightarrow> 'a::len word" where
  "be_word bs = fold (\<lambda>b acc. push_bit 8 acc OR ucast b) bs 0"

definition encodeBulkFrame :: "u64 \<Rightarrow> u32 \<Rightarrow> bool \<Rightarrow> bytes \<Rightarrow> bytes" where
  "encodeBulkFrame requestID seq islast payload =
     be_bytes 8 requestID @ be_bytes 4 seq @ [if islast then flagLast else 0] @ payload"

definition decodeBulkFrame :: "bytes \<Rightarrow> (u64 \<times> u32 \<times> bool \<times> bytes) option" where
  "decodeBulkFrame raw =
     (if length raw < bulkHeaderSize then None
      else Some (be_word (take 8 raw), be_word (take 4 (drop 8 raw)), raw ! 12 AND flagLast \<noteq> 0,
                 drop bulkHeaderSize raw))"

lemma length_be_bytes [simp]: "length (be_bytes n w) = n"
  by (simp add: be_bytes_def)

lemma be_bytes_Suc: "be_bytes (Suc n) w = be_bytes n (drop_bit 8 w) @ [ucast w]"
  by (auto simp: be_bytes_def algebra_simps intro!: arg_cong [where f = ucast] arg_cong2 [where f = drop_bit])

lemma be_word_snoc: "be_word (bs @ [b]) = (push_bit 8 (be_word bs) OR ucast b)"
  by (simp add: be_word_def)

lemma be_word_bytes: "be_word (be_bytes n w) = take_bit (8 * n) w"
proof (induction n arbitrary: w)
  case 0
  then show ?case by (simp add: be_word_def be_bytes_def)
next
  case (Suc n)
  show ?case
    unfolding be_bytes_Suc be_word_snoc Suc
    by (rule bit_word_eqI) (auto simp: bit_simps)
qed

lemma be_word_bytes_id [simp]:
  "be_word (be_bytes 8 (w :: u64)) = w" "be_word (be_bytes 4 (v :: u32)) = v"
  by (simp_all add: be_word_bytes take_bit_word_eq_self)

lemma decode_encode [simp]: "decodeBulkFrame (encodeBulkFrame i q islast p) = Some (i, q, islast, p)"
  by (simp add: decodeBulkFrame_def encodeBulkFrame_def bulkHeaderSize_def nth_append flagLast_def)

lemma length_encode [simp]: "length (encodeBulkFrame i q islast p) = bulkHeaderSize + length p"
  by (simp add: encodeBulkFrame_def bulkHeaderSize_def)

section \<open>The sender: \<open>sendBulkReader\<close>\<close>

datatype reader =
    RMore bytes reader   \<comment> \<open>\<open>Read\<close> returned bytes and a nil error\<close>
  | REof bytes           \<comment> \<open>bytes (possibly none) and \<open>io.EOF\<close>\<close>
  | RErr bytes gerror    \<comment> \<open>bytes (possibly none) and another error\<close>

fun reader_content :: "reader \<Rightarrow> bytes" where
  "reader_content (RMore b r) = b @ reader_content r"
| "reader_content (REof b) = b"
| "reader_content (RErr b e) = b"

fun reader_err :: "reader \<Rightarrow> gerror option" where
  "reader_err (RMore b r) = reader_err r"
| "reader_err (REof b) = None"
| "reader_err (RErr b e) = Some e"

fun reader_chunks :: "reader \<Rightarrow> bytes list" where
  "reader_chunks (RMore b r) = b # reader_chunks r"
| "reader_chunks (REof b) = [b]"
| "reader_chunks (RErr b e) = [b]"

function bytes_reader :: "bytes \<Rightarrow> reader" where
  \<comment> \<open>\<open>bytes.NewReader\<close> read through a buffer of \<open>payloadMax\<close> bytes\<close>
  "bytes_reader data = (if data = [] then REof [] else RMore (take payloadMax data) (bytes_reader (drop payloadMax data)))"
  by pat_completeness auto
termination by (relation "measure length") (auto simp: payloadMax_def FrameSize_def bulkHeaderSize_def)

declare bytes_reader.simps [simp del]

definition bulkHighWater :: nat where "bulkHighWater = 2 ^ 20"

fun flow_wait :: "(nat \<times> bool) list \<Rightarrow> bool" where
  \<comment> \<open>the backpressure loop: each observation is \<open>BufferedAmount()\<close> and, above the high-water mark,
     whether \<open>lowSig\<close> fired before the timer; an exhausted list is a drained buffer\<close>
  "flow_wait [] = True"
| "flow_wait ((amount, low) # obs) = (if amount > bulkHighWater then low \<and> flow_wait obs else True)"

record BulkOut =
  bo_open :: bool              \<comment> \<open>\<open>s.bulk != nil\<close>\<close>
  bo_flow :: "(nat \<times> bool) list list"  \<comment> \<open>backpressure observations for the next frames\<close>
  bo_fail :: "nat option"      \<comment> \<open>number of the frame at which \<open>bulk.Send\<close> starts to fail\<close>
  bo_sent :: "bytes list"      \<comment> \<open>frames handed to the channel, in order\<close>

definition sendFrameFlow :: "u64 \<Rightarrow> u32 \<Rightarrow> bool \<Rightarrow> bytes \<Rightarrow> BulkOut \<Rightarrow> gerror option \<times> BulkOut" where
  "sendFrameFlow reqID seq islast payload o1 =
     (if \<not> bo_open o1 then (Some (ErrText ''peer: bulk channel not open''), o1)
      else let obs = (case bo_flow o1 of [] \<Rightarrow> [] | x # _ \<Rightarrow> x);
               o2 = o1\<lparr>bo_flow := drop 1 (bo_flow o1)\<rparr>
           in if \<not> flow_wait obs then (Some (ErrText ''peer: bulk backpressure timeout''), o2)
              else if bo_fail o2 = Some (length (bo_sent o2)) then (Some (ErrText ''send failed''), o2)
              else (None, o2\<lparr>bo_sent := bo_sent o2 @ [encodeBulkFrame reqID seq islast payload]\<rparr>))"

definition send_chunk :: "u64 \<Rightarrow> u32 \<Rightarrow> bytes \<Rightarrow> BulkOut \<Rightarrow> gerror option \<times> u32 \<times> BulkOut" where
  \<comment> \<open>the \<open>n > 0\<close> branch of the loop\<close>
  "send_chunk reqID seq b o1 =
     (if b = [] then (None, seq, o1)
      else case sendFrameFlow reqID seq False b o1 of
             (Some werr, o2) \<Rightarrow> (Some werr, seq, o2)
           | (None, o2) \<Rightarrow> (None, seq + 1, o2))"

fun sendBulkReader :: "u64 \<Rightarrow> u32 \<Rightarrow> reader \<Rightarrow> BulkOut \<Rightarrow> gerror option \<times> BulkOut" where
  "sendBulkReader reqID seq (RMore b r) o1 =
     (case send_chunk reqID seq b o1 of
        (Some werr, _, o2) \<Rightarrow> (Some werr, o2)
      | (None, seq, o2) \<Rightarrow> sendBulkReader reqID seq r o2)"
| "sendBulkReader reqID seq (REof b) o1 =
     (case send_chunk reqID seq b o1 of
        (Some werr, _, o2) \<Rightarrow> (Some werr, o2)
      | (None, seq, o2) \<Rightarrow> sendFrameFlow reqID seq True [] o2)"
| "sendBulkReader reqID seq (RErr b e) o1 =
     (case send_chunk reqID seq b o1 of
        (Some werr, _, o2) \<Rightarrow> (Some werr, o2)
      | (None, seq, o2) \<Rightarrow> (Some e, o2))"

definition sendBulk :: "u64 \<Rightarrow> bytes \<Rightarrow> BulkOut \<Rightarrow> gerror option \<times> BulkOut" where
  "sendBulk reqID data o1 = sendBulkReader reqID 0 (bytes_reader data) o1"

section \<open>The receiver: sinks\<close>

record bulkSink =
  sk_buf :: bytes
  sk_room :: "nat option"                \<comment> \<open>\<open>Write\<close> calls still accepted; \<open>None\<close>: all\<close>
  sk_done :: "gerror option option"      \<comment> \<open>the cap-1 \<open>done\<close> channel\<close>

record BulkIn =
  bi_sinks :: "u64 list"                 \<comment> \<open>keys of \<open>s.bulkSinks\<close>\<close>
  bi_heap :: "(u64, bulkSink) gomap"     \<comment> \<open>the sink objects; a waiting caller keeps its own\<close>

definition signalSink :: "gerror option \<Rightarrow> bulkSink \<Rightarrow> bulkSink" where
  "signalSink err sink = (case sk_done sink of None \<Rightarrow> sink\<lparr>sk_done := Some err\<rparr> | Some _ \<Rightarrow> sink)"

definition set_sink :: "u64 \<Rightarrow> bulkSink \<Rightarrow> BulkIn \<Rightarrow> BulkIn" where
  "set_sink i sink b = b\<lparr>bi_heap := AList.update i sink (bi_heap b)\<rparr>"

definition del_sink :: "u64 \<Rightarrow> BulkIn \<Rightarrow> BulkIn" where
  "del_sink i b = b\<lparr>bi_sinks := filter (\<lambda>j. j \<noteq> i) (bi_sinks b)\<rparr>"

definition lookup_sink :: "u64 \<Rightarrow> BulkIn \<Rightarrow> bulkSink option" where
  "lookup_sink i b = (if i \<in> set (bi_sinks b) then map_of (bi_heap b) i else None)"

definition failSink :: "u64 \<Rightarrow> bulkSink \<Rightarrow> gerror \<Rightarrow> BulkIn \<Rightarrow> BulkIn" where
  "failSink i sink err b = set_sink i (signalSink (Some err) sink) (del_sink i b)"

definition sink_write :: "bytes \<Rightarrow> bulkSink \<Rightarrow> gerror option \<times> bulkSink" where
  "sink_write payload sink =
     (case sk_room sink of
        None \<Rightarrow> (None, sink\<lparr>sk_buf := sk_buf sink @ payload\<rparr>)
      | Some 0 \<Rightarrow> (Some (ErrText ''write failed''), sink)
      | Some (Suc n) \<Rightarrow> (None, sink\<lparr>sk_buf := sk_buf sink @ payload, sk_room := Some n\<rparr>))"

definition onBulkMessage :: "bytes \<Rightarrow> BulkIn \<Rightarrow> BulkIn" where
  "onBulkMessage raw b =
     (case decodeBulkFrame raw of None \<Rightarrow> b
      | Some (i, _, islast, payload) \<Rightarrow>
          (case lookup_sink i b of None \<Rightarrow> b
           | Some sink \<Rightarrow>
               (case (if payload \<noteq> [] then sink_write payload sink else (None, sink)) of
                  (Some werr, sink) \<Rightarrow> failSink i sink werr b
                | (None, sink) \<Rightarrow>
                    if islast then set_sink i (signalSink None sink) b else set_sink i sink b)))"

section \<open>A transfer end to end\<close>

fun reader_frames :: "u64 \<Rightarrow> u32 \<Rightarrow> reader \<Rightarrow> bytes list" where
  "reader_frames i q (RMore b r) = (if b = [] then reader_frames i q r else encodeBulkFrame i q False b # reader_frames i (q + 1) r)"
| "reader_frames i q (REof b) = (if b = [] then [encodeBulkFrame i q True []]
     else [encodeBulkFrame i q False b, encodeBulkFrame i (q + 1) True []])"
| "reader_frames i q (RErr b e) = (if b = [] then [] else [encodeBulkFrame i q False b])"

definition healthy :: "BulkOut \<Rightarrow> bool" where
  \<comment> \<open>the channel is open, drains in time and accepts every frame\<close>
  "healthy o1 \<longleftrightarrow> bo_open o1 \<and> (\<forall>obs \<in> set (bo_flow o1). flow_wait obs) \<and> bo_fail o1 = None"

lemma sendFrameFlow_healthy:
  "healthy o1 \<Longrightarrow> \<exists>o2. sendFrameFlow i q l p o1 = (None, o2) \<and> healthy o2 \<and> bo_sent o2 = bo_sent o1 @ [encodeBulkFrame i q l p]"
  by (cases "bo_flow o1") (auto simp: sendFrameFlow_def healthy_def Let_def)

lemma sendBulkReader_healthy:
  "healthy o1 \<Longrightarrow> \<exists>o2. sendBulkReader i q r o1 = (reader_err r, o2) \<and> healthy o2 \<and> bo_sent o2 = bo_sent o1 @ reader_frames i q r"
proof (induction r arbitrary: q o1)
  case (RMore b r)
  show ?case
  proof (cases "b = []")
    case True
    then show ?thesis using RMore by (simp add: send_chunk_def)
  next
    case False
    obtain o2 where "sendFrameFlow i q False b o1 = (None, o2)" "healthy o2"
        "bo_sent o2 = bo_sent o1 @ [encodeBulkFrame i q False b]"
      using sendFrameFlow_healthy [OF RMore.prems] by blast
    then show ?thesis using False RMore.IH [of o2 "q + 1"] by (simp add: send_chunk_def)
  qed
next
  case (REof b)
  show ?case
  proof (cases "b = []")
    case True
    then show ?thesis using sendFrameFlow_healthy [OF REof] by (simp add: send_chunk_def)
  next
    case False
    obtain o2 where "sendFrameFlow i q False b o1 = (None, o2)" "healthy o2"
        "bo_sent o2 = bo_sent o1 @ [encodeBulkFrame i q False b]"
      using sendFrameFlow_healthy [OF REof] by blast
    then show ?thesis using False sendFrameFlow_healthy [of o2 i "q + 1" True "[]"] by (auto simp: send_chunk_def)
  qed
next
  case (RErr b e)
  then show ?case using sendFrameFlow_healthy [of o1 i q False b] by (auto simp: send_chunk_def)
qed

definition frame_id :: "bytes \<Rightarrow> u64 option" where
  "frame_id raw = map_option fst (decodeBulkFrame raw)"

definition sink_step :: "bytes \<Rightarrow> bulkSink option \<Rightarrow> bulkSink option" where
  \<comment> \<open>what a frame of the sink's own transfer does to it; \<open>None\<close> is unregistered\<close>
  "sink_step raw os =
     (case (decodeBulkFrame raw, os) of
        (Some (_, _, islast, payload), Some sink) \<Rightarrow>
          (case (if payload \<noteq> [] then sink_write payload sink else (None, sink)) of
             (Some _, _) \<Rightarrow> None
           | (None, sink) \<Rightarrow> Some (if islast then signalSink None sink else sink))
      | _ \<Rightarrow> os)"

lemma lookup_set_sink: "lookup_sink i (set_sink j sink b) =
   (if i = j \<and> j \<in> set (bi_sinks b) then Some sink else lookup_sink i b)"
  by (auto simp: lookup_sink_def set_sink_def)

lemma lookup_del_sink: "lookup_sink i (del_sink j b) = (if i = j then None else lookup_sink i b)"
  by (auto simp: lookup_sink_def del_sink_def)

lemma sinks_del_sink: "set (bi_sinks (del_sink j b)) = set (bi_sinks b) - {j}"
  by (auto simp: del_sink_def)

lemma lookup_SomeD: "lookup_sink i b = Some s \<Longrightarrow> i \<in> set (bi_sinks b)"
  by (auto simp: lookup_sink_def split: if_splits)

lemma onBulkMessage_lookup:
  "lookup_sink i (onBulkMessage raw b) =
     (if frame_id raw = Some i then sink_step raw (lookup_sink i b) else lookup_sink i b)"
proof (cases "decodeBulkFrame raw")
  case None
  then show ?thesis by (simp add: onBulkMessage_def frame_id_def)
next
  case (Some x)
  obtain j q l p where x: "x = (j, q, l, p)" by (cases x)
  show ?thesis
    by (cases "lookup_sink j b")
      (auto simp: onBulkMessage_def frame_id_def sink_step_def Some x failSink_def lookup_set_sink lookup_del_sink
        sinks_del_sink dest: lookup_SomeD split: prod.splits option.splits)
qed

lemma receive_lookup:
  "lookup_sink i (fold onBulkMessage ms b) =
     fold sink_step (filter (\<lambda>m. frame_id m = Some i) ms) (lookup_sink i b)"
  by (induction ms arbitrary: b) (auto simp: onBulkMessage_lookup)

lemma sink_step_encode:
  "sink_step (encodeBulkFrame i q l p) (Some sink) =
     (case (if p \<noteq> [] then sink_write p sink else (None, sink)) of
        (Some _, _) \<Rightarrow> None | (None, sink) \<Rightarrow> Some (if l then signalSink None sink else sink))"
  by (simp add: sink_step_def)

lemma sink_write_free:
  "sk_room sink = None \<Longrightarrow> sink_write p sink = (None, sink\<lparr>sk_buf := sk_buf sink @ p\<rparr>)"
  by (simp add: sink_write_def)

lemma frames_to_sink:
  "sk_room sink = None \<Longrightarrow> sk_done sink = None \<Longrightarrow>
     fold sink_step (reader_frames i q r) (Some sink) =
       Some (sink\<lparr>sk_buf := sk_buf sink @ reader_content r, sk_done := (if reader_err r = None then Some None else None)\<rparr>)"
  by (induction r arbitrary: q sink)
    (simp_all add: sink_step_encode sink_write_free signalSink_def)

lemma frame_id_encode [simp]: "frame_id (encodeBulkFrame i q l p) = Some i"
  by (simp add: frame_id_def)

lemma reader_frames_bound:
  "\<forall>b \<in> set (reader_chunks r). length b \<le> payloadMax \<Longrightarrow> \<forall>f \<in> set (reader_frames i q r). length f \<le> FrameSize"
  by (induction r arbitrary: q) (auto simp: payloadMax_def FrameSize_def bulkHeaderSize_def)

lemma bytes_reader_content [simp]: "reader_content (bytes_reader data) = data"
  by (induction data rule: bytes_reader.induct) (subst bytes_reader.simps, auto)

lemma bytes_reader_err [simp]: "reader_err (bytes_reader data) = None"
  by (induction data rule: bytes_reader.induct) (subst bytes_reader.simps, auto)

lemma bytes_reader_chunks: "\<forall>b \<in> set (reader_chunks (bytes_reader data)). length b \<le> payloadMax"
  by (induction data rule: bytes_reader.induct) (subst bytes_reader.simps, auto)

lemma frames_own_id: "\<forall>f \<in> set (reader_frames i q r). frame_id f = Some i"
  by (induction r arbitrary: q) auto

text \<open>
  C7. A bulk transfer delivers its bytes exactly, whatever else shares the channel: when \<open>sendBulkReader\<close>
  streams a reader over a healthy channel it returns the reader's own error or nil, every frame is at
  most \<open>FrameSize\<close> bytes, and a receiver that gets these frames in order, interleaved with arbitrary
  frames of other transfers and malformed messages, ends with the reader's bytes appended to its sink
  and a nil completion iff the reader reached the end of file.
\<close>
theorem bulk_transfer_exact:
  assumes "healthy o1" and "\<forall>b \<in> set (reader_chunks r). length b \<le> payloadMax"
    and snd: "sendBulkReader i 0 r o1 = (err, o2)"
    and sink: "lookup_sink i b = Some sink" "sk_room sink = None" "sk_done sink = None"
    and rcv: "bo_sent o2 = bo_sent o1 @ filter (\<lambda>m. frame_id m = Some i) ms"
  shows "err = reader_err r \<and> (\<forall>f \<in> set (drop (length (bo_sent o1)) (bo_sent o2)). length f \<le> FrameSize) \<and>
    (\<exists>sink'. lookup_sink i (fold onBulkMessage ms b) = Some sink' \<and>
       sk_buf sink' = sk_buf sink @ reader_content r \<and>
       sk_done sink' = (if reader_err r = None then Some None else None))"
proof -
  have o2: "err = reader_err r" "bo_sent o2 = bo_sent o1 @ reader_frames i 0 r"
    using sendBulkReader_healthy [OF assms(1), of i 0 r] snd by auto
  then have "filter (\<lambda>m. frame_id m = Some i) ms = reader_frames i 0 r" using rcv by simp
  then have "lookup_sink i (fold onBulkMessage ms b) = fold sink_step (reader_frames i 0 r) (Some sink)"
    by (simp add: receive_lookup sink(1))
  then show ?thesis
    using o2 reader_frames_bound [OF assms(2), of i 0] by (simp add: frames_to_sink sink(2,3))
qed

definition example_bulk_in :: BulkIn where
  "example_bulk_in = \<lparr>bi_sinks = [1, 2], bi_heap = [(1, \<lparr>sk_buf = [], sk_room = None, sk_done = None\<rparr>),
     (2, \<lparr>sk_buf = [], sk_room = Some 0, sk_done = None\<rparr>)]\<rparr>"

definition example_bulk_out :: BulkOut where
  "example_bulk_out = \<lparr>bo_open = True, bo_flow = [[(2 ^ 21, True), (0, False)]], bo_fail = None, bo_sent = []\<rparr>"

theorem bulk_transfer_exact_witness:
  "let r = RMore [1, 2, 3] (REof [4]);
       ms = [encodeBulkFrame 1 0 False [1, 2, 3], [9], encodeBulkFrame 2 0 False [7], encodeBulkFrame 1 1 False [4],
             encodeBulkFrame 2 1 True [], encodeBulkFrame 1 2 True []]
   in \<exists>sink'. lookup_sink 1 (fold onBulkMessage ms example_bulk_in) = Some sink' \<and>
        sk_buf sink' = [] @ reader_content r \<and> sk_done sink' = Some None"
proof -
  let ?r = "RMore [1, 2, 3] (REof [4])"
  let ?ms = "[encodeBulkFrame 1 0 False [1, 2, 3], [9], encodeBulkFrame 2 0 False [7], encodeBulkFrame 1 1 False [4],
             encodeBulkFrame 2 1 True [], encodeBulkFrame 1 2 True []]"
  obtain err o2 where o2: "sendBulkReader 1 0 ?r example_bulk_out = (err, o2)" by fastforce
  have h: "healthy example_bulk_out" by (simp add: healthy_def example_bulk_out_def bulkHighWater_def)
  have c: "\<forall>b \<in> set (reader_chunks ?r). length b \<le> payloadMax"
    by (simp add: payloadMax_def FrameSize_def bulkHeaderSize_def)
  have l: "lookup_sink 1 example_bulk_in = Some \<lparr>sk_buf = [], sk_room = None, sk_done = None\<rparr>" by code_simp
  have "bo_sent o2 = bo_sent example_bulk_out @ reader_frames 1 0 ?r"
    using sendBulkReader_healthy [OF h, of 1 0 ?r] o2 by auto
  moreover have "frame_id [9] = None" by code_simp
  ultimately have "bo_sent o2 = bo_sent example_bulk_out @ filter (\<lambda>m. frame_id m = Some 1) ?ms" by simp
  from bulk_transfer_exact [OF h c o2 l _ _ this] show ?thesis by (simp add: Let_def del: fold_simps)
qed

end
