(* ===== verification/Peer_Session.thy ===== *)
theory Peer_Session
  imports Bulk_Framing
begin

text \<open>
  One WebRTC connection to a remote Node: \<open>internal/peer/session.go\<close>, \<open>party.go\<close>, \<open>swarm.go\<close> and
  \<open>framing.go\<close>, that is the request/response layer over the control channel and the bulk requests.

  \<^item> The protobuf codec is third-party: the parameter \<open>codec\<close>.
  \<^item> The handlers the application installs are records of functions on a state \<open>'w\<close>, the application.
  \<^item> A Go channel made by \<open>call\<close> is a cell of the list \<open>se_chans\<close>; the map \<open>pending\<close> holds its index.
    The cell also remembers the request id it was made for.
  \<^item> What other goroutines, the read loop and the remote do while a call waits is an explicit list of
    events \<open>peer_ev\<close>; the call returns the response if its channel holds one after them, and the
    context's error otherwise.
  \<^item> A goroutine that serves a bulk request is a \<open>job\<close>, run by the event \<open>PvJob\<close>.
\<close>

section \<open>Codec and request ids: \<open>framing.go\<close>\<close>

record codec =
  cd_Marshal :: "Envelope \<Rightarrow> gerror + bytes"
  cd_Unmarshal :: "bytes \<Rightarrow> gerror + Envelope"

definition encodeEnvelope :: "codec \<Rightarrow> Envelope \<Rightarrow> gerror + bytes" where
  "encodeEnvelope c env = cd_Marshal c env"

definition decodeEnvelope :: "codec \<Rightarrow> bytes \<Rightarrow> gerror + Envelope" where
  "decodeEnvelope c raw = cd_Unmarshal c raw"

definition requestIDs_next :: "u64 \<Rightarrow> u64" where
  "requestIDs_next n = n + 1"

section \<open>Handlers\<close>

record 'w RequestHandler =
  rh_Browse :: "NodeID \<Rightarrow> 'w \<Rightarrow> (gerror + TitleMeta list) \<times> 'w"
  rh_GetMetadata :: "NodeID \<Rightarrow> string \<Rightarrow> 'w \<Rightarrow> (gerror + TitleMeta) \<times> 'w"
  rh_LiveParties :: "NodeID \<Rightarrow> 'w \<Rightarrow> (gerror + LivePartyMeta list) \<times> 'w"
  rh_RequestAccess :: "NodeID \<Rightarrow> string \<Rightarrow> 'w \<Rightarrow> gerror option \<times> 'w"

record 'w MediaHandler =
  mh_Playlist :: "NodeID \<Rightarrow> string \<Rightarrow> string \<Rightarrow> 'w \<Rightarrow> (gerror + PlaylistMsg) \<times> 'w"
  mh_Segment :: "NodeID \<Rightarrow> string \<Rightarrow> string \<Rightarrow> 'w \<Rightarrow> (gerror + bytes) \<times> 'w"
  mh_OpenFile :: "NodeID \<Rightarrow> string \<Rightarrow> 'w \<Rightarrow> (gerror + reader) \<times> 'w"

record 'w PartyHandler =
  ph_OnJoinParty :: "NodeID \<Rightarrow> string \<Rightarrow> 'w \<Rightarrow> (gerror + PartyWelcome) \<times> 'w"
  ph_OnLeaveParty :: "NodeID \<Rightarrow> string \<Rightarrow> 'w \<Rightarrow> 'w"
  ph_OnPartyState :: "NodeID \<Rightarrow> PartyState \<Rightarrow> 'w \<Rightarrow> 'w"
  ph_OnPartyAudience :: "NodeID \<Rightarrow> PartyAudience \<Rightarrow> 'w \<Rightarrow> 'w"
  ph_OnPartyInvite :: "NodeID \<Rightarrow> PartyInvite \<Rightarrow> 'w \<Rightarrow> 'w"
  ph_OnPartyEnded :: "NodeID \<Rightarrow> PartyEnded \<Rightarrow> 'w \<Rightarrow> 'w"
  ph_OnPartyDanmaku :: "NodeID \<Rightarrow> PartyDanmaku \<Rightarrow> 'w \<Rightarrow> 'w"

record 'w SwarmHandler =
  sw_OnSwarmHave :: "NodeID \<Rightarrow> SwarmHave \<Rightarrow> 'w \<Rightarrow> 'w"
  sw_SwarmSegment :: "NodeID \<Rightarrow> GetSwarmSegment \<Rightarrow> 'w \<Rightarrow> (gerror + bytes) \<times> 'w"
  sw_release :: "'w \<Rightarrow> 'w"

section \<open>The session\<close>

datatype 'w job =
    JSegment "'w MediaHandler" u64 string string
  | JDownload "'w MediaHandler" u64 string
  | JSwarm "'w SwarmHandler" u64 GetSwarmSegment

record call_chan =
  cc_id :: u64
  cc_buf :: "Envelope option"

record 'w Session =
  se_remote :: NodeID
  se_ids :: u64
  se_control :: bool                     \<comment> \<open>\<open>s.control != nil\<close>\<close>
  se_ctlFail :: "nat option"             \<comment> \<open>number of the message at which \<open>dc.Send\<close> starts to fail\<close>
  se_sent :: "bytes list"                \<comment> \<open>messages handed to the control channel, in order\<close>
  se_pending :: "(u64, nat) gomap"
  se_chans :: "call_chan list"
  se_ready :: bool                       \<comment> \<open>\<open>ready\<close> is closed\<close>
  se_handler :: "'w RequestHandler option"
  se_onAccessGranted :: "(NodeID \<Rightarrow> 'w \<Rightarrow> 'w) option"
  se_out :: BulkOut
  se_in :: BulkIn
  se_mediaHandler :: "'w MediaHandler option"
  se_partyHandler :: "'w PartyHandler option"
  se_swarmHandler :: "'w SwarmHandler option"
  se_remoteCaps :: "string list"
  se_onClose :: "(NodeID \<Rightarrow> 'w \<Rightarrow> 'w) option"
  se_jobs :: "'w job list"

definition ProtocolVersion :: u32 where "ProtocolVersion = 1"

definition CapParty :: string where "CapParty = ''party/v1''"

definition NewSession :: "NodeID \<Rightarrow> 'w Session" where
  "NewSession remote =
     \<lparr>se_remote = remote, se_ids = 0, se_control = False, se_ctlFail = None, se_sent = [], se_pending = [],
      se_chans = [], se_ready = False, se_handler = None, se_onAccessGranted = None,
      se_out = \<lparr>bo_open = False, bo_flow = [], bo_fail = None, bo_sent = []\<rparr>,
      se_in = \<lparr>bi_sinks = [], bi_heap = []\<rparr>, se_mediaHandler = None, se_partyHandler = None,
      se_swarmHandler = None, se_remoteCaps = [], se_onClose = None, se_jobs = []\<rparr>"

definition SetHandler :: "'w RequestHandler \<Rightarrow> 'w Session \<Rightarrow> 'w Session" where
  "SetHandler h s = s\<lparr>se_handler := Some h\<rparr>"

definition SetMediaHandler :: "'w MediaHandler \<Rightarrow> 'w Session \<Rightarrow> 'w Session" where
  "SetMediaHandler h s = s\<lparr>se_mediaHandler := Some h\<rparr>"

definition SetPartyHandler :: "'w PartyHandler \<Rightarrow> 'w Session \<Rightarrow> 'w Session" where
  "SetPartyHandler h s = s\<lparr>se_partyHandler := Some h\<rparr>"

definition SetSwarmHandler :: "'w SwarmHandler \<Rightarrow> 'w Session \<Rightarrow> 'w Session" where
  "SetSwarmHandler h s = s\<lparr>se_swarmHandler := Some h\<rparr>"

definition OnAccessGranted :: "(NodeID \<Rightarrow> 'w \<Rightarrow> 'w) \<Rightarrow> 'w Session \<Rightarrow> 'w Session" where
  "OnAccessGranted fn s = s\<lparr>se_onAccessGranted := Some fn\<rparr>"

definition SetOnClose :: "(NodeID \<Rightarrow> 'w \<Rightarrow> 'w) \<Rightarrow> 'w Session \<Rightarrow> 'w Session" where
  "SetOnClose fn s = s\<lparr>se_onClose := Some fn\<rparr>"

definition HasCapability :: "string \<Rightarrow> 'w Session \<Rightarrow> bool" where
  "HasCapability cap s = list_ex (\<lambda>c. c = cap) (se_remoteCaps s)"

definition Session_send :: "codec \<Rightarrow> Envelope \<Rightarrow> 'w Session \<Rightarrow> gerror option \<times> 'w Session" where
  "Session_send c env s =
     (case encodeEnvelope c env of Inl err \<Rightarrow> (Some err, s)
      | Inr raw \<Rightarrow>
          if \<not> se_control s then (Some (ErrText ''peer: control channel not open''), s)
          else if se_ctlFail s = Some (length (se_sent s)) then (Some (ErrText ''send failed''), s)
          else (None, s\<lparr>se_sent := se_sent s @ [raw]\<rparr>))"

definition reply :: "codec \<Rightarrow> Envelope \<Rightarrow> 'w Session \<Rightarrow> 'w Session" where
  \<comment> \<open>\<open>_ = s.send(env)\<close>\<close>
  "reply c env s = snd (Session_send c env s)"

section \<open>Responses: \<open>deliver\<close>\<close>

definition put_chan :: "nat \<Rightarrow> Envelope option \<Rightarrow> 'w Session \<Rightarrow> 'w Session" where
  "put_chan ch x s = s\<lparr>se_chans := (se_chans s)[ch := (se_chans s ! ch)\<lparr>cc_buf := x\<rparr>]\<rparr>"

definition deliver :: "Envelope \<Rightarrow> 'w Session \<Rightarrow> 'w Session" where
  "deliver env s =
     (let s1 = s\<lparr>se_pending := AList.delete (RequestId env) (se_pending s)\<rparr>
      in case map_of (se_pending s) (RequestId env) of
           None \<Rightarrow> s1
         | Some ch \<Rightarrow> put_chan ch (Some env) s1)"

section \<open>Inbound requests\<close>

definition handleBrowse :: "codec \<Rightarrow> u64 \<Rightarrow> 'w Session \<times> 'w \<Rightarrow> 'w Session \<times> 'w" where
  "handleBrowse c reqID = (\<lambda>(s, w).
     (case se_handler s of None \<Rightarrow> (reply c (errEnvelope reqID ErrUnavailable) s, w)
      | Some h \<Rightarrow>
          (case rh_Browse h (se_remote s) w of
             (Inl err, w) \<Rightarrow> (reply c (errEnvelope reqID err) s, w)
           | (Inr titles, w) \<Rightarrow> (reply c (envelope reqID (BCatalog titles)) s, w))))"

definition handleGetMetadata :: "codec \<Rightarrow> u64 \<Rightarrow> string \<Rightarrow> 'w Session \<times> 'w \<Rightarrow> 'w Session \<times> 'w" where
  "handleGetMetadata c reqID contentID = (\<lambda>(s, w).
     (case se_handler s of None \<Rightarrow> (reply c (errEnvelope reqID ErrUnavailable) s, w)
      | Some h \<Rightarrow>
          (case rh_GetMetadata h (se_remote s) contentID w of
             (Inl err, w) \<Rightarrow> (reply c (errEnvelope reqID err) s, w)
           | (Inr meta, w) \<Rightarrow> (reply c (envelope reqID (BTitleMeta meta)) s, w))))"

definition handleGetLiveParties :: "codec \<Rightarrow> u64 \<Rightarrow> 'w Session \<times> 'w \<Rightarrow> 'w Session \<times> 'w" where
  "handleGetLiveParties c reqID = (\<lambda>(s, w).
     (case se_handler s of None \<Rightarrow> (reply c (errEnvelope reqID ErrUnavailable) s, w)
      | Some h \<Rightarrow>
          (case rh_LiveParties h (se_remote s) w of
             (Inl err, w) \<Rightarrow> (reply c (errEnvelope reqID err) s, w)
           | (Inr parties, w) \<Rightarrow> (reply c (envelope reqID (BLiveParties parties)) s, w))))"

definition handleRequestAccess :: "codec \<Rightarrow> u64 \<Rightarrow> string \<Rightarrow> 'w Session \<times> 'w \<Rightarrow> 'w Session \<times> 'w" where
  "handleRequestAccess c reqID message = (\<lambda>(s, w).
     (case se_handler s of None \<Rightarrow> (reply c (errEnvelope reqID ErrUnavailable) s, w)
      | Some h \<Rightarrow>
          (case rh_RequestAccess h (se_remote s) message w of
             (Some err, w) \<Rightarrow> (reply c (errEnvelope reqID err) s, w)
           | (None, w) \<Rightarrow> (reply c (envelope reqID BAck) s, w))))"

definition handleGetPlaylist :: "codec \<Rightarrow> u64 \<Rightarrow> string \<Rightarrow> string \<Rightarrow> 'w Session \<times> 'w \<Rightarrow> 'w Session \<times> 'w" where
  "handleGetPlaylist c reqID contentID nm = (\<lambda>(s, w).
     (case se_mediaHandler s of None \<Rightarrow> (reply c (errEnvelope reqID ErrUnavailable) s, w)
      | Some h \<Rightarrow>
          (case mh_Playlist h (se_remote s) contentID nm w of
             (Inl err, w) \<Rightarrow> (reply c (errEnvelope reqID err) s, w)
           | (Inr p, w) \<Rightarrow> (reply c (envelope reqID (BPlaylist p)) s, w))))"

definition handleGetSegment :: "codec \<Rightarrow> u64 \<Rightarrow> string \<Rightarrow> string \<Rightarrow> 'w Session \<times> 'w \<Rightarrow> 'w Session \<times> 'w" where
  "handleGetSegment c reqID contentID nm = (\<lambda>(s, w).
     (case se_mediaHandler s of None \<Rightarrow> (reply c (errEnvelope reqID ErrUnavailable) s, w)
      | Some h \<Rightarrow> (s\<lparr>se_jobs := se_jobs s @ [JSegment h reqID contentID nm]\<rparr>, w)))"

definition handleDownload :: "codec \<Rightarrow> u64 \<Rightarrow> string \<Rightarrow> 'w Session \<times> 'w \<Rightarrow> 'w Session \<times> 'w" where
  "handleDownload c reqID contentID = (\<lambda>(s, w).
     (case se_mediaHandler s of None \<Rightarrow> (reply c (errEnvelope reqID ErrUnavailable) s, w)
      | Some h \<Rightarrow> (s\<lparr>se_jobs := se_jobs s @ [JDownload h reqID contentID]\<rparr>, w)))"

definition handleJoinParty :: "codec \<Rightarrow> u64 \<Rightarrow> string \<Rightarrow> 'w Session \<times> 'w \<Rightarrow> 'w Session \<times> 'w" where
  "handleJoinParty c reqID contentID = (\<lambda>(s, w).
     (case se_partyHandler s of None \<Rightarrow> (reply c (errEnvelope reqID ErrUnavailable) s, w)
      | Some h \<Rightarrow>
          (case ph_OnJoinParty h (se_remote s) contentID w of
             (Inl err, w) \<Rightarrow> (reply c (errEnvelope reqID err) s, w)
           | (Inr wl, w) \<Rightarrow> (reply c (envelope reqID (BPartyWelcome wl)) s, w))))"

definition handleGetSwarmSegment :: "codec \<Rightarrow> u64 \<Rightarrow> GetSwarmSegment \<Rightarrow> 'w Session \<times> 'w \<Rightarrow> 'w Session \<times> 'w" where
  "handleGetSwarmSegment c reqID req = (\<lambda>(s, w).
     (case se_swarmHandler s of None \<Rightarrow> (reply c (errEnvelope reqID ErrUnavailable) s, w)
      | Some h \<Rightarrow> (s\<lparr>se_jobs := se_jobs s @ [JSwarm h reqID req]\<rparr>, w)))"

definition bulk_reply :: "codec \<Rightarrow> u64 \<Rightarrow> reader \<Rightarrow> 'w Session \<Rightarrow> 'w Session" where
  \<comment> \<open>\<open>if serr := s.sendBulkReader(reqID, r); serr != nil { _ = s.send(errEnvelope(reqID, serr)) }\<close>\<close>
  "bulk_reply c reqID r s =
     (case sendBulkReader reqID 0 r (se_out s) of
        (None, o2) \<Rightarrow> s\<lparr>se_out := o2\<rparr>
      | (Some serr, o2) \<Rightarrow> reply c (errEnvelope reqID serr) (s\<lparr>se_out := o2\<rparr>))"

fun run_job :: "codec \<Rightarrow> 'w job \<Rightarrow> 'w Session \<times> 'w \<Rightarrow> 'w Session \<times> 'w" where
  "run_job c (JSegment h reqID contentID nm) (s, w) =
     (case mh_Segment h (se_remote s) contentID nm w of
        (Inl err, w) \<Rightarrow> (reply c (errEnvelope reqID err) s, w)
      | (Inr data, w) \<Rightarrow> (bulk_reply c reqID (bytes_reader data) s, w))"
| "run_job c (JDownload h reqID contentID) (s, w) =
     (case mh_OpenFile h (se_remote s) contentID w of
        (Inl err, w) \<Rightarrow> (reply c (errEnvelope reqID err) s, w)
      | (Inr rc, w) \<Rightarrow> (bulk_reply c reqID rc s, w))"
| "run_job c (JSwarm h reqID req) (s, w) =
     (case sw_SwarmSegment h (se_remote s) req w of
        (Inl err, w) \<Rightarrow> (reply c (errEnvelope reqID err) s, w)
      | (Inr data, w) \<Rightarrow> (bulk_reply c reqID (bytes_reader data) s, sw_release h w))"

section \<open>The control channel: \<open>bindControl\<close>\<close>

definition onControlOpen :: "codec \<Rightarrow> 'w Session \<Rightarrow> 'w Session" where
  "onControlOpen c s =
     reply c (envelope 0 (BHandshake \<lparr>hs_protocol_version = ProtocolVersion, hs_capabilities = [CapParty]\<rparr>)) s"

definition notify_party :: "('w PartyHandler \<Rightarrow> NodeID \<Rightarrow> 'w \<Rightarrow> 'w) \<Rightarrow> 'w Session \<times> 'w \<Rightarrow> 'w Session \<times> 'w" where
  "notify_party f = (\<lambda>(s, w). (s, case se_partyHandler s of None \<Rightarrow> w | Some h \<Rightarrow> f h (se_remote s) w))"

definition on_error :: "Envelope \<Rightarrow> PeerError \<Rightarrow> 'w Session \<Rightarrow> 'w Session" where
  "on_error env e s =
     (case lookup_sink (RequestId env) (se_in s) of
        Some sink \<Rightarrow> s\<lparr>se_in := set_sink (RequestId env) (signalSink (Some (statusErr e)) sink) (se_in s)\<rparr>
      | None \<Rightarrow> deliver env s)"

definition dispatch :: "codec \<Rightarrow> Envelope \<Rightarrow> Body \<Rightarrow> 'w Session \<times> 'w \<Rightarrow> 'w Session \<times> 'w" where
  "dispatch c env b = (\<lambda>(s, w).
     (case b of
        BHandshake h \<Rightarrow>
          (let s1 = s\<lparr>se_remoteCaps := hs_capabilities h\<rparr>
           in (if hs_protocol_version h = ProtocolVersion then s1\<lparr>se_ready := True\<rparr> else s1, w))
      | BPing nonce \<Rightarrow> (reply c (envelope (RequestId env) (BPong nonce)) s, w)
      | BBrowse \<Rightarrow> handleBrowse c (RequestId env) (s, w)
      | BGetMetadata cid \<Rightarrow> handleGetMetadata c (RequestId env) cid (s, w)
      | BGetLiveParties \<Rightarrow> handleGetLiveParties c (RequestId env) (s, w)
      | BRequestAccess m \<Rightarrow> handleRequestAccess c (RequestId env) m (s, w)
      | BAccessGranted \<Rightarrow> (s, case se_onAccessGranted s of None \<Rightarrow> w | Some fn \<Rightarrow> fn (se_remote s) w)
      | BGetPlaylist cid nm \<Rightarrow> handleGetPlaylist c (RequestId env) cid nm (s, w)
      | BGetSegment cid nm \<Rightarrow> handleGetSegment c (RequestId env) cid nm (s, w)
      | BDownload cid \<Rightarrow> handleDownload c (RequestId env) cid (s, w)
      | BError e \<Rightarrow> (on_error env e s, w)
      | BJoinParty cid \<Rightarrow> handleJoinParty c (RequestId env) cid (s, w)
      | BLeaveParty pid \<Rightarrow> notify_party (\<lambda>h r. ph_OnLeaveParty h r pid) (s, w)
      | BPartyState p \<Rightarrow> notify_party (\<lambda>h r. ph_OnPartyState h r p) (s, w)
      | BPartyAudience p \<Rightarrow> notify_party (\<lambda>h r. ph_OnPartyAudience h r p) (s, w)
      | BPartyInvite p \<Rightarrow> notify_party (\<lambda>h r. ph_OnPartyInvite h r p) (s, w)
      | BPartyEnded p \<Rightarrow> notify_party (\<lambda>h r. ph_OnPartyEnded h r p) (s, w)
      | BPartyDanmaku p \<Rightarrow> notify_party (\<lambda>h r. ph_OnPartyDanmaku h r p) (s, w)
      | BSwarmHave p \<Rightarrow> (s, case se_swarmHandler s of None \<Rightarrow> w | Some h \<Rightarrow> sw_OnSwarmHave h (se_remote s) p w)
      | BGetSwarmSegment req \<Rightarrow> handleGetSwarmSegment c (RequestId env) req (s, w)
      | BPong _ \<Rightarrow> (deliver env s, w)
      | BCatalog _ \<Rightarrow> (deliver env s, w)
      | BTitleMeta _ \<Rightarrow> (deliver env s, w)
      | BAck \<Rightarrow> (deliver env s, w)
      | BPlaylist _ \<Rightarrow> (deliver env s, w)
      | BPartyWelcome _ \<Rightarrow> (deliver env s, w)
      | BLiveParties _ \<Rightarrow> (deliver env s, w)))"

definition onControlMessage :: "codec \<Rightarrow> bytes \<Rightarrow> 'w Session \<times> 'w \<Rightarrow> 'w Session \<times> 'w" where
  "onControlMessage c raw sw =
     (case decodeEnvelope c raw of Inl _ \<Rightarrow> sw
      | Inr env \<Rightarrow> (case EBody env of None \<Rightarrow> sw | Some b \<Rightarrow> dispatch c env b sw))"

datatype PeerConnectionState = PcNew | PcConnecting | PcConnected | PcDisconnected | PcFailed | PcClosed

definition onConnectionStateChange :: "PeerConnectionState \<Rightarrow> 'w Session \<times> 'w \<Rightarrow> 'w Session \<times> 'w" where
  "onConnectionStateChange st = (\<lambda>(s, w).
     (s, if st \<in> {PcDisconnected, PcFailed, PcClosed}
         then (case se_onClose s of None \<Rightarrow> w | Some fn \<Rightarrow> fn (se_remote s) w) else w))"

section \<open>Outbound requests: \<open>call\<close> and \<open>fetchBulkTo\<close>\<close>

definition call_begin :: "codec \<Rightarrow> Body \<Rightarrow> 'w Session \<Rightarrow> (gerror + u64 \<times> nat) \<times> 'w Session" where
  \<comment> \<open>\<open>call\<close> up to its \<open>select\<close>\<close>
  "call_begin c b s =
     (let i = requestIDs_next (se_ids s); ch = length (se_chans s);
          s1 = s\<lparr>se_ids := i, se_chans := se_chans s @ [\<lparr>cc_id = i, cc_buf = None\<rparr>],
                 se_pending := AList.update i ch (se_pending s)\<rparr>
      in case Session_send c (envelope i b) s1 of
           (Some err, s2) \<Rightarrow> (Inl err, s2\<lparr>se_pending := AList.delete i (se_pending s2)\<rparr>)
         | (None, s2) \<Rightarrow> (Inr (i, ch), s2))"

definition call_recv :: "nat \<Rightarrow> 'w Session \<Rightarrow> Envelope option \<times> 'w Session" where
  \<comment> \<open>\<open>case resp := <-ch\<close>\<close>
  "call_recv ch s =
     (if ch < length (se_chans s) then (cc_buf (se_chans s ! ch), put_chan ch None s) else (None, s))"

definition call_cancel :: "u64 \<Rightarrow> 'w Session \<Rightarrow> 'w Session" where
  \<comment> \<open>\<open>case <-ctx.Done()\<close>\<close>
  "call_cancel i s = s\<lparr>se_pending := AList.delete i (se_pending s)\<rparr>"

definition fetch_begin :: "codec \<Rightarrow> Body \<Rightarrow> nat option \<Rightarrow> 'w Session \<Rightarrow> (gerror + u64) \<times> 'w Session" where
  \<comment> \<open>\<open>fetchBulkTo\<close> up to its \<open>select\<close>; \<open>room\<close> is the writer's\<close>
  "fetch_begin c b room s =
     (let i = requestIDs_next (se_ids s);
          sink = \<lparr>sk_buf = [], sk_room = room, sk_done = None\<rparr>;
          s1 = s\<lparr>se_ids := i, se_in := set_sink i sink ((se_in s)\<lparr>bi_sinks := i # bi_sinks (se_in s)\<rparr>)\<rparr>
      in case Session_send c (envelope i b) s1 of
           (Some err, s2) \<Rightarrow> (Inl err, s2\<lparr>se_in := del_sink i (se_in s2)\<rparr>)
         | (None, s2) \<Rightarrow> (Inr i, s2))"

definition fetch_cleanup :: "u64 \<Rightarrow> 'w Session \<Rightarrow> 'w Session" where
  "fetch_cleanup i s = s\<lparr>se_in := del_sink i (se_in s)\<rparr>"

datatype peer_ev =
    PvOpen                       \<comment> \<open>the control channel opens\<close>
  | PvControl bytes              \<comment> \<open>a control message arrives\<close>
  | PvBulk bytes                 \<comment> \<open>a bulk message arrives\<close>
  | PvState PeerConnectionState
  | PvCall Body                  \<comment> \<open>another goroutine starts a call\<close>
  | PvRecv nat                   \<comment> \<open>another goroutine's call takes its response\<close>
  | PvCancel u64                 \<comment> \<open>another goroutine's call is cancelled\<close>
  | PvFetch Body "nat option"    \<comment> \<open>another goroutine starts a bulk request\<close>
  | PvCleanup u64                \<comment> \<open>another goroutine's bulk request ends\<close>
  | PvSend Envelope              \<comment> \<open>\<open>SendControl\<close>, \<open>SendSwarmHave\<close>, \<open>SendAccessGranted\<close>\<close>
  | PvJob                        \<comment> \<open>the oldest serving goroutine runs\<close>

fun peer_do :: "codec \<Rightarrow> peer_ev \<Rightarrow> 'w Session \<times> 'w \<Rightarrow> 'w Session \<times> 'w" where
  "peer_do c PvOpen (s, w) = (onControlOpen c (s\<lparr>se_control := True\<rparr>), w)"
| "peer_do c (PvControl raw) (s, w) = onControlMessage c raw (s, w)"
| "peer_do c (PvBulk raw) (s, w) = (s\<lparr>se_in := onBulkMessage raw (se_in s)\<rparr>, w)"
| "peer_do c (PvState st) (s, w) = onConnectionStateChange st (s, w)"
| "peer_do c (PvCall b) (s, w) = (snd (call_begin c b s), w)"
| "peer_do c (PvRecv ch) (s, w) = (snd (call_recv ch s), w)"
| "peer_do c (PvCancel i) (s, w) = (call_cancel i s, w)"
| "peer_do c (PvFetch b room) (s, w) = (snd (fetch_begin c b room s), w)"
| "peer_do c (PvCleanup i) (s, w) = (fetch_cleanup i s, w)"
| "peer_do c (PvSend env) (s, w) = (reply c env s, w)"
| "peer_do c PvJob (s, w) =
     (case se_jobs s of [] \<Rightarrow> (s, w) | j # js \<Rightarrow> run_job c j (s\<lparr>se_jobs := js\<rparr>, w))"

definition ctxErr :: gerror where "ctxErr = ErrText ''context deadline exceeded''"

definition Session_call ::
  "codec \<Rightarrow> peer_ev list \<Rightarrow> bool \<Rightarrow> Body \<Rightarrow> 'w Session \<times> 'w \<Rightarrow> (gerror + Envelope) \<times> 'w Session \<times> 'w" where
  \<comment> \<open>\<open>evs\<close>: what happens until the \<open>select\<close> fires; \<open>done\<close>: it takes \<open>ctx.Done()\<close> although a response is there\<close>
  "Session_call c evs done b = (\<lambda>(s, w).
     (case call_begin c b s of (Inl err, s1) \<Rightarrow> (Inl err, s1, w)
      | (Inr (i, ch), s1) \<Rightarrow>
          (case fold (peer_do c) evs (s1, w) of (s2, w2) \<Rightarrow>
             (case call_recv ch s2 of
                (Some resp, s3) \<Rightarrow> if done then (Inl ctxErr, call_cancel i s2, w2) else (Inr resp, s3, w2)
              | (None, _) \<Rightarrow> (Inl ctxErr, call_cancel i s2, w2)))))"

definition fetchBulkTo ::
  "codec \<Rightarrow> peer_ev list \<Rightarrow> bool \<Rightarrow> Body \<Rightarrow> nat option \<Rightarrow> 'w Session \<times> 'w \<Rightarrow>
     gerror option \<times> bytes \<times> 'w Session \<times> 'w" where
  \<comment> \<open>the error and the bytes the writer holds\<close>
  "fetchBulkTo c evs done b room = (\<lambda>(s, w).
     (case fetch_begin c b room s of (Inl err, s1) \<Rightarrow> (Some err, [], s1, w)
      | (Inr i, s1) \<Rightarrow>
          (case fold (peer_do c) evs (s1, w) of (s2, w2) \<Rightarrow>
             (case map_of (bi_heap (se_in s2)) i of
                Some sink \<Rightarrow>
                  (case (if done then None else sk_done sink) of
                     Some err \<Rightarrow> (err, sk_buf sink, fetch_cleanup i s2, w2)
                   | None \<Rightarrow> (Some ctxErr, sk_buf sink, fetch_cleanup i s2, w2))
              | None \<Rightarrow> (Some ctxErr, [], fetch_cleanup i s2, w2)))))"

definition fetchBulk ::
  "codec \<Rightarrow> peer_ev list \<Rightarrow> bool \<Rightarrow> Body \<Rightarrow> 'w Session \<times> 'w \<Rightarrow> (gerror + bytes) \<times> 'w Session \<times> 'w" where
  "fetchBulk c evs done b sw =
     (case fetchBulkTo c evs done b None sw of
        (Some err, _, sw2) \<Rightarrow> (Inl err, sw2)
      | (None, buf, sw2) \<Rightarrow> (Inr buf, sw2))"

subsection \<open>The typed calls\<close>

definition rpc_result :: "(Body option \<Rightarrow> 'a) \<Rightarrow> (gerror + Envelope) \<times> 's \<Rightarrow> (gerror + 'a) \<times> 's" where
  \<comment> \<open>the common tail: the transport's error, the remote's \<open>Error\<close>, or the accessor's value\<close>
  "rpc_result get = (\<lambda>(r, st).
     (case r of Inl err \<Rightarrow> (Inl err, st)
      | Inr resp \<Rightarrow> (case EBody resp of Some (BError e) \<Rightarrow> (Inl (statusErr e), st) | b \<Rightarrow> (Inr (get b), st))))"

definition Session_Ping :: "codec \<Rightarrow> peer_ev list \<Rightarrow> bool \<Rightarrow> string \<Rightarrow> 'w Session \<times> 'w \<Rightarrow> (gerror + string) \<times> 'w Session \<times> 'w" where
  "Session_Ping c evs done nonce sw =
     rpc_result (\<lambda>b. case b of Some (BPong n) \<Rightarrow> n | _ \<Rightarrow> '''') (Session_call c evs done (BPing nonce) sw)"

definition Session_Browse :: "codec \<Rightarrow> peer_ev list \<Rightarrow> bool \<Rightarrow> 'w Session \<times> 'w \<Rightarrow> (gerror + TitleMeta list) \<times> 'w Session \<times> 'w" where
  "Session_Browse c evs done sw =
     rpc_result (\<lambda>b. case b of Some (BCatalog ts) \<Rightarrow> ts | _ \<Rightarrow> []) (Session_call c evs done BBrowse sw)"

definition Session_GetMetadata ::
  "codec \<Rightarrow> peer_ev list \<Rightarrow> bool \<Rightarrow> string \<Rightarrow> 'w Session \<times> 'w \<Rightarrow> (gerror + TitleMeta option) \<times> 'w Session \<times> 'w" where
  \<comment> \<open>\<open>Inr None\<close>: a nil \<open>*TitleMeta\<close> with a nil error, for a response of another kind\<close>
  "Session_GetMetadata c evs done cid sw =
     rpc_result (\<lambda>b. case b of Some (BTitleMeta t) \<Rightarrow> Some t | _ \<Rightarrow> None) (Session_call c evs done (BGetMetadata cid) sw)"

definition Session_LiveParties ::
  "codec \<Rightarrow> peer_ev list \<Rightarrow> bool \<Rightarrow> 'w Session \<times> 'w \<Rightarrow> (gerror + LivePartyMeta list) \<times> 'w Session \<times> 'w" where
  "Session_LiveParties c evs done sw =
     rpc_result (\<lambda>b. case b of Some (BLiveParties ps) \<Rightarrow> ps | _ \<Rightarrow> []) (Session_call c evs done BGetLiveParties sw)"

definition Session_RequestAccess ::
  "codec \<Rightarrow> peer_ev list \<Rightarrow> bool \<Rightarrow> string \<Rightarrow> 'w Session \<times> 'w \<Rightarrow> (gerror + unit) \<times> 'w Session \<times> 'w" where
  "Session_RequestAccess c evs done m sw = rpc_result (\<lambda>b. ()) (Session_call c evs done (BRequestAccess m) sw)"

definition Session_GetPlaylist ::
  "codec \<Rightarrow> peer_ev list \<Rightarrow> bool \<Rightarrow> string \<Rightarrow> string \<Rightarrow> 'w Session \<times> 'w \<Rightarrow> (gerror + PlaylistMsg) \<times> 'w Session \<times> 'w" where
  "Session_GetPlaylist c evs done cid nm sw =
     rpc_result (\<lambda>b. case b of Some (BPlaylist p) \<Rightarrow> p | _ \<Rightarrow> \<lparr>pl_data = [], pl_content_type = '''', pl_complete = False\<rparr>)
       (Session_call c evs done (BGetPlaylist cid nm) sw)"

definition Session_JoinParty ::
  "codec \<Rightarrow> peer_ev list \<Rightarrow> bool \<Rightarrow> string \<Rightarrow> 'w Session \<times> 'w \<Rightarrow> (gerror + PartyWelcome) \<times> 'w Session \<times> 'w" where
  "Session_JoinParty c evs done cid sw =
     (case rpc_result (\<lambda>b. case b of Some (BPartyWelcome wl) \<Rightarrow> Some wl | _ \<Rightarrow> None) (Session_call c evs done (BJoinParty cid) sw) of
        (Inl err, sw2) \<Rightarrow> (Inl err, sw2)
      | (Inr None, sw2) \<Rightarrow> (Inl ErrUnavailable, sw2)
      | (Inr (Some wl), sw2) \<Rightarrow> (Inr wl, sw2))"

definition MeasureRTT ::
  "codec \<Rightarrow> peer_ev list \<Rightarrow> bool \<Rightarrow> time \<Rightarrow> time \<Rightarrow> 'w Session \<times> 'w \<Rightarrow> (gerror + duration) \<times> 'w Session \<times> 'w" where
  \<comment> \<open>\<open>start\<close> and \<open>fin\<close>: the clock before and after the ping\<close>
  "MeasureRTT c evs done start fin sw =
     (case Session_Ping c evs done ''rtt'' sw of
        (Inl err, sw2) \<Rightarrow> (Inl err, sw2)
      | (Inr _, sw2) \<Rightarrow> (Inr (time_sub fin start), sw2))"

definition Session_GetSegment ::
  "codec \<Rightarrow> peer_ev list \<Rightarrow> bool \<Rightarrow> string \<Rightarrow> string \<Rightarrow> 'w Session \<times> 'w \<Rightarrow> (gerror + bytes) \<times> 'w Session \<times> 'w" where
  "Session_GetSegment c evs done cid nm sw = fetchBulk c evs done (BGetSegment cid nm) sw"

definition Session_GetSwarmSegment ::
  "codec \<Rightarrow> peer_ev list \<Rightarrow> bool \<Rightarrow> GetSwarmSegment \<Rightarrow> 'w Session \<times> 'w \<Rightarrow> (gerror + bytes) \<times> 'w Session \<times> 'w" where
  "Session_GetSwarmSegment c evs done req sw = fetchBulk c evs done (BGetSwarmSegment req) sw"

definition DownloadTo ::
  "codec \<Rightarrow> peer_ev list \<Rightarrow> bool \<Rightarrow> string \<Rightarrow> nat option \<Rightarrow> 'w Session \<times> 'w \<Rightarrow> gerror option \<times> bytes \<times> 'w Session \<times> 'w" where
  "DownloadTo c evs done cid room sw = fetchBulkTo c evs done (BDownload cid) room sw"

definition SendAccessGranted :: "codec \<Rightarrow> 'w Session \<Rightarrow> gerror option \<times> 'w Session" where
  "SendAccessGranted c s = Session_send c (envelope 0 BAccessGranted) s"

definition SendSwarmHave :: "codec \<Rightarrow> SwarmHave \<Rightarrow> 'w Session \<Rightarrow> gerror option \<times> 'w Session" where
  "SendSwarmHave c h s = Session_send c (envelope 0 (BSwarmHave h)) s"

section \<open>What each operation leaves alone\<close>

definition rpc_view :: "'w Session \<Rightarrow> u64 \<times> (u64, nat) gomap \<times> call_chan list \<times> BulkIn" where
  \<comment> \<open>the part of a session that belongs to its outstanding requests\<close>
  "rpc_view s = (se_ids s, se_pending s, se_chans s, se_in s)"

lemma rpc_view_send [simp]: "rpc_view (snd (Session_send c e s)) = rpc_view s"
  by (auto simp: rpc_view_def Session_send_def split: sum.splits)

lemma rpc_view_reply [simp]: "rpc_view (reply c e s) = rpc_view s"
  by (simp add: reply_def)

lemma rpc_view_updates [simp]:
  "rpc_view (s\<lparr>se_out := x\<rparr>) = rpc_view s" "rpc_view (s\<lparr>se_jobs := y\<rparr>) = rpc_view s"
  "rpc_view (s\<lparr>se_ready := r\<rparr>) = rpc_view s" "rpc_view (s\<lparr>se_remoteCaps := k\<rparr>) = rpc_view s"
  "rpc_view (s\<lparr>se_control := d\<rparr>) = rpc_view s" "rpc_view (s\<lparr>se_sent := m\<rparr>) = rpc_view s"
  by (simp_all add: rpc_view_def)

lemma rpc_view_bulk_reply [simp]: "rpc_view (bulk_reply c i r s) = rpc_view s"
  by (auto simp: bulk_reply_def split: prod.splits option.splits)

lemma rpc_view_run_job [simp]: "rpc_view (fst (run_job c j (s, w))) = rpc_view s"
  by (cases j) (auto split: prod.splits sum.splits)

lemmas handle_defs =
  handleBrowse_def handleGetMetadata_def handleGetLiveParties_def handleRequestAccess_def handleGetPlaylist_def
  handleGetSegment_def handleDownload_def handleJoinParty_def handleGetSwarmSegment_def notify_party_def

lemma rpc_view_handle [simp]:
  "rpc_view (fst (handleBrowse c i (s, w))) = rpc_view s"
  "rpc_view (fst (handleGetMetadata c i x (s, w))) = rpc_view s"
  "rpc_view (fst (handleGetLiveParties c i (s, w))) = rpc_view s"
  "rpc_view (fst (handleRequestAccess c i x (s, w))) = rpc_view s"
  "rpc_view (fst (handleGetPlaylist c i x y (s, w))) = rpc_view s"
  "rpc_view (fst (handleGetSegment c i x y (s, w))) = rpc_view s"
  "rpc_view (fst (handleDownload c i x (s, w))) = rpc_view s"
  "rpc_view (fst (handleJoinParty c i x (s, w))) = rpc_view s"
  "rpc_view (fst (handleGetSwarmSegment c i q (s, w))) = rpc_view s"
  "rpc_view (fst (notify_party f (s, w))) = rpc_view s"
  by (auto simp: handle_defs split: option.splits prod.splits sum.splits)

fun is_response :: "Body \<Rightarrow> bool" where
  "is_response (BPong _) = True" | "is_response (BCatalog _) = True" | "is_response (BTitleMeta _) = True"
| "is_response BAck = True" | "is_response (BPlaylist _) = True" | "is_response (BPartyWelcome _) = True"
| "is_response (BLiveParties _) = True" | "is_response _ = False"

lemma rpc_view_dispatch:
  "rpc_view (fst (dispatch c env b (s, w))) =
     (if is_response b then rpc_view (deliver env s)
      else case b of BError e \<Rightarrow> rpc_view (on_error env e s) | _ \<Rightarrow> rpc_view s)"
  by (cases b) (simp_all add: dispatch_def Let_def)

lemma onBulkMessage_sinks: "set (bi_sinks (onBulkMessage raw b)) \<subseteq> set (bi_sinks b)"
  by (auto simp: onBulkMessage_def failSink_def set_sink_def del_sink_def split: option.splits prod.splits if_splits)

lemma rpc_view_cases:
  assumes "rpc_view (fst (peer_do c ev (s, w))) = v"
  obtains (same) "v = rpc_view s"
  | (bulk) b where "v = rpc_view (s\<lparr>se_in := b\<rparr>)" "set (bi_sinks b) \<subseteq> set (bi_sinks (se_in s))"
  | (deliver) env raw where "ev = PvControl raw" "decodeEnvelope c raw = Inr env" "v = rpc_view (deliver env s)"
  | (call) b where "ev = PvCall b" "v = rpc_view (snd (call_begin c b s))"
  | (recv) ch where "ev = PvRecv ch" "v = rpc_view (snd (call_recv ch s))"
  | (cancel) i where "ev = PvCancel i" "v = rpc_view (call_cancel i s)"
  | (fetch) b room where "ev = PvFetch b room" "v = rpc_view (snd (fetch_begin c b room s))"
proof (cases ev)
  case (PvControl raw)
  show ?thesis
  proof (cases "decodeEnvelope c raw")
    case (Inl x)
    then show ?thesis using assms PvControl same by (simp add: onControlMessage_def)
  next
    case (Inr env)
    show ?thesis
    proof (cases "EBody env")
      case None
      then show ?thesis using assms PvControl Inr same by (simp add: onControlMessage_def)
    next
      case (Some b)
      then have v: "v = (if is_response b then rpc_view (Peer_Session.deliver env s)
          else case b of BError e \<Rightarrow> rpc_view (on_error env e s) | _ \<Rightarrow> rpc_view s)"
        using assms PvControl Inr by (simp add: onControlMessage_def rpc_view_dispatch)
      consider "v = rpc_view (Peer_Session.deliver env s)" | e where "v = rpc_view (on_error env e s)" | "v = rpc_view s"
        using v by (cases b) auto
      then show ?thesis
      proof cases
        case 1
        then show ?thesis using deliver PvControl Inr by blast
      next
        case 2
        then show ?thesis using deliver bulk PvControl Inr
          by (cases "lookup_sink (RequestId env) (se_in s)") (auto simp: on_error_def set_sink_def)
      next
        case 3
        then show ?thesis by (rule same)
      qed
    qed
  qed
next
  case PvJob
  then show ?thesis using assms same by (cases "se_jobs s") auto
next
  case (PvBulk raw)
  then show ?thesis using assms bulk [OF _ onBulkMessage_sinks, of raw] by simp
next
  case (PvCleanup i)
  then show ?thesis using assms bulk [of "del_sink i (se_in s)"] by (auto simp: fetch_cleanup_def del_sink_def)
qed (use assms same call recv cancel fetch in
      \<open>auto simp: onControlOpen_def onConnectionStateChange_def\<close>)

section \<open>Correlation of responses\<close>

definition chans_ok :: "'w Session \<Rightarrow> bool" where
  \<comment> \<open>a pending id names an empty channel made for that id, and a buffered response has the id of its channel\<close>
  "chans_ok s \<longleftrightarrow>
     (\<forall>i ch. map_of (se_pending s) i = Some ch \<longrightarrow> ch < length (se_chans s) \<and> se_chans s ! ch = \<lparr>cc_id = i, cc_buf = None\<rparr>) \<and>
     (\<forall>ch < length (se_chans s). \<forall>e. cc_buf (se_chans s ! ch) = Some e \<longrightarrow> RequestId e = cc_id (se_chans s ! ch))"

lemma rpc_view_eq:
  "rpc_view s = rpc_view t \<longleftrightarrow>
     se_ids s = se_ids t \<and> se_pending s = se_pending t \<and> se_chans s = se_chans t \<and> se_in s = se_in t"
  by (simp add: rpc_view_def)

lemma Session_send_fields [simp]:
  "se_ids (snd (Session_send c e s)) = se_ids s" "se_pending (snd (Session_send c e s)) = se_pending s"
  "se_chans (snd (Session_send c e s)) = se_chans s" "se_in (snd (Session_send c e s)) = se_in s"
  by (auto simp: Session_send_def split: sum.splits)

lemma Session_send_eqD:
  "Session_send c e s = (x, s') \<Longrightarrow>
     se_ids s' = se_ids s \<and> se_pending s' = se_pending s \<and> se_chans s' = se_chans s \<and> se_in s' = se_in s"
  by (metis Session_send_fields snd_conv)

lemma call_begin_fields:
  "se_ids (snd (call_begin c b s)) = se_ids s + 1"
  "se_chans (snd (call_begin c b s)) = se_chans s @ [\<lparr>cc_id = se_ids s + 1, cc_buf = None\<rparr>]"
  "se_pending (snd (call_begin c b s)) \<in>
     {AList.update (se_ids s + 1) (length (se_chans s)) (se_pending s),
      AList.delete (se_ids s + 1) (AList.update (se_ids s + 1) (length (se_chans s)) (se_pending s))}"
  by (auto simp: call_begin_def Let_def requestIDs_next_def split: prod.splits option.splits dest!: Session_send_eqD)

lemma call_begin_ok:
  assumes "call_begin c b s = (Inr (i, ch), s1)"
  shows "i = se_ids s + 1 \<and> ch = length (se_chans s) \<and> se_ids s1 = i \<and>
         se_chans s1 = se_chans s @ [\<lparr>cc_id = i, cc_buf = None\<rparr>] \<and> se_pending s1 = AList.update i ch (se_pending s)"
  using assms
  by (auto simp: call_begin_def Let_def requestIDs_next_def split: prod.splits option.splits dest!: Session_send_eqD)

lemma fetch_begin_fields [simp]:
  "se_ids (snd (fetch_begin c b room s)) = se_ids s + 1" "se_chans (snd (fetch_begin c b room s)) = se_chans s"
  "se_pending (snd (fetch_begin c b room s)) = se_pending s"
  by (auto simp: fetch_begin_def Let_def requestIDs_next_def split: prod.splits option.splits dest!: Session_send_eqD)

lemma chans_ok_cong: "se_pending s = se_pending t \<Longrightarrow> se_chans s = se_chans t \<Longrightarrow> chans_ok s = chans_ok t"
  by (simp add: chans_ok_def)

lemma put_chan_fields [simp]:
  "se_pending (put_chan ch x s) = se_pending s" "se_ids (put_chan ch x s) = se_ids s"
  "length (se_chans (put_chan ch x s)) = length (se_chans s)" "se_in (put_chan ch x s) = se_in s"
  "ch < length (se_chans s) \<Longrightarrow>
     se_chans (put_chan ch x s) ! k = (if k = ch then (se_chans s ! ch)\<lparr>cc_buf := x\<rparr> else se_chans s ! k)"
  by (simp_all add: put_chan_def)

lemma chans_ok_deliver: "chans_ok s \<Longrightarrow> chans_ok (deliver env s)"
proof (cases "map_of (se_pending s) (RequestId env)")
  case (Some ch)
  assume ok: "chans_ok s"
  then have "ch < length (se_chans s)" "se_chans s ! ch = \<lparr>cc_id = RequestId env, cc_buf = None\<rparr>"
    using Some by (auto simp: chans_ok_def)
  moreover from this have "ch' \<noteq> ch" if "map_of (se_pending s) i = Some ch'" "i \<noteq> RequestId env" for i ch'
    using that ok by (auto simp: chans_ok_def)
  ultimately show ?thesis using Some ok
    unfolding chans_ok_def by (auto simp: deliver_def Let_def put_chan_def nth_list_update)
qed (auto simp: chans_ok_def deliver_def Let_def split: if_splits)

lemma chans_ok_call: "chans_ok s \<Longrightarrow> chans_ok (snd (call_begin c b s))"
  using call_begin_fields [of c b s]
  by (fastforce simp: chans_ok_def nth_append less_Suc_eq split: if_splits)

lemma chans_ok_recv: "chans_ok s \<Longrightarrow> chans_ok (snd (call_recv ch s))"
  by (auto simp: call_recv_def chans_ok_def split: if_splits)

lemma chans_ok_step: "chans_ok s \<Longrightarrow> chans_ok (fst (peer_do c ev (s, w)))"
proof (rule rpc_view_cases [OF refl, of c ev s w])
  assume ok: "chans_ok s"
  {
    fix env raw assume "rpc_view (fst (peer_do c ev (s, w))) = rpc_view (deliver env s)"
    then show ?thesis using chans_ok_deliver [OF ok, of env] by (auto simp: rpc_view_eq cong: chans_ok_cong)
  next
    fix b assume "rpc_view (fst (peer_do c ev (s, w))) = rpc_view (snd (call_begin c b s))"
    then show ?thesis using chans_ok_call [OF ok, of c b] by (auto simp: rpc_view_eq cong: chans_ok_cong)
  next
    fix ch assume "rpc_view (fst (peer_do c ev (s, w))) = rpc_view (snd (call_recv ch s))"
    then show ?thesis using chans_ok_recv [OF ok, of ch] by (auto simp: rpc_view_eq cong: chans_ok_cong)
  }
qed (auto simp: rpc_view_eq chans_ok_def call_cancel_def split: if_splits)

lemma chans_ok_run: "chans_ok s \<Longrightarrow> chans_ok (fst (fold (peer_do c) evs (s, w)))"
proof (induction evs arbitrary: s w)
  case (Cons ev evs)
  then show ?case using chans_ok_step [of s c ev w] by (cases "peer_do c ev (s, w)") simp
qed simp

definition msgs_in :: "codec \<Rightarrow> peer_ev list \<Rightarrow> Envelope set" where
  "msgs_in c evs = {env. \<exists>raw. PvControl raw \<in> set evs \<and> decodeEnvelope c raw = Inr env}"

lemma buf_origin_step:
  assumes "chans_ok s" and "ch < length (se_chans s)"
  shows "ch < length (se_chans (fst (peer_do c ev (s, w)))) \<and>
         (cc_buf (se_chans (fst (peer_do c ev (s, w))) ! ch) = Some e \<longrightarrow>
            cc_buf (se_chans s ! ch) = Some e \<or> e \<in> msgs_in c [ev])"
proof (rule rpc_view_cases [OF refl, of c ev s w])
  fix env raw
  assume ev: "ev = PvControl raw" "decodeEnvelope c raw = Inr env"
    and v: "rpc_view (fst (peer_do c ev (s, w))) = rpc_view (deliver env s)"
  show ?thesis
  proof (cases "map_of (se_pending s) (RequestId env)")
    case None
    then show ?thesis using v assms(2) by (auto simp: rpc_view_eq deliver_def)
  next
    case (Some k)
    then have "k < length (se_chans s)" using assms(1) by (auto simp: chans_ok_def)
    then show ?thesis using v ev assms(2) Some
      by (auto simp: rpc_view_eq deliver_def msgs_in_def put_chan_def nth_list_update split: if_splits)
  qed
next
  fix b assume "rpc_view (fst (peer_do c ev (s, w))) = rpc_view (snd (call_begin c b s))"
  then show ?thesis using assms(2) by (simp add: rpc_view_eq call_begin_fields nth_append)
next
  fix k assume "rpc_view (fst (peer_do c ev (s, w))) = rpc_view (snd (call_recv k s))"
  then show ?thesis using assms(2) by (auto simp: rpc_view_eq call_recv_def split: if_splits)
qed (use assms(2) in \<open>auto simp: rpc_view_eq call_cancel_def\<close>)

lemma buf_origin_run:
  assumes "chans_ok s" and "ch < length (se_chans s)"
  shows "ch < length (se_chans (fst (fold (peer_do c) evs (s, w)))) \<and>
         (cc_buf (se_chans (fst (fold (peer_do c) evs (s, w))) ! ch) = Some e \<longrightarrow>
            cc_buf (se_chans s ! ch) = Some e \<or> e \<in> msgs_in c evs)"
  using assms
proof (induction evs arbitrary: s w)
  case (Cons ev evs)
  obtain s1 w1 where st: "peer_do c ev (s, w) = (s1, w1)" by fastforce
  note step = buf_origin_step [OF Cons.prems, of c ev w e] chans_ok_step [OF Cons.prems(1), of c ev w]
  show ?case using Cons.IH [of s1 w1] step st by (auto simp: msgs_in_def)
qed simp

lemma cc_id_update [simp]: "ch < length xs \<Longrightarrow> cc_id (xs[k := (xs ! k)\<lparr>cc_buf := x\<rparr>] ! ch) = cc_id (xs ! ch)"
  by (cases "k = ch") auto

lemma chan_id_step:
  assumes "ch < length (se_chans s)"
  shows "cc_id (se_chans (fst (peer_do c ev (s, w))) ! ch) = cc_id (se_chans s ! ch)"
proof (rule rpc_view_cases [OF refl, of c ev s w])
  fix env
  assume "rpc_view (fst (peer_do c ev (s, w))) = rpc_view (deliver env s)"
  then show ?thesis using assms
    by (auto simp: rpc_view_eq deliver_def put_chan_def Let_def split: option.splits)
next
  fix b assume "rpc_view (fst (peer_do c ev (s, w))) = rpc_view (snd (call_begin c b s))"
  then show ?thesis using assms by (simp add: rpc_view_eq call_begin_fields nth_append)
next
  fix k assume "rpc_view (fst (peer_do c ev (s, w))) = rpc_view (snd (call_recv k s))"
  then show ?thesis using assms by (auto simp: rpc_view_eq call_recv_def split: if_splits)
qed (use assms in \<open>auto simp: rpc_view_eq call_cancel_def\<close>)

lemma chan_id_run:
  assumes "chans_ok s" and "ch < length (se_chans s)"
  shows "cc_id (se_chans (fst (fold (peer_do c) evs (s, w))) ! ch) = cc_id (se_chans s ! ch)"
  using assms
proof (induction evs arbitrary: s w)
  case (Cons ev evs)
  obtain s1 w1 where st: "peer_do c ev (s, w) = (s1, w1)" by fastforce
  have "chans_ok s1" "ch < length (se_chans s1)"
    using chans_ok_step [OF Cons.prems(1), of c ev w] buf_origin_step [OF Cons.prems, of c ev w] st by auto
  then show ?case using Cons.IH [of s1 w1] chan_id_step [OF Cons.prems(2), of c ev w] st by simp
qed simp

lemma chans_ok_new: "rpc_view s = rpc_view (NewSession remote) \<Longrightarrow> chans_ok s"
  by (simp add: rpc_view_eq NewSession_def chans_ok_def)

lemma Session_call_elim:
  assumes "Session_call c evs done b (s, w) = (Inr resp, sw')"
  obtains i ch s1 s2 w2 where "call_begin c b s = (Inr (i, ch), s1)" "fold (peer_do c) evs (s1, w) = (s2, w2)"
    "ch < length (se_chans s2)" "cc_buf (se_chans s2 ! ch) = Some resp"
  using assms
  by (auto simp: Session_call_def call_recv_def split: sum.splits prod.splits option.splits if_splits)

text \<open>
  C8. Responses are correlated: whatever happened on a session before a call and whatever other calls,
  cancellations, bulk requests and messages interleave with it, the response the call returns carries the
  call's own request id and is a message that arrived after the call was made.
\<close>
theorem rpc_response_correlated:
  assumes "rpc_view s0 = rpc_view (NewSession remote)"
    and "fold (peer_do c) evs0 (s0, w0) = (s, w)"
    and "Session_call c evs done b (s, w) = (Inr resp, sw')"
  shows "RequestId resp = se_ids s + 1 \<and> (\<exists>raw. PvControl raw \<in> set evs \<and> decodeEnvelope c raw = Inr resp)"
proof -
  have ok: "chans_ok s"
    using chans_ok_run [OF chans_ok_new [OF assms(1)], of c evs0 w0] assms(2) by simp
  obtain i ch s1 s2 w2 where cb: "call_begin c b s = (Inr (i, ch), s1)" and run: "fold (peer_do c) evs (s1, w) = (s2, w2)"
    and buf: "ch < length (se_chans s2)" "cc_buf (se_chans s2 ! ch) = Some resp"
    using assms(3) by (rule Session_call_elim)
  note b = call_begin_ok [OF cb]
  have ok1: "chans_ok s1" using chans_ok_call [OF ok, of c b] cb by simp
  have ch1: "ch < length (se_chans s1)" "se_chans s1 ! ch = \<lparr>cc_id = i, cc_buf = None\<rparr>" using b by auto
  have "chans_ok s2" using chans_ok_run [OF ok1, of c evs w] run by simp
  then have "RequestId resp = cc_id (se_chans s2 ! ch)" using buf by (auto simp: chans_ok_def)
  also have "\<dots> = i" using chan_id_run [OF ok1 ch1(1), of c evs w] run ch1 by simp
  finally have "RequestId resp = se_ids s + 1" using b by simp
  moreover have "resp \<in> msgs_in c evs" using buf_origin_run [OF ok1 ch1(1), of c evs w resp] run buf ch1 by simp
  ultimately show ?thesis by (auto simp: msgs_in_def)
qed

section \<open>Completion of calls\<close>

definition quiet :: "codec \<Rightarrow> u64 \<Rightarrow> peer_ev \<Rightarrow> bool" where
  \<comment> \<open>the event neither cancels request \<open>i\<close> nor brings a message bearing its id\<close>
  "quiet c i ev \<longleftrightarrow> ev \<noteq> PvCancel i \<and>
     (case ev of PvControl raw \<Rightarrow> (case decodeEnvelope c raw of Inr env \<Rightarrow> RequestId env \<noteq> i | Inl _ \<Rightarrow> True) | _ \<Rightarrow> True)"

definition waits :: "u64 \<Rightarrow> nat \<Rightarrow> nat \<Rightarrow> 'w Session \<Rightarrow> bool" where
  \<comment> \<open>request \<open>i\<close> waits on channel \<open>ch\<close>, \<open>k\<close> more ids have been given out, and no bulk request has its id\<close>
  "waits i ch k s \<longleftrightarrow> map_of (se_pending s) i = Some ch \<and> se_ids s = i + of_nat k \<and> i \<notin> set (bi_sinks (se_in s))"

lemma id_fresh: "0 < k \<Longrightarrow> k < 2 ^ 64 \<Longrightarrow> (i :: u64) + of_nat k \<noteq> i"
  by (auto simp: word_of_nat_eq_0_iff dest: nat_dvd_not_less)

lemma fetch_begin_sinks: "set (bi_sinks (se_in (snd (fetch_begin c b room s)))) \<subseteq> insert (se_ids s + 1) (set (bi_sinks (se_in s)))"
  by (auto simp: fetch_begin_def Let_def requestIDs_next_def set_sink_def del_sink_def
      split: prod.splits option.splits dest!: Session_send_eqD)

lemma call_begin_in [simp]: "se_in (snd (call_begin c b s)) = se_in s"
  by (auto simp: call_begin_def Let_def split: prod.splits option.splits dest!: Session_send_eqD)

lemma waits_step:
  assumes "waits i ch k s" and "quiet c i ev" and "Suc k < 2 ^ 64"
  shows "waits i ch k (fst (peer_do c ev (s, w))) \<or> waits i ch (Suc k) (fst (peer_do c ev (s, w)))"
proof (rule rpc_view_cases [OF refl, of c ev s w])
  have fresh: "i + of_nat (Suc k) \<noteq> i" using id_fresh assms(3) by blast
  {
    fix env raw
    assume "ev = PvControl raw" "decodeEnvelope c raw = Inr env"
      and "rpc_view (fst (peer_do c ev (s, w))) = rpc_view (deliver env s)"
    then show ?thesis using assms
      by (cases "map_of (se_pending s) (RequestId env)") (auto simp: rpc_view_eq waits_def quiet_def deliver_def)
  next
    fix b assume "rpc_view (fst (peer_do c ev (s, w))) = rpc_view (snd (call_begin c b s))"
    then show ?thesis using assms(1) fresh call_begin_fields(3) [of c b s]
      by (auto simp: rpc_view_eq waits_def call_begin_fields algebra_simps)
  next
    fix b room assume "rpc_view (fst (peer_do c ev (s, w))) = rpc_view (snd (fetch_begin c b room s))"
    then show ?thesis using assms(1) fresh fetch_begin_sinks [of c b room s]
      by (auto simp: rpc_view_eq waits_def algebra_simps)
  }
qed (use assms in \<open>auto simp: rpc_view_eq waits_def quiet_def call_cancel_def call_recv_def split: if_splits\<close>)

lemma waits_run:
  assumes "waits i ch k s" and "\<forall>ev \<in> set evs. quiet c i ev" and "k + length evs < 2 ^ 64"
  shows "\<exists>k'. waits i ch k' (fst (fold (peer_do c) evs (s, w)))"
  using assms
proof (induction evs arbitrary: s w k)
  case (Cons ev evs)
  obtain s1 w1 where st: "peer_do c ev (s, w) = (s1, w1)" by fastforce
  have "waits i ch k s1 \<or> waits i ch (Suc k) s1" using waits_step [of i ch k s c ev w] Cons.prems st by simp
  then show ?case using Cons.IH [of k s1 w1] Cons.IH [of "Suc k" s1 w1] Cons.prems(2,3) st by auto
qed auto

definition ids_ok :: "nat \<Rightarrow> 'w Session \<Rightarrow> bool" where
  \<comment> \<open>\<open>n\<close> ids have been given out and every bulk sink has one of them\<close>
  "ids_ok n s \<longleftrightarrow> se_ids s = of_nat n \<and> (\<forall>i \<in> set (bi_sinks (se_in s)). \<exists>j. 0 < j \<and> j \<le> n \<and> i = of_nat j)"

lemma ids_ok_step:
  assumes "ids_ok n s"
  shows "ids_ok n (fst (peer_do c ev (s, w))) \<or> ids_ok (Suc n) (fst (peer_do c ev (s, w)))"
proof (rule rpc_view_cases [OF refl, of c ev s w])
  fix env
  assume "rpc_view (fst (peer_do c ev (s, w))) = rpc_view (deliver env s)"
  then show ?thesis using assms
    by (cases "map_of (se_pending s) (RequestId env)") (auto simp: rpc_view_eq ids_ok_def deliver_def)
next
  fix b assume "rpc_view (fst (peer_do c ev (s, w))) = rpc_view (snd (call_begin c b s))"
  then have "ids_ok (Suc n) (fst (peer_do c ev (s, w)))"
    using assms by (fastforce simp: rpc_view_eq ids_ok_def call_begin_fields)
  then show ?thesis ..
next
  fix b room assume "rpc_view (fst (peer_do c ev (s, w))) = rpc_view (snd (fetch_begin c b room s))"
  then have "se_ids (fst (peer_do c ev (s, w))) = of_nat (Suc n)"
    "\<And>i. i \<in> set (bi_sinks (se_in (fst (peer_do c ev (s, w))))) \<Longrightarrow> i = of_nat (Suc n) \<or> i \<in> set (bi_sinks (se_in s))"
    using assms fetch_begin_sinks [of c b room s] by (auto simp: rpc_view_eq ids_ok_def add.commute)
  then have "ids_ok (Suc n) (fst (peer_do c ev (s, w)))"
    using assms unfolding ids_ok_def by (metis le_Suc_eq order_refl zero_less_Suc)
  then show ?thesis ..
qed (use assms in \<open>auto simp: rpc_view_eq ids_ok_def call_cancel_def call_recv_def split: if_splits\<close>)

lemma ids_ok_run:
  "ids_ok n s \<Longrightarrow> \<exists>n' \<le> n + length evs. ids_ok n' (fst (fold (peer_do c) evs (s, w)))"
proof (induction evs arbitrary: s w n)
  case (Cons ev evs)
  obtain s1 w1 where st: "peer_do c ev (s, w) = (s1, w1)" by fastforce
  have "ids_ok n s1 \<or> ids_ok (Suc n) s1" using ids_ok_step [of n s c ev w] Cons.prems st by simp
  then obtain n' where "n' \<le> Suc n + length evs" "ids_ok n' (fst (fold (peer_do c) evs (s1, w1)))"
    using Cons.IH [of n s1 w1] Cons.IH [of "Suc n" s1 w1] by (metis add_Suc le_SucI)
  then show ?case using st by auto
qed auto

lemma fresh_id_no_sink:
  assumes "ids_ok n s" and "Suc n < 2 ^ 64"
  shows "se_ids s + 1 \<notin> set (bi_sinks (se_in s))"
proof
  assume "se_ids s + 1 \<in> set (bi_sinks (se_in s))"
  then obtain j where j: "0 < j" "j \<le> n" "of_nat (Suc n) = (of_nat j :: u64)"
    using assms(1) by (auto simp: ids_ok_def add.commute)
  then have "(of_nat j :: u64) + of_nat (Suc n - j) = of_nat j" by (simp flip: of_nat_add)
  moreover have "0 < Suc n - j" "Suc n - j < 2 ^ 64" using j assms(2) by simp_all
  ultimately show False using id_fresh [of "Suc n - j" "of_nat j"] by blast
qed

definition terminal_body :: "Body \<Rightarrow> bool" where
  "terminal_body b \<longleftrightarrow> is_response b \<or> (\<exists>e. b = BError e)"

lemma deliver_waiting:
  assumes "waits i ch k s" and "chans_ok s" and "decodeEnvelope c raw = Inr (envelope i rb)" and "terminal_body rb"
  shows "cc_buf (se_chans (fst (peer_do c (PvControl raw) (s, w))) ! ch) = Some (envelope i rb) \<and>
         ch < length (se_chans (fst (peer_do c (PvControl raw) (s, w))))"
proof -
  have ch: "ch < length (se_chans s)" using assms(1,2) by (auto simp: waits_def chans_ok_def)
  have "rpc_view (fst (dispatch c (envelope i rb) rb (s, w))) = rpc_view (deliver (envelope i rb) s)"
    using assms(1,4) by (auto simp: rpc_view_dispatch terminal_body_def on_error_def lookup_sink_def waits_def)
  then show ?thesis using assms(1,3) ch
    by (simp add: onControlMessage_def rpc_view_eq deliver_def waits_def Let_def put_chan_def)
qed

definition sends_ok :: "'w Session \<Rightarrow> bool" where
  "sends_ok s \<longleftrightarrow> se_control s \<and> se_ctlFail s = None"

lemma Session_send_ok:
  "sends_ok s \<Longrightarrow> encodeEnvelope c env = Inr raw \<Longrightarrow> Session_send c env s = (None, s\<lparr>se_sent := se_sent s @ [raw]\<rparr>)"
  by (simp add: Session_send_def sends_ok_def)

lemma call_begin_sends:
  assumes "sends_ok s" and "encodeEnvelope c (envelope (se_ids s + 1) b) = Inr raw"
  shows "\<exists>s1. call_begin c b s = (Inr (se_ids s + 1, length (se_chans s)), s1) \<and> se_sent s1 = se_sent s @ [raw] \<and> se_in s1 = se_in s"
  using assms by (simp add: call_begin_def Let_def requestIDs_next_def Session_send_def sends_ok_def)


section \<open>Every request is answered once\<close>

definition is_request :: "Body \<Rightarrow> bool" where
  "is_request b \<longleftrightarrow>
     (case b of BPing _ \<Rightarrow> True | BBrowse \<Rightarrow> True | BGetMetadata _ \<Rightarrow> True | BGetLiveParties \<Rightarrow> True | BRequestAccess _ \<Rightarrow> True
      | BGetPlaylist _ _ \<Rightarrow> True | BGetSegment _ _ \<Rightarrow> True | BDownload _ \<Rightarrow> True | BJoinParty _ \<Rightarrow> True
      | BGetSwarmSegment _ \<Rightarrow> True | _ \<Rightarrow> False)"

definition frame_of :: "u64 \<Rightarrow> bytes \<Rightarrow> bool" where
  "frame_of i raw \<longleftrightarrow> (case decodeBulkFrame raw of Some (j, _) \<Rightarrow> j = i | None \<Rightarrow> False)"

definition last_frame :: "bytes \<Rightarrow> bool" where
  "last_frame raw \<longleftrightarrow> (case decodeBulkFrame raw of Some (_, _, l, _) \<Rightarrow> l | None \<Rightarrow> False)"

definition sends_frames :: "u64 \<Rightarrow> gerror option \<Rightarrow> BulkOut \<Rightarrow> BulkOut \<Rightarrow> bool" where
  \<comment> \<open>the frames put on the channel are of request \<open>i\<close>, and one of them is a last frame exactly on success\<close>
  "sends_frames i err o1 o2 \<longleftrightarrow>
     (\<exists>fs. bo_sent o2 = bo_sent o1 @ fs \<and> list_all (frame_of i) fs \<and>
           length (filter last_frame fs) = (if err = None then 1 else 0))"

lemma sends_frames_refl [simp]: "sends_frames i (Some e) o1 o1"
  by (simp add: sends_frames_def)

lemma sends_frames_trans: "sends_frames i (Some e) o1 o2 \<Longrightarrow> sends_frames i err o2 o3 \<Longrightarrow> sends_frames i err o1 o3"
  unfolding sends_frames_def
proof (elim exE conjE)
  fix fs gs assume "bo_sent o2 = bo_sent o1 @ fs" "bo_sent o3 = bo_sent o2 @ gs" "list_all (frame_of i) fs" "list_all (frame_of i) gs"
    "length (filter last_frame fs) = (if Some e = None then 1 else 0)" "length (filter last_frame gs) = (if err = None then 1 else 0)"
  then show "\<exists>fs. bo_sent o3 = bo_sent o1 @ fs \<and> list_all (frame_of i) fs \<and> length (filter last_frame fs) = (if err = None then 1 else 0)"
    by (intro exI [of _ "fs @ gs"]) simp
qed

lemma sendFrameFlow_frames:
  "sendFrameFlow i q l p o1 = (err, o2) \<Longrightarrow> sends_frames i (if l then err else Some e) o1 o2"
  by (auto simp: sendFrameFlow_def Let_def sends_frames_def frame_of_def last_frame_def split: if_splits)

lemma send_chunk_frames: "send_chunk i q b o1 = (err, q', o2) \<Longrightarrow> sends_frames i (Some e) o1 o2"
  using sendFrameFlow_frames [of i q False b o1 _ _ e]
  by (auto simp: send_chunk_def split: if_splits prod.splits option.splits)

lemma sendBulkReader_frames: "sendBulkReader i q r o1 = (err, o2) \<Longrightarrow> sends_frames i err o1 o2"
proof (induction r arbitrary: q o1)
  case (RMore b r)
  obtain e q' o' where ch: "send_chunk i q b o1 = (e, q', o')" by (cases "send_chunk i q b o1")
  note t = send_chunk_frames [OF ch]
  show ?case
  proof (cases e)
    case None
    with RMore.prems ch have "sendBulkReader i q' r o' = (err, o2)" by simp
    from sends_frames_trans [OF t RMore.IH [OF this]] show ?thesis .
  next
    case (Some x)
    with RMore.prems ch t show ?thesis by auto
  qed
next
  case (REof b)
  obtain e q' o' where ch: "send_chunk i q b o1 = (e, q', o')" by (cases "send_chunk i q b o1")
  note t = send_chunk_frames [OF ch]
  show ?case
  proof (cases e)
    case None
    with REof.prems ch have "sendFrameFlow i q' True [] o' = (err, o2)" by simp
    from sends_frames_trans [OF t] sendFrameFlow_frames [OF this] show ?thesis by simp
  next
    case (Some x)
    with REof.prems ch t show ?thesis by auto
  qed
next
  case (RErr b e')
  obtain e q' o' where ch: "send_chunk i q b o1 = (e, q', o')" by (cases "send_chunk i q b o1")
  from send_chunk_frames [OF ch] RErr.prems ch show ?case by (cases e) auto
qed

definition answered_once :: "codec \<Rightarrow> u64 \<Rightarrow> 'w Session \<Rightarrow> 'w Session \<Rightarrow> bool" where
  \<comment> \<open>between the two states the remote was told the end of request \<open>i\<close> once: by one control message with
     its id (a response, or an \<open>Error\<close>), or by one last frame on the bulk channel\<close>
  "answered_once c i s t \<longleftrightarrow>
     (\<exists>raws fs. se_sent t = se_sent s @ raws \<and> bo_sent (se_out t) = bo_sent (se_out s) @ fs \<and>
        list_all (frame_of i) fs \<and>
        list_all (\<lambda>raw. \<exists>rb. encodeEnvelope c (envelope i rb) = Inr raw \<and> terminal_body rb) raws \<and>
        length raws + length (filter last_frame fs) = 1)"

definition codec_total :: "codec \<Rightarrow> bool" where
  "codec_total c \<longleftrightarrow> (\<forall>env. \<exists>raw. encodeEnvelope c env = Inr raw)"

lemma errEnvelope_envelope: "\<exists>e. errEnvelope i err = envelope i (BError e)"
  by (simp add: errEnvelope_def)

lemma terminal_bodies [simp]:
  "terminal_body (BPong n)" "terminal_body (BCatalog ts)" "terminal_body (BTitleMeta m)" "terminal_body BAck"
  "terminal_body (BPlaylist p)" "terminal_body (BPartyWelcome pw)" "terminal_body (BLiveParties ps)" "terminal_body (BError e)"
  by (simp_all add: terminal_body_def)

lemma reply_sent:
  assumes "codec_total c" and "sends_ok s"
  obtains raw where "encodeEnvelope c env = Inr raw" "reply c env s = s\<lparr>se_sent := se_sent s @ [raw]\<rparr>"
  using assms Session_send_ok [OF assms(2), of c env] by (auto simp: codec_total_def reply_def)

lemma answered_reply [simp]:
  assumes "codec_total c" and "sends_ok s" and "terminal_body rb"
  shows "answered_once c i s (reply c (envelope i rb) s)"
proof -
  obtain raw where "encodeEnvelope c (envelope i rb) = Inr raw" "reply c (envelope i rb) s = s\<lparr>se_sent := se_sent s @ [raw]\<rparr>"
    using reply_sent [OF assms(1,2)] .
  then show ?thesis using assms(3) by (auto simp: answered_once_def intro!: exI [of _ "[raw]"])
qed

lemma answered_error [simp]:
  assumes "codec_total c" and "sends_ok s"
  shows "answered_once c i s (reply c (errEnvelope i err) s)"
  using answered_reply [OF assms, of "BError e" i for e] errEnvelope_envelope [of i err] by force

lemma answered_bulk:
  assumes "codec_total c" and "sends_ok s"
  shows "answered_once c i s (bulk_reply c i r s)"
proof -
  obtain err o2 where sb: "sendBulkReader i 0 r (se_out s) = (err, o2)" by fastforce
  from sendBulkReader_frames [OF sb] obtain fs where
    fs: "bo_sent o2 = bo_sent (se_out s) @ fs" "list_all (frame_of i) fs" "length (filter last_frame fs) = (if err = None then 1 else 0)"
    by (auto simp: sends_frames_def)
  show ?thesis
  proof (cases err)
    case None
    then show ?thesis using sb fs by (auto simp: bulk_reply_def answered_once_def)
  next
    case (Some e)
    obtain pe where pe: "errEnvelope i e = envelope i (BError pe)" using errEnvelope_envelope by blast
    have "sends_ok (s\<lparr>se_out := o2\<rparr>)" using assms(2) by (simp add: sends_ok_def)
    then obtain raw where raw: "encodeEnvelope c (errEnvelope i e) = Inr raw"
        "reply c (errEnvelope i e) (s\<lparr>se_out := o2\<rparr>) = s\<lparr>se_out := o2, se_sent := se_sent s @ [raw]\<rparr>"
      using reply_sent [OF assms(1), of "s\<lparr>se_out := o2\<rparr>" "errEnvelope i e"] by auto
    then show ?thesis using sb fs Some pe
      by (auto simp: bulk_reply_def answered_once_def intro!: exI [of _ "[raw]"] exI [of _ fs])
  qed
qed

lemma answered_job:
  assumes "codec_total c" and "sends_ok s"
    and "j \<in> {JSegment mh i cid nm, JDownload mh i cid, JSwarm sh i req}"
  shows "answered_once c i s (fst (run_job c j (s, w)))"
  using assms answered_bulk [OF assms(1,2)] by (auto split: prod.splits sum.splits)

definition serve :: "codec \<Rightarrow> bytes \<Rightarrow> 'w Session \<times> 'w \<Rightarrow> 'w Session \<times> 'w" where
  \<comment> \<open>a control message arrives, then the goroutine it may have started runs\<close>
  "serve c raw sw = peer_do c PvJob (peer_do c (PvControl raw) sw)"

definition replies :: "codec \<Rightarrow> u64 \<Rightarrow> 'w Session \<Rightarrow> 'w Session \<Rightarrow> bool" where
  "replies c i s t \<longleftrightarrow> (\<exists>rb. terminal_body rb \<and> t = reply c (envelope i rb) s)"

lemma repliesI [simp]:
  "terminal_body rb \<Longrightarrow> replies c i s (reply c (envelope i rb) s)" "replies c i s (reply c (errEnvelope i err) s)"
  unfolding replies_def using errEnvelope_envelope [of i err] terminal_bodies(8) by (blast, metis)

definition starts_job :: "u64 \<Rightarrow> 'w Session \<Rightarrow> 'w Session \<Rightarrow> bool" where
  "starts_job i s t \<longleftrightarrow>
     (\<exists>j mh sh cid nm req. j \<in> {JSegment mh i cid nm, JDownload mh i cid, JSwarm sh i req} \<and> t = s\<lparr>se_jobs := se_jobs s @ [j]\<rparr>)"

lemma starts_jobI [simp]:
  "starts_job i s (s\<lparr>se_jobs := se_jobs s @ [JSegment mh i cid nm]\<rparr>)" "starts_job i s (s\<lparr>se_jobs := se_jobs s @ [JDownload mh i cid]\<rparr>)"
  "starts_job i s (s\<lparr>se_jobs := se_jobs s @ [JSwarm sh i req]\<rparr>)"
  unfolding starts_job_def by blast+

lemma dispatch_request:
  assumes "is_request b"
  shows "replies c i s (fst (dispatch c (envelope i b) b (s, w))) \<or> starts_job i s (fst (dispatch c (envelope i b) b (s, w)))"
  using assms
  by (cases b) (simp_all add: dispatch_def handle_defs is_request_def split: option.split prod.split sum.split)


section \<open>Witnesses\<close>

definition example_codec :: codec where
  \<comment> \<open>a codec of a few messages: a tag byte and the request id\<close>
  "example_codec =
     \<lparr>cd_Marshal = (\<lambda>env. Inr ((case EBody env of Some (BPing _) \<Rightarrow> 1 | Some (BPong _) \<Rightarrow> 2 | Some BBrowse \<Rightarrow> 3
                                  | Some (BCatalog _) \<Rightarrow> 4 | Some (BError _) \<Rightarrow> 5 | Some (BDownload _) \<Rightarrow> 6 | _ \<Rightarrow> 0)
                               # be_bytes 8 (RequestId env))),
      cd_Unmarshal = (\<lambda>raw. case raw of [] \<Rightarrow> Inl (ErrText ''empty'')
                        | t # r \<Rightarrow>
                            if t = 1 then Inr (envelope (be_word r) (BPing ''rtt''))
                            else if t = 2 then Inr (envelope (be_word r) (BPong ''rtt''))
                            else if t = 3 then Inr (envelope (be_word r) BBrowse)
                            else if t = 4 then Inr (envelope (be_word r) (BCatalog []))
                            else if t = 5 then Inr (envelope (be_word r) (BError \<lparr>pe_status = DENIED, pe_detail = ''access denied''\<rparr>))
                            else if t = 6 then Inr (envelope (be_word r) (BDownload ''c''))
                            else Inl (ErrText ''unknown''))\<rparr>"

lemma example_codec_simps [simp]:
  "encodeEnvelope example_codec (envelope i (BHandshake h)) = Inr (0 # be_bytes 8 i)"
  "encodeEnvelope example_codec (envelope i (BPing n)) = Inr (1 # be_bytes 8 i)"
  "encodeEnvelope example_codec (envelope i (BPong n)) = Inr (2 # be_bytes 8 i)"
  "encodeEnvelope example_codec (envelope i BBrowse) = Inr (3 # be_bytes 8 i)"
  "encodeEnvelope example_codec (envelope i (BCatalog ts)) = Inr (4 # be_bytes 8 i)"
  "encodeEnvelope example_codec (envelope i (BError e)) = Inr (5 # be_bytes 8 i)"
  "decodeEnvelope example_codec (1 # be_bytes 8 i) = Inr (envelope i (BPing ''rtt''))"
  "decodeEnvelope example_codec (2 # be_bytes 8 i) = Inr (envelope i (BPong ''rtt''))"
  "decodeEnvelope example_codec (3 # be_bytes 8 i) = Inr (envelope i BBrowse)"
  "decodeEnvelope example_codec (4 # be_bytes 8 i) = Inr (envelope i (BCatalog []))"
  "decodeEnvelope example_codec (5 # be_bytes 8 i) = Inr (envelope i (BError \<lparr>pe_status = DENIED, pe_detail = ''access denied''\<rparr>))"
  "decodeEnvelope example_codec (6 # be_bytes 8 i) = Inr (envelope i (BDownload ''c''))"
  by (simp_all add: example_codec_def encodeEnvelope_def decodeEnvelope_def)

lemma example_codec_total: "codec_total example_codec"
  by (simp add: codec_total_def encodeEnvelope_def example_codec_def)

definition example_peer :: "unit Session" where
  \<comment> \<open>a session whose control channel is open and on which one call has already been made\<close>
  "example_peer = fst (fold (peer_do example_codec) [PvOpen, PvCall (BPing ''a'')] (NewSession ''b'', ()))"

lemma example_peer_run: "fold (peer_do example_codec) [PvOpen, PvCall (BPing ''a'')] (NewSession ''b'', ()) = (example_peer, ())"
  by (simp add: example_peer_def prod_eq_iff)

lemma example_peer_simps: "se_ids example_peer = 1" "sends_ok example_peer"
  by (simp_all add: example_peer_def NewSession_def call_begin_def Let_def requestIDs_next_def Session_send_def
      onControlOpen_def reply_def sends_ok_def)

lemma example_ping:
  "fst (Session_call example_codec [PvControl (2 # be_bytes 8 (1 :: u64)), PvControl (2 # be_bytes 8 (2 :: u64))] False (BPing ''rtt'') (example_peer, ()))
     = Inr (envelope 2 (BPong ''rtt''))"
  by (simp add: Session_call_def call_begin_def Let_def requestIDs_next_def Session_send_def example_peer_def NewSession_def
      onControlOpen_def reply_def onControlMessage_def dispatch_def deliver_def put_chan_def call_recv_def)

theorem rpc_response_correlated_witness:
  "\<exists>raw. PvControl raw \<in> set [PvControl (2 # be_bytes 8 (1 :: u64)), PvControl (2 # be_bytes 8 (2 :: u64))] \<and>
     decodeEnvelope example_codec raw = Inr (envelope 2 (BPong ''rtt''))"
proof -
  obtain sw' where "Session_call example_codec [PvControl (2 # be_bytes 8 (1 :: u64)), PvControl (2 # be_bytes 8 (2 :: u64))] False (BPing ''rtt'') (example_peer, ())
      = (Inr (envelope 2 (BPong ''rtt'')), sw')"
    using example_ping by (metis prod.collapse)
  from rpc_response_correlated [OF refl example_peer_run this] show ?thesis by blast
qed


definition example_media :: "unit MediaHandler" where
  "example_media = \<lparr>mh_Playlist = (\<lambda>_ _ _ w. (Inl ErrNotFound, w)), mh_Segment = (\<lambda>_ _ _ w. (Inl ErrNotFound, w)),
                    mh_OpenFile = (\<lambda>_ _ w. (Inr (RMore [1, 2] (REof [3])), w))\<rparr>"


end
