(* ===== verification/Signal_Binding.thy ===== *)
theory Signal_Binding
  imports Peer_Wire Go_Path
begin

text \<open>
  Node identities and the signed connection signals: \<open>internal/identity/identity.go\<close>,
  \<open>internal/peer/binding.go\<close>, \<open>internal/peer/relay.go\<close> and the offer/answer exchange of
  \<open>internal/peer/session.go\<close> (\<open>Start\<close>, \<open>HandleSignal\<close>, \<open>setLocalAndSend\<close>).

  Ed25519, SHA-256 and JSON are the parameter \<open>crypto\<close>; the WebRTC peer connection and the signaling
  connection are the parameter \<open>'p webrtc\<close>, functions on a state \<open>'p\<close>. Base32 is written out.
\<close>

section \<open>Base32\<close>

definition byte_bits :: "byte \<Rightarrow> bool list" where
  "byte_bits b = map (\<lambda>i. bit b (7 - i)) [0 ..< 8]"

fun chunk5 :: "bool list \<Rightarrow> bool list list" where
  \<comment> \<open>groups of five bits, the last one padded with zero bits\<close>
  "chunk5 (a # b # c # d # e # xs) = [a, b, c, d, e] # chunk5 xs"
| "chunk5 [] = []"
| "chunk5 [a] = [[a, False, False, False, False]]"
| "chunk5 [a, b] = [[a, b, False, False, False]]"
| "chunk5 [a, b, c] = [[a, b, c, False, False]]"
| "chunk5 [a, b, c, d] = [[a, b, c, d, False]]"

definition bits_val :: "bool list \<Rightarrow> nat" where
  "bits_val bs = fold (\<lambda>b n. 2 * n + of_bool b) bs 0"

definition base32_char :: "nat \<Rightarrow> char" where
  "base32_char n = ''ABCDEFGHIJKLMNOPQRSTUVWXYZ234567'' ! n"

definition base32_EncodeToString :: "bytes \<Rightarrow> string" where
  \<comment> \<open>\<open>base32.StdEncoding.WithPadding(base32.NoPadding)\<close>\<close>
  "base32_EncodeToString bs = map (\<lambda>g. base32_char (bits_val g)) (chunk5 (concat (map byte_bits bs)))"

section \<open>Identities: \<open>identity.go\<close>\<close>

record SessionDescription =
  sd_type :: string
  sd_sdp :: string

record crypto =
  c_sha256 :: "bytes \<Rightarrow> bytes"
  c_NewKeyFromSeed :: "bytes \<Rightarrow> bytes"         \<comment> \<open>private key of a seed\<close>
  c_Seed :: "bytes \<Rightarrow> bytes"
  c_Public :: "bytes \<Rightarrow> bytes"                 \<comment> \<open>public key of a private key\<close>
  c_Sign :: "bytes \<Rightarrow> bytes \<Rightarrow> bytes"
  c_Verify :: "bytes \<Rightarrow> bytes \<Rightarrow> bytes \<Rightarrow> bool"
  c_descMarshal :: "SessionDescription \<Rightarrow> gerror + bytes"
  c_descUnmarshal :: "bytes \<Rightarrow> gerror + SessionDescription"

definition SeedSize :: nat where "SeedSize = 32"

definition PublicKeySize :: nat where "PublicKeySize = 32"

record Identity =
  i_priv :: bytes
  i_pub :: bytes
  i_id :: NodeID

definition NodeIDFromPublicKey :: "crypto \<Rightarrow> bytes \<Rightarrow> NodeID" where
  "NodeIDFromPublicKey c pub = ToLower (base32_EncodeToString (c_sha256 c pub))"

definition identity_Verify :: "crypto \<Rightarrow> bytes \<Rightarrow> bytes \<Rightarrow> bytes \<Rightarrow> bool" where
  "identity_Verify c pub msg sig = c_Verify c pub msg sig"

definition Identity_Sign :: "crypto \<Rightarrow> Identity \<Rightarrow> bytes \<Rightarrow> bytes" where
  "Identity_Sign c i msg = c_Sign c (i_priv i) msg"

definition Generate :: "crypto \<Rightarrow> gerror + bytes \<times> bytes \<Rightarrow> gerror + Identity" where
  \<comment> \<open>the argument is what \<open>ed25519.GenerateKey\<close> returns: public and private key\<close>
  "Generate c gen =
     (case gen of Inl err \<Rightarrow> Inl (ErrCtx ''generate ed25519 key'' err)
      | Inr (pub, priv) \<Rightarrow> Inr \<lparr>i_priv = priv, i_pub = pub, i_id = NodeIDFromPublicKey c pub\<rparr>)"

record fsys =
  fs_files :: "(string, bytes) gomap"
  fs_readErr :: "string \<Rightarrow> gerror option"     \<comment> \<open>a read failure other than \<open>fs.ErrNotExist\<close>\<close>
  fs_mkdirErr :: "string \<Rightarrow> gerror option"
  fs_writeErr :: "string \<Rightarrow> gerror option"

definition LoadOrCreate :: "crypto \<Rightarrow> gerror + bytes \<times> bytes \<Rightarrow> string \<Rightarrow> fsys \<Rightarrow> (gerror + Identity) \<times> fsys" where
  "LoadOrCreate c gen path fs =
     (case fs_readErr fs path of
        Some err \<Rightarrow> (Inl (ErrCtx (''read identity '' @ path) err), fs)
      | None \<Rightarrow>
          (case map_of (fs_files fs) path of
             Some seed \<Rightarrow>
               if length seed \<noteq> SeedSize then (Inl (ErrText (''identity file '' @ path @ '': bad seed length '' @ Itoa (int (length seed)))), fs)
               else let priv = c_NewKeyFromSeed c seed; pub = c_Public c priv
                    in (Inr \<lparr>i_priv = priv, i_pub = pub, i_id = NodeIDFromPublicKey c pub\<rparr>, fs)
           | None \<Rightarrow>
               (case Generate c gen of Inl gerr \<Rightarrow> (Inl gerr, fs)
                | Inr ident \<Rightarrow>
                    (case fs_mkdirErr fs (path_Dir path) of Some mkerr \<Rightarrow> (Inl (ErrCtx ''create identity dir'' mkerr), fs)
                     | None \<Rightarrow>
                         (case fs_writeErr fs path of Some werr \<Rightarrow> (Inl (ErrCtx ''write identity'' werr), fs)
                          | None \<Rightarrow> (Inr ident, fs\<lparr>fs_files := AList.update path (c_Seed c (i_priv ident)) (fs_files fs)\<rparr>))))))"

section \<open>Signed signals: \<open>binding.go\<close>\<close>

record SignedSignal =
  ss_From :: string
  ss_PublicKey :: bytes
  ss_SDP :: bytes
  ss_Signature :: bytes

definition SignSignal :: "crypto \<Rightarrow> Identity \<Rightarrow> SessionDescription \<Rightarrow> gerror + SignedSignal" where
  "SignSignal c ident desc =
     (case c_descMarshal c desc of Inl err \<Rightarrow> Inl err
      | Inr sdp \<Rightarrow> Inr \<lparr>ss_From = i_id ident, ss_PublicKey = i_pub ident, ss_SDP = sdp, ss_Signature = Identity_Sign c ident sdp\<rparr>)"

definition VerifySignal :: "crypto \<Rightarrow> SignedSignal \<Rightarrow> gerror + SessionDescription" where
  "VerifySignal c s =
     (if length (ss_PublicKey s) \<noteq> PublicKeySize then Inl (ErrText ''peer: bad public key length'')
      else if NodeIDFromPublicKey c (ss_PublicKey s) \<noteq> ss_From s
        then Inl (ErrText ''peer: From does not match public key fingerprint'')
      else if \<not> identity_Verify c (ss_PublicKey s) (ss_SDP s) (ss_Signature s)
        then Inl (ErrText ''peer: signature verification failed'')
      else c_descUnmarshal c (ss_SDP s))"

section \<open>Relay payloads: \<open>relay.go\<close>\<close>

datatype RelayKind = RelayKindSignal | RelayKindSwarmDial | RelayKindOther string

record RelayEnvelope =
  re_Kind :: RelayKind
  re_Data :: bytes

definition EncodeRelay :: "(RelayEnvelope \<Rightarrow> gerror + bytes) \<Rightarrow> RelayKind \<Rightarrow> gerror + bytes \<Rightarrow> gerror + bytes" where
  \<comment> \<open>the last argument is \<open>json.Marshal(v)\<close>\<close>
  "EncodeRelay marshal kind v = (case v of Inl err \<Rightarrow> Inl err | Inr data \<Rightarrow> marshal \<lparr>re_Kind = kind, re_Data = data\<rparr>)"

definition DecodeRelay :: "(bytes \<Rightarrow> gerror + RelayEnvelope) \<Rightarrow> bytes \<Rightarrow> gerror + RelayKind \<times> bytes" where
  "DecodeRelay unmarshal raw =
     (case unmarshal raw of Inl err \<Rightarrow> Inl err | Inr e \<Rightarrow> Inr (re_Kind e, re_Data e))"

section \<open>The offer/answer exchange: \<open>session.go\<close>\<close>

record 'p webrtc =
  rtc_CreateDataChannel :: "string \<Rightarrow> 'p \<Rightarrow> gerror option \<times> 'p"    \<comment> \<open>create and bind\<close>
  rtc_CreateOffer :: "'p \<Rightarrow> (gerror + SessionDescription) \<times> 'p"
  rtc_CreateAnswer :: "'p \<Rightarrow> (gerror + SessionDescription) \<times> 'p"
  rtc_SetRemoteDescription :: "SessionDescription \<Rightarrow> 'p \<Rightarrow> gerror option \<times> 'p"
  rtc_SetLocalDescription :: "SessionDescription \<Rightarrow> 'p \<Rightarrow> gerror option \<times> 'p"
  rtc_gather :: "'p \<Rightarrow> gerror option \<times> 'p"    \<comment> \<open>\<open>None\<close>: gathering completed before the context was done\<close>
  rtc_LocalDescription :: "'p \<Rightarrow> SessionDescription"
  rtc_SendSignal :: "NodeID \<Rightarrow> SignedSignal \<Rightarrow> 'p \<Rightarrow> gerror option \<times> 'p"

definition setLocalAndSend ::
  "crypto \<Rightarrow> 'p webrtc \<Rightarrow> Identity \<Rightarrow> NodeID \<Rightarrow> SessionDescription \<Rightarrow> 'p \<Rightarrow> gerror option \<times> 'p" where
  "setLocalAndSend c rtc self remote desc p =
     (case rtc_SetLocalDescription rtc desc p of (Some err, p) \<Rightarrow> (Some err, p)
      | (None, p) \<Rightarrow>
          (case rtc_gather rtc p of (Some err, p) \<Rightarrow> (Some err, p)
           | (None, p) \<Rightarrow>
               (case SignSignal c self (rtc_LocalDescription rtc p) of Inl err \<Rightarrow> (Some err, p)
                | Inr sig \<Rightarrow> rtc_SendSignal rtc remote sig p)))"

definition Session_Start ::
  "crypto \<Rightarrow> 'p webrtc \<Rightarrow> Identity \<Rightarrow> NodeID \<Rightarrow> bool \<Rightarrow> 'p \<Rightarrow> gerror option \<times> 'p" where
  "Session_Start c rtc self remote initiator p =
     (if \<not> initiator then (None, p)
      else case rtc_CreateDataChannel rtc ''control'' p of (Some err, p) \<Rightarrow> (Some err, p)
      | (None, p) \<Rightarrow>
          (case rtc_CreateDataChannel rtc ''bulk'' p of (Some err, p) \<Rightarrow> (Some err, p)
           | (None, p) \<Rightarrow>
               (case rtc_CreateOffer rtc p of (Inl err, p) \<Rightarrow> (Some err, p)
                | (Inr offer, p) \<Rightarrow> setLocalAndSend c rtc self remote offer p)))"

definition accept_description ::
  "crypto \<Rightarrow> 'p webrtc \<Rightarrow> Identity \<Rightarrow> NodeID \<Rightarrow> SessionDescription \<Rightarrow> 'p \<Rightarrow> gerror option \<times> 'p" where
  \<comment> \<open>\<open>HandleSignal\<close> after the verification\<close>
  "accept_description c rtc self remote desc p =
     (case rtc_SetRemoteDescription rtc desc p of (Some err, p) \<Rightarrow> (Some err, p)
      | (None, p) \<Rightarrow>
          if sd_type desc = ''offer''
          then (case rtc_CreateAnswer rtc p of (Inl err, p) \<Rightarrow> (Some err, p)
                | (Inr answer, p) \<Rightarrow> setLocalAndSend c rtc self remote answer p)
          else (None, p))"

definition HandleSignal ::
  "crypto \<Rightarrow> 'p webrtc \<Rightarrow> Identity \<Rightarrow> NodeID \<Rightarrow> SignedSignal \<Rightarrow> 'p \<Rightarrow> gerror option \<times> 'p" where
  "HandleSignal c rtc self remote sig p =
     (if ss_From sig \<noteq> remote then (Some (ErrText (''peer: signal from unexpected node '' @ ss_From sig)), p)
      else case VerifySignal c sig of Inl err \<Rightarrow> (Some err, p)
      | Inr desc \<Rightarrow> accept_description c rtc self remote desc p)"

section \<open>A Node ID determines the fingerprint\<close>

lemma byte_bits_inj: "byte_bits b = byte_bits b' \<Longrightarrow> b = b'"
proof (rule bit_word_eqI)
  fix n assume "byte_bits b = byte_bits b'" and n: "n < LENGTH(8)"
  then have "byte_bits b ! (7 - n) = byte_bits b' ! (7 - n)" by simp
  then show "bit b n = bit b' n" using n by (simp add: byte_bits_def)
qed

lemma length_byte_bits [simp]: "length (byte_bits b) = 8"
  by (simp add: byte_bits_def)

lemma bits_of_bytes_inj:
  "concat (map byte_bits bs) = concat (map byte_bits cs) \<Longrightarrow> length bs = length cs \<Longrightarrow> bs = cs"
proof (induction bs arbitrary: cs)
  case (Cons b bs)
  then obtain c ds where cs: "cs = c # ds" by (cases cs) auto
  then have "byte_bits b = byte_bits c \<and> concat (map byte_bits bs) = concat (map byte_bits ds)"
    using Cons.prems(1) by (simp add: append_eq_append_conv)
  then show ?case using Cons byte_bits_inj cs by auto
qed simp

lemma length_concat_bits [simp]: "length (concat (map byte_bits bs)) = 8 * length bs"
  by (induction bs) auto

lemma chunk5_inj: "chunk5 xs = chunk5 ys \<Longrightarrow> length xs = length ys \<Longrightarrow> xs = ys"
proof (induction xs arbitrary: ys rule: chunk5.induct)
  case (1 a b c d e xs)
  obtain a' b' c' d' e' zs where "ys = a' # b' # c' # d' # e' # zs" using 1(3) by (auto simp: Suc_length_conv length_Suc_conv)
  then show ?case using 1 by simp
qed (auto simp: Suc_length_conv length_Suc_conv)

lemma chunk5_len: "g \<in> set (chunk5 xs) \<Longrightarrow> length g = 5"
  by (induction xs rule: chunk5.induct) auto

lemma length5E:
  assumes "length (g :: 'a list) = 5"
  obtains a b c d e where "g = [a, b, c, d, e]"
  using assms by (auto simp: length_Suc_conv numeral_eq_Suc)

lemma bits_val_inj: "length g = 5 \<Longrightarrow> length h = 5 \<Longrightarrow> bits_val g = bits_val h \<Longrightarrow> g = h"
  by (elim length5E) (auto simp: bits_val_def of_bool_def split: if_splits)

lemma bits_val_less: "length g = 5 \<Longrightarrow> bits_val g < 32"
  by (elim length5E) (simp add: bits_val_def of_bool_def)

definition base32_lower :: "nat \<Rightarrow> char" where
  "base32_lower n = ''abcdefghijklmnopqrstuvwxyz234567'' ! n"

lemma base32_facts:
  "\<forall>n \<in> set [0 ..< 32]. lower1 (base32_char n) = base32_lower n \<and> base32_char n \<notin> {CHR 0xE2, CHR 0xC4}"
  "distinct (map base32_lower [0 ..< 32])"
  by code_simp+

lemma base32_lower_inj: "m < 32 \<Longrightarrow> n < 32 \<Longrightarrow> base32_lower m = base32_lower n \<Longrightarrow> m = n"
  using base32_facts(2) unfolding distinct_map by (auto dest: inj_onD)

lemma ToLower_map: "\<forall>c \<in> set s. c \<notin> {CHR 0xE2, CHR 0xC4} \<Longrightarrow> ToLower s = map lower1 s"
proof (induction s)
  case Nil
  then show ?case by (simp add: ToLower.simps)
next
  case (Cons c s)
  then show ?case by (subst ToLower.simps) (simp add: HasPrefix_def)
qed

lemma NodeID_eq:
  "NodeIDFromPublicKey c pub = map (\<lambda>g. base32_lower (bits_val g)) (chunk5 (concat (map byte_bits (c_sha256 c pub))))"
proof -
  have "base32_char (bits_val g) \<notin> {CHR 0xE2, CHR 0xC4} \<and> lower1 (base32_char (bits_val g)) = base32_lower (bits_val g)"
    if "g \<in> set (chunk5 xs)" for g xs
    using base32_facts(1) bits_val_less [OF chunk5_len [OF that]] by auto
  then show ?thesis unfolding NodeIDFromPublicKey_def base32_EncodeToString_def
    by (subst ToLower_map) auto
qed

lemma NodeID_fingerprint:
  assumes "NodeIDFromPublicKey c pub = NodeIDFromPublicKey c pub'" and "length (c_sha256 c pub) = length (c_sha256 c pub')"
  shows "c_sha256 c pub = c_sha256 c pub'"
proof -
  have inj: "inj_on (\<lambda>g. base32_lower (bits_val g)) (set (chunk5 xs) \<union> set (chunk5 ys))" for xs ys
    by (rule inj_onI) (meson UnE base32_lower_inj bits_val_inj bits_val_less chunk5_len)
  have "chunk5 (concat (map byte_bits (c_sha256 c pub))) = chunk5 (concat (map byte_bits (c_sha256 c pub')))"
    using assms(1) unfolding NodeID_eq by (rule map_inj_on [OF _ inj])
  then show ?thesis using chunk5_inj bits_of_bytes_inj assms(2) by (metis length_concat_bits)
qed

section \<open>Properties\<close>

lemma VerifySignal_Inr:
  "VerifySignal c s = Inr desc \<longleftrightarrow>
     length (ss_PublicKey s) = PublicKeySize \<and> NodeIDFromPublicKey c (ss_PublicKey s) = ss_From s \<and>
     c_Verify c (ss_PublicKey s) (ss_SDP s) (ss_Signature s) \<and> c_descUnmarshal c (ss_SDP s) = Inr desc"
  by (auto simp: VerifySignal_def identity_Verify_def)

text \<open>
  C11. Connections are authenticated by identity: with SHA-256 free of collisions on the remote's public key
  and Ed25519 unforgeable for it, whatever signals the untrusted signaling server hands to a session, the
  WebRTC connection is touched only with a session description that the remote Node itself signed.
\<close>
theorem signal_authenticity:
  assumes len: "\<forall>k. length (c_sha256 c k) = 32"
    and coll: "\<forall>k. length k = PublicKeySize \<and> c_sha256 c k = c_sha256 c pk \<longrightarrow> k = pk"
    and unforg: "\<forall>m sig. c_Verify c pk m sig \<longrightarrow> m \<in> Signed"
    and remote: "remote = NodeIDFromPublicKey c pk"
    and touched: "snd (HandleSignal c rtc self remote sig p) \<noteq> p"
  shows "\<exists>sdp \<in> Signed. \<exists>desc. c_descUnmarshal c sdp = Inr desc \<and>
           HandleSignal c rtc self remote sig p = accept_description c rtc self remote desc p"
proof -
  obtain desc where f: "ss_From sig = remote" and v: "VerifySignal c sig = Inr desc"
    using touched by (auto simp: HandleSignal_def split: if_splits sum.splits)
  then have "ss_PublicKey sig = pk"
    using NodeID_fingerprint [of c "ss_PublicKey sig" pk] len coll remote by (simp add: VerifySignal_Inr)
  then have "ss_SDP sig \<in> Signed" "c_descUnmarshal c (ss_SDP sig) = Inr desc"
    using v unforg by (auto simp: VerifySignal_Inr)
  then show ?thesis using f v by (auto simp: HandleSignal_def)
qed

definition wf_identity :: "crypto \<Rightarrow> Identity \<Rightarrow> bool" where
  \<comment> \<open>the shape of every identity \<open>LoadOrCreate\<close> returns\<close>
  "wf_identity c i \<longleftrightarrow> i_pub i = c_Public c (i_priv i) \<and> i_id i = NodeIDFromPublicKey c (i_pub i)"

definition ed25519_gen :: "crypto \<Rightarrow> gerror + bytes \<times> bytes \<Rightarrow> bool" where
  \<comment> \<open>what \<open>ed25519.GenerateKey\<close> documents: a key made from a seed, with its public half\<close>
  "ed25519_gen c gen \<longleftrightarrow> (\<forall>pub priv. gen = Inr (pub, priv) \<longrightarrow>
     (\<exists>seed. length seed = SeedSize \<and> priv = c_NewKeyFromSeed c seed \<and> pub = c_Public c priv))"

definition seed_law :: "crypto \<Rightarrow> bool" where
  "seed_law c \<longleftrightarrow> (\<forall>seed. length seed = SeedSize \<longrightarrow> c_Seed c (c_NewKeyFromSeed c seed) = seed)"

text \<open>
  A Node keeps its identity across restarts: what \<open>LoadOrCreate\<close> returns is a well-formed identity, and
  every later \<open>LoadOrCreate\<close> on the file system it leaves, whatever key the generator would give then,
  returns the same identity and changes nothing.
\<close>
theorem identity_stable:
  assumes "ed25519_gen c gen" and "seed_law c" and "LoadOrCreate c gen path fs = (Inr ident, fs')"
  shows "wf_identity c ident \<and> LoadOrCreate c gen' path fs' = (Inr ident, fs')"
proof -
  have r: "fs_readErr fs path = None" using assms(3) by (auto simp: LoadOrCreate_def split: option.splits)
  show ?thesis
  proof (cases "map_of (fs_files fs) path")
    case (Some seed)
    then show ?thesis using assms(3) r by (auto simp: LoadOrCreate_def wf_identity_def Let_def split: if_splits)
  next
    case None
    then obtain pub priv where gen: "gen = Inr (pub, priv)"
      "ident = \<lparr>i_priv = priv, i_pub = pub, i_id = NodeIDFromPublicKey c pub\<rparr>"
      "fs' = fs\<lparr>fs_files := AList.update path (c_Seed c priv) (fs_files fs)\<rparr>"
      using assms(3) r by (auto simp: LoadOrCreate_def Generate_def split: sum.splits option.splits)
    then obtain seed where "length seed = SeedSize" "priv = c_NewKeyFromSeed c seed" "pub = c_Public c priv"
      using assms(1) by (auto simp: ed25519_gen_def)
    then show ?thesis using gen r assms(2) by (simp add: LoadOrCreate_def seed_law_def wf_identity_def Let_def)
  qed
qed

text \<open>
  A signal round trip: a description signed by a well-formed identity is accepted by \<open>VerifySignal\<close> and
  comes out unchanged, and altering the sender, the key or (when no signature is valid for two messages) the
  description makes it fail.
\<close>
theorem signal_roundtrip:
  assumes "wf_identity c ident" and "length (i_pub ident) = PublicKeySize"
    and "\<forall>m. c_Verify c (c_Public c (i_priv ident)) m (c_Sign c (i_priv ident) m)"
    and "c_descMarshal c desc = Inr sdp" and "c_descUnmarshal c sdp = Inr desc"
    and "SignSignal c ident desc = Inr s"
  shows "VerifySignal c s = Inr desc \<and>
         (\<forall>from'. from' \<noteq> ss_From s \<longrightarrow> isl (VerifySignal c (s\<lparr>ss_From := from'\<rparr>))) \<and>
         (\<forall>sdp'. \<not> c_Verify c (i_pub ident) sdp' (ss_Signature s) \<longrightarrow> isl (VerifySignal c (s\<lparr>ss_SDP := sdp'\<rparr>)))"
proof -
  have s: "s = \<lparr>ss_From = i_id ident, ss_PublicKey = i_pub ident, ss_SDP = sdp, ss_Signature = c_Sign c (i_priv ident) sdp\<rparr>"
    using assms(4,6) by (simp add: SignSignal_def Identity_Sign_def)
  have "VerifySignal c s = Inr desc" using assms(1-3,5) by (simp add: VerifySignal_Inr s wf_identity_def)
  moreover have "isl (VerifySignal c (s\<lparr>ss_From := from'\<rparr>))" if "from' \<noteq> ss_From s" for from'
    using that assms(1,2) by (auto simp: VerifySignal_def s wf_identity_def)
  moreover have "isl (VerifySignal c (s\<lparr>ss_SDP := sdp'\<rparr>))" if "\<not> c_Verify c (i_pub ident) sdp' (ss_Signature s)" for sdp'
    using that assms(1,2) by (auto simp: VerifySignal_def identity_Verify_def s wf_identity_def)
  ultimately show ?thesis by blast
qed

section \<open>Witnesses\<close>

definition example_crypto :: crypto where
  \<comment> \<open>a toy scheme: the key is its own digest and a signature is the key followed by the message\<close>
  "example_crypto =
     \<lparr>c_sha256 = (\<lambda>k. take 32 (k @ replicate 32 0)), c_NewKeyFromSeed = (\<lambda>s. s), c_Seed = (\<lambda>k. k), c_Public = (\<lambda>k. k),
      c_Sign = (\<lambda>k m. k @ m), c_Verify = (\<lambda>k m sig. sig = k @ m \<and> (k = replicate 32 9 \<longrightarrow> m = [7])),
      c_descMarshal = (\<lambda>d. Inr [7]), c_descUnmarshal = (\<lambda>raw. Inr \<lparr>sd_type = ''answer'', sd_sdp = ''''\<rparr>)\<rparr>"

definition example_rtc :: "nat webrtc" where
  "example_rtc = \<lparr>rtc_CreateDataChannel = (\<lambda>_ p. (None, p)), rtc_CreateOffer = (\<lambda>p. (Inl ErrBusy, p)),
     rtc_CreateAnswer = (\<lambda>p. (Inl ErrBusy, p)), rtc_SetRemoteDescription = (\<lambda>_ p. (None, Suc p)),
     rtc_SetLocalDescription = (\<lambda>_ p. (None, p)), rtc_gather = (\<lambda>p. (None, p)),
     rtc_LocalDescription = (\<lambda>_. \<lparr>sd_type = ''answer'', sd_sdp = ''''\<rparr>), rtc_SendSignal = (\<lambda>_ _ p. (None, p))\<rparr>"

definition example_self :: Identity where
  "example_self = \<lparr>i_priv = replicate 32 2, i_pub = replicate 32 2, i_id = NodeIDFromPublicKey example_crypto (replicate 32 2)\<rparr>"

definition example_signal :: SignedSignal where
  "example_signal = \<lparr>ss_From = NodeIDFromPublicKey example_crypto (replicate 32 9), ss_PublicKey = replicate 32 9,
     ss_SDP = [7], ss_Signature = replicate 32 9 @ [7]\<rparr>"

theorem signal_authenticity_witness:
  "\<exists>sdp \<in> {[7]}. \<exists>desc. c_descUnmarshal example_crypto sdp = Inr desc \<and>
     HandleSignal example_crypto example_rtc example_self (NodeIDFromPublicKey example_crypto (replicate 32 9)) example_signal 0
       = accept_description example_crypto example_rtc example_self (NodeIDFromPublicKey example_crypto (replicate 32 9)) desc 0"
  by (rule signal_authenticity [where pk = "replicate 32 9"])
    (auto simp: example_crypto_def PublicKeySize_def example_rtc_def HandleSignal_def example_signal_def VerifySignal_def
      identity_Verify_def accept_description_def)

theorem identity_stable_witness:
  "let fs = \<lparr>fs_files = [], fs_readErr = (\<lambda>_. None), fs_mkdirErr = (\<lambda>_. None), fs_writeErr = (\<lambda>_. None)\<rparr>;
       fs' = snd (LoadOrCreate example_crypto (Inr (replicate 32 1, replicate 32 1)) ''/d/id'' fs)
   in map_of (fs_files fs') ''/d/id'' = Some (replicate 32 1) \<and>
      i_priv (projr (fst (LoadOrCreate example_crypto (Inl ErrBusy) ''/d/id'' fs'))) = replicate 32 1"
proof -
  let ?fs = "\<lparr>fs_files = [], fs_readErr = (\<lambda>_. None), fs_mkdirErr = (\<lambda>_. None), fs_writeErr = (\<lambda>_. None)\<rparr>"
  let ?gen = "Inr (replicate 32 1, replicate 32 1) :: gerror + bytes \<times> bytes"
  have g: "ed25519_gen example_crypto ?gen" "seed_law example_crypto"
    by (simp_all add: ed25519_gen_def seed_law_def example_crypto_def SeedSize_def)
  have l: "LoadOrCreate example_crypto ?gen ''/d/id'' ?fs =
      (Inr \<lparr>i_priv = replicate 32 1, i_pub = replicate 32 1, i_id = NodeIDFromPublicKey example_crypto (replicate 32 1)\<rparr>,
       ?fs\<lparr>fs_files := [(''/d/id'', replicate 32 1)]\<rparr>)"
    by (simp add: LoadOrCreate_def Generate_def) (simp add: example_crypto_def)
  show ?thesis using identity_stable [OF g l, of "Inl ErrBusy"] l by simp
qed

theorem signal_roundtrip_witness:
  "VerifySignal example_crypto (projr (SignSignal example_crypto example_self \<lparr>sd_type = ''answer'', sd_sdp = ''''\<rparr>))
     = Inr \<lparr>sd_type = ''answer'', sd_sdp = ''''\<rparr>"
proof -
  have k: "i_priv example_self = replicate 32 2" "i_pub example_self = replicate 32 2" "wf_identity example_crypto example_self"
    by (simp_all add: example_self_def wf_identity_def) (simp add: example_crypto_def)
  have ne: "replicate 32 (2 :: byte) \<noteq> replicate 32 9" by (simp add: replicate_eq_replicate)
  have s: "SignSignal example_crypto example_self \<lparr>sd_type = ''answer'', sd_sdp = ''''\<rparr> =
      Inr (projr (SignSignal example_crypto example_self \<lparr>sd_type = ''answer'', sd_sdp = ''''\<rparr>))"
    by (simp add: SignSignal_def example_crypto_def)
  show ?thesis
    by (rule signal_roundtrip [OF k(3) _ _ _ _ s, where sdp = "[7]", THEN conjunct1])
      (use k ne in \<open>simp_all add: example_crypto_def PublicKeySize_def\<close>)
qed

end
