(* ===== verification/Signaling.thy ===== *)
theory Signaling
  imports Signal_Binding
begin

text \<open>
  The signaling plane: the messages of \<open>internal/signaling/message.go\<close>, the node's client
  \<open>internal/signaling/client.go\<close> and the server \<open>internal/signalserver/server.go\<close>.

  JSON is the parameter \<open>sjson\<close>. Each connection of the server is a goroutine running \<open>HandleWS\<close>; its
  program counter is \<open>hstage\<close>, and \<open>sig_step\<close> interleaves the goroutines at the points where they
  take the server's lock or the network. A websocket is the list of messages written to it.
\<close>

section \<open>Messages: \<open>message.go\<close>\<close>

datatype MsgType =
  TypeChallenge | TypeRegister | TypePresenceSnapshot | TypePresenceJoin | TypePresenceLeave | TypeRelay | TypeError

record PeerInfo =
  pi_NodeID :: string
  pi_PublicKey :: bytes
  pi_DisplayName :: string

record Register =
  rg_NodeID :: string
  rg_PublicKey :: bytes
  rg_DisplayName :: string
  rg_Signature :: bytes

record Relay =
  rl_From :: string
  rl_To :: string
  rl_Payload :: bytes

datatype SigMsg =
    MChallenge bytes
  | MRegister Register
  | MPresenceSnapshot "PeerInfo list"
  | MPresenceJoin PeerInfo
  | MPresenceLeave string
  | MRelay Relay
  | MError string

record sjson =
  sj_marshal :: "SigMsg \<Rightarrow> gerror + bytes"                     \<comment> \<open>\<open>json.Marshal(msg)\<close>\<close>
  sj_envelope :: "string \<Rightarrow> bytes \<Rightarrow> gerror + bytes"          \<comment> \<open>\<open>json.Marshal(envelope{...})\<close>\<close>
  sj_unenvelope :: "bytes \<Rightarrow> gerror + string \<times> bytes"
  sj_unmarshal :: "MsgType \<Rightarrow> bytes \<Rightarrow> gerror + SigMsg"      \<comment> \<open>into the struct of that type\<close>

definition type_tag :: "MsgType \<Rightarrow> string" where
  "type_tag t = (case t of TypeChallenge \<Rightarrow> ''challenge'' | TypeRegister \<Rightarrow> ''register''
     | TypePresenceSnapshot \<Rightarrow> ''presence_snapshot'' | TypePresenceJoin \<Rightarrow> ''presence_join''
     | TypePresenceLeave \<Rightarrow> ''presence_leave'' | TypeRelay \<Rightarrow> ''relay'' | TypeError \<Rightarrow> ''error'')"

definition msg_type :: "SigMsg \<Rightarrow> MsgType" where
  "msg_type m = (case m of MChallenge _ \<Rightarrow> TypeChallenge | MRegister _ \<Rightarrow> TypeRegister
     | MPresenceSnapshot _ \<Rightarrow> TypePresenceSnapshot | MPresenceJoin _ \<Rightarrow> TypePresenceJoin
     | MPresenceLeave _ \<Rightarrow> TypePresenceLeave | MRelay _ \<Rightarrow> TypeRelay | MError _ \<Rightarrow> TypeError)"

definition sig_Marshal :: "sjson \<Rightarrow> SigMsg \<Rightarrow> gerror + bytes" where
  "sig_Marshal j msg =
     (let typ = msg_type msg in case sj_marshal j msg of Inl err \<Rightarrow> Inl err | Inr data \<Rightarrow> sj_envelope j (type_tag typ) data)"

definition tag_type :: "string \<Rightarrow> MsgType option" where
  "tag_type s =
     (if s = ''challenge'' then Some TypeChallenge else if s = ''register'' then Some TypeRegister
      else if s = ''presence_snapshot'' then Some TypePresenceSnapshot
      else if s = ''presence_join'' then Some TypePresenceJoin
      else if s = ''presence_leave'' then Some TypePresenceLeave
      else if s = ''relay'' then Some TypeRelay else if s = ''error'' then Some TypeError else None)"

definition sig_Unmarshal :: "sjson \<Rightarrow> bytes \<Rightarrow> gerror + MsgType \<times> SigMsg" where
  "sig_Unmarshal j raw =
     (case sj_unenvelope j raw of Inl err \<Rightarrow> Inl err
      | Inr (tag, data) \<Rightarrow>
          (case tag_type tag of None \<Rightarrow> Inl (ErrText (''signaling: unknown message type '' @ tag))
           | Some t \<Rightarrow> (case sj_unmarshal j t data of Inl err \<Rightarrow> Inl err | Inr m \<Rightarrow> Inr (t, m))))"

definition json_ok :: "sjson \<Rightarrow> bool" where
  \<comment> \<open>the documented round trip of \<open>encoding/json\<close> on these structs\<close>
  "json_ok j \<longleftrightarrow>
     (\<forall>m data. sj_marshal j m = Inr data \<longrightarrow> sj_unmarshal j (msg_type m) data = Inr m) \<and>
     (\<forall>t data raw. sj_envelope j t data = Inr raw \<longrightarrow> sj_unenvelope j raw = Inr (t, data))"

lemma tag_type_tag [simp]: "tag_type (type_tag t) = Some t"
  by (cases t) (simp_all add: tag_type_def type_tag_def)

lemma sig_roundtrip: "json_ok j \<Longrightarrow> sig_Marshal j m = Inr raw \<Longrightarrow> sig_Unmarshal j raw = Inr (msg_type m, m)"
  by (auto simp: sig_Marshal_def sig_Unmarshal_def json_ok_def Let_def split: sum.splits)

section \<open>The server: \<open>server.go\<close>\<close>

datatype hstage =
    HChallenged bytes       \<comment> \<open>the nonce was sent, \<open>Register\<close> is awaited\<close>
  | HAdded "PeerInfo list"  \<comment> \<open>\<open>s.add\<close> returned this snapshot\<close>
  | HServing                \<comment> \<open>in the read loop\<close>
  | HRemoved                \<comment> \<open>\<open>s.remove\<close> returned true, the leave is not yet broadcast\<close>
  | HDone

record conn =
  cn_stage :: hstage
  cn_closed :: bool          \<comment> \<open>\<open>conn.Close()\<close> was called: reads fail\<close>
  cn_info :: PeerInfo        \<comment> \<open>\<open>client.info\<close>, once registered\<close>
  cn_send :: "bytes list"    \<comment> \<open>\<open>client.send\<close>, capacity 32\<close>
  cn_out :: "bytes list"     \<comment> \<open>messages written to the websocket, in order\<close>
  cn_in :: "bytes list"      \<comment> \<open>messages read from it\<close>
  cn_proof :: "(Register \<times> bytes) option"  \<comment> \<open>the accepted registration and its nonce\<close>

record Server =
  sv_conns :: "conn list"                 \<comment> \<open>every connection so far; a \<open>*client\<close> is an index\<close>
  sv_clients :: "(string, nat) gomap"

definition Server_New :: Server where
  "Server_New = \<lparr>sv_conns = [], sv_clients = []\<rparr>"

definition upd_conn :: "nat \<Rightarrow> (conn \<Rightarrow> conn) \<Rightarrow> Server \<Rightarrow> Server" where
  "upd_conn k f s = s\<lparr>sv_conns := (sv_conns s)[k := f (sv_conns s ! k)]\<rparr>"

definition sendCap :: nat where "sendCap = 32"

definition try_send :: "bytes \<Rightarrow> conn \<Rightarrow> conn" where
  \<comment> \<open>\<open>select { case c.send <- b: default: }\<close>\<close>
  "try_send b cn = (if length (cn_send cn) < sendCap then cn\<lparr>cn_send := cn_send cn @ [b]\<rparr> else cn)"

definition writeMsg :: "sjson \<Rightarrow> nat \<Rightarrow> SigMsg \<Rightarrow> Server \<Rightarrow> Server" where
  "writeMsg j k msg s =
     (case sig_Marshal j msg of Inl _ \<Rightarrow> s | Inr b \<Rightarrow> upd_conn k (\<lambda>cn. cn\<lparr>cn_out := cn_out cn @ [b]\<rparr>) s)"

definition validRegister :: "crypto \<Rightarrow> Register \<Rightarrow> bytes \<Rightarrow> bool" where
  "validRegister c reg nonce \<longleftrightarrow>
     length (rg_PublicKey reg) = PublicKeySize \<and> NodeIDFromPublicKey c (rg_PublicKey reg) = rg_NodeID reg \<and>
     identity_Verify c (rg_PublicKey reg) nonce (rg_Signature reg)"

definition Server_add :: "nat \<Rightarrow> Server \<Rightarrow> PeerInfo list \<times> Server" where
  "Server_add k s =
     (let n = pi_NodeID (cn_info (sv_conns s ! k));
          s1 = (case map_of (sv_clients s) n of None \<Rightarrow> s | Some prior \<Rightarrow> upd_conn prior (\<lambda>cn. cn\<lparr>cn_closed := True\<rparr>) s);
          others = filter (\<lambda>i. pi_NodeID i \<noteq> n) (map (\<lambda>(_, k'). cn_info (sv_conns s ! k')) (sv_clients s))
      in (others, s1\<lparr>sv_clients := AList.update n k (sv_clients s1)\<rparr>))"

definition Server_remove :: "nat \<Rightarrow> Server \<Rightarrow> bool \<times> Server" where
  "Server_remove k s =
     (let n = pi_NodeID (cn_info (sv_conns s ! k))
      in if map_of (sv_clients s) n = Some k then (True, s\<lparr>sv_clients := AList.delete n (sv_clients s)\<rparr>) else (False, s))"

definition broadcastExcept :: "sjson \<Rightarrow> string \<Rightarrow> SigMsg \<Rightarrow> Server \<Rightarrow> Server" where
  "broadcastExcept j exceptNodeID msg s =
     (case sig_Marshal j msg of Inl _ \<Rightarrow> s
      | Inr b \<Rightarrow> fold (\<lambda>(n, k) s. if n = exceptNodeID then s else upd_conn k (try_send b) s) (sv_clients s) s)"

definition routeRelay :: "sjson \<Rightarrow> Relay \<Rightarrow> Server \<Rightarrow> Server" where
  "routeRelay j rel s =
     (case sig_Marshal j (MRelay rel) of Inl _ \<Rightarrow> s
      | Inr b \<Rightarrow> (case map_of (sv_clients s) (rl_To rel) of None \<Rightarrow> s | Some k \<Rightarrow> upd_conn k (try_send b) s))"

subsection \<open>\<open>HandleWS\<close>, step by step\<close>

definition ws_connect :: "sjson \<Rightarrow> bytes \<Rightarrow> Server \<Rightarrow> Server" where
  \<comment> \<open>upgrade and challenge\<close>
  "ws_connect j nonce s =
     writeMsg j (length (sv_conns s)) (MChallenge nonce)
       (s\<lparr>sv_conns := sv_conns s @
           [\<lparr>cn_stage = HChallenged nonce, cn_closed = False, cn_info = \<lparr>pi_NodeID = '''', pi_PublicKey = [], pi_DisplayName = ''''\<rparr>,
             cn_send = [], cn_out = [], cn_in = [], cn_proof = None\<rparr>]\<rparr>)"

definition ws_register :: "sjson \<Rightarrow> crypto \<Rightarrow> nat \<Rightarrow> bytes \<Rightarrow> bytes \<Rightarrow> Server \<Rightarrow> Server" where
  "ws_register j c k nonce raw s =
     (case sig_Unmarshal j raw of
        Inr (_, MRegister reg) \<Rightarrow>
          if \<not> validRegister c reg nonce
          then upd_conn k (\<lambda>cn. cn\<lparr>cn_stage := HDone\<rparr>) (writeMsg j k (MError ''invalid registration'') s)
          else let s1 = upd_conn k (\<lambda>cn. cn\<lparr>cn_info := \<lparr>pi_NodeID = rg_NodeID reg, pi_PublicKey = rg_PublicKey reg,
                            pi_DisplayName = rg_DisplayName reg\<rparr>, cn_proof := Some (reg, nonce)\<rparr>) s
               in (case Server_add k s1 of (snapshot, s2) \<Rightarrow> upd_conn k (\<lambda>cn. cn\<lparr>cn_stage := HAdded snapshot\<rparr>) s2)
      | _ \<Rightarrow> upd_conn k (\<lambda>cn. cn\<lparr>cn_stage := HDone\<rparr>) (writeMsg j k (MError ''expected register'') s))"

definition ws_announce :: "sjson \<Rightarrow> nat \<Rightarrow> PeerInfo list \<Rightarrow> Server \<Rightarrow> Server" where
  "ws_announce j k snapshot s =
     upd_conn k (\<lambda>cn. cn\<lparr>cn_stage := HServing\<rparr>)
       (broadcastExcept j (pi_NodeID (cn_info (sv_conns s ! k))) (MPresenceJoin (cn_info (sv_conns s ! k)))
         (writeMsg j k (MPresenceSnapshot snapshot) s))"

definition ws_read :: "sjson \<Rightarrow> nat \<Rightarrow> bytes \<Rightarrow> Server \<Rightarrow> Server" where
  "ws_read j k raw s =
     (let s = upd_conn k (\<lambda>cn. cn\<lparr>cn_in := cn_in cn @ [raw]\<rparr>) s
      in case sig_Unmarshal j raw of
           Inr (_, MRelay rel) \<Rightarrow> routeRelay j (rel\<lparr>rl_From := pi_NodeID (cn_info (sv_conns s ! k))\<rparr>) s
         | _ \<Rightarrow> s)"

definition ws_exit :: "nat \<Rightarrow> Server \<Rightarrow> Server" where
  \<comment> \<open>a read failed: the deferred removal\<close>
  "ws_exit k s =
     (case Server_remove k s of (gone, s1) \<Rightarrow>
        upd_conn k (\<lambda>cn. cn\<lparr>cn_stage := if gone then HRemoved else HDone\<rparr>) s1)"

definition ws_leave :: "sjson \<Rightarrow> nat \<Rightarrow> Server \<Rightarrow> Server" where
  "ws_leave j k s =
     upd_conn k (\<lambda>cn. cn\<lparr>cn_stage := HDone, cn_closed := True\<rparr>)
       (broadcastExcept j (pi_NodeID (cn_info (sv_conns s ! k))) (MPresenceLeave (pi_NodeID (cn_info (sv_conns s ! k)))) s)"

definition ws_write :: "nat \<Rightarrow> Server \<Rightarrow> Server" where
  \<comment> \<open>the writer goroutine takes one message from \<open>c.send\<close>\<close>
  "ws_write k s =
     upd_conn k (\<lambda>cn. case cn_send cn of [] \<Rightarrow> cn | b # bs \<Rightarrow> cn\<lparr>cn_send := bs, cn_out := cn_out cn @ [b]\<rparr>) s"

inductive sig_step :: "sjson \<Rightarrow> crypto \<Rightarrow> Server \<Rightarrow> Server \<Rightarrow> bool" for j c where
  connect: "sig_step j c s (ws_connect j nonce s)"
| register: "k < length (sv_conns s) \<Longrightarrow> cn_stage (sv_conns s ! k) = HChallenged nonce \<Longrightarrow>
     sig_step j c s (ws_register j c k nonce raw s)"
| hangup: "k < length (sv_conns s) \<Longrightarrow> cn_stage (sv_conns s ! k) = HChallenged nonce \<Longrightarrow>
     sig_step j c s (upd_conn k (\<lambda>cn. cn\<lparr>cn_stage := HDone\<rparr>) s)"
| announce: "k < length (sv_conns s) \<Longrightarrow> cn_stage (sv_conns s ! k) = HAdded snapshot \<Longrightarrow>
     sig_step j c s (ws_announce j k snapshot s)"
| read: "k < length (sv_conns s) \<Longrightarrow> cn_stage (sv_conns s ! k) = HServing \<Longrightarrow> \<not> cn_closed (sv_conns s ! k) \<Longrightarrow>
     sig_step j c s (ws_read j k raw s)"
| exit: "k < length (sv_conns s) \<Longrightarrow> cn_stage (sv_conns s ! k) = HServing \<Longrightarrow> sig_step j c s (ws_exit k s)"
| leave: "k < length (sv_conns s) \<Longrightarrow> cn_stage (sv_conns s ! k) = HRemoved \<Longrightarrow> sig_step j c s (ws_leave j k s)"
| drain: "k < length (sv_conns s) \<Longrightarrow> cn_stage (sv_conns s ! k) = HServing \<Longrightarrow> sig_step j c s (ws_write k s)"


section \<open>The client: \<open>client.go\<close>\<close>

record SigClient =
  cl_peers :: "(string, PeerInfo) gomap"
  cl_relays :: "Relay list"          \<comment> \<open>relays put on the channel, in order\<close>
  cl_changes :: nat                  \<comment> \<open>\<open>OnPresenceChange\<close> calls\<close>

definition sig_Dial :: "sjson \<Rightarrow> crypto \<Rightarrow> Identity \<Rightarrow> string \<Rightarrow> gerror + bytes \<Rightarrow> (bytes \<Rightarrow> gerror option) \<Rightarrow> gerror + bytes \<Rightarrow>
    (gerror + SigClient) \<times> bytes option" where
  \<comment> \<open>the arguments: the first message read, the outcome of a write, the second message read; the result also
     gives what was written\<close>
  "sig_Dial j c ident displayName rd1 wr rd2 =
     (case rd1 of Inl err \<Rightarrow> (Inl (ErrCtx ''read challenge'' err), None)
      | Inr raw \<Rightarrow>
          (case sig_Unmarshal j raw of
             Inr (_, MChallenge nonce) \<Rightarrow>
               (let reg = (case sig_Marshal j (MRegister \<lparr>rg_NodeID = i_id ident, rg_PublicKey = i_pub ident,
                            rg_DisplayName = displayName, rg_Signature = Identity_Sign c ident nonce\<rparr>) of Inr b \<Rightarrow> b | Inl _ \<Rightarrow> [])
                in case wr reg of Some err \<Rightarrow> (Inl err, None)
                   | None \<Rightarrow>
                       (case rd2 of Inl err \<Rightarrow> (Inl (ErrCtx ''read snapshot'' err), Some reg)
                        | Inr raw2 \<Rightarrow>
                            (case sig_Unmarshal j raw2 of
                               Inr (_, MPresenceSnapshot ps) \<Rightarrow>
                                 (Inr \<lparr>cl_peers = fold (\<lambda>p m. AList.update (pi_NodeID p) p m) ps [], cl_relays = [], cl_changes = 0\<rparr>, Some reg)
                             | _ \<Rightarrow> (Inl (ErrText ''expected snapshot''), Some reg))))
           | _ \<Rightarrow> (Inl (ErrText ''expected challenge''), None)))"

definition client_read :: "sjson \<Rightarrow> bytes \<Rightarrow> SigClient \<Rightarrow> SigClient" where
  \<comment> \<open>one turn of \<open>readLoop\<close>\<close>
  "client_read j raw c =
     (case sig_Unmarshal j raw of Inl _ \<Rightarrow> c
      | Inr (_, m) \<Rightarrow>
          (case m of
             MPresenceJoin p \<Rightarrow> c\<lparr>cl_peers := AList.update (pi_NodeID p) p (cl_peers c), cl_changes := Suc (cl_changes c)\<rparr>
           | MPresenceLeave n \<Rightarrow> c\<lparr>cl_peers := AList.delete n (cl_peers c), cl_changes := Suc (cl_changes c)\<rparr>
           | MRelay rel \<Rightarrow> c\<lparr>cl_relays := cl_relays c @ [rel]\<rparr>
           | _ \<Rightarrow> c))"

definition client_Peers :: "SigClient \<Rightarrow> PeerInfo list" where
  "client_Peers c = map snd (cl_peers c)"

definition SendRelay :: "sjson \<Rightarrow> NodeID \<Rightarrow> bytes \<Rightarrow> gerror + bytes" where
  \<comment> \<open>the message written to the server\<close>
  "SendRelay j dest payload = sig_Marshal j (MRelay \<lparr>rl_From = '''', rl_To = dest, rl_Payload = payload\<rparr>)"

section \<open>What a step leaves alone\<close>

lemma length_upd_conn [simp]: "length (sv_conns (upd_conn k f s)) = length (sv_conns s)"
  by (simp add: upd_conn_def)

lemma clients_upd_conn [simp]: "sv_clients (upd_conn k f s) = sv_clients s"
  by (simp add: upd_conn_def)

lemma nth_upd_conn: "k' < length (sv_conns s) \<Longrightarrow>
    sv_conns (upd_conn k f s) ! k' = (if k' = k then f (sv_conns s ! k) else sv_conns s ! k')"
  by (simp add: upd_conn_def nth_list_update)

definition skel :: "conn \<Rightarrow> conn" where
  \<comment> \<open>a connection without its traffic\<close>
  "skel cn = cn\<lparr>cn_send := [], cn_out := [], cn_in := []\<rparr>"

lemma skel_simps [simp]:
  "cn_stage (skel cn) = cn_stage cn" "cn_closed (skel cn) = cn_closed cn" "cn_info (skel cn) = cn_info cn"
  "cn_proof (skel cn) = cn_proof cn" "skel (cn\<lparr>cn_send := x\<rparr>) = skel cn" "skel (cn\<lparr>cn_out := y\<rparr>) = skel cn"
  "skel (cn\<lparr>cn_in := z\<rparr>) = skel cn" "skel (try_send b cn) = skel cn"
  by (auto simp: skel_def try_send_def)

definition same_skel :: "Server \<Rightarrow> Server \<Rightarrow> bool" where
  "same_skel s t \<longleftrightarrow> map skel (sv_conns s) = map skel (sv_conns t) \<and> sv_clients s = sv_clients t"

lemma same_skel_refl [simp]: "same_skel s s"
  by (simp add: same_skel_def)

lemma same_skel_trans: "same_skel s t \<Longrightarrow> same_skel t u \<Longrightarrow> same_skel s u"
  by (simp add: same_skel_def)

lemma same_skel_upd [simp]: "(\<And>cn. skel (f cn) = skel cn) \<Longrightarrow> same_skel s (upd_conn k f s)"
  unfolding same_skel_def upd_conn_def
  by (cases "k < length (sv_conns s)") (auto simp: nth_list_update list_update_beyond intro!: nth_equalityI)

lemma same_skel_writeMsg [simp]: "same_skel s (writeMsg j k m s)"
  by (simp add: writeMsg_def split: sum.split)

lemma same_skel_broadcast_fold:
  "same_skel s (fold (\<lambda>(n, k) s. if n = x then s else upd_conn k (try_send b) s) ps s)"
proof (induction ps arbitrary: s)
  case (Cons p ps)
  obtain n k where "p = (n, k)" by fastforce
  then show ?case using Cons.IH [of s] same_skel_trans [OF same_skel_upd Cons.IH, of "try_send b" s k] by auto
qed simp

lemma same_skel_broadcast [simp]: "same_skel s (broadcastExcept j x m s)"
  by (simp add: broadcastExcept_def same_skel_broadcast_fold split: sum.split)

lemma same_skel_route [simp]: "same_skel s (routeRelay j rel s)"
  by (simp add: routeRelay_def split: sum.split option.split)

lemma same_skel_read [simp]: "same_skel s (ws_read j k raw s)"
  unfolding ws_read_def Let_def
  by (rule same_skel_trans [where t = "upd_conn k (\<lambda>cn. cn\<lparr>cn_in := cn_in cn @ [raw]\<rparr>) s"])
    (simp_all split: sum.split prod.split SigMsg.split)

lemma same_skel_write [simp]: "same_skel s (ws_write k s)"
  by (simp add: ws_write_def split: list.split)

lemma same_skel_nth: "same_skel s t \<Longrightarrow> k < length (sv_conns s) \<Longrightarrow> skel (sv_conns t ! k) = skel (sv_conns s ! k)"
  unfolding same_skel_def by (metis map_eq_imp_length_eq nth_map)

lemma same_skel_length: "same_skel s t \<Longrightarrow> length (sv_conns t) = length (sv_conns s)"
  unfolding same_skel_def by (metis length_map)

section \<open>The registry\<close>

definition live_stage :: "hstage \<Rightarrow> bool" where
  "live_stage st \<longleftrightarrow> st = HServing \<or> (\<exists>sn. st = HAdded sn)"

definition registry_ok :: "crypto \<Rightarrow> Server \<Rightarrow> bool" where
  \<comment> \<open>an entry is a live connection registered under its Node ID; a registration was proved with its nonce;
     a live connection that is no entry has been closed\<close>
  "registry_ok c s \<longleftrightarrow>
     (\<forall>n k. map_of (sv_clients s) n = Some k \<longrightarrow>
        k < length (sv_conns s) \<and> pi_NodeID (cn_info (sv_conns s ! k)) = n \<and> live_stage (cn_stage (sv_conns s ! k))) \<and>
     (\<forall>k < length (sv_conns s).
        (\<forall>reg nonce. cn_proof (sv_conns s ! k) = Some (reg, nonce) \<longrightarrow>
           validRegister c reg nonce \<and> rg_NodeID reg = pi_NodeID (cn_info (sv_conns s ! k))) \<and>
        (live_stage (cn_stage (sv_conns s ! k)) \<longrightarrow> cn_proof (sv_conns s ! k) \<noteq> None \<and>
           (map_of (sv_clients s) (pi_NodeID (cn_info (sv_conns s ! k))) = Some k \<or> cn_closed (sv_conns s ! k))) \<and>
        (\<forall>nonce. cn_stage (sv_conns s ! k) = HChallenged nonce \<longrightarrow> cn_proof (sv_conns s ! k) = None))"

lemma registry_ok_skel: "same_skel s t \<Longrightarrow> registry_ok c s \<Longrightarrow> registry_ok c t"
proof -
  assume ss: "same_skel s t" and ok: "registry_ok c s"
  note len = same_skel_length [OF ss]
  have cl: "sv_clients t = sv_clients s" using ss by (simp add: same_skel_def)
  have f: "cn_stage (sv_conns t ! k) = cn_stage (sv_conns s ! k)" "cn_closed (sv_conns t ! k) = cn_closed (sv_conns s ! k)"
    "cn_info (sv_conns t ! k) = cn_info (sv_conns s ! k)" "cn_proof (sv_conns t ! k) = cn_proof (sv_conns s ! k)"
    if "k < length (sv_conns s)" for k
    using same_skel_nth [OF ss that, THEN arg_cong [where f = cn_stage]] same_skel_nth [OF ss that, THEN arg_cong [where f = cn_closed]]
      same_skel_nth [OF ss that, THEN arg_cong [where f = cn_info]] same_skel_nth [OF ss that, THEN arg_cong [where f = cn_proof]]
    by simp_all
  show ?thesis using ok unfolding registry_ok_def len cl by (simp add: f cong: conj_cong imp_cong)
qed

lemma registry_upd:
  assumes "registry_ok c s" and "k < length (sv_conns s)"
    and "cn_info (f (sv_conns s ! k)) = cn_info (sv_conns s ! k)" and "cn_proof (f (sv_conns s ! k)) = cn_proof (sv_conns s ! k)"
    and "cn_closed (sv_conns s ! k) \<longrightarrow> cn_closed (f (sv_conns s ! k))"
    and "live_stage (cn_stage (f (sv_conns s ! k))) \<longleftrightarrow> live_stage (cn_stage (sv_conns s ! k))"
    and "\<forall>nonce. cn_stage (f (sv_conns s ! k)) = HChallenged nonce \<longrightarrow> cn_stage (sv_conns s ! k) = HChallenged nonce"
  shows "registry_ok c (upd_conn k f s)"
  using assms unfolding registry_ok_def by (auto simp: nth_upd_conn)

lemma registryD:
  assumes "registry_ok c s"
  shows "map_of (sv_clients s) n = Some k \<Longrightarrow>
      k < length (sv_conns s) \<and> pi_NodeID (cn_info (sv_conns s ! k)) = n \<and> live_stage (cn_stage (sv_conns s ! k))"
    and "k < length (sv_conns s) \<Longrightarrow> cn_proof (sv_conns s ! k) = Some (reg, nonce) \<Longrightarrow>
      validRegister c reg nonce \<and> rg_NodeID reg = pi_NodeID (cn_info (sv_conns s ! k))"
    and "k < length (sv_conns s) \<Longrightarrow> live_stage (cn_stage (sv_conns s ! k)) \<Longrightarrow> cn_proof (sv_conns s ! k) \<noteq> None \<and>
      (map_of (sv_clients s) (pi_NodeID (cn_info (sv_conns s ! k))) = Some k \<or> cn_closed (sv_conns s ! k))"
    and "k < length (sv_conns s) \<Longrightarrow> cn_stage (sv_conns s ! k) = HChallenged nc \<Longrightarrow> cn_proof (sv_conns s ! k) = None"
  using assms unfolding registry_ok_def by blast+

lemma registryI:
  assumes "\<And>n k. map_of (sv_clients s) n = Some k \<Longrightarrow>
      k < length (sv_conns s) \<and> pi_NodeID (cn_info (sv_conns s ! k)) = n \<and> live_stage (cn_stage (sv_conns s ! k))"
    and "\<And>k reg nonce. k < length (sv_conns s) \<Longrightarrow> cn_proof (sv_conns s ! k) = Some (reg, nonce) \<Longrightarrow>
      validRegister c reg nonce \<and> rg_NodeID reg = pi_NodeID (cn_info (sv_conns s ! k))"
    and "\<And>k. k < length (sv_conns s) \<Longrightarrow> live_stage (cn_stage (sv_conns s ! k)) \<Longrightarrow> cn_proof (sv_conns s ! k) \<noteq> None \<and>
      (map_of (sv_clients s) (pi_NodeID (cn_info (sv_conns s ! k))) = Some k \<or> cn_closed (sv_conns s ! k))"
    and "\<And>k nonce. k < length (sv_conns s) \<Longrightarrow> cn_stage (sv_conns s ! k) = HChallenged nonce \<Longrightarrow> cn_proof (sv_conns s ! k) = None"
  shows "registry_ok c s"
  using assms unfolding registry_ok_def by blast

lemma live_stage_simps [simp]:
  "\<not> live_stage HDone" "\<not> live_stage HRemoved" "\<not> live_stage (HChallenged nonce)" "live_stage HServing" "live_stage (HAdded sn)"
  by (simp_all add: live_stage_def)

lemma registry_retire:
  assumes ok: "registry_ok c s" and k: "k < length (sv_conns s)" and st: "st \<in> {HRemoved, HDone}"
    and cl: "\<And>n' k'. map_of cl n' = Some k' \<longleftrightarrow> map_of (sv_clients s) n' = Some k' \<and> k' \<noteq> k"
  shows "registry_ok c (upd_conn k (\<lambda>cn. cn\<lparr>cn_stage := st\<rparr>) (s\<lparr>sv_clients := cl\<rparr>))" (is "registry_ok c ?t")
proof -
  have nth: "sv_conns ?t ! k' = (if k' = k then (sv_conns s ! k)\<lparr>cn_stage := st\<rparr> else sv_conns s ! k')"
    if "k' < length (sv_conns s)" for k' using that by (simp add: upd_conn_def nth_list_update)
  have len: "length (sv_conns ?t) = length (sv_conns s)" "sv_clients ?t = cl" by (simp_all add: upd_conn_def)
  show ?thesis
  proof (rule registryI, unfold len)
    fix n k' assume "map_of cl n = Some k'"
    then have "map_of (sv_clients s) n = Some k'" "k' \<noteq> k" using cl by auto
    then show "k' < length (sv_conns s) \<and> pi_NodeID (cn_info (sv_conns ?t ! k')) = n \<and> live_stage (cn_stage (sv_conns ?t ! k'))"
      using registryD(1) [OF ok, of n k'] by (simp add: nth)
  next
    fix k' reg nonce assume "k' < length (sv_conns s)" "cn_proof (sv_conns ?t ! k') = Some (reg, nonce)"
    then show "validRegister c reg nonce \<and> rg_NodeID reg = pi_NodeID (cn_info (sv_conns ?t ! k'))"
      using registryD(2) [OF ok, of k' reg nonce] by (simp add: nth split: if_splits)
  next
    fix k' assume k': "k' < length (sv_conns s)" "live_stage (cn_stage (sv_conns ?t ! k'))"
    then have "k' \<noteq> k" using st by (auto simp: nth)
    then show "cn_proof (sv_conns ?t ! k') \<noteq> None \<and>
        (map_of cl (pi_NodeID (cn_info (sv_conns ?t ! k'))) = Some k' \<or> cn_closed (sv_conns ?t ! k'))"
      using k' registryD(3) [OF ok, of k'] cl by (simp add: nth)
  next
    fix k' nonce assume "k' < length (sv_conns s)" "cn_stage (sv_conns ?t ! k') = HChallenged nonce"
    then show "cn_proof (sv_conns ?t ! k') = None"
      using st registryD(4) [OF ok, of k' nonce] by (auto simp: nth split: if_splits)
  qed
qed

lemma registry_exit:
  assumes ok: "registry_ok c s" and k: "k < length (sv_conns s)"
  shows "registry_ok c (ws_exit k s)"
proof -
  let ?n = "pi_NodeID (cn_info (sv_conns s ! k))"
  have un: "map_of (sv_clients s) n' = Some k \<Longrightarrow> n' = ?n" for n' using registryD(1) [OF ok, of n' k] by simp
  show ?thesis
  proof (cases "map_of (sv_clients s) ?n = Some k")
    case True
    have "registry_ok c (upd_conn k (\<lambda>cn. cn\<lparr>cn_stage := HRemoved\<rparr>) (s\<lparr>sv_clients := AList.delete ?n (sv_clients s)\<rparr>))"
    proof (rule registry_retire [OF ok k])
      fix n' k'
      show "map_of (AList.delete ?n (sv_clients s)) n' = Some k' \<longleftrightarrow> map_of (sv_clients s) n' = Some k' \<and> k' \<noteq> k"
        using True un [of n'] by (cases "n' = ?n") auto
    qed simp
    then show ?thesis using True by (simp add: ws_exit_def Server_remove_def)
  next
    case False
    have "registry_ok c (upd_conn k (\<lambda>cn. cn\<lparr>cn_stage := HDone\<rparr>) (s\<lparr>sv_clients := sv_clients s\<rparr>))"
    proof (rule registry_retire [OF ok k])
      fix n' k'
      show "map_of (sv_clients s) n' = Some k' \<longleftrightarrow> map_of (sv_clients s) n' = Some k' \<and> k' \<noteq> k"
        using False un [of n'] by (cases "n' = ?n") auto
    qed simp
    then show ?thesis using False by (simp add: ws_exit_def Server_remove_def)
  qed
qed

lemma registry_enter:
  assumes ok: "registry_ok c s" and k: "k < length (sv_conns s)" and st: "cn_stage (sv_conns s ! k) = HChallenged nonce"
    and v: "validRegister c reg nonce" and ni: "pi_NodeID info = rg_NodeID reg"
    and add: "Server_add k (upd_conn k (\<lambda>cn. cn\<lparr>cn_info := info, cn_proof := Some (reg, nonce)\<rparr>) s) = (sn, u)"
  shows "registry_ok c (upd_conn k (\<lambda>cn. cn\<lparr>cn_stage := HAdded sn\<rparr>) u)" (is "registry_ok c ?t")
proof -
  let ?n = "pi_NodeID info"
  have cl: "sv_clients ?t = AList.update ?n k (sv_clients s)" and len: "length (sv_conns ?t) = length (sv_conns s)"
    using add k by (auto simp: Server_add_def Let_def upd_conn_def split: option.splits)
  have pk: "prior \<noteq> k \<and> prior < length (sv_conns s)" if "map_of (sv_clients s) n = Some prior" for n prior
    using registryD(1) [OF ok that] st by auto
  have nth: "sv_conns ?t ! k' =
      (if k' = k then (sv_conns s ! k)\<lparr>cn_info := info, cn_proof := Some (reg, nonce), cn_stage := HAdded sn\<rparr>
       else if map_of (sv_clients s) ?n = Some k' then (sv_conns s ! k')\<lparr>cn_closed := True\<rparr> else sv_conns s ! k')"
    if "k' < length (sv_conns s)" for k'
    using add k that pk [of ?n]
    by (auto simp: Server_add_def Let_def upd_conn_def nth_list_update split: option.splits)
  show ?thesis
  proof (rule registryI, unfold len cl)
    fix n k' assume a: "map_of (AList.update ?n k (sv_clients s)) n = Some k'"
    show "k' < length (sv_conns s) \<and> pi_NodeID (cn_info (sv_conns ?t ! k')) = n \<and> live_stage (cn_stage (sv_conns ?t ! k'))"
    proof (cases "n = ?n")
      case True
      then show ?thesis using a k nth [of k] by auto
    next
      case False
      then have "map_of (sv_clients s) n = Some k'" using a by simp
      then show ?thesis using registryD(1) [OF ok, of n k'] pk [of n k'] by (simp add: nth)
    qed
  next
    fix k' reg' nonce' assume "k' < length (sv_conns s)" "cn_proof (sv_conns ?t ! k') = Some (reg', nonce')"
    then show "validRegister c reg' nonce' \<and> rg_NodeID reg' = pi_NodeID (cn_info (sv_conns ?t ! k'))"
      using registryD(2) [OF ok, of k' reg' nonce'] v ni by (auto simp: nth split: if_splits)
  next
    fix k' assume k': "k' < length (sv_conns s)" "live_stage (cn_stage (sv_conns ?t ! k'))"
    show "cn_proof (sv_conns ?t ! k') \<noteq> None \<and>
        (map_of (AList.update ?n k (sv_clients s)) (pi_NodeID (cn_info (sv_conns ?t ! k'))) = Some k' \<or> cn_closed (sv_conns ?t ! k'))"
      using k' registryD(3) [OF ok, of k'] by (auto simp: nth split: if_splits)
  next
    fix k' nonce' assume "k' < length (sv_conns s)" "cn_stage (sv_conns ?t ! k') = HChallenged nonce'"
    then show "cn_proof (sv_conns ?t ! k') = None"
      using registryD(4) [OF ok, of k' nonce'] by (auto simp: nth split: if_splits)
  qed
qed

lemma registry_register:
  assumes ok: "registry_ok c s" and k: "k < length (sv_conns s)" and st: "cn_stage (sv_conns s ! k) = HChallenged nonce"
  shows "registry_ok c (ws_register j c k nonce raw s)"
proof -
  have bad: "registry_ok c (upd_conn k (\<lambda>cn. cn\<lparr>cn_stage := HDone\<rparr>) (writeMsg j k m s))" for m
  proof -
    have ss: "same_skel s (writeMsg j k m s)" by simp
    have "cn_stage (sv_conns (writeMsg j k m s) ! k) = HChallenged nonce" "k < length (sv_conns (writeMsg j k m s))"
      using same_skel_nth [OF ss k, THEN arg_cong [where f = cn_stage]] same_skel_length [OF ss] k st by simp_all
    then show ?thesis by (intro registry_upd registry_ok_skel [OF ss ok]) auto
  qed
  show ?thesis unfolding ws_register_def
    by (auto simp: Let_def bad split: sum.split prod.split SigMsg.split intro!: registry_enter [OF ok k st])
qed

lemma registry_step:
  assumes "sig_step j c s t" and ok: "registry_ok c s"
  shows "registry_ok c t"
  using assms(1)
proof cases
  case (connect nonce)
  have "registry_ok c (s\<lparr>sv_conns := sv_conns s @ [cn]\<rparr>)" if "cn_stage cn = HChallenged nonce" "cn_proof cn = None" for cn
    using ok that unfolding registry_ok_def live_stage_def
    by (auto simp: nth_append less_Suc_eq dest!: spec)
  then show ?thesis unfolding connect ws_connect_def by (intro registry_ok_skel [OF same_skel_writeMsg]) simp
next
  case (hangup k nonce)
  then show ?thesis using ok by (auto intro!: registry_upd simp: live_stage_def)
next
  case (announce k snapshot)
  let ?u = "broadcastExcept j (pi_NodeID (cn_info (sv_conns s ! k))) (MPresenceJoin (cn_info (sv_conns s ! k)))
         (writeMsg j k (MPresenceSnapshot snapshot) s)"
  have ss: "same_skel s ?u" by (rule same_skel_trans [OF same_skel_writeMsg same_skel_broadcast])
  have st: "cn_stage (sv_conns ?u ! k) = HAdded snapshot" "k < length (sv_conns ?u)"
    using same_skel_nth [OF ss announce(2), THEN arg_cong [where f = cn_stage]] same_skel_length [OF ss] announce by simp_all
  show ?thesis unfolding announce ws_announce_def
    by (rule registry_upd [OF registry_ok_skel [OF ss ok] st(2)]) (simp_all add: st live_stage_def)
next
  case (leave k)
  let ?u = "broadcastExcept j (pi_NodeID (cn_info (sv_conns s ! k))) (MPresenceLeave (pi_NodeID (cn_info (sv_conns s ! k)))) s"
  have ss: "same_skel s ?u" by (rule same_skel_broadcast)
  have st: "cn_stage (sv_conns ?u ! k) = HRemoved" "k < length (sv_conns ?u)"
    using same_skel_nth [OF ss leave(2), THEN arg_cong [where f = cn_stage]] same_skel_length [OF ss] leave by simp_all
  show ?thesis unfolding leave ws_leave_def
    by (rule registry_upd [OF registry_ok_skel [OF ss ok] st(2)]) (simp_all add: st live_stage_def)
next
  case (exit k)
  then show ?thesis using registry_exit [OF ok] by simp
next
  case (read k raw)
  then show ?thesis using registry_ok_skel [OF same_skel_read ok] by simp
next
  case (drain k)
  then show ?thesis using registry_ok_skel [OF same_skel_write ok] by simp
next
  case (register k nonce raw)
  then show ?thesis using registry_register [OF ok] by simp
qed

section \<open>Relays\<close>

definition genuine :: "sjson \<Rightarrow> Server \<Rightarrow> Relay \<Rightarrow> bool" where
  \<comment> \<open>the relay was read from a connection that registered as its \<open>From\<close>\<close>
  "genuine j s rel \<longleftrightarrow>
     (\<exists>k < length (sv_conns s). \<exists>reg nonce raw t rel0. cn_proof (sv_conns s ! k) = Some (reg, nonce) \<and>
        raw \<in> set (cn_in (sv_conns s ! k)) \<and> sig_Unmarshal j raw = Inr (t, MRelay rel0) \<and> rel = rel0\<lparr>rl_From := rg_NodeID reg\<rparr>)"

definition relay_ok :: "sjson \<Rightarrow> Server \<Rightarrow> bytes \<Rightarrow> bool" where
  "relay_ok j s raw \<longleftrightarrow> (\<forall>t rel. sig_Unmarshal j raw = Inr (t, MRelay rel) \<longrightarrow> genuine j s rel)"

definition mail :: "conn \<Rightarrow> bytes set" where
  "mail cn = set (cn_send cn) \<union> set (cn_out cn)"

definition mail_ok :: "sjson \<Rightarrow> Server \<Rightarrow> bool" where
  "mail_ok j s \<longleftrightarrow> (\<forall>k < length (sv_conns s). \<forall>raw \<in> mail (sv_conns s ! k). relay_ok j s raw)"

definition keeps :: "conn \<Rightarrow> conn \<Rightarrow> bool" where
  "keeps cn cn' \<longleftrightarrow> (\<forall>p. cn_proof cn = Some p \<longrightarrow> cn_proof cn' = Some p) \<and> set (cn_in cn) \<subseteq> set (cn_in cn')"

definition grows :: "Server \<Rightarrow> Server \<Rightarrow> bool" where
  "grows s t \<longleftrightarrow> length (sv_conns s) \<le> length (sv_conns t) \<and>
     (\<forall>k < length (sv_conns s). keeps (sv_conns s ! k) (sv_conns t ! k))"

lemma relay_ok_mono: "grows s t \<Longrightarrow> relay_ok j s raw \<Longrightarrow> relay_ok j t raw"
  unfolding relay_ok_def genuine_def grows_def keeps_def by (meson less_le_trans subsetD)

lemma keeps_refl [simp]: "keeps cn cn"
  by (simp add: keeps_def)

lemma grows_upd: "keeps (sv_conns s ! k) (f (sv_conns s ! k)) \<Longrightarrow> grows s (upd_conn k f s)"
  by (auto simp: grows_def nth_upd_conn)

lemma mail_ok_upd:
  assumes "mail_ok j s" and "keeps (sv_conns s ! k) (f (sv_conns s ! k))"
    and "\<forall>raw \<in> mail (f (sv_conns s ! k)). raw \<in> mail (sv_conns s ! k) \<or> relay_ok j (upd_conn k f s) raw"
  shows "mail_ok j (upd_conn k f s)"
  using assms relay_ok_mono [OF grows_upd [of s k f]] unfolding mail_ok_def by (auto simp: nth_upd_conn)

lemma relay_ok_marshal:
  assumes "json_ok j" and "sig_Marshal j m = Inr b" and "\<forall>rel. m = MRelay rel \<longrightarrow> genuine j s rel"
  shows "relay_ok j s b"
  using sig_roundtrip [OF assms(1,2)] assms(3) by (auto simp: relay_ok_def)

lemma mail_try_send: "mail (try_send b cn) \<subseteq> insert b (mail cn)"
  by (auto simp: mail_def try_send_def)

lemma keeps_try_send [simp]: "keeps cn (try_send b cn)"
  by (auto simp: keeps_def try_send_def)

lemma mail_ok_try_send:
  assumes "mail_ok j s" and "relay_ok j s b"
  shows "mail_ok j (upd_conn k (try_send b) s) \<and> grows s (upd_conn k (try_send b) s)"
  using mail_ok_upd [OF assms(1), of k "try_send b"] mail_try_send [of b "sv_conns s ! k"]
    relay_ok_mono [OF grows_upd [of s k "try_send b"] assms(2)] grows_upd [of s k "try_send b"] by auto

lemma grows_trans: "grows s t \<Longrightarrow> grows t u \<Longrightarrow> grows s u"
  unfolding grows_def keeps_def by (meson le_trans less_le_trans subset_trans)

lemma grows_refl [simp]: "grows s s"
  by (simp add: grows_def)

lemma mail_ok_broadcast_fold:
  assumes "mail_ok j s" and "relay_ok j s b"
  shows "mail_ok j (fold (\<lambda>(n, k) s. if n = x then s else upd_conn k (try_send b) s) ps s)"
  using assms
proof (induction ps arbitrary: s)
  case (Cons p ps)
  obtain n k where p: "p = (n, k)" by fastforce
  have "mail_ok j (upd_conn k (try_send b) s)" "relay_ok j (upd_conn k (try_send b) s) b"
    using mail_ok_try_send [OF Cons.prems, of k] relay_ok_mono [OF _ Cons.prems(2)] by auto
  then show ?case using Cons.IH [of s] Cons.IH [of "upd_conn k (try_send b) s"] Cons.prems p by simp
qed simp

lemma mail_ok_broadcast:
  assumes "json_ok j" and "mail_ok j s" and "\<forall>rel. m \<noteq> MRelay rel"
  shows "mail_ok j (broadcastExcept j x m s)"
proof (cases "sig_Marshal j m")
  case (Inr b)
  then have "relay_ok j s b" using relay_ok_marshal [OF assms(1)] assms(3) by blast
  then show ?thesis using mail_ok_broadcast_fold [OF assms(2)] Inr by (simp add: broadcastExcept_def)
qed (simp add: broadcastExcept_def assms(2))

lemma mail_ok_writeMsg:
  assumes "json_ok j" and "mail_ok j s" and "\<forall>rel. m \<noteq> MRelay rel"
  shows "mail_ok j (writeMsg j k m s)"
proof (cases "sig_Marshal j m")
  case (Inr b)
  then have "relay_ok j t b" for t using relay_ok_marshal [OF assms(1)] assms(3) by blast
  then show ?thesis using Inr by (auto simp: writeMsg_def keeps_def mail_def intro!: mail_ok_upd [OF assms(2)])
qed (simp add: writeMsg_def assms(2))

lemma mail_ok_stage: "mail_ok j s \<Longrightarrow> mail_ok j (upd_conn k (\<lambda>cn. cn\<lparr>cn_stage := st\<rparr>) s)"
  "mail_ok j s \<Longrightarrow> mail_ok j (upd_conn k (\<lambda>cn. cn\<lparr>cn_stage := st, cn_closed := cl\<rparr>) s)"
  "mail_ok j s \<Longrightarrow> mail_ok j (upd_conn k (\<lambda>cn. cn\<lparr>cn_closed := cl\<rparr>) s)"
  by (auto simp: keeps_def mail_def intro!: mail_ok_upd)

lemma mail_ok_clients [simp]: "mail_ok j (s\<lparr>sv_clients := cl\<rparr>) = mail_ok j s"
  by (simp add: mail_ok_def relay_ok_def genuine_def)

lemma mail_ok_route:
  assumes "json_ok j" and "mail_ok j s" and "genuine j s rel"
  shows "mail_ok j (routeRelay j rel s)"
proof (cases "sig_Marshal j (MRelay rel)")
  case (Inr b)
  then have "relay_ok j s b" using relay_ok_marshal [OF assms(1)] assms(3) by blast
  then show ?thesis using mail_ok_try_send [OF assms(2)] Inr assms(2) by (simp add: routeRelay_def split: option.split)
qed (simp add: routeRelay_def assms(2))

lemma mail_ok_read:
  assumes "json_ok j" and "mail_ok j s" and "registry_ok c s" and "k < length (sv_conns s)" and "cn_stage (sv_conns s ! k) = HServing"
  shows "mail_ok j (ws_read j k raw s)"
proof -
  let ?u = "upd_conn k (\<lambda>cn. cn\<lparr>cn_in := cn_in cn @ [raw]\<rparr>) s"
  have u: "mail_ok j ?u" by (rule mail_ok_upd [OF assms(2)]) (auto simp: keeps_def mail_def)
  obtain reg nonce where p: "cn_proof (sv_conns s ! k) = Some (reg, nonce)"
    using registryD(3) [OF assms(3,4)] assms(5) by auto
  then have n: "pi_NodeID (cn_info (sv_conns ?u ! k)) = rg_NodeID reg"
    using registryD(2) [OF assms(3,4) p] assms(4) by (simp add: nth_upd_conn)
  have "genuine j ?u (rel\<lparr>rl_From := rg_NodeID reg\<rparr>)" if "sig_Unmarshal j raw = Inr (t, MRelay rel)" for t rel
    unfolding genuine_def using that p assms(4) by (intro exI [of _ k]) (fastforce simp: nth_upd_conn)
  then show ?thesis using u mail_ok_route [OF assms(1) u]
    by (simp add: ws_read_def Let_def n split: sum.split prod.split SigMsg.split)
qed

lemma mail_ok_register:
  assumes "json_ok j" and ok: "mail_ok j s" and reg: "registry_ok c s" and k: "k < length (sv_conns s)"
    and st: "cn_stage (sv_conns s ! k) = HChallenged nonce"
  shows "mail_ok j (ws_register j c k nonce raw s)"
proof -
  have np: "cn_proof (sv_conns s ! k) = None" using registryD(4) [OF reg k st] .
  have bad: "mail_ok j (upd_conn k (\<lambda>cn. cn\<lparr>cn_stage := HDone\<rparr>) (writeMsg j k (MError e) s))" for e
    by (intro mail_ok_stage mail_ok_writeMsg assms) simp
  have enter: "mail_ok j (upd_conn k (\<lambda>cn. cn\<lparr>cn_stage := HAdded sn\<rparr>) u)"
    if "Server_add k (upd_conn k (\<lambda>cn. cn\<lparr>cn_info := i, cn_proof := p\<rparr>) s) = (sn, u)" for i p sn u
  proof -
    have "mail_ok j (upd_conn k (\<lambda>cn. cn\<lparr>cn_info := i, cn_proof := p\<rparr>) s)"
      by (rule mail_ok_upd [OF ok]) (auto simp: keeps_def mail_def np)
    then have "mail_ok j u"
      using that mail_ok_stage(3) by (auto simp: Server_add_def Let_def split: option.splits)
    then show ?thesis by (rule mail_ok_stage)
  qed
  show ?thesis unfolding ws_register_def
    by (auto simp: Let_def bad split: sum.split prod.split SigMsg.split intro!: enter)
qed

lemma mail_step:
  assumes "sig_step j c s t" and j: "json_ok j" and ok: "mail_ok j s" and reg: "registry_ok c s"
  shows "mail_ok j t"
  using assms(1)
proof cases
  case (connect nonce)
  have "mail_ok j (s\<lparr>sv_conns := sv_conns s @ [cn]\<rparr>)" if "mail cn = {}" for cn
  proof -
    have "grows s (s\<lparr>sv_conns := sv_conns s @ [cn]\<rparr>)" by (simp add: grows_def nth_append)
    from relay_ok_mono [OF this] show ?thesis
      using ok that unfolding mail_ok_def by (auto simp: nth_append less_Suc_eq)
  qed
  then show ?thesis unfolding connect ws_connect_def
    by (intro mail_ok_writeMsg j) (simp_all add: mail_def)
next
  case (register k nonce raw)
  then show ?thesis using mail_ok_register [OF j ok reg] by simp
next
  case (read k raw)
  then show ?thesis using mail_ok_read [OF j ok reg] by simp
next
  case (exit k)
  have "mail_ok j (snd (Server_remove k s))" using ok by (simp add: Server_remove_def Let_def)
  then show ?thesis unfolding exit ws_exit_def by (auto intro: mail_ok_stage split: prod.split)
next
  case (drain k)
  show ?thesis unfolding drain ws_write_def
    by (rule mail_ok_upd [OF ok]) (auto simp: keeps_def mail_def split: list.splits)
qed (auto simp: ws_announce_def ws_leave_def intro!: mail_ok_stage mail_ok_broadcast mail_ok_writeMsg j ok)

lemma server_reachable:
  assumes "(sig_step j c)\<^sup>*\<^sup>* Server_New s"
  shows "registry_ok c s" and "json_ok j \<Longrightarrow> mail_ok j s"
proof -
  have "registry_ok c s \<and> (json_ok j \<longrightarrow> mail_ok j s)"
    using assms
  proof (induction rule: rtranclp_induct)
    case base
    then show ?case by (simp add: Server_New_def registry_ok_def mail_ok_def)
  next
    case (step s t)
    then show ?case using registry_step mail_step by blast
  qed
  then show "registry_ok c s" and "json_ok j \<Longrightarrow> mail_ok j s" by blast+
qed



section \<open>Presence\<close>

interpretation presence: register
  "\<lambda>n p. cl_peers_update (AList.update n p)" "\<lambda>n. cl_peers_update (AList.delete n)" "\<lambda>c. map_of (cl_peers c)"
  by unfold_locales auto

definition about :: "string \<Rightarrow> SigMsg \<Rightarrow> bool" where
  "about n m \<longleftrightarrow> (case m of MPresenceJoin p \<Rightarrow> pi_NodeID p = n | MPresenceLeave n' \<Rightarrow> n' = n | _ \<Rightarrow> False)"

definition presence_op :: "SigMsg \<Rightarrow> (string, PeerInfo) reg_op option" where
  "presence_op m = (case m of MPresenceJoin p \<Rightarrow> Some (RegPut (pi_NodeID p) p) | MPresenceLeave n \<Rightarrow> Some (RegDel n) | _ \<Rightarrow> None)"

lemma client_read_peers:
  assumes "json_ok j" and "sig_Marshal j m = Inr raw"
  shows "map_of (cl_peers (client_read j raw c)) n =
         (case presence_op m of None \<Rightarrow> map_of (cl_peers c) n | Some op \<Rightarrow> reg_effect n op (map_of (cl_peers c) n))"
  using sig_roundtrip [OF assms] by (cases m) (auto simp: client_read_def presence_op_def)

lemma client_runs_register:
  assumes "json_ok j" and "list_all2 (\<lambda>m raw. sig_Marshal j m = Inr raw) ms raws"
  shows "map_of (cl_peers (fold (client_read j) raws c)) n =
         map_of (cl_peers (fold (case_reg_op (\<lambda>n p. cl_peers_update (AList.update n p)) (\<lambda>n. cl_peers_update (AList.delete n)))
           (List.map_filter presence_op ms) c)) n"
  unfolding presence.get_run using assms(2)
proof (induction ms arbitrary: raws c)
  case Nil
  then show ?case by (simp add: List.map_filter_def)
next
  case (Cons m ms)
  then obtain raw rs where "raws = raw # rs" "sig_Marshal j m = Inr raw" "list_all2 (\<lambda>m raw. sig_Marshal j m = Inr raw) ms rs"
    by (auto simp: list_all2_Cons1)
  then show ?case using Cons.IH [of rs "client_read j raw c"] client_read_peers [OF assms(1), of m raw c n]
    by (simp add: List.map_filter_simps split: option.split)
qed

lemma untouched_ops:
  "\<forall>m \<in> set ms. \<not> about n m \<Longrightarrow> \<forall>op \<in> set (List.map_filter presence_op ms). op \<noteq> RegDel n \<and> (\<forall>v. op \<noteq> RegPut n v)"
  by (auto simp: List.map_filter_def presence_op_def about_def split: SigMsg.splits)

text \<open>
  A Node's view of who is online: whatever it was told before, the last presence message about a peer
  decides, and messages about other peers, relays and malformed input do not change it.
\<close>
theorem client_presence_last_wins:
  assumes "json_ok j" and "list_all2 (\<lambda>m raw. sig_Marshal j m = Inr raw) (earlier @ m # later) raws"
    and "about n m" and "\<forall>m' \<in> set later. \<not> about n m'"
  shows "map_of (cl_peers (fold (client_read j) raws c)) n = (case m of MPresenceJoin p \<Rightarrow> Some p | _ \<Rightarrow> None)"
proof -
  note u = untouched_ops [OF assms(4)]
  have f: "List.map_filter presence_op (earlier @ m # later) =
      List.map_filter presence_op earlier @ (case presence_op m of None \<Rightarrow> [] | Some op \<Rightarrow> [op]) @ List.map_filter presence_op later"
    by (simp add: List.map_filter_def split: option.split)
  show ?thesis
    unfolding client_runs_register [OF assms(1,2)] f
    using assms(3) presence.last_write_wins [OF u] presence.last_delete_wins [OF u]
    by (cases m) (auto simp: about_def presence_op_def)
qed

section \<open>Executions\<close>

datatype sig_ev = SvConnect bytes | SvRegister nat bytes | SvAnnounce nat | SvRead nat bytes | SvExit nat | SvLeave nat | SvDrain nat

definition sig_do :: "sjson \<Rightarrow> crypto \<Rightarrow> sig_ev \<Rightarrow> Server \<Rightarrow> Server option" where
  "sig_do j c ev s =
     (let stg = (\<lambda>k. if k < length (sv_conns s) then Some (cn_stage (sv_conns s ! k)) else None)
      in case ev of
           SvConnect nonce \<Rightarrow> Some (ws_connect j nonce s)
         | SvRegister k raw \<Rightarrow> (case stg k of Some (HChallenged nonce) \<Rightarrow> Some (ws_register j c k nonce raw s) | _ \<Rightarrow> None)
         | SvAnnounce k \<Rightarrow> (case stg k of Some (HAdded sn) \<Rightarrow> Some (ws_announce j k sn s) | _ \<Rightarrow> None)
         | SvRead k raw \<Rightarrow> if stg k = Some HServing \<and> \<not> cn_closed (sv_conns s ! k) then Some (ws_read j k raw s) else None
         | SvExit k \<Rightarrow> if stg k = Some HServing then Some (ws_exit k s) else None
         | SvLeave k \<Rightarrow> if stg k = Some HRemoved then Some (ws_leave j k s) else None
         | SvDrain k \<Rightarrow> if stg k = Some HServing then Some (ws_write k s) else None)"

fun sig_run :: "sjson \<Rightarrow> crypto \<Rightarrow> sig_ev list \<Rightarrow> Server \<Rightarrow> Server option" where
  "sig_run j c [] s = Some s"
| "sig_run j c (ev # evs) s = (case sig_do j c ev s of None \<Rightarrow> None | Some t \<Rightarrow> sig_run j c evs t)"

lemma sig_do_step: "sig_do j c ev s = Some t \<Longrightarrow> sig_step j c s t"
  by (cases ev) (auto simp: sig_do_def Let_def intro: sig_step.intros split: if_splits hstage.splits)

lemma sig_run_reachable: "sig_run j c evs s = Some t \<Longrightarrow> (sig_step j c)\<^sup>*\<^sup>* s t"
proof (induction evs arbitrary: s)
  case (Cons ev evs)
  then show ?case by (auto split: option.splits intro: converse_rtranclp_into_rtranclp sig_do_step)
qed simp

definition table_json :: "SigMsg list \<Rightarrow> sjson" where
  \<comment> \<open>a JSON stand-in for the messages of a table: a message is its index\<close>
  "table_json ms =
     \<lparr>sj_marshal = (\<lambda>m. if m \<in> set ms then Inr [of_nat (length (takeWhile (\<lambda>x. x \<noteq> m) ms))] else Inl (ErrText ''unsupported'')),
      sj_envelope = (\<lambda>t data. case data of [i] \<Rightarrow> if unat i < length ms \<and> type_tag (msg_type (ms ! unat i)) = t then Inr [i] else Inl (ErrText ''bad'')
                       | _ \<Rightarrow> Inl (ErrText ''bad'')),
      sj_unenvelope = (\<lambda>raw. case raw of [i] \<Rightarrow> if unat i < length ms then Inr (type_tag (msg_type (ms ! unat i)), [i]) else Inl (ErrText ''bad'')
                       | _ \<Rightarrow> Inl (ErrText ''bad'')),
      sj_unmarshal = (\<lambda>t data. case data of [i] \<Rightarrow> if unat i < length ms then Inr (ms ! unat i) else Inl (ErrText ''bad'')
                       | _ \<Rightarrow> Inl (ErrText ''bad''))\<rparr>"

lemma takeWhile_find: "m \<in> set ms \<Longrightarrow> length (takeWhile (\<lambda>x. x \<noteq> m) ms) < length ms \<and> ms ! length (takeWhile (\<lambda>x. x \<noteq> m) ms) = m"
  by (induction ms) auto

lemma json_ok_table: "length ms \<le> 256 \<Longrightarrow> json_ok (table_json ms)"
proof -
  assume l: "length ms \<le> 256"
  have "unat (of_nat (length (takeWhile (\<lambda>x. x \<noteq> m) ms)) :: byte) = length (takeWhile (\<lambda>x. x \<noteq> m) ms)" if "m \<in> set ms" for m
    using takeWhile_find [OF that] l by (simp add: unat_of_nat)
  then show ?thesis
    by (auto simp: json_ok_def table_json_def takeWhile_find [THEN conjunct1] takeWhile_find [THEN conjunct2]
        split: list.splits if_splits)
qed

definition race_crypto :: crypto where
  "race_crypto = example_crypto\<lparr>c_sha256 := take 1, c_Verify := (\<lambda>k m sig. sig = k)\<rparr>"

definition race_key :: "byte \<Rightarrow> bytes" where
  "race_key b = replicate 32 b"

definition race_info :: "byte \<Rightarrow> PeerInfo" where
  "race_info b = \<lparr>pi_NodeID = if b = 10 then ''bi'' else ''cq'', pi_PublicKey = race_key b, pi_DisplayName = ''n''\<rparr>"

definition race_reg :: "byte \<Rightarrow> SigMsg" where
  "race_reg b = MRegister \<lparr>rg_NodeID = pi_NodeID (race_info b), rg_PublicKey = race_key b, rg_DisplayName = ''n'', rg_Signature = race_key b\<rparr>"

definition race_msgs :: "SigMsg list" where
  "race_msgs = [MChallenge [1], race_reg 10, race_reg 20, MPresenceSnapshot [], MPresenceSnapshot [race_info 10],
     MPresenceSnapshot [race_info 20], MPresenceJoin (race_info 10), MPresenceJoin (race_info 20),
     MPresenceLeave (pi_NodeID (race_info 10)), MRelay \<lparr>rl_From = '''', rl_To = pi_NodeID (race_info 20), rl_Payload = [5]\<rparr>,
     MRelay \<lparr>rl_From = pi_NodeID (race_info 10), rl_To = pi_NodeID (race_info 20), rl_Payload = [5]\<rparr>]"

definition race_json :: sjson where "race_json = table_json race_msgs"

definition race_events :: "sig_ev list" where
  \<comment> \<open>node 10 (connection 0) and node 20 (connection 1) are online; 10's connection breaks and the handler of
     connection 0 has removed it; 10 reconnects (connection 2) and is announced; only then is 0's leave broadcast\<close>
  "race_events = [SvConnect [1], SvRegister 0 [1], SvAnnounce 0, SvConnect [1], SvRegister 1 [2], SvAnnounce 1,
     SvExit 0, SvConnect [1], SvRegister 2 [1], SvAnnounce 2, SvLeave 0, SvDrain 1, SvDrain 1, SvDrain 1, SvRead 2 [9], SvDrain 1]"

definition race_end :: Server where
  "race_end = the (sig_run race_json race_crypto race_events Server_New)"

definition viewer_of :: "sjson \<Rightarrow> crypto \<Rightarrow> bytes list \<Rightarrow> SigClient option" where
  \<comment> \<open>the client at the other end of a connection, after everything written to it\<close>
  "viewer_of j c out =
     (case out of raw1 # raw2 # rest \<Rightarrow>
        (case sig_Dial j c example_self ''n'' (Inr raw1) (\<lambda>_. None) (Inr raw2) of
           (Inr cl, _) \<Rightarrow> Some (fold (client_read j) rest cl) | _ \<Rightarrow> None)
      | _ \<Rightarrow> None)"

definition race_report :: "Server \<Rightarrow> nat option \<times> conn \<times> bool \<times> PeerInfo option option \<times> bool" where
  "race_report s =
     (map_of (sv_clients s) (pi_NodeID (race_info 10)), skel (sv_conns s ! 2),
      list_all (\<lambda>cn. cn_send cn = []) (drop 1 (sv_conns s)),
      map_option (\<lambda>v. map_of (cl_peers v) (pi_NodeID (race_info 10))) (viewer_of race_json race_crypto (cn_out (sv_conns s ! 1))),
      1 < length (sv_conns s) \<and> [10] \<in> set (cn_out (sv_conns s ! 1)))"

lemma race_result:
  "map_option (\<lambda>s. case race_report s of (k, cn, d, v, m) \<Rightarrow> (k, cn_stage cn, cn_closed cn, d, v, m))
     (sig_run race_json race_crypto race_events Server_New) = Some (Some 2, HServing, False, True, Some None, True)"
  by code_simp

lemma race_run: "sig_run race_json race_crypto race_events Server_New = Some race_end"
  using race_result by (auto simp: race_end_def)

lemma race_facts:
  "map_of (sv_clients race_end) (pi_NodeID (race_info 10)) = Some 2"
  "cn_stage (sv_conns race_end ! 2) = HServing" "\<not> cn_closed (sv_conns race_end ! 2)"
  "list_all (\<lambda>cn. cn_send cn = []) (drop 1 (sv_conns race_end))"
  "map_option (\<lambda>v. map_of (cl_peers v) (pi_NodeID (race_info 10))) (viewer_of race_json race_crypto (cn_out (sv_conns race_end ! 1))) = Some None"
  "1 < length (sv_conns race_end)" "[10] \<in> set (cn_out (sv_conns race_end ! 1))"
  using race_result by (simp_all add: race_run race_report_def)

text \<open>
  Presence can go wrong: there is an execution of the server at whose end a Node is registered with an
  open connection in its read loop, every message has been delivered, and yet another Node, which
  was told everything, does not list it, because the leave of the Node's old connection is
  broadcast after the join of its new one.
\<close>
theorem presence_race:
  "(sig_step race_json race_crypto)\<^sup>*\<^sup>* Server_New race_end \<and>
   map_of (sv_clients race_end) (pi_NodeID (race_info 10)) = Some 2 \<and>
   cn_stage (sv_conns race_end ! 2) = HServing \<and> \<not> cn_closed (sv_conns race_end ! 2) \<and>
   list_all (\<lambda>cn. cn_send cn = []) (drop 1 (sv_conns race_end)) \<and>
   map_option (\<lambda>v. map_of (cl_peers v) (pi_NodeID (race_info 10))) (viewer_of race_json race_crypto (cn_out (sv_conns race_end ! 1))) = Some None"
  using sig_run_reachable [OF race_run] race_facts(1-5) by blast

section \<open>Witnesses\<close>

lemma race_json_ok: "json_ok race_json"
  unfolding race_json_def by (rule json_ok_table) (simp add: race_msgs_def)



theorem client_presence_last_wins_witness:
  "map_of (cl_peers (fold (client_read race_json) [[6], [8], [7]] \<lparr>cl_peers = [], cl_relays = [], cl_changes = 0\<rparr>)) (pi_NodeID (race_info 10)) = None"
proof -
  have "list_all2 (\<lambda>m raw. sig_Marshal race_json m = Inr raw)
      ([MPresenceJoin (race_info 10)] @ MPresenceLeave (pi_NodeID (race_info 10)) # [MPresenceJoin (race_info 20)]) [[6], [8], [7]]"
    "\<forall>m' \<in> set [MPresenceJoin (race_info 20)]. \<not> about (pi_NodeID (race_info 10)) m'"
    by code_simp+
  from client_presence_last_wins [OF race_json_ok this(1) _ this(2)] show ?thesis by (simp add: about_def)
qed

end
