(* ===== verification/Library.thy ===== *)
theory Library
  imports Swarm_Integrity Peer_Wire
begin

text \<open>
  The Library index of \<open>internal/library\<close>: Titles and their assembly from a probe
  (\<open>metadata.go\<close>), the SQLite table behind its four queries (\<open>store.go\<close>), Content IDs (\<open>hash.go\<close>)
  and the scanner (\<open>scanner.go\<close>).

  The table is the list of its rows in insertion order, one per \<open>content_id\<close>; a query without
  \<open>ORDER BY\<close> answers in that order. What the scanner reads from outside is the parameter \<open>env\<close>:
  file contents, the prober, directory listings, the thumbnailer's success and the clock.
\<close>

section \<open>Titles: \<open>metadata.go\<close>, \<open>probe.go\<close>\<close>

record LibSubtitle =
  su_ID :: string
  su_Language :: string
  su_Label :: string
  su_Kind :: string
  su_Source :: string
  su_Index :: int

record Title =
  ti_ContentID :: string
  ti_Path :: string
  ti_DisplayTitle :: string
  ti_Size :: int
  ti_ModUnix :: int
  ti_DurationMS :: int
  ti_Container :: string
  ti_VideoCodec :: string
  ti_AudioCodecs :: "string list"
  ti_Width :: int
  ti_Height :: int
  ti_HLSCompatible :: bool
  ti_Subtitles :: "LibSubtitle list"
  ti_AddedAt :: time

record FileInfo =
  fi_Size :: int
  fi_ModUnix :: int

record VideoStream =
  vs_Codec :: string
  vs_Width :: int
  vs_Height :: int

record SubStream =
  sb_Index :: int
  sb_Codec :: string
  sb_Language :: string

record Probe =
  pr_DurationMS :: int
  pr_Container :: string
  pr_Video :: "VideoStream list"
  pr_Audio :: "string list"
  pr_Subtitles :: "SubStream list"

definition textSubCodecs :: "string list" where
  "textSubCodecs = [''subrip'', ''srt'', ''ass'', ''ssa'', ''webvtt'', ''vtt'', ''mov_text'', ''text'']"

definition sidecarExts :: "string list" where
  "sidecarExts = [''.srt'', ''.ass'', ''.vtt'', ''.ssa'']"

definition isHLSCompatible :: "Probe \<Rightarrow> bool" where
  "isHLSCompatible p =
     (if pr_Video p = [] \<or> pr_Audio p = [] then False
      else let v = ToLower (vs_Codec (hd (pr_Video p)));
               a = ToLower (hd (pr_Audio p));
               videoOK = (v = ''h264'' \<or> v = ''avc1'');
               audioOK = (a = ''aac'' \<or> a = ''mp3'')
           in videoOK \<and> audioOK)"

definition subKind :: "string \<Rightarrow> string" where
  "subKind codec = (if ToLower codec \<in> set textSubCodecs then ''text'' else ''image'')"

definition displayTitleFromPath :: "string \<Rightarrow> string" where
  "displayTitleFromPath path =
     (let base = TrimSuffix (path_Base path) (path_Ext path);
          base = map (\<lambda>c. if c = CHR ''.'' \<or> c = CHR ''_'' then CHR '' '' else c) base
      in join_with '' '' (Fields base))"

definition firstVideoWidth :: "Probe \<Rightarrow> int" where
  "firstVideoWidth p = (case pr_Video p of v # _ \<Rightarrow> vs_Width v | [] \<Rightarrow> 0)"

definition firstVideoHeight :: "Probe \<Rightarrow> int" where
  "firstVideoHeight p = (case pr_Video p of v # _ \<Rightarrow> vs_Height v | [] \<Rightarrow> 0)"

definition sidecar_track :: "string \<Rightarrow> string \<Rightarrow> string \<Rightarrow> LibSubtitle option" where
  \<comment> \<open>one directory entry of \<open>scanSidecarSubs\<close>; \<open>None\<close> is \<open>continue\<close>\<close>
  "sidecar_track dir base name =
     (let ext = ToLower (path_Ext name) in
      if ext \<notin> set sidecarExts then None
      else let stem = TrimSuffix name (path_Ext name) in
           if stem \<noteq> base \<and> \<not> HasPrefix stem (base @ ''.'') then None
           else let lang = TrimChar (CHR ''.'') (TrimPrefix stem base);
                    lang = (if lang = '''' then ''und'' else lang)
                in Some \<lparr>su_ID = ''sidecar:'' @ lang, su_Language = lang, su_Label = lang, su_Kind = ''text'',
                         su_Source = path_Join [dir, name], su_Index = -1\<rparr>)"

definition scanSidecarSubs :: "(string \<Rightarrow> string list option) \<Rightarrow> string \<Rightarrow> LibSubtitle list" where
  "scanSidecarSubs readDir videoPath =
     (let dir = path_Dir videoPath;
          base = TrimSuffix (path_Base videoPath) (path_Ext videoPath)
      in case readDir dir of None \<Rightarrow> []
         | Some entries \<Rightarrow> List.map_filter (sidecar_track dir base) entries)"

definition BuildTitle ::
  "(string \<Rightarrow> string list option) \<Rightarrow> time \<Rightarrow> string \<Rightarrow> Probe \<Rightarrow> string \<Rightarrow> FileInfo \<Rightarrow> Title" where
  "BuildTitle readDir now path p contentID fi =
     \<lparr>ti_ContentID = contentID, ti_Path = path, ti_DisplayTitle = displayTitleFromPath path,
      ti_Size = fi_Size fi, ti_ModUnix = fi_ModUnix fi, ti_DurationMS = pr_DurationMS p,
      ti_Container = pr_Container p,
      ti_VideoCodec = (case pr_Video p of v # _ \<Rightarrow> vs_Codec v | [] \<Rightarrow> ''''),
      ti_AudioCodecs = pr_Audio p, ti_Width = firstVideoWidth p, ti_Height = firstVideoHeight p,
      ti_HLSCompatible = isHLSCompatible p,
      ti_Subtitles =
        map (\<lambda>sub. \<lparr>su_ID = ''embedded:'' @ Itoa (sb_Index sub), su_Language = sb_Language sub,
                    su_Label = sb_Language sub, su_Kind = subKind (sb_Codec sub), su_Source = '''',
                    su_Index = sb_Index sub\<rparr>) (pr_Subtitles p)
        @ scanSidecarSubs readDir path,
      ti_AddedAt = now\<rparr>"

section \<open>The table: \<open>store.go\<close>\<close>

type_synonym Store = "Title list"

definition unix_seconds :: "time \<Rightarrow> time" where
  \<comment> \<open>a time stored as \<open>Unix()\<close> and read back\<close>
  "unix_seconds t = (t div second) * second"

definition Store_Upsert :: "Title \<Rightarrow> Store \<Rightarrow> Store" where
  \<comment> \<open>on conflict every column but \<open>added_unix\<close> is replaced\<close>
  "Store_Upsert t st =
     (if ti_ContentID t \<in> ti_ContentID ` set st
      then map (\<lambda>r. if ti_ContentID r = ti_ContentID t then t\<lparr>ti_AddedAt := ti_AddedAt r\<rparr> else r) st
      else st @ [t\<lparr>ti_AddedAt := unix_seconds (ti_AddedAt t)\<rparr>])"

definition Store_Get :: "string \<Rightarrow> Store \<Rightarrow> Title option" where
  "Store_Get contentID st = find (\<lambda>t. ti_ContentID t = contentID) st"

definition Store_GetByPath :: "string \<Rightarrow> Store \<Rightarrow> Title option" where
  "Store_GetByPath path st = find (\<lambda>t. ti_Path t = path) st"

definition Store_All :: "Store \<Rightarrow> Title list" where
  "Store_All st = st"

definition Store_Delete :: "string \<Rightarrow> Store \<Rightarrow> Store" where
  "Store_Delete contentID st = filter (\<lambda>t. ti_ContentID t \<noteq> contentID) st"

section \<open>The scanner: \<open>scanner.go\<close>, \<open>hash.go\<close>\<close>

definition eligibleExts :: "string list" where
  "eligibleExts = [''.mp4'', ''.mkv'', ''.mov'', ''.m4v'', ''.webm'', ''.avi'', ''.ts'', ''.mpg'', ''.mpeg'', ''.wmv'', ''.flv'']"

definition ThumbPath :: "string \<Rightarrow> string \<Rightarrow> string" where
  "ThumbPath cacheDir contentID = path_Join [cacheDir, contentID, ''thumb.jpg'']"

record scan_env =
  se_blake :: "bytes \<Rightarrow> bytes"
  se_file :: "string \<Rightarrow> bytes option"             \<comment> \<open>\<open>None\<close>: cannot be opened or read\<close>
  se_info :: "string \<Rightarrow> FileInfo option"          \<comment> \<open>\<open>d.Info()\<close> of the entry at a path; \<open>None\<close>: an error\<close>
  se_probe :: "string \<Rightarrow> Probe option"             \<comment> \<open>\<open>None\<close>: the prober failed\<close>
  se_readDir :: "string \<Rightarrow> string list option"
  se_thumbOK :: "string \<Rightarrow> string \<Rightarrow> int \<Rightarrow> bool"   \<comment> \<open>thumbnailer success for source, output, duration\<close>
  se_now :: time

record Scanner =
  sc_store :: Store
  sc_cacheDir :: string
  sc_thumber :: bool                       \<comment> \<open>\<open>thumber != nil\<close>\<close>
  sc_thumbs :: "string list"               \<comment> \<open>poster files present on disk\<close>
  sc_hashed :: "string list"               \<comment> \<open>paths hashed so far, in order\<close>

definition HashFile :: "(bytes \<Rightarrow> bytes) \<Rightarrow> (string \<Rightarrow> bytes option) \<Rightarrow> string \<Rightarrow> string option" where
  "HashFile blake file path = map_option (\<lambda>d. hex_EncodeToString (blake d)) (file path)"

definition ensureThumb :: "scan_env \<Rightarrow> string \<Rightarrow> string \<Rightarrow> int \<Rightarrow> int \<Rightarrow> Scanner \<Rightarrow> Scanner" where
  "ensureThumb env contentID path durationMS height sc =
     (if \<not> sc_thumber sc \<or> sc_cacheDir sc = '''' \<or> contentID = '''' \<or> height = 0 then sc
      else let out = ThumbPath (sc_cacheDir sc) contentID
           in if out \<in> set (sc_thumbs sc) then sc
              else if se_thumbOK env path out durationMS then sc\<lparr>sc_thumbs := sc_thumbs sc @ [out]\<rparr>
              else sc)"

definition index_new :: "scan_env \<Rightarrow> string \<Rightarrow> FileInfo \<Rightarrow> Scanner \<Rightarrow> Scanner" where
  \<comment> \<open>\<open>indexFile\<close> after the mtime cache missed\<close>
  "index_new env path fi sc =
     (let sc = sc\<lparr>sc_hashed := sc_hashed sc @ [path]\<rparr> in
      case HashFile (se_blake env) (se_file env) path of None \<Rightarrow> sc
      | Some contentID \<Rightarrow>
          (case se_probe env path of None \<Rightarrow> sc
           | Some probe \<Rightarrow>
               let title = BuildTitle (se_readDir env) (se_now env) path probe contentID fi;
                   sc = sc\<lparr>sc_store := Store_Upsert title (sc_store sc)\<rparr>
               in ensureThumb env (ti_ContentID title) path (ti_DurationMS title) (ti_Height title) sc))"

definition indexFile :: "scan_env \<Rightarrow> string \<Rightarrow> Scanner \<Rightarrow> Scanner" where
  "indexFile env path sc =
     (case se_info env path of None \<Rightarrow> sc
      | Some fi \<Rightarrow>
          (case Store_GetByPath path (sc_store sc) of
             Some existing \<Rightarrow>
               if ti_Size existing = fi_Size fi \<and> ti_ModUnix existing = fi_ModUnix fi
               then ensureThumb env (ti_ContentID existing) path (ti_DurationMS existing) (ti_Height existing) sc
               else index_new env path fi sc
           | None \<Rightarrow> index_new env path fi sc))"

record walk_entry =
  we_path :: string
  we_err :: bool                   \<comment> \<open>\<open>err != nil\<close>\<close>
  we_isDir :: bool

definition scan_entry :: "scan_env \<Rightarrow> walk_entry \<Rightarrow> Scanner \<Rightarrow> Scanner" where
  \<comment> \<open>the \<open>WalkDir\<close> callback; it always returns nil, so the walk never stops early\<close>
  "scan_entry env e sc =
     (if we_err e \<or> we_isDir e then sc
      else if ToLower (path_Ext (we_path e)) \<notin> set eligibleExts then sc
      else indexFile env (we_path e) sc)"

definition ScanOnce :: "scan_env \<Rightarrow> (string \<Rightarrow> walk_entry list) \<Rightarrow> string list \<Rightarrow> Scanner \<Rightarrow> Scanner" where
  \<comment> \<open>\<open>walk root\<close>: what \<open>filepath.WalkDir\<close> visits below a root, in order\<close>
  "ScanOnce env walk roots sc = fold (\<lambda>root sc. fold (scan_entry env) (walk root) sc) roots sc"

section \<open>The store as a keyed table\<close>

definition store_ok :: "Store \<Rightarrow> bool" where
  "store_ok st \<longleftrightarrow> distinct (map ti_ContentID st)"

lemma store_ok_Upsert: "store_ok st \<Longrightarrow> store_ok (Store_Upsert t st)"
proof -
  have "ti_ContentID \<circ> (\<lambda>r. if ti_ContentID r = ti_ContentID t then t\<lparr>ti_AddedAt := ti_AddedAt r\<rparr> else r) = ti_ContentID"
    by (auto simp: fun_eq_iff)
  then show "store_ok st \<Longrightarrow> ?thesis" by (auto simp: store_ok_def Store_Upsert_def)
qed

lemma find_map_upd:
  "find (\<lambda>r. ti_ContentID r = c) (map (\<lambda>r. if ti_ContentID r = ti_ContentID t then t\<lparr>ti_AddedAt := ti_AddedAt r\<rparr> else r) st) =
     (if c = ti_ContentID t then map_option (\<lambda>r. t\<lparr>ti_AddedAt := ti_AddedAt r\<rparr>) (find (\<lambda>r. ti_ContentID r = c) st)
      else find (\<lambda>r. ti_ContentID r = c) st)"
  by (induction st) auto

lemma find_append: "find P (xs @ ys) = (case find P xs of None \<Rightarrow> find P ys | Some x \<Rightarrow> Some x)"
  by (induction xs) auto

lemma find_id_None: "find (\<lambda>r. ti_ContentID r = c) st = None \<longleftrightarrow> c \<notin> ti_ContentID ` set st"
  by (auto simp: find_None_iff)

definition row_for :: "Title \<Rightarrow> Title option \<Rightarrow> Title" where
  "row_for t old = t\<lparr>ti_AddedAt := (case old of Some r \<Rightarrow> ti_AddedAt r | None \<Rightarrow> unix_seconds (ti_AddedAt t))\<rparr>"

lemma Get_Upsert:
  "Store_Get c (Store_Upsert t st) =
     (if c = ti_ContentID t then Some (row_for t (Store_Get c st)) else Store_Get c st)"
proof (cases "Store_Get (ti_ContentID t) st")
  case None
  then have "ti_ContentID t \<notin> ti_ContentID ` set st" by (simp add: Store_Get_def find_id_None)
  then show ?thesis using None
    by (auto simp: Store_Get_def Store_Upsert_def find_append row_for_def split: option.splits)
next
  case (Some r)
  then have "ti_ContentID t \<in> ti_ContentID ` set st"
    using find_id_None [of "ti_ContentID t" st] by (auto simp: Store_Get_def)
  then show ?thesis using Some by (simp add: Store_Get_def Store_Upsert_def find_map_upd row_for_def)
qed

lemma Get_Delete: "Store_Get c (Store_Delete d st) = (if c = d then None else Store_Get c st)"
  by (induction st) (auto simp: Store_Get_def Store_Delete_def)

section \<open>Scanning\<close>

lemma ensureThumb_store [simp]:
  "sc_store (ensureThumb env c p d h sc) = sc_store sc" "sc_hashed (ensureThumb env c p d h sc) = sc_hashed sc"
  by (simp_all add: ensureThumb_def Let_def)

lemma index_new_store:
  "sc_store (index_new env path fi sc) =
     (case HashFile (se_blake env) (se_file env) path of None \<Rightarrow> sc_store sc
      | Some c \<Rightarrow> (case se_probe env path of None \<Rightarrow> sc_store sc
          | Some p \<Rightarrow> Store_Upsert (BuildTitle (se_readDir env) (se_now env) path p c fi) (sc_store sc)))"
  by (simp add: index_new_def Let_def split: option.splits)

lemma index_new_hashed: "sc_hashed (index_new env path fi sc) = sc_hashed sc @ [path]"
  by (simp add: index_new_def Let_def split: option.splits)

lemma BuildTitle_simps [simp]:
  "ti_ContentID (BuildTitle rd now path p c fi) = c" "ti_Path (BuildTitle rd now path p c fi) = path"
  "ti_Size (BuildTitle rd now path p c fi) = fi_Size fi" "ti_ModUnix (BuildTitle rd now path p c fi) = fi_ModUnix fi"
  by (simp_all add: BuildTitle_def)

definition cache_true :: "scan_env \<Rightarrow> Store \<Rightarrow> bool" where
  \<comment> \<open>the rows' Content IDs are those of the files now at their paths, for the rows the mtime cache
     trusts: a file that changed has another size or modification time\<close>
  "cache_true env st \<longleftrightarrow>
     (\<forall>t \<in> set st. \<forall>fi d. se_info env (ti_Path t) = Some fi \<and> ti_Size t = fi_Size fi \<and> ti_ModUnix t = fi_ModUnix fi \<and>
        se_file env (ti_Path t) = Some d \<longrightarrow> ti_ContentID t = hex_EncodeToString (se_blake env d))"

lemma cache_true_Upsert:
  assumes "cache_true env st" and "\<forall>d. se_file env (ti_Path t) = Some d \<longrightarrow> ti_ContentID t = hex_EncodeToString (se_blake env d)"
  shows "cache_true env (Store_Upsert t st)"
  using assms by (auto simp: cache_true_def Store_Upsert_def)

lemma index_new_cache_true: "cache_true env (sc_store sc) \<Longrightarrow> cache_true env (sc_store (index_new env path fi sc))"
  by (auto simp: index_new_store HashFile_def split: option.splits intro!: cache_true_Upsert)

lemma indexFile_store:
  "indexFile env path sc = sc \<or> (\<exists>c d h. indexFile env path sc = ensureThumb env c path d h sc) \<or>
     (\<exists>fi. indexFile env path sc = index_new env path fi sc)"
  by (auto simp: indexFile_def split: option.splits)

lemma scan_entry_store:
  "sc_store (scan_entry env e sc) = sc_store sc \<or>
     (\<exists>fi. sc_store (scan_entry env e sc) = sc_store (index_new env (we_path e) fi sc))"
  using indexFile_store [of env "we_path e" sc] by (auto simp: scan_entry_def)

lemma scan_entry_inv:
  "cache_true env (sc_store sc) \<Longrightarrow> cache_true env (sc_store (scan_entry env e sc))"
  "Store_Get c (sc_store sc) \<noteq> None \<Longrightarrow> Store_Get c (sc_store (scan_entry env e sc)) \<noteq> None"
  "store_ok (sc_store sc) \<Longrightarrow> store_ok (sc_store (scan_entry env e sc))"
  using scan_entry_store [of env e sc] index_new_cache_true [of env sc "we_path e"]
  by (auto simp: index_new_store Get_Upsert store_ok_Upsert split: option.splits)

lemma scan_fold_inv:
  "cache_true env (sc_store sc) \<Longrightarrow> cache_true env (sc_store (fold (scan_entry env) es sc))"
  "Store_Get c (sc_store sc) \<noteq> None \<Longrightarrow> Store_Get c (sc_store (fold (scan_entry env) es sc)) \<noteq> None"
  "store_ok (sc_store sc) \<Longrightarrow> store_ok (sc_store (fold (scan_entry env) es sc))"
proof -
  show "cache_true env (sc_store sc) \<Longrightarrow> cache_true env (sc_store (fold (scan_entry env) es sc))"
    and "store_ok (sc_store sc) \<Longrightarrow> store_ok (sc_store (fold (scan_entry env) es sc))"
    by (induction es arbitrary: sc) (simp_all add: scan_entry_inv)
  show "Store_Get c (sc_store (fold (scan_entry env) es sc)) \<noteq> None" if "Store_Get c (sc_store sc) \<noteq> None"
    using that by (induction es arbitrary: sc) (simp, metis fold_simps(2) scan_entry_inv(2))
qed

lemma find_SomeD: "find P xs = Some x \<Longrightarrow> x \<in> set xs \<and> P x"
  by (auto simp: find_Some_iff)

lemma scan_entry_indexes:
  assumes "cache_true env (sc_store sc)" and "\<not> we_err e" "\<not> we_isDir e"
    and "ToLower (path_Ext (we_path e)) \<in> set eligibleExts" and "se_info env (we_path e) = Some fi"
    and "se_file env (we_path e) = Some d" and "se_probe env (we_path e) = Some p"
  shows "Store_Get (hex_EncodeToString (se_blake env d)) (sc_store (scan_entry env e sc)) \<noteq> None"
proof (cases "Store_GetByPath (we_path e) (sc_store sc)")
  case None
  then show ?thesis using assms by (simp add: scan_entry_def indexFile_def index_new_store HashFile_def Get_Upsert)
next
  case (Some t)
  then have t: "t \<in> set (sc_store sc)" "ti_Path t = we_path e" using find_SomeD by (fastforce simp: Store_GetByPath_def)+
  show ?thesis
  proof (cases "ti_Size t = fi_Size fi \<and> ti_ModUnix t = fi_ModUnix fi")
    case True
    have "ti_ContentID t = hex_EncodeToString (se_blake env d)" using assms(1,5,6) t True by (auto simp: cache_true_def)
    then have "Store_Get (hex_EncodeToString (se_blake env d)) (sc_store sc) \<noteq> None"
      using t(1) by (auto simp: Store_Get_def find_None_iff)
    then show ?thesis using assms Some True by (simp add: scan_entry_def indexFile_def)
  next
    case False
    then show ?thesis using assms Some
      by (auto simp: scan_entry_def indexFile_def index_new_store HashFile_def Get_Upsert)
  qed
qed

lemma scan_fold_indexes:
  assumes "cache_true env (sc_store sc)" and "e \<in> set es" and "\<not> we_err e" "\<not> we_isDir e"
    and "ToLower (path_Ext (we_path e)) \<in> set eligibleExts" and "se_info env (we_path e) = Some fi"
    and "se_file env (we_path e) = Some d" and "se_probe env (we_path e) = Some p"
  shows "Store_Get (hex_EncodeToString (se_blake env d)) (sc_store (fold (scan_entry env) es sc)) \<noteq> None"
proof -
  obtain xs ys where es: "es = xs @ e # ys" using assms(2) by (meson split_list)
  have "Store_Get (hex_EncodeToString (se_blake env d)) (sc_store (scan_entry env e (fold (scan_entry env) xs sc))) \<noteq> None"
    using assms scan_fold_inv(1) by (intro scan_entry_indexes) auto
  then show ?thesis unfolding es fold_append fold.simps comp_def by (rule scan_fold_inv(2))
qed

lemma ScanOnce_concat: "ScanOnce env walk roots sc = fold (scan_entry env) (concat (map walk roots)) sc"
  unfolding ScanOnce_def by (induction roots arbitrary: sc) auto

section \<open>Properties\<close>

text \<open>
  A scan indexes everything it can: when the mtime cache tells the truth (a file whose size and
  modification time match its row has the row's content), then after \<open>ScanOnce\<close> every eligible file
  below a root that can be read and probed has a row under the BLAKE3 of its content, Content IDs stay
  unique, and no earlier Title is lost.
\<close>
theorem scan_indexes_library:
  assumes "cache_true env (sc_store sc)" and "store_ok (sc_store sc)"
    and "rt \<in> set roots" and "e \<in> set (walk rt)" and "\<not> we_err e" and "\<not> we_isDir e"
    and "ToLower (path_Ext (we_path e)) \<in> set eligibleExts" and "se_info env (we_path e) = Some fi"
    and "se_file env (we_path e) = Some d" and "se_probe env (we_path e) = Some p"
  shows "Store_Get (hex_EncodeToString (se_blake env d)) (sc_store (ScanOnce env walk roots sc)) \<noteq> None \<and>
    store_ok (sc_store (ScanOnce env walk roots sc)) \<and>
    (\<forall>c. Store_Get c (sc_store sc) \<noteq> None \<longrightarrow> Store_Get c (sc_store (ScanOnce env walk roots sc)) \<noteq> None)"
proof -
  have "e \<in> set (concat (map walk roots))" using assms(3,4) by auto
  from scan_fold_indexes [OF assms(1) this assms(5-10)] show ?thesis
    unfolding ScanOnce_concat using scan_fold_inv(2,3) assms(2) by blast
qed

definition example_scan_env :: scan_env where
  "example_scan_env =
     \<lparr>se_blake = example_sum256, se_file = (\<lambda>p. Some [1, 2, 3]), se_info = (\<lambda>p. Some \<lparr>fi_Size = 3, fi_ModUnix = 100\<rparr>),
      se_probe = (\<lambda>p. Some \<lparr>pr_DurationMS = 1000, pr_Container = ''mov,mp4'',
        pr_Video = [\<lparr>vs_Codec = ''H264'', vs_Width = 640, vs_Height = 480\<rparr>], pr_Audio = [''aac''], pr_Subtitles = []\<rparr>),
      se_readDir = (\<lambda>d. Some [''Film.eng.srt'', ''Film.mkv'']), se_thumbOK = (\<lambda>_ _ _. True), se_now = 5000000001\<rparr>"

definition example_scanner :: Scanner where
  "example_scanner = \<lparr>sc_store = [], sc_cacheDir = ''/cache'', sc_thumber = True, sc_thumbs = [], sc_hashed = []\<rparr>"

theorem scan_indexes_library_witness:
  "Store_Get (hex_EncodeToString (example_sum256 [1, 2, 3]))
     (sc_store (ScanOnce example_scan_env
        (\<lambda>r. [\<lparr>we_path = ''/m/Film.MKV'', we_err = False, we_isDir = False\<rparr>]) [''/m''] example_scanner)) \<noteq> None"
proof -
  have ext: "ToLower (path_Ext ''/m/Film.MKV'') \<in> set eligibleExts" by code_simp
  have "cache_true example_scan_env (sc_store example_scanner)" "store_ok (sc_store example_scanner)"
    by (simp_all add: cache_true_def store_ok_def example_scanner_def)
  from scan_indexes_library [OF this, where rt = "''/m''" and roots = "[''/m'']"
      and walk = "\<lambda>r. [\<lparr>we_path = ''/m/Film.MKV'', we_err = False, we_isDir = False\<rparr>]"
      and e = "\<lparr>we_path = ''/m/Film.MKV'', we_err = False, we_isDir = False\<rparr>" and d = "[1, 2, 3]"]
  show ?thesis using ext by (simp add: example_scan_env_def)
qed

lemma find_first_append: "find P xs = Some x \<Longrightarrow> find P (xs @ ys) = Some x"
  by (simp add: find_append)

lemma find_first_map:
  assumes "find (\<lambda>t. ti_Path t = p) st = Some r" and "ti_ContentID r \<noteq> ti_ContentID t"
    and "\<forall>q \<in> set (takeWhile (\<lambda>t. ti_Path t \<noteq> p) st). ti_ContentID q \<noteq> ti_ContentID t"
  shows "find (\<lambda>t. ti_Path t = p) (map (\<lambda>r. if ti_ContentID r = ti_ContentID t then t\<lparr>ti_AddedAt := ti_AddedAt r\<rparr> else r) st) = Some r"
  using assms
proof (induction st)
  case (Cons x st)
  then show ?case by (cases "ti_Path x = p") auto
qed simp

definition stale_at :: "string \<Rightarrow> Title \<Rightarrow> string \<Rightarrow> Store \<Rightarrow> bool" where
  \<comment> \<open>the first row at the path is \<open>r\<close>, and a row for the content \<open>c\<close> may only come later\<close>
  "stale_at p r c st \<longleftrightarrow> Store_GetByPath p st = Some r \<and> ti_ContentID r \<noteq> c \<and>
     (\<forall>q \<in> set (takeWhile (\<lambda>t. ti_Path t \<noteq> p) st). ti_ContentID q \<noteq> c)"

lemma takeWhile_upd:
  assumes "\<forall>q \<in> set (takeWhile (\<lambda>t. ti_Path t \<noteq> p) st). ti_ContentID q \<noteq> ti_ContentID t"
    and "find (\<lambda>t. ti_Path t = p) st = Some r" and "ti_ContentID r \<noteq> ti_ContentID t"
  shows "takeWhile (\<lambda>t. ti_Path t \<noteq> p) (map (\<lambda>r. if ti_ContentID r = ti_ContentID t then t\<lparr>ti_AddedAt := ti_AddedAt r\<rparr> else r) st) =
    takeWhile (\<lambda>t. ti_Path t \<noteq> p) st"
  using assms
proof (induction st)
  case (Cons x st)
  then show ?case by (cases "ti_Path x = p") auto
qed simp

lemma takeWhile_found: "find (\<lambda>t. ti_Path t = p) st = Some r \<Longrightarrow>
   takeWhile (\<lambda>t. ti_Path t \<noteq> p) (st @ ys) = takeWhile (\<lambda>t. ti_Path t \<noteq> p) st"
  by (induction st) (auto split: if_splits)

lemma stale_at_Upsert:
  "stale_at p r (ti_ContentID t) st \<Longrightarrow> stale_at p r (ti_ContentID t) (Store_Upsert t st)"
  by (auto simp: stale_at_def Store_Upsert_def Store_GetByPath_def find_first_append find_first_map takeWhile_upd takeWhile_found)

text \<open>
  A file whose content changed is never settled: its old row is not deleted, so it stays in the
  Library under the old Content ID and stays the first row found for the path, and with its old size or
  modification time the mtime cache misses at every later scan: the file is hashed and probed again
  each time.
\<close>
theorem changed_file_never_settles:
  assumes "stale_at p r c (sc_store sc)" and "se_info env p = Some fi"
    and "ti_Size r \<noteq> fi_Size fi \<or> ti_ModUnix r \<noteq> fi_ModUnix fi"
    and "HashFile (se_blake env) (se_file env) p = Some c"
  shows "let sc' = (indexFile env p ^^ n) sc
         in Store_GetByPath p (sc_store sc') = Some r \<and> r \<in> set (Store_All (sc_store sc')) \<and>
            sc_hashed sc' = sc_hashed sc @ replicate n p"
proof -
  have step: "indexFile env p s = index_new env p fi s" if "stale_at p r c (sc_store s)" for s
    using that assms(2,3) by (auto simp: indexFile_def stale_at_def)
  have keep: "stale_at p r c (sc_store (index_new env p fi s))" if "stale_at p r c (sc_store s)" for s
    using that assms(4) stale_at_Upsert [of p r "BuildTitle (se_readDir env) (se_now env) p pr c fi" "sc_store s" for pr]
    by (auto simp: index_new_store split: option.splits)
  have "stale_at p r c (sc_store ((indexFile env p ^^ n) sc)) \<and>
        sc_hashed ((indexFile env p ^^ n) sc) = sc_hashed sc @ replicate n p"
  proof (induction n)
    case 0
    then show ?case using assms(1) by simp
  next
    case (Suc n)
    then show ?case using step keep by (simp add: index_new_hashed replicate_append_same [symmetric])
  qed
  then show ?thesis unfolding Let_def stale_at_def
    by (auto simp: Store_All_def Store_GetByPath_def dest!: find_SomeD)
qed

definition example_row :: Title where
  "example_row = BuildTitle (\<lambda>_. None) 0 ''/m/a.mp4'' \<lparr>pr_DurationMS = 1, pr_Container = '''', pr_Video = [], pr_Audio = [], pr_Subtitles = []\<rparr>
     ''00'' \<lparr>fi_Size = 9, fi_ModUnix = 1\<rparr>"

theorem changed_file_never_settles_witness:
  "let sc' = (indexFile example_scan_env ''/m/a.mp4'' ^^ 3) (example_scanner\<lparr>sc_store := [example_row]\<rparr>)
   in Store_GetByPath ''/m/a.mp4'' (sc_store sc') = Some example_row \<and> example_row \<in> set (Store_All (sc_store sc')) \<and>
      sc_hashed sc' = sc_hashed example_scanner @ replicate 3 ''/m/a.mp4''"
proof -
  let ?sc = "example_scanner\<lparr>sc_store := [example_row]\<rparr>"
  let ?c = "hex_EncodeToString (example_sum256 [1, 2, 3])"
  have r: "ti_ContentID example_row = ''00''" "ti_Path example_row = ''/m/a.mp4''" "ti_Size example_row = 9"
    by (simp_all add: example_row_def)
  have c: "?c \<noteq> ''00''" by code_simp
  have "stale_at ''/m/a.mp4'' example_row ?c (sc_store ?sc)"
    using c by (simp add: stale_at_def Store_GetByPath_def r)
  moreover have "se_info example_scan_env ''/m/a.mp4'' = Some \<lparr>fi_Size = 3, fi_ModUnix = 100\<rparr>"
    "HashFile (se_blake example_scan_env) (se_file example_scan_env) ''/m/a.mp4'' = Some ?c"
    by (simp_all add: example_scan_env_def HashFile_def)
  ultimately show ?thesis using changed_file_never_settles [where sc = ?sc and n = 3, of "''/m/a.mp4''" example_row ?c example_scan_env]
    by (simp add: r)
qed

end
