(* ===== verification/Catalog.thy ===== *)
theory Catalog
  imports Library
begin

text \<open>
  Access control and the browse RPCs of \<open>internal/catalog\<close>: the policy (\<open>policy.go\<close>), the pending
  access requests (\<open>requests.go\<close>), Shared-folder labels (\<open>folder.go\<close>) and the service that answers
  Viewers (\<open>service.go\<close>).

  Files are read through the parameter \<open>readFile\<close>; a database failure is the parameter \<open>dbe\<close>; the
  \<open>PartyProvider\<close> is a function from Content IDs, \<open>None\<close> when nil.
\<close>

section \<open>The policy: \<open>policy.go\<close>\<close>

record Policy =
  po_def :: string
  po_allow :: "NodeID list"
  po_block :: "NodeID list"

definition NewPolicy :: "string \<Rightarrow> Policy" where
  "NewPolicy dflt = \<lparr>po_def = dflt, po_allow = [], po_block = []\<rparr>"

definition Policy_Allowed :: "NodeID \<Rightarrow> Policy \<Rightarrow> bool" where
  "Policy_Allowed node p =
     (if node \<in> set (po_block p) then False
      else if po_def p = ''public'' then True
      else node \<in> set (po_allow p))"

definition AddAllow :: "NodeID \<Rightarrow> Policy \<Rightarrow> Policy" where
  "AddAllow node p = p\<lparr>po_allow := List.insert node (po_allow p)\<rparr>"

definition AddBlock :: "NodeID \<Rightarrow> Policy \<Rightarrow> Policy" where
  "AddBlock node p = p\<lparr>po_block := List.insert node (po_block p)\<rparr>"

section \<open>Pending requests: \<open>requests.go\<close>\<close>

type_synonym Requests = "(NodeID, string) gomap"

definition NewRequests :: Requests where "NewRequests = []"

definition Requests_Add :: "NodeID \<Rightarrow> string \<Rightarrow> Requests \<Rightarrow> Requests" where
  \<comment> \<open>the \<open>OnAdd\<close> callback fires after every call\<close>
  "Requests_Add node message r = AList.update node message r"

definition Requests_Pending :: "Requests \<Rightarrow> (NodeID \<times> string) list" where
  "Requests_Pending r = r"

definition Requests_List :: "Requests \<Rightarrow> NodeID list" where
  "Requests_List r = map fst r"

definition Requests_Take :: "NodeID \<Rightarrow> Requests \<Rightarrow> string option \<times> Requests" where
  "Requests_Take node r = (map_of r node, AList.delete node r)"

interpretation requests: register Requests_Add "\<lambda>node r. snd (Requests_Take node r)" map_of
  by unfold_locales (auto simp: Requests_Add_def Requests_Take_def)

section \<open>Shared-folder labels: \<open>folder.go\<close>\<close>

definition label_root :: "string \<Rightarrow> (string, string) gomap \<times> (string, int) gomap \<Rightarrow> (string, string) gomap \<times> (string, int) gomap" where
  "label_root rt = (\<lambda>(labels, seen).
     if map_of labels rt \<noteq> None then (labels, seen)
     else let base = path_Base (path_Clean rt);
              n = (case map_of seen base of None \<Rightarrow> 0 | Some k \<Rightarrow> k) + 1;
              seen = AList.update base n seen
          in if n = 1 then (AList.update rt base labels, seen)
             else (AList.update rt (base @ '' ('' @ Itoa n @ '')'') labels, seen))"

definition buildRootLabels :: "string list \<Rightarrow> (string, string) gomap" where
  "buildRootLabels roots = fst (fold label_root roots ([], []))"

fun folderFor :: "string \<Rightarrow> string list \<Rightarrow> (string, string) gomap \<Rightarrow> string \<times> string" where
  "folderFor path [] labels = ('''', '''')"
| "folderFor path (rt # roots) labels =
     (case path_Rel rt path of
        None \<Rightarrow> folderFor path roots labels
      | Some rel \<Rightarrow>
          if rel = ''..'' \<or> HasPrefix rel ''../'' then folderFor path roots labels
          else let dir = path_Dir rel;
                   dir = (if dir = ''.'' then '''' else dir)
               in (case map_of labels rt of None \<Rightarrow> '''' | Some l \<Rightarrow> l, dir))"

section \<open>The service: \<open>service.go\<close>\<close>

definition maxThumbBytes :: nat where "maxThumbBytes = 64 * 1024"

definition i32 :: "int \<Rightarrow> int" where
  \<comment> \<open>conversion to \<open>int32\<close>\<close>
  "i32 x = signed_take_bit 31 x"

record Service =
  sv_store :: Store
  sv_policy :: Policy
  sv_reqs :: Requests
  sv_party :: "(string \<Rightarrow> bool \<times> int) option"
  sv_cacheDir :: string
  sv_roots :: "string list"
  sv_rootLabels :: "(string, string) gomap"

definition NewService :: "Store \<Rightarrow> Policy \<Rightarrow> Requests \<Rightarrow> string \<Rightarrow> string list \<Rightarrow> Service" where
  "NewService store policy reqs cacheDir roots =
     \<lparr>sv_store = store, sv_policy = policy, sv_reqs = reqs, sv_party = None, sv_cacheDir = cacheDir,
      sv_roots = roots, sv_rootLabels = buildRootLabels roots\<rparr>"

definition SetPartyProvider :: "(string \<Rightarrow> bool \<times> int) option \<Rightarrow> Service \<Rightarrow> Service" where
  "SetPartyProvider p s = s\<lparr>sv_party := p\<rparr>"

definition toMeta :: "(string \<Rightarrow> bytes option) \<Rightarrow> Service \<Rightarrow> Title \<Rightarrow> bool \<Rightarrow> TitleMeta" where
  "toMeta readFile s t includeThumb =
     (case folderFor (ti_Path t) (sv_roots s) (sv_rootLabels s) of (rootLabel, relDir) \<Rightarrow>
        \<lparr>tm_content_id = ti_ContentID t, tm_display_title = ti_DisplayTitle t, tm_duration_ms = ti_DurationMS t,
         tm_container = ti_Container t, tm_video_codec = ti_VideoCodec t, tm_audio_codecs = ti_AudioCodecs t,
         tm_width = i32 (ti_Width t), tm_height = i32 (ti_Height t), tm_size_bytes = ti_Size t,
         tm_hls_compatible = ti_HLSCompatible t,
         tm_subtitles = map (\<lambda>sub. \<lparr>st_id = su_ID sub, st_language = su_Language sub, st_label = su_Label sub,
                                    st_kind = su_Kind sub\<rparr>) (ti_Subtitles t),
         tm_party_live = (case sv_party s of None \<Rightarrow> False | Some lp \<Rightarrow> fst (lp (ti_ContentID t))),
         tm_party_viewers = (case sv_party s of None \<Rightarrow> 0
            | Some lp \<Rightarrow> (case lp (ti_ContentID t) of (live, viewers) \<Rightarrow> if live then i32 viewers else 0)),
         tm_thumbnail =
           (if includeThumb \<and> sv_cacheDir s \<noteq> ''''
            then (case readFile (ThumbPath (sv_cacheDir s) (ti_ContentID t)) of
                    None \<Rightarrow> [] | Some b \<Rightarrow> if length b \<le> maxThumbBytes then b else [])
            else []),
         tm_rel_dir = relDir, tm_root_label = rootLabel\<rparr>)"

definition Service_Browse :: "(string \<Rightarrow> bytes option) \<Rightarrow> gerror option \<Rightarrow> NodeID \<Rightarrow> Service \<Rightarrow> gerror + TitleMeta list" where
  "Service_Browse readFile dbe remote s =
     (if \<not> Policy_Allowed remote (sv_policy s) then Inl ErrDenied
      else case dbe of Some err \<Rightarrow> Inl err
           | None \<Rightarrow> Inr (map (\<lambda>t. toMeta readFile s t True) (Store_All (sv_store s))))"

definition Service_Library :: "(string \<Rightarrow> bytes option) \<Rightarrow> gerror option \<Rightarrow> Service \<Rightarrow> gerror + TitleMeta list" where
  "Service_Library readFile dbe s =
     (case dbe of Some err \<Rightarrow> Inl err
      | None \<Rightarrow> Inr (map (\<lambda>t. toMeta readFile s t False) (Store_All (sv_store s))))"

definition Service_GetMetadata ::
  "(string \<Rightarrow> bytes option) \<Rightarrow> gerror option \<Rightarrow> NodeID \<Rightarrow> string \<Rightarrow> Service \<Rightarrow> gerror + TitleMeta" where
  "Service_GetMetadata readFile dbe remote contentID s =
     (if \<not> Policy_Allowed remote (sv_policy s) then Inl ErrDenied
      else case dbe of Some err \<Rightarrow> Inl err
           | None \<Rightarrow> (case Store_Get contentID (sv_store s) of
                        None \<Rightarrow> Inl ErrNotFound
                      | Some t \<Rightarrow> Inr (toMeta readFile s t False)))"

definition Service_LiveParties :: "gerror option \<Rightarrow> NodeID \<Rightarrow> Service \<Rightarrow> gerror + LivePartyMeta list" where
  "Service_LiveParties dbe remote s =
     (if \<not> Policy_Allowed remote (sv_policy s) then Inl ErrDenied
      else case sv_party s of None \<Rightarrow> Inr []
           | Some lp \<Rightarrow>
               (case dbe of Some err \<Rightarrow> Inl err
                | None \<Rightarrow> Inr (List.map_filter (\<lambda>t. case lp (ti_ContentID t) of (live, viewers) \<Rightarrow>
                    if live then Some \<lparr>lp_content_id = ti_ContentID t, lp_viewers = i32 viewers\<rparr> else None)
                    (Store_All (sv_store s)))))"

definition Service_RequestAccess :: "NodeID \<Rightarrow> string \<Rightarrow> Service \<Rightarrow> Service" where
  "Service_RequestAccess remote message s = s\<lparr>sv_reqs := Requests_Add remote message (sv_reqs s)\<rparr>"

definition Service_Allowed :: "NodeID \<Rightarrow> Service \<Rightarrow> bool" where
  "Service_Allowed node s = Policy_Allowed node (sv_policy s)"

definition Service_Approve :: "NodeID \<Rightarrow> Service \<Rightarrow> Service" where
  "Service_Approve node s =
     s\<lparr>sv_reqs := snd (Requests_Take node (sv_reqs s)), sv_policy := AddAllow node (sv_policy s)\<rparr>"

definition Service_Reject :: "NodeID \<Rightarrow> Service \<Rightarrow> Service" where
  "Service_Reject node s = s\<lparr>sv_reqs := snd (Requests_Take node (sv_reqs s))\<rparr>"

section \<open>Access is the owner's decision\<close>

datatype access_op = ARequest NodeID string | AApprove NodeID | AReject NodeID

primrec access_do :: "access_op \<Rightarrow> Service \<Rightarrow> Service" where
  "access_do (ARequest n m) s = Service_RequestAccess n m s"
| "access_do (AApprove n) s = Service_Approve n s"
| "access_do (AReject n) s = Service_Reject n s"

primrec request_effect :: "NodeID \<Rightarrow> access_op \<Rightarrow> string option \<Rightarrow> string option" where
  "request_effect n (ARequest k m) old = (if k = n then Some m else old)"
| "request_effect n (AApprove k) old = (if k = n then None else old)"
| "request_effect n (AReject k) old = (if k = n then None else old)"

lemma access_do_policy:
  "Policy_Allowed n (sv_policy (access_do op s)) \<longleftrightarrow>
     Policy_Allowed n (sv_policy s) \<or> (op = AApprove n \<and> n \<notin> set (po_block (sv_policy s)))"
  by (cases op) (auto simp: Service_RequestAccess_def Service_Approve_def Service_Reject_def Policy_Allowed_def AddAllow_def)

lemma access_do_block: "po_block (sv_policy (access_do op s)) = po_block (sv_policy s)"
  by (cases op) (simp_all add: Service_RequestAccess_def Service_Approve_def Service_Reject_def AddAllow_def)

lemma access_run_policy:
  "Policy_Allowed n (sv_policy (fold access_do ops s)) \<longleftrightarrow>
     Policy_Allowed n (sv_policy s) \<or> (AApprove n \<in> set ops \<and> n \<notin> set (po_block (sv_policy s)))"
  by (induction ops arbitrary: s) (auto simp: access_do_policy access_do_block)

lemma access_run_requests:
  "map_of (sv_reqs (fold access_do ops s)) n = fold (request_effect n) ops (map_of (sv_reqs s) n)"
proof (induction ops arbitrary: s)
  case (Cons op ops)
  show ?case
    by (cases op) (auto simp: Cons.IH Service_RequestAccess_def Service_Approve_def Service_Reject_def
        requests.get_put requests.get_del)
qed simp

text \<open>
  C6. Access is granted by the owner alone: after any sequence of access requests, approvals and
  rejections, every catalog RPC answers a remote Node with \<open>ErrDenied\<close> unless it is not blocked and was
  allowed at the start or approved in the sequence; requests and rejections never open the catalog, and
  the pending message of a Node is that of its last request not yet decided.
\<close>
theorem catalog_access_control:
  "let s' = fold access_do ops s;
       ok = (Policy_Allowed n (sv_policy s) \<or> (AApprove n \<in> set ops \<and> n \<notin> set (po_block (sv_policy s))))
   in Service_Browse rf None n s' = (if ok then Inr (map (\<lambda>t. toMeta rf s' t True) (sv_store s)) else Inl ErrDenied) \<and>
      (Service_GetMetadata rf None n cid s' = Inl ErrDenied \<longleftrightarrow> \<not> ok) \<and>
      (Service_LiveParties None n s' = Inl ErrDenied \<longleftrightarrow> \<not> ok) \<and>
      map_of (sv_reqs s') n = fold (request_effect n) ops (map_of (sv_reqs s) n)"
proof -
  have st: "sv_store (fold access_do ops s) = sv_store s"
  proof (induction ops arbitrary: s)
    case (Cons op ops)
    then show ?case by (cases op) (simp_all add: Service_RequestAccess_def Service_Approve_def Service_Reject_def)
  qed simp
  show ?thesis unfolding Let_def access_run_policy [symmetric] access_run_requests [symmetric]
    by (simp add: Service_Browse_def Service_GetMetadata_def Service_LiveParties_def st Store_All_def split: option.splits)
qed

section \<open>Folders\<close>

definition plain :: "string \<Rightarrow> bool" where
  \<comment> \<open>an ordinary path element\<close>
  "plain c \<longleftrightarrow> c \<noteq> '''' \<and> c \<noteq> ''.'' \<and> c \<noteq> ''..'' \<and> slash \<notin> set c"

lemma join_slash: "join_with ''/'' = join_with [slash]"
  by (simp add: slash_def)

lemma clean_fold_plain: "\<forall>c \<in> set cs. plain c \<Longrightarrow> fold (clean_step rooted) cs st = rev cs @ st"
  by (induction cs arbitrary: st) (auto simp: clean_step_def plain_def)

lemma HasPrefix_slash [simp]: "HasPrefix s ''/'' \<longleftrightarrow> s \<noteq> [] \<and> hd s = slash"
  by (cases s) (auto simp: HasPrefix_def slash_def)

lemma split_abs:
  "cs \<noteq> [] \<Longrightarrow> \<forall>c \<in> set cs. plain c \<Longrightarrow> split_on slash (slash # join_with ''/'' cs) = '''' # cs"
  unfolding join_slash by (simp add: split_join plain_def)

lemma split_rel: "cs \<noteq> [] \<Longrightarrow> \<forall>c \<in> set cs. plain c \<Longrightarrow> split_on slash (join_with ''/'' cs) = cs"
  unfolding join_slash by (simp add: split_join plain_def)

lemma Clean_abs:
  assumes "\<forall>c \<in> set cs. plain c"
  shows "path_Clean (slash # join_with ''/'' cs) = slash # join_with ''/'' cs"
proof (cases "cs = []")
  case True
  then show ?thesis by (simp add: path_Clean_def Let_def clean_step_def)
next
  case False
  have "rev (fold (clean_step True) ('''' # cs) []) = cs" using clean_fold_plain [OF assms] by (simp add: clean_step_def)
  then show ?thesis by (simp only: path_Clean_def split_abs [OF False assms] Let_def HasPrefix_slash list.sel simp_thms if_True list.distinct)
qed

lemma join_ne:
  assumes "cs \<noteq> []" and "\<forall>c \<in> set cs. plain c"
  shows "join_with ''/'' cs \<noteq> [] \<and> hd (join_with ''/'' cs) \<noteq> slash"
proof -
  obtain c cs' where cs: "cs = c # cs'" using assms(1) by (cases cs) auto
  obtain x c' where c: "c = x # c'" "x \<noteq> slash" using assms(2) cs by (cases c) (auto simp: plain_def)
  show ?thesis using c by (cases cs') (simp_all add: cs)
qed

lemma Clean_rel:
  assumes "\<forall>c \<in> set cs. plain c" and "cs \<noteq> []"
  shows "path_Clean (join_with ''/'' cs) = join_with ''/'' cs"
  using join_ne [OF assms(2,1)] by (simp add: path_Clean_def split_rel assms Let_def clean_fold_plain)

lemma comps_abs:
  assumes "\<forall>c \<in> set cs. plain c"
  shows "path_comps (slash # join_with ''/'' cs) = '''' # cs"
proof (cases "cs = []")
  case True
  then show ?thesis by (simp add: path_comps_def slash_def)
next
  case False
  then have "slash # join_with ''/'' cs \<noteq> ''/''" using join_ne [OF False assms] by auto
  then show ?thesis using split_abs [OF False assms] by (simp only: path_comps_def if_False list.distinct)
qed

lemma strip_common_prefix: "strip_common (xs @ ys) (xs @ zs) = strip_common ys zs"
  by (induction xs) auto

lemma Rel_below:
  assumes "\<forall>c \<in> set (rs @ ds). plain c" and "ds \<noteq> []"
  shows "path_Rel (slash # join_with ''/'' rs) (slash # join_with ''/'' (rs @ ds)) = Some (join_with ''/'' ds)"
proof -
  let ?b = "slash # join_with ''/'' rs" and ?t = "slash # join_with ''/'' (rs @ ds)"
  have c: "path_Clean ?b = ?b" "path_Clean ?t = ?t" using assms(1) by (auto intro!: Clean_abs)
  have pc: "path_comps ?b = '''' # rs" "path_comps ?t = '''' # rs @ ds" using assms(1) by (auto intro!: comps_abs)
  have ne: "?t \<noteq> ?b" using pc assms(2) by (metis append_self_conv list.inject)
  have dot: "?b \<noteq> ''.''" by (simp add: slash_def)
  have s: "strip_common ('''' # rs) ('''' # rs @ ds) = ([], ds)"
    using strip_common_prefix [of "'''' # rs" "[]" ds] by simp
  show ?thesis unfolding path_Rel_def c Let_def if_not_P [OF ne] if_not_P [OF dot] pc s by simp
qed

lemma Clean_trailing:
  assumes "\<forall>c \<in> set ds. plain c" and "ds \<noteq> []"
  shows "path_Clean (join_with ''/'' ds @ [slash]) = join_with ''/'' ds"
proof -
  have "join_with [slash] (ds @ ['''']) = join_with [slash] ds @ [slash]"
    using assms(2) by (induction "[slash]" ds rule: join_with.induct) auto
  moreover have "split_on slash (join_with [slash] (ds @ [''''])) = ds @ ['''']"
    by (rule split_join) (use assms(1) in \<open>auto simp: plain_def\<close>)
  ultimately have "split_on slash (join_with ''/'' ds @ [slash]) = ds @ ['''']" unfolding join_slash by simp
  moreover have "clean_step r '''' st = st" for r st by (simp add: clean_step_def)
  ultimately show ?thesis using join_ne [OF assms(2,1)]
    by (simp add: path_Clean_def Let_def clean_fold_plain [OF assms(1)] hd_append)
qed

lemma Dir_rel:
  assumes "\<forall>c \<in> set ds. plain c" and "plain n"
  shows "path_Dir (join_with ''/'' (ds @ [n])) = (if ds = [] then ''.'' else join_with ''/'' ds)"
proof -
  have tw: "dropWhile (\<lambda>c. c \<noteq> slash) (rev n @ x) = dropWhile (\<lambda>c. c \<noteq> slash) x" for x
    by (rule dropWhile_append2) (use assms(2) in \<open>auto simp: plain_def\<close>)
  show ?thesis
  proof (cases "ds = []")
    case True
    have "dropWhile (\<lambda>c. c \<noteq> slash) (rev n) = []" using tw [of "[]"] by simp
    then show ?thesis using True by (simp only: path_Dir_def append_Nil join_with.simps rev.simps)
      (simp add: path_Clean_def Let_def clean_step_def)
  next
    case False
    have j: "join_with ''/'' (ds @ [n]) = join_with ''/'' ds @ slash # n"
      using False unfolding join_slash by (induction "[slash]" ds rule: join_with.induct) auto
    have "path_Dir (join_with ''/'' (ds @ [n])) = path_Clean (join_with ''/'' ds @ [slash])"
      using tw [of "slash # rev (join_with ''/'' ds)"] by (simp add: path_Dir_def j)
    then show ?thesis using False Clean_trailing [OF assms(1) False] by simp
  qed
qed

text \<open>
  A Title is shown in the right folder: for a file \<open>name\<close> in the subdirectory \<open>ds\<close> of an absolute Shared
  folder with ordinary path elements, when no earlier configured root contains the file, \<open>folderFor\<close>
  answers with this root's label and the relative directory, empty at root level.
\<close>
theorem folder_of_title:
  assumes plain: "\<forall>c \<in> set (rs @ ds @ [n]). plain c" and rt: "rt = slash # join_with ''/'' rs"
    and path: "path = slash # join_with ''/'' (rs @ ds @ [n])"
    and before: "\<forall>r \<in> set before. case path_Rel r path of None \<Rightarrow> True | Some rel \<Rightarrow> rel = ''..'' \<or> HasPrefix rel ''../''"
    and lab: "map_of labels rt = Some l"
  shows "folderFor path (before @ rt # after) labels = (l, join_with ''/'' ds)"
proof -
  have skip: "folderFor path (before @ rest) labels = folderFor path rest labels" for rest
    using before by (induction before) (auto split: option.splits)
  have rel: "path_Rel rt path = Some (join_with ''/'' (ds @ [n]))"
    unfolding rt path by (rule Rel_below) (use plain in auto)
  have "split_on slash (join_with ''/'' (ds @ [n])) = ds @ [n]" by (rule split_rel) (use plain in auto)
  moreover have "split_on slash ''..'' = [''..'']" "\<And>x. split_on slash (''../'' @ x) = ''..'' # split_on slash x"
    by (simp_all add: slash_def)
  moreover have "\<forall>c \<in> set (ds @ [n]). c \<noteq> ''..''" using plain by (auto simp: plain_def)
  ultimately have "join_with ''/'' (ds @ [n]) \<noteq> ''..''" "\<not> HasPrefix (join_with ''/'' (ds @ [n])) ''../''"
    unfolding HasPrefix_prefix prefix_def by (metis list.set_intros(1))+
  moreover have "path_Dir (join_with ''/'' (ds @ [n])) = (if ds = [] then ''.'' else join_with ''/'' ds)"
    by (rule Dir_rel) (use plain in auto)
  moreover have "join_with ''/'' ds \<noteq> ''.''" if "ds \<noteq> []"
  proof
    assume "join_with ''/'' ds = ''.''"
    moreover have "split_on slash (join_with ''/'' ds) = ds" by (rule split_rel) (use that plain in auto)
    moreover have "split_on slash ''.'' = [''.'']" by (simp add: slash_def)
    ultimately have "ds = [''.'']" by (simp only:)
    then show False using plain by (simp add: plain_def)
  qed
  ultimately show ?thesis unfolding skip by (simp add: rel lab Let_def)
qed

definition example_labels :: "(string, string) gomap" where
  "example_labels = buildRootLabels [''/a/media'', ''/b/media'']"

theorem folder_of_title_witness:
  "folderFor ''/b/media/Films/x.mkv'' [''/a/media'', ''/b/media''] example_labels = (''media (2)'', ''Films'')"
proof -
  have n: "\<forall>c \<in> set ([''b'', ''media''] @ [''Films''] @ [''x.mkv'']). plain c" by code_simp
  have r: "''/b/media'' = slash # join_with ''/'' [''b'', ''media'']"
    "''/b/media/Films/x.mkv'' = slash # join_with ''/'' ([''b'', ''media''] @ [''Films''] @ [''x.mkv''])" by code_simp+
  have b: "\<forall>r \<in> set [''/a/media'']. case path_Rel r ''/b/media/Films/x.mkv'' of None \<Rightarrow> True
     | Some rel \<Rightarrow> rel = ''..'' \<or> HasPrefix rel ''../''" by code_simp
  have l: "map_of example_labels ''/b/media'' = Some ''media (2)''" by code_simp
  from folder_of_title [OF n r b l, of "[]"] show ?thesis by simp
qed

text \<open>
  Root labels are not always unique: a Shared folder whose own basename looks like a disambiguated label
  gets the label already given to another root, so the Titles of two roots appear in one folder.
\<close>
theorem root_labels_collide:
  "let labels = buildRootLabels [''/a/media'', ''/b/media'', ''/c/media (2)'']
   in map_of labels ''/b/media'' = map_of labels ''/c/media (2)'' \<and> map_of labels ''/b/media'' \<noteq> None"
  by code_simp

end
