(* ===== verification/Media_Engine.thy ===== *)
theory Media_Engine
  imports Catalog
begin

text \<open>
  The streaming engine of \<open>internal/media\<close>: the ffmpeg argument vectors (\<open>ffmpeg.go\<close>, \<open>subtitles.go\<close>),
  the generated playlists (\<open>master.go\<close>), the jobs and the files they serve (\<open>engine.go\<close>) and the
  access-checked Service over them (\<open>service.go\<close>).

  The Engine is a record with its table of jobs; \<open>en_started\<close> lists the contents whose goroutine was
  launched. What the engine reads from outside is \<open>media_env\<close>: failures of the database and of
  \<open>MkdirAll\<close>, the files (which the running ffmpeg changes between two requests) and BLAKE3. A run of ffmpeg
  is a function \<open>run\<close> of its arguments on the file system.
\<close>

section \<open>Argument vectors: \<open>ffmpeg.go\<close>, \<open>subtitles.go\<close>, \<open>thumbnail.go\<close>\<close>

definition videoCopyable :: "string \<Rightarrow> bool" where
  "videoCopyable codec = (let c = ToLower codec in c = ''h264'' \<or> c = ''avc1'')"

definition audioCopyable :: "string \<Rightarrow> bool" where
  "audioCopyable codec = (let c = ToLower codec in c = ''aac'' \<or> c = ''mp3'')"

definition FFmpegArgs :: "Title \<Rightarrow> string \<Rightarrow> string \<Rightarrow> string list" where
  "FFmpegArgs title outDir playlistPath =
     [''-y'', ''-i'', ti_Path title] @
     (if videoCopyable (ti_VideoCodec title) then [''-c:v'', ''copy'']
      else [''-c:v'', ''libx264'', ''-profile:v'', ''high'', ''-preset'', ''veryfast'', ''-crf'', ''23'',
            ''-maxrate'', ''8M'', ''-bufsize'', ''16M'', ''-vf'', ''scale=-2:'' @ [CHR 0x27] @ ''min(1080,ih)'' @ [CHR 0x27],
            ''-force_key_frames'', ''expr:gte(t,n_forced*4)'']) @
     (let primaryAudio = (case ti_AudioCodecs title of [] \<Rightarrow> '''' | a # _ \<Rightarrow> a)
      in if audioCopyable primaryAudio then [''-c:a'', ''copy'']
         else [''-c:a'', ''aac'', ''-ac'', ''2'', ''-b:a'', ''160k'']) @
     [''-f'', ''hls'', ''-hls_time'', ''4'', ''-hls_playlist_type'', ''event'',
      ''-hls_segment_filename'', path_Join [outDir, ''seg%05d.ts''], playlistPath]"

definition TextSubtitleTracks :: "LibSubtitle list \<Rightarrow> LibSubtitle list" where
  "TextSubtitleTracks subs = filter (\<lambda>s. su_Kind s = ''text'') subs"

definition extractVTTArgs :: "Title \<Rightarrow> LibSubtitle \<Rightarrow> string \<Rightarrow> string list" where
  "extractVTTArgs title track outVTT =
     (if 0 \<le> su_Index track
      then [''-y'', ''-i'', ti_Path title, ''-map'', ''0:'' @ Itoa (su_Index track), ''-c:s'', ''webvtt'', outVTT]
      else [''-y'', ''-i'', su_Source track, ''-c:s'', ''webvtt'', outVTT])"

definition fmt_3f :: "rat \<Rightarrow> string" where
  \<comment> \<open>\<open>%.3f\<close> of a non-negative number\<close>
  "fmt_3f x =
     (let n = nat (round_even (x * 1000)); d = (\<lambda>k. itoa_nat (k mod 10))
      in itoa_nat (n div 1000) @ ''.'' @ d (n div 100) @ d (n div 10) @ d n)"

definition ThumbnailArgs :: "string \<Rightarrow> string \<Rightarrow> int \<Rightarrow> string list" where
  "ThumbnailArgs src out durationMS =
     (let seekSec = (if 0 < durationMS
                     then let t = fmul (fdiv (float_of_int durationMS) 1000) (f64 (1/10)) in if 10 < t then 10 else t
                     else 0)
      in [''-y'', ''-ss'', fmt_3f seekSec, ''-i'', src, ''-frames:v'', ''1'', ''-vf'', ''scale=480:-2'', ''-q:v'', ''4'', out])"

section \<open>Generated playlists: \<open>master.go\<close>\<close>

definition nl :: string where "nl = [CHR 0x0A]"

definition quoted :: "string \<Rightarrow> string" where "quoted s = [CHR 0x22] @ s @ [CHR 0x22]"

definition media_line :: "nat \<Rightarrow> LibSubtitle \<Rightarrow> string" where
  "media_line i sub =
     ''#EXT-X-MEDIA:TYPE=SUBTITLES,GROUP-ID='' @ quoted ''subs'' @ '',NAME='' @ quoted (su_Language sub) @
     '',LANGUAGE='' @ quoted (su_Language sub) @ '',DEFAULT='' @ (if i = 0 then ''YES'' else ''NO'') @ '',AUTOSELECT='' @ ''YES'' @
     '',URI='' @ quoted (''sub_'' @ su_Language sub @ ''.m3u8'') @ nl"

definition MasterPlaylist :: "Title \<Rightarrow> string" where
  "MasterPlaylist title =
     (let texts = TextSubtitleTracks (ti_Subtitles title)
      in ''#EXTM3U'' @ nl @ ''#EXT-X-VERSION:3'' @ nl @
         concat (map (\<lambda>(i, sub). media_line i sub) (zip [0..<length texts] texts)) @
         ''#EXT-X-STREAM-INF:BANDWIDTH='' @ Itoa 6000000 @ '',RESOLUTION='' @ Itoa (ti_Width title) @ ''x'' @ Itoa (ti_Height title) @
         (if 0 < length texts then '',SUBTITLES='' @ quoted ''subs'' else '''') @ nl @ ''index.m3u8'' @ nl)"

definition SubtitlePlaylist :: "string \<Rightarrow> string" where
  "SubtitlePlaylist language =
     ''#EXTM3U'' @ nl @ ''#EXT-X-VERSION:3'' @ nl @ ''#EXT-X-TARGETDURATION:99999'' @ nl @ ''#EXT-X-MEDIA-SEQUENCE:0'' @ nl @
     ''#EXT-X-PLAYLIST-TYPE:VOD'' @ nl @ ''#EXTINF:99999.0,'' @ nl @ ''sub_'' @ language @ ''.vtt'' @ nl @ ''#EXT-X-ENDLIST'' @ nl"

section \<open>The engine: \<open>engine.go\<close>\<close>

datatype read_res = RData bytes | RNotExist | RErr gerror   \<comment> \<open>\<open>os.ReadFile\<close>\<close>

record media_env =
  me_dbErr :: "gerror option"
  me_mkErr :: "gerror option"
  me_read :: "string \<Rightarrow> read_res"
  me_sum :: "bytes \<Rightarrow> bytes"

definition me_file :: "media_env \<Rightarrow> string \<Rightarrow> bytes option" where
  "me_file env p = (case me_read env p of RData d \<Rightarrow> Some d | _ \<Rightarrow> None)"

record media_job =
  jb_dir :: string
  jb_title :: Title
  jb_complete :: bool
  jb_hashes :: SegmentHashes

record Engine =
  en_store :: Store
  en_cacheDir :: string
  en_jobs :: "(string, media_job) gomap"
  en_started :: "string list"     \<comment> \<open>\<open>go e.runJob(ctx, j)\<close>\<close>

definition NewEngine :: "Store \<Rightarrow> string \<Rightarrow> Engine" where
  "NewEngine store cacheDir = \<lparr>en_store = store, en_cacheDir = cacheDir, en_jobs = [], en_started = []\<rparr>"

definition put_job :: "string \<Rightarrow> media_job \<Rightarrow> Engine \<Rightarrow> Engine" where
  "put_job contentID j e = e\<lparr>en_jobs := AList.update contentID j (en_jobs e)\<rparr>"

definition new_job :: "string \<Rightarrow> Title \<Rightarrow> media_job" where
  "new_job dir title = \<lparr>jb_dir = dir, jb_title = title, jb_complete = False, jb_hashes = NewSegmentHashes dir\<rparr>"

definition ensureJob :: "media_env \<Rightarrow> string \<Rightarrow> Engine \<Rightarrow> (gerror + media_job) \<times> Engine" where
  "ensureJob env contentID e =
     (case map_of (en_jobs e) contentID of Some j \<Rightarrow> (Inr j, e)
      | None \<Rightarrow>
      case me_dbErr env of Some err \<Rightarrow> (Inl err, e)
      | None \<Rightarrow>
      case Store_Get contentID (en_store e) of None \<Rightarrow> (Inl ErrNotFound, e)
      | Some title \<Rightarrow>
      case me_mkErr env of Some err \<Rightarrow> (Inl err, e)
      | None \<Rightarrow>
      let j = new_job (path_Join [en_cacheDir e, contentID]) title
      in (Inr j, (put_job contentID j e)\<lparr>en_started := en_started e @ [contentID]\<rparr>))"

definition job_file :: "media_env \<Rightarrow> string \<Rightarrow> string \<Rightarrow> media_job \<Rightarrow> (gerror + bytes \<times> bool) \<times> media_job" where
  \<comment> \<open>\<open>File\<close> once the job is known\<close>
  "job_file env contentID name j =
     (if name = ''playlist.m3u8'' then (Inr (bytes_of_string (MasterPlaylist (jb_title j)), True), j)
      else if HasPrefix name ''sub_'' \<and> HasSuffix name ''.m3u8''
      then (Inr (bytes_of_string (SubtitlePlaylist (TrimSuffix (TrimPrefix name ''sub_'') ''.m3u8'')), True), j)
      else
        case me_read env (path_Join [jb_dir j, path_Base name]) of
          RData data \<Rightarrow>
            if name = ''index.m3u8''
            then (case InjectHashes (me_sum env) (me_file env) data (jb_hashes j) of
                    (out, h) \<Rightarrow> (Inr (out, jb_complete j), j\<lparr>jb_hashes := h\<rparr>))
            else (Inr (data, jb_complete j), j)
        | RNotExist \<Rightarrow> (Inl (if jb_complete j then ErrNotFound else ErrUnavailable), j)
        | RErr err \<Rightarrow> (Inl err, j))"

definition Engine_File :: "media_env \<Rightarrow> string \<Rightarrow> string \<Rightarrow> Engine \<Rightarrow> (gerror + bytes \<times> bool) \<times> Engine" where
  "Engine_File env contentID name e =
     (case ensureJob env contentID e of
        (Inl err, e1) \<Rightarrow> (Inl err, e1)
      | (Inr j, e1) \<Rightarrow> (case job_file env contentID name j of (r, j') \<Rightarrow> (r, put_job contentID j' e1)))"

definition isComplete :: "string \<Rightarrow> Engine \<Rightarrow> bool" where
  "isComplete contentID e = (case map_of (en_jobs e) contentID of None \<Rightarrow> False | Some j \<Rightarrow> jb_complete j)"

definition runJob :: "(string list \<Rightarrow> 'f \<Rightarrow> 'f) \<Rightarrow> media_job \<Rightarrow> 'f \<Rightarrow> 'f" where
  \<comment> \<open>the runs of the goroutine, their errors ignored\<close>
  "runJob run j fs =
     run (FFmpegArgs (jb_title j) (jb_dir j) (path_Join [jb_dir j, ''index.m3u8'']))
       (fold (\<lambda>sub. run (extractVTTArgs (jb_title j) sub (path_Join [jb_dir j, ''sub_'' @ su_Language sub @ ''.vtt''])))
          (TextSubtitleTracks (ti_Subtitles (jb_title j))) fs)"

definition finish_job :: "string \<Rightarrow> Engine \<Rightarrow> Engine" where
  \<comment> \<open>the end of \<open>runJob\<close>: \<open>j.complete = true\<close>\<close>
  "finish_job contentID e =
     (case map_of (en_jobs e) contentID of None \<Rightarrow> e | Some j \<Rightarrow> put_job contentID (j\<lparr>jb_complete := True\<rparr>) e)"

definition Engine_Thumbnail ::
  "media_env \<Rightarrow> (string list \<Rightarrow> gerror option \<times> (string \<Rightarrow> read_res)) \<Rightarrow> string \<Rightarrow> Engine \<Rightarrow> gerror + bytes" where
  \<comment> \<open>the second argument is a run of ffmpeg: its error and the files after it\<close>
  "Engine_Thumbnail env run contentID e =
     (let out = ThumbPath (en_cacheDir e) contentID
      in case me_read env out of RData data \<Rightarrow> Inr data
         | _ \<Rightarrow>
      case me_dbErr env of Some err \<Rightarrow> Inl err
      | None \<Rightarrow>
      case Store_Get contentID (en_store e) of None \<Rightarrow> Inl ErrNotFound
      | Some title \<Rightarrow>
      if ti_Height title = 0 then Inl ErrNotFound
      else case me_mkErr env of Some err \<Rightarrow> Inl err
      | None \<Rightarrow>
      case run (ThumbnailArgs (ti_Path title) out (ti_DurationMS title)) of
        (Some err, _) \<Rightarrow> Inl err
      | (None, files) \<Rightarrow> (case files out of RData data \<Rightarrow> Inr data | RNotExist \<Rightarrow> Inl (ErrText (''open '' @ out @ '': no such file or directory'')) | RErr err \<Rightarrow> Inl err))"

section \<open>The Service: \<open>service.go\<close>\<close>

record MediaService =
  ms_engine :: Engine
  ms_policy :: Policy
  ms_touched :: "string list"   \<comment> \<open>directories whose access time was set, in order\<close>

definition NewMediaService :: "Engine \<Rightarrow> Policy \<Rightarrow> MediaService" where
  "NewMediaService engine policy = \<lparr>ms_engine = engine, ms_policy = policy, ms_touched = []\<rparr>"

definition media_touch :: "string \<Rightarrow> MediaService \<Rightarrow> MediaService" where
  "media_touch contentID s = s\<lparr>ms_touched := ms_touched s @ [path_Join [en_cacheDir (ms_engine s), contentID]]\<rparr>"

definition media_contentType :: "string \<Rightarrow> string" where
  "media_contentType nm =
     (if HasSuffix nm ''.m3u8'' then ''application/vnd.apple.mpegurl''
      else if HasSuffix nm ''.ts'' then ''video/mp2t''
      else if HasSuffix nm ''.vtt'' then ''text/vtt''
      else ''application/octet-stream'')"

definition LocalPlaylist :: "media_env \<Rightarrow> string \<Rightarrow> string \<Rightarrow> MediaService \<Rightarrow> (gerror + PlaylistMsg) \<times> MediaService" where
  "LocalPlaylist env contentID name s =
     (case Engine_File env contentID name (ms_engine s) of
        (Inl err, e) \<Rightarrow> (Inl err, s\<lparr>ms_engine := e\<rparr>)
      | (Inr (data, cpl), e) \<Rightarrow>
          (Inr \<lparr>pl_data = data, pl_content_type = media_contentType name, pl_complete = cpl\<rparr>,
           media_touch contentID (s\<lparr>ms_engine := e\<rparr>)))"

definition LocalSegment :: "media_env \<Rightarrow> string \<Rightarrow> string \<Rightarrow> MediaService \<Rightarrow> (gerror + bytes) \<times> MediaService" where
  "LocalSegment env contentID name s =
     (case Engine_File env contentID name (ms_engine s) of
        (Inl err, e) \<Rightarrow> (Inl err, s\<lparr>ms_engine := e\<rparr>)
      | (Inr (data, _), e) \<Rightarrow> (Inr data, media_touch contentID (s\<lparr>ms_engine := e\<rparr>)))"

definition LocalThumbnail ::
  "media_env \<Rightarrow> (string list \<Rightarrow> gerror option \<times> (string \<Rightarrow> read_res)) \<Rightarrow> string \<Rightarrow> MediaService \<Rightarrow> gerror + bytes" where
  "LocalThumbnail env run contentID s = Engine_Thumbnail env run contentID (ms_engine s)"

definition Media_Playlist ::
  "media_env \<Rightarrow> NodeID \<Rightarrow> string \<Rightarrow> string \<Rightarrow> MediaService \<Rightarrow> (gerror + PlaylistMsg) \<times> MediaService" where
  "Media_Playlist env remote contentID name s =
     (if \<not> Policy_Allowed remote (ms_policy s) then (Inl ErrDenied, s)
      else case Engine_File env contentID name (ms_engine s) of
        (Inl err, e) \<Rightarrow> (Inl err, s\<lparr>ms_engine := e\<rparr>)
      | (Inr (data, cpl), e) \<Rightarrow>
          (Inr \<lparr>pl_data = data, pl_content_type = media_contentType name, pl_complete = cpl\<rparr>,
           media_touch contentID (s\<lparr>ms_engine := e\<rparr>)))"

definition Media_Segment ::
  "media_env \<Rightarrow> NodeID \<Rightarrow> string \<Rightarrow> string \<Rightarrow> MediaService \<Rightarrow> (gerror + bytes) \<times> MediaService" where
  "Media_Segment env remote contentID name s =
     (if \<not> Policy_Allowed remote (ms_policy s) then (Inl ErrDenied, s)
      else case Engine_File env contentID name (ms_engine s) of
        (Inl err, e) \<Rightarrow> (Inl err, s\<lparr>ms_engine := e\<rparr>)
      | (Inr (data, _), e) \<Rightarrow> (Inr data, media_touch contentID (s\<lparr>ms_engine := e\<rparr>)))"

definition Media_OpenFile ::
  "media_env \<Rightarrow> (string \<Rightarrow> gerror + 'f) \<Rightarrow> NodeID \<Rightarrow> string \<Rightarrow> MediaService \<Rightarrow> gerror + 'f" where
  \<comment> \<open>the second argument opens a path and reads its size\<close>
  "Media_OpenFile env openf remote contentID s =
     (if \<not> Policy_Allowed remote (ms_policy s) then Inl ErrDenied
      else case me_dbErr env of Some err \<Rightarrow> Inl err
      | None \<Rightarrow>
      case Store_Get contentID (en_store (ms_engine s)) of None \<Rightarrow> Inl ErrNotFound
      | Some title \<Rightarrow> openf (ti_Path title))"

section \<open>Requests read only the content's directory\<close>

definition confined :: "string \<Rightarrow> string \<Rightarrow> string set" where
  \<comment> \<open>the cache directory and the content's own (directories, which have no bytes), and the files directly in the latter\<close>
  "confined cacheDir cid =
     {cacheDir, cacheDir @ slash # cid} \<union> {cacheDir @ slash # cid @ slash # c | c. plain c}"

lemma join_snoc: "cs \<noteq> [] \<Longrightarrow> join_with ''/'' (cs @ [c]) = join_with ''/'' cs @ slash # c"
  unfolding join_slash by (induction "[slash]" cs rule: join_with.induct) auto

lemma split_snoc: "slash \<notin> set c \<Longrightarrow> split_on slash (p @ slash # c) = split_on slash p @ [c]"
proof (induction p)
  case (Cons x p)
  then show ?case by (cases "split_on slash p") (auto split: list.splits)
qed (simp add: split_on_no_sep)

lemma Clean_snoc:
  assumes "cs \<noteq> []" and "\<forall>c \<in> set cs. plain c" and "slash \<notin> set c"
  shows "path_Clean ((slash # join_with ''/'' cs) @ slash # c) = slash # join_with ''/'' (rev (clean_step True c (rev cs)))"
proof -
  have "split_on slash ((slash # join_with ''/'' cs) @ slash # c) = '''' # cs @ [c]"
    using split_snoc [OF assms(3), of "slash # join_with ''/'' cs"] split_abs [OF assms(1,2)] by simp
  moreover have "fold (clean_step True) ('''' # cs @ [c]) [] = clean_step True c (rev cs)"
    using clean_fold_plain [OF assms(2), of True "[]"] by (simp add: clean_step_def [of True "''''"])
  ultimately show ?thesis by (simp add: path_Clean_def Let_def)
qed

lemma base_cases: "path_Base n = ''/'' \<or> path_Base n = ''.'' \<or> path_Base n = ''..'' \<or> plain (path_Base n)"
  using path_Base_no_slash [of n] by (auto simp: plain_def)

lemma confined_read:
  assumes cs: "cs \<noteq> []" "\<forall>c \<in> set cs. plain c" and cid: "plain cid"
  shows "path_Join [slash # join_with ''/'' cs, cid] = (slash # join_with ''/'' cs) @ slash # cid" (is "?dir = _")
    and "path_Join [(slash # join_with ''/'' cs) @ slash # cid, path_Base n] \<in> confined (slash # join_with ''/'' cs) cid"
proof -
  let ?c = "slash # join_with ''/'' cs"
  have j: "path_Join [p, q] = path_Clean (p @ slash # q)" if "p \<noteq> ''''" "q \<noteq> ''''" for p q
    using that by (simp add: path_Join_def slash_def)
  have cidp: "cid \<noteq> ''''" "slash \<notin> set cid" "clean_step True cid (rev cs) = cid # rev cs"
    using cid by (auto simp: plain_def clean_step_def)
  show dir: "?dir = ?c @ slash # cid"
    using Clean_snoc [OF cs cidp(2)] cidp by (simp add: j join_snoc [OF cs(1)])
  have cs': "cs @ [cid] \<noteq> []" "\<forall>c \<in> set (cs @ [cid]). plain c" "?c @ slash # cid = slash # join_with ''/'' (cs @ [cid])"
    using cs cid by (auto simp: join_snoc)
  have c: "path_Clean ?c = ?c" "path_Clean (?c @ slash # cid) = ?c @ slash # cid"
    using Clean_abs [OF cs(2)] Clean_abs [OF cs'(2)] cs'(3) by simp_all
  have b: "path_Join [?c @ slash # cid, path_Base n] = path_Clean ((?c @ slash # cid) @ slash # path_Base n)"
    by (rule j) simp_all
  consider "path_Base n = ''/''" | "slash \<notin> set (path_Base n)" using path_Base_no_slash [of n] by blast
  then show "path_Join [?c @ slash # cid, path_Base n] \<in> confined ?c cid"
  proof cases
    case 1
    have "split_on slash ((?c @ slash # cid) @ slash # ''/'') = split_on slash (?c @ slash # cid) @ ['''', '''']"
      using split_snoc [of "''''" "(?c @ slash # cid) @ [slash]"] split_snoc [of "''''" "?c @ slash # cid"] by (simp add: slash_def)
    moreover have "split_on slash (?c @ slash # cid) = '''' # cs @ [cid]" using split_abs [OF cs'(1,2)] cs'(3) by simp
    ultimately have "path_Clean ((?c @ slash # cid) @ slash # ''/'') = slash # join_with ''/'' (cs @ [cid])"
      using clean_fold_plain [OF cs'(2), of True "[]"] by (simp add: path_Clean_def Let_def clean_step_def [of True "''''"])
    then show ?thesis using b cs'(3) 1 by (simp add: confined_def)
  next
    case 2
    have "path_Join [?c @ slash # cid, path_Base n] = slash # join_with ''/'' (rev (clean_step True (path_Base n) (rev (cs @ [cid]))))"
      by (subst b) (simp only: cs'(3) Clean_snoc [OF cs'(1,2) 2])
    then have eq: "path_Join [?c @ slash # cid, path_Base n] =
        (if path_Base n = ''.'' then ?c @ slash # cid else if path_Base n = ''..'' then ?c
         else ?c @ slash # cid @ slash # path_Base n)"
      using cid cs'(3) join_snoc [OF cs'(1), of "path_Base n"] by (auto simp: clean_step_def plain_def)
    show ?thesis
    proof (cases "path_Base n = ''.'' \<or> path_Base n = ''..''")
      case False
      then have "plain (path_Base n)" using 2 by (simp add: plain_def)
      then show ?thesis unfolding eq using False by (auto simp: confined_def)
    qed (unfold eq, auto simp: confined_def)
  qed
qed

section \<open>Executions of the engine\<close>

datatype media_ev =
    MFile media_env string string   \<comment> \<open>\<open>File\<close> for a Content ID and a name\<close>
  | MFinish string                  \<comment> \<open>a job's goroutine ends\<close>
  | MStore Store                    \<comment> \<open>the scanner changed the table\<close>

primrec media_do :: "media_ev \<Rightarrow> Engine \<Rightarrow> Engine" where
  "media_do (MFile env cid name) e = snd (Engine_File env cid name e)"
| "media_do (MFinish cid) e = finish_job cid e"
| "media_do (MStore st) e = e\<lparr>en_store := st\<rparr>"

definition job_ok :: "string \<Rightarrow> string \<Rightarrow> media_job \<Rightarrow> bool" where
  "job_ok cacheDir cid j \<longleftrightarrow> jb_dir j = path_Join [cacheDir, cid] \<and> sh_dir (jb_hashes j) = jb_dir j"

definition engine_ok :: "Engine \<Rightarrow> bool" where
  "engine_ok e \<longleftrightarrow>
     (\<forall>cid j. map_of (en_jobs e) cid = Some j \<longrightarrow> job_ok (en_cacheDir e) cid j) \<and>
     distinct (en_started e) \<and> set (en_started e) = {cid. map_of (en_jobs e) cid \<noteq> None}"

lemma put_job_simps [simp]:
  "map_of (en_jobs (put_job cid j e)) = (map_of (en_jobs e))(cid \<mapsto> j)" "en_started (put_job cid j e) = en_started e"
  "en_cacheDir (put_job cid j e) = en_cacheDir e" "en_store (put_job cid j e) = en_store e"
  by (simp_all add: put_job_def update_conv')

lemma inject_line_dir [simp]: "sh_dir (snd (inject_line blake fs row (out, h))) = sh_dir h"
  by (auto simp: inject_line_def SegmentHashes_Hash_def Let_def split: option.splits)

lemma inject_fold_dir [simp]: "sh_dir (snd (fold (inject_line blake fs) rows (out, h))) = sh_dir h"
proof (induction rows arbitrary: out h)
  case (Cons row rows)
  obtain out' h' where l: "inject_line blake fs row (out, h) = (out', h')" by fastforce
  then have "sh_dir h' = sh_dir h" using inject_line_dir [of blake fs row out h] by simp
  then show ?case using Cons.IH [of out' h'] l by simp
qed simp

lemma InjectHashes_dir [simp]: "sh_dir (snd (InjectHashes blake fs pl h)) = sh_dir h"
proof -
  obtain out h' where f: "fold (inject_line blake fs) (split_on (CHR 0x0A) (string_of_bytes pl)) ([], h) = (out, h')" by fastforce
  then have "sh_dir h' = sh_dir h" by (metis inject_fold_dir snd_conv)
  then show ?thesis by (simp add: InjectHashes_def f)
qed

lemma job_file_ok:
  assumes "job_file env cid name j = (r, j')"
  shows "jb_dir j' = jb_dir j \<and> sh_dir (jb_hashes j') = sh_dir (jb_hashes j) \<and> jb_title j' = jb_title j \<and> jb_complete j' = jb_complete j"
proof -
  have "sh_dir h = sh_dir (jb_hashes j)" if "InjectHashes b fs pl (jb_hashes j) = (out, h)" for b fs pl out h
    using InjectHashes_dir [of b fs pl "jb_hashes j"] that by simp
  then show ?thesis using assms by (auto simp: job_file_def split: if_splits read_res.splits prod.splits)
qed

lemma ensureJob_cases:
  obtains (known) j where "map_of (en_jobs e) cid = Some j" "ensureJob env cid e = (Inr j, e)"
  | (failed) err where "map_of (en_jobs e) cid = None" "ensureJob env cid e = (Inl err, e)"
  | (started) title j where "map_of (en_jobs e) cid = None" "Store_Get cid (en_store e) = Some title"
      "j = new_job (path_Join [en_cacheDir e, cid]) title"
      "ensureJob env cid e = (Inr j, (put_job cid j e)\<lparr>en_started := en_started e @ [cid]\<rparr>)"
proof (cases "map_of (en_jobs e) cid")
  case None
  show ?thesis
  proof (cases "me_dbErr env = None \<and> Store_Get cid (en_store e) \<noteq> None \<and> me_mkErr env = None")
    case True
    then show ?thesis using None that(3) by (auto simp: ensureJob_def Let_def)
  next
    case False
    then have "\<exists>err. ensureJob env cid e = (Inl err, e)" using None by (auto simp: ensureJob_def split: option.split)
    then show ?thesis using None that(2) by blast
  qed
qed (use that(1) in \<open>simp add: ensureJob_def\<close>)

lemma update_update: "AList.update k v (AList.update k u xs) = AList.update k v xs"
  by (induction xs) auto

lemma Engine_File_cases:
  obtains (failed) err where "map_of (en_jobs e) cid = None" "Engine_File env cid name e = (Inl err, e)"
  | (served) j r j' where "job_file env cid name j = (r, j')" "map_of (en_jobs e) cid = Some j \<or> map_of (en_jobs e) cid = None \<and> (\<exists>title. j = new_job (path_Join [en_cacheDir e, cid]) title)"
      "Engine_File env cid name e =
         (r, (put_job cid j' e)\<lparr>en_started := en_started e @ (if map_of (en_jobs e) cid = None then [cid] else [])\<rparr>)"
proof (cases rule: ensureJob_cases [of e cid env])
  case (known j)
  obtain r j' where jf: "job_file env cid name j = (r, j')" by fastforce
  show ?thesis by (rule served [OF jf]) (use known jf in \<open>simp_all add: Engine_File_def put_job_def\<close>)
next
  case (failed err)
  then show ?thesis using that(1) by (simp add: Engine_File_def)
next
  case (started title j)
  obtain r j' where jf: "job_file env cid name j = (r, j')" by fastforce
  have "put_job cid j' ((put_job cid j e)\<lparr>en_started := st\<rparr>) = (put_job cid j' e)\<lparr>en_started := st\<rparr>" for st
    by (simp add: put_job_def update_update)
  then have "Engine_File env cid name e = (r, (put_job cid j' e)\<lparr>en_started := en_started e @ (if map_of (en_jobs e) cid = None then [cid] else [])\<rparr>)"
    using started(1,4) jf by (simp add: Engine_File_def)
  from that(2) [OF jf _ this] show ?thesis using started(1,3) by blast
qed

lemma new_job_ok [simp]: "job_ok c cid (new_job (path_Join [c, cid]) title)" "hashes_coherent blake fs (jb_hashes (new_job dir title))"
  by (simp_all add: job_ok_def new_job_def) (simp add: NewSegmentHashes_def)

lemma engine_ok_step: "engine_ok e \<Longrightarrow> engine_ok (media_do ev e) \<and> en_cacheDir (media_do ev e) = en_cacheDir e"
proof (cases ev)
  case (MFile env cid name)
  assume ok: "engine_ok e"
  show ?thesis
  proof (cases rule: Engine_File_cases [of e cid env name])
    case (failed err)
    then show ?thesis using ok MFile by simp
  next
    case (served j r j')
    then have "job_ok (en_cacheDir e) cid j'"
      using ok job_file_ok [OF served(1)] new_job_ok(1) [of "en_cacheDir e" cid] by (auto simp: engine_ok_def job_ok_def)
    then show ?thesis using ok MFile served by (auto simp: engine_ok_def)
  qed
qed (auto simp: engine_ok_def finish_job_def job_ok_def split: option.split)

lemma engine_ok_run: "engine_ok e \<Longrightarrow> engine_ok (fold media_do evs e) \<and> en_cacheDir (fold media_do evs e) = en_cacheDir e"
  by (induction evs arbitrary: e) (simp_all add: engine_ok_step)

lemma engine_ok_new: "engine_ok (NewEngine store cacheDir)"
  by (simp add: engine_ok_def NewEngine_def)

section \<open>Confinement\<close>

lemma inject_line_cong:
  assumes "\<And>n. fs (path_Join [sh_dir h, path_Base n]) = fs' (path_Join [sh_dir h, path_Base n])"
  shows "inject_line blake fs row (out, h) = inject_line blake fs' row (out, h)"
proof -
  have "SegmentHashes_Hash blake fs n h = SegmentHashes_Hash blake fs' n h" for n
    using assms [of n] by (cases "map_of (sh_cache h) n") (simp_all add: SegmentHashes_Hash_def)
  then show ?thesis by (simp only: inject_line_def prod.case Let_def)
qed

lemma InjectHashes_cong:
  assumes "\<And>n. fs (path_Join [sh_dir h, path_Base n]) = fs' (path_Join [sh_dir h, path_Base n])"
  shows "InjectHashes blake fs pl h = InjectHashes blake fs' pl h"
proof -
  have "fold (inject_line blake fs) rows (out, h) = fold (inject_line blake fs') rows (out, h)" for rows out
    using assms
  proof (induction rows arbitrary: out h)
    case (Cons row rows)
    obtain out' h' where l: "inject_line blake fs row (out, h) = (out', h')" by fastforce
    then have "sh_dir h' = sh_dir h" using inject_line_dir [of blake fs row out h] by simp
    then show ?case using Cons.IH [of h' out'] Cons.prems l inject_line_cong [of fs h fs', OF Cons.prems, of blake row out] by simp
  qed simp
  then show ?thesis by (simp add: InjectHashes_def)
qed


section \<open>What the playlist promises, the Segments keep\<close>

definition segment_path :: "string \<Rightarrow> bool" where
  "segment_path p \<longleftrightarrow> (\<exists>dir n. HasSuffix n ''.ts'' \<and> p = path_Join [dir, path_Base n])"

definition segments_kept :: "media_env \<Rightarrow> media_env \<Rightarrow> bool" where
  \<comment> \<open>a Segment on disk in the first is there unchanged in the second\<close>
  "segments_kept env env' \<longleftrightarrow> me_sum env' = me_sum env \<and> (\<forall>p d. segment_path p \<and> me_file env p = Some d \<longrightarrow> me_file env' p = Some d)"

lemma Hash_kept:
  assumes "hashes_coherent blake fs' h" and "HasSuffix n ''.ts''"
    and "\<And>p d. segment_path p \<Longrightarrow> fs p = Some d \<Longrightarrow> fs' p = Some d"
    and "SegmentHashes_Hash blake fs n h = (r, h')"
  shows "hashes_coherent blake fs' h' \<and> sh_dir h' = sh_dir h \<and> (\<forall>x. r = Some x \<longrightarrow> published blake fs' (sh_dir h) n = Some x)"
proof (cases "map_of (sh_cache h) n")
  case None
  have "segment_path (path_Join [sh_dir h, path_Base n])" using assms(2) by (auto simp: segment_path_def)
  then have fs: "fs' (path_Join [sh_dir h, path_Base n]) = Some d" if "fs (path_Join [sh_dir h, path_Base n]) = Some d" for d
    using that assms(3) by blast
  show ?thesis using assms(1,4) None fs
    by (auto simp: SegmentHashes_Hash_def published_def hashes_coherent_def Let_def split: option.splits if_splits)
next
  case (Some x)
  then show ?thesis using assms(1,4) by (auto simp: SegmentHashes_Hash_def hashes_coherent_def)
qed

lemma inject_kept:
  assumes "\<And>p d. segment_path p \<Longrightarrow> fs p = Some d \<Longrightarrow> fs' p = Some d"
  shows "hashes_coherent blake fs' h \<Longrightarrow> hashes_coherent blake fs' (snd (fold (inject_line blake fs) rows (out, h)))"
proof (induction rows arbitrary: out h)
  case (Cons row rows)
  obtain r h' where rh: "SegmentHashes_Hash blake fs (TrimSpace row) h = (r, h')" by fastforce
  obtain out1 h1 where l: "inject_line blake fs row (out, h) = (out1, h1)" by fastforce
  have "hashes_coherent blake fs' h1"
  proof (cases "HasSuffix (TrimSpace row) ''.ts'' \<and> \<not> HasPrefix (TrimSpace row) ''#''")
    case True
    then have "h1 = h'" using l rh by (auto simp: inject_line_def split: option.splits)
    then show ?thesis using Hash_kept [OF Cons.prems conjunct1 [OF True] assms rh] by blast
  next
    case False
    then have "h1 = h" using l by (auto simp: inject_line_def Let_def)
    then show ?thesis using Cons.prems by simp
  qed
  then show ?case using Cons.IH [of h1 out1] l by simp
qed simp

lemma InjectHashes_kept:
  assumes "\<And>p d. segment_path p \<Longrightarrow> fs p = Some d \<Longrightarrow> fs' p = Some d" and "hashes_coherent blake fs' h"
  shows "hashes_coherent blake fs' (snd (InjectHashes blake fs pl h))"
proof -
  obtain out h' where f: "fold (inject_line blake fs) (split_on (CHR 0x0A) (string_of_bytes pl)) ([], h) = (out, h')" by fastforce
  then have "hashes_coherent blake fs' h'" using inject_kept [OF assms] by (metis snd_conv)
  then show ?thesis by (simp add: InjectHashes_def f)
qed

definition past_of :: "media_env \<Rightarrow> media_ev \<Rightarrow> bool" where
  \<comment> \<open>the files the event saw are kept until now\<close>
  "past_of now ev = (case ev of MFile env _ _ \<Rightarrow> segments_kept env now | _ \<Rightarrow> True)"

definition engine_coherent :: "media_env \<Rightarrow> Engine \<Rightarrow> bool" where
  "engine_coherent now e \<longleftrightarrow> (\<forall>cid j. map_of (en_jobs e) cid = Some j \<longrightarrow> hashes_coherent (me_sum now) (me_file now) (jb_hashes j))"

lemma job_file_coherent:
  assumes "job_file env cid name j = (r, j')" and "segments_kept env now"
    and "hashes_coherent (me_sum now) (me_file now) (jb_hashes j)"
  shows "hashes_coherent (me_sum now) (me_file now) (jb_hashes j')"
proof -
  have "hashes_coherent (me_sum now) (me_file now) (snd (InjectHashes (me_sum env) (me_file env) data (jb_hashes j)))" for data
    using InjectHashes_kept [of "me_file env" "me_file now" "me_sum now"] assms(2,3) by (simp add: segments_kept_def)
  then have "hashes_coherent (me_sum now) (me_file now) h" if "InjectHashes (me_sum env) (me_file env) data (jb_hashes j) = (out, h)" for data out h
    by (metis that snd_conv)
  then show ?thesis using assms(1,3)
    by (auto simp: job_file_def split: if_splits read_res.splits prod.splits)
qed

lemma engine_coherent_step:
  assumes "engine_coherent now e" and "past_of now ev"
  shows "engine_coherent now (media_do ev e)"
proof (cases ev)
  case (MFile env cid name)
  show ?thesis
  proof (cases rule: Engine_File_cases [of e cid env name])
    case (failed err)
    then show ?thesis using assms MFile by simp
  next
    case (served j r j')
    have "hashes_coherent (me_sum now) (me_file now) (jb_hashes j)"
      using served(2) assms(1) by (auto simp: engine_coherent_def)
    then show ?thesis using assms MFile served job_file_coherent [OF served(1)] by (auto simp: engine_coherent_def past_of_def)
  qed
qed (use assms in \<open>auto simp: engine_coherent_def finish_job_def split: option.split\<close>)

lemma engine_coherent_run:
  "engine_coherent now e \<Longrightarrow> \<forall>ev \<in> set evs. past_of now ev \<Longrightarrow> engine_coherent now (fold media_do evs e)"
  by (induction evs arbitrary: e) (simp_all add: engine_coherent_step)

lemma Engine_File_job:
  assumes "engine_ok e" and "Engine_File env cid name e = (Inr x, e')"
  obtains j j' where "job_file env cid name j = (Inr x, j')" "job_ok (en_cacheDir e) cid j"
    "map_of (en_jobs e) cid = Some j \<or> (\<exists>title. j = new_job (path_Join [en_cacheDir e, cid]) title)"
proof (cases rule: Engine_File_cases [of e cid env name])
  case (failed err)
  then show ?thesis using assms(2) by simp
next
  case (served j r j')
  then have "job_ok (en_cacheDir e) cid j" using assms(1) new_job_ok(1) [of "en_cacheDir e" cid] by (auto simp: engine_ok_def)
  moreover have "map_of (en_jobs e) cid = Some j \<or> (\<exists>title. j = new_job (path_Join [en_cacheDir e, cid]) title)"
    using served(2) by blast
  ultimately show ?thesis using that [of j j'] served(1,3) assms(2) by simp
qed

lemma suffix_ts: "HasSuffix n ''.ts'' \<Longrightarrow> \<not> HasSuffix n ''.m3u8'' \<and> n \<noteq> ''index.m3u8'' \<and> n \<noteq> ''playlist.m3u8''"
  by (auto simp: HasSuffix_suffix suffix_def)

text \<open>
  C25. What the playlist promises, the Segments keep: as long as a Segment on disk is not changed, a hash that
  the engine published for a Segment, in whatever state it was and whatever it had memoised before, verifies the
  bytes the engine serves for that name at any later time, whatever requests and jobs come in between.
\<close>
theorem served_segments_verify:
  assumes "e = fold media_do evs (NewEngine store cacheDir)" and "\<forall>ev \<in> set evs. past_of now ev"
    and blake: "\<And>d. length (me_sum now d) = 32"
    and index: "Engine_File now cid ''index.m3u8'' e = (Inr (out, c), e1)"
    and disk: "me_read now (path_Join [path_Join [cacheDir, cid], ''index.m3u8'']) = RData pl"
    and tags: "\<forall>row \<in> set (split_on (CHR 0x0A) (string_of_bytes pl)). \<not> HasPrefix (TrimSpace row) hashTag"
    and hash: "map_of (ParseHashes out) n = Some hx"
    and later: "segments_kept now later" "Engine_File later cid n (fold media_do evs' e1) = (Inr (data, c'), e2)"
  shows "VerifySegment (me_sum now) data hx"
proof -
  let ?dir = "path_Join [cacheDir, cid]" and ?e1 = "fold media_do evs' e1"
  have base: "path_Base ''index.m3u8'' = ''index.m3u8''" by (rule path_Base_id) (simp_all add: slash_def)
  have ok: "engine_ok e" "en_cacheDir e = cacheDir"
    using engine_ok_run [OF engine_ok_new [of store cacheDir], of evs] assms(1) by (simp_all add: NewEngine_def)
  have "e1 = media_do (MFile now cid ''index.m3u8'') e" by (simp add: index)
  then have ok1: "engine_ok ?e1" "en_cacheDir ?e1 = cacheDir"
    using engine_ok_step [OF ok(1)] engine_ok_run ok(2) by (metis (no_types))+
  have coh: "engine_coherent now e"
    unfolding assms(1) by (rule engine_coherent_run [OF _ assms(2)]) (simp add: engine_coherent_def NewEngine_def)
  obtain j j' where j: "job_file now cid ''index.m3u8'' j = (Inr (out, c), j')" "job_ok cacheDir cid j"
    "map_of (en_jobs e) cid = Some j \<or> (\<exists>title. j = new_job ?dir title)"
    using Engine_File_job [OF ok(1) index] ok(2) by metis
  have h: "hashes_coherent (me_sum now) (me_file now) (jb_hashes j)" using j(3) coh by (auto simp: engine_coherent_def)
  have dir: "jb_dir j = ?dir" "sh_dir (jb_hashes j) = ?dir" using j(2) by (simp_all add: job_ok_def)
  have "out = fst (InjectHashes (me_sum now) (me_file now) pl (jb_hashes j))"
    using j(1) disk by (auto simp: job_file_def dir base HasPrefix_def split: prod.splits)
  then have "map_of (ParseHashes out) n =
      (if n \<in> TrimSpace ` set (split_on (CHR 0x0A) (string_of_bytes pl)) \<and> HasSuffix n ''.ts'' \<and> \<not> HasPrefix n ''#''
       then map_option (\<lambda>data. hex_EncodeToString (me_sum now data)) (me_file now (path_Join [?dir, path_Base n])) else None)"
    using inject_parse_roundtrip [OF blake h tags, of n] dir(2) by simp
  then obtain d where d: "HasSuffix n ''.ts''" "me_file now (path_Join [?dir, path_Base n]) = Some d" "hx = hex_EncodeToString (me_sum now d)"
    using hash by (auto split: if_splits dest: sym)
  then have "segment_path (path_Join [?dir, path_Base n])" by (auto simp: segment_path_def)
  then have "me_file later (path_Join [?dir, path_Base n]) = Some d" using later(1) d(2) by (auto simp: segments_kept_def)
  then have rd: "me_read later (path_Join [?dir, path_Base n]) = RData d" by (simp add: me_file_def split: read_res.splits)
  obtain k k' where k: "job_file later cid n k = (Inr (data, c'), k')" "job_ok cacheDir cid k"
    using Engine_File_job [OF ok1(1) later(2)] ok1(2) by metis
  then have "data = d" using suffix_ts [OF d(1)] rd by (auto simp: job_file_def job_ok_def)
  moreover have "me_sum now d \<noteq> []" using blake [of d] by auto
  ultimately show ?thesis using VerifySegment_hex [of "me_sum now" d "me_sum now d"] d(3) by simp
qed

section \<open>Limits of the engine\<close>

lemma complete_step:
  assumes "isComplete cid e"
  shows "isComplete cid (media_do ev e) \<and> count_list (en_started (media_do ev e)) cid = count_list (en_started e) cid"
proof (cases ev)
  case (MFile env cid' name)
  show ?thesis
  proof (cases rule: Engine_File_cases [of e cid' env name])
    case (failed err)
    then show ?thesis using assms MFile by simp
  next
    case (served j r j')
    then show ?thesis using assms MFile job_file_ok [OF served(1)]
      by (cases "cid' = cid") (auto simp: isComplete_def split: option.splits)
  qed
qed (use assms in \<open>auto simp: isComplete_def finish_job_def split: option.splits\<close>)

lemma complete_run:
  "isComplete cid e \<Longrightarrow>
   isComplete cid (fold media_do evs e) \<and> count_list (en_started (fold media_do evs e)) cid = count_list (en_started e) cid"
  by (induction evs arbitrary: e) (simp_all add: complete_step)

text \<open>
  A failed run is final: \<open>runJob\<close> ignores the errors of ffmpeg, so a job whose run failed counts as complete;
  from then on, whatever is requested, the job is never started again and a missing file is answered by
  \<open>ErrNotFound\<close>, the answer for content that does not exist.
\<close>
theorem failed_job_is_final:
  assumes "isComplete cid e" and "engine_ok e"
    and "me_read env (path_Join [path_Join [en_cacheDir e, cid], path_Base name]) = RNotExist"
    and "name \<noteq> ''playlist.m3u8''" and "\<not> (HasPrefix name ''sub_'' \<and> HasSuffix name ''.m3u8'')"
  shows "fst (Engine_File env cid name (fold media_do evs e)) = Inl ErrNotFound \<and>
         count_list (en_started (fold media_do evs e)) cid = count_list (en_started e) cid"
proof -
  let ?e = "fold media_do evs e"
  note c = complete_run [OF assms(1), of evs] and ok = engine_ok_run [OF assms(2), of evs]
  obtain j where j: "map_of (en_jobs ?e) cid = Some j" "jb_complete j"
    using c by (auto simp: isComplete_def split: option.splits)
  then have "jb_dir j = path_Join [en_cacheDir e, cid]" using ok by (auto simp: engine_ok_def job_ok_def)
  then have "job_file env cid name j = (Inl ErrNotFound, j)" using assms(3,4,5) j(2) by (auto simp: job_file_def)
  then show ?thesis using c j by (simp add: Engine_File_def ensureJob_def)
qed

text \<open>
  Two text tracks of one language share the file \<open>sub_LANG.vtt\<close>: after the job ran, it holds the last
  track's text, although the master playlist offers both.
\<close>
theorem subtitle_tracks_collide:
  assumes "TextSubtitleTracks (ti_Subtitles (jb_title j)) = [a, b]" and "su_Language a = su_Language b"
    and "\<And>args fs. run args fs = fs(last args := Some args)"
    and "sub = path_Join [jb_dir j, ''sub_'' @ su_Language a @ ''.vtt'']" and "sub \<noteq> path_Join [jb_dir j, ''index.m3u8'']"
  shows "runJob run j fs sub = Some (extractVTTArgs (jb_title j) b sub)"
  using assms(2,4,5) by (simp add: runJob_def assms(1,3) FFmpegArgs_def Let_def extractVTTArgs_def)

definition example_title :: Title where
  "example_title =
     \<lparr>ti_ContentID = ''c'', ti_Path = ''/m/a.mkv'', ti_DisplayTitle = ''a'', ti_Size = 1, ti_ModUnix = 0, ti_DurationMS = 1000,
      ti_Container = ''mkv'', ti_VideoCodec = ''h264'', ti_AudioCodecs = [''aac''], ti_Width = 640, ti_Height = 480,
      ti_HLSCompatible = True, ti_Subtitles = [], ti_AddedAt = 0\<rparr>"

definition example_files :: "bytes \<Rightarrow> string \<Rightarrow> read_res" where
  "example_files seg p =
     (if p = ''/k/c/index.m3u8'' then RData (bytes_of_string ''seg00000.ts'')
      else if p = ''/k/c/seg00000.ts'' then RData seg else RNotExist)"

definition example_menv :: "bytes \<Rightarrow> media_env" where
  "example_menv seg = \<lparr>me_dbErr = None, me_mkErr = None, me_read = example_files seg, me_sum = example_sum256\<rparr>"

definition example_engine :: Engine where
  "example_engine = NewEngine [example_title] ''/k''"

lemma example_paths:
  "path_Join [''/k'', ''c''] = ''/k/c''" "path_Join [''/k/c'', path_Base ''index.m3u8''] = ''/k/c/index.m3u8''"
  "path_Join [''/k/c'', ''index.m3u8''] = ''/k/c/index.m3u8''"
  "path_Join [''/k/c'', path_Base ''seg00000.ts''] = ''/k/c/seg00000.ts''"
  by code_simp+

lemma example_seg: "TrimSpace ''seg00000.ts'' = ''seg00000.ts''" "split_on (CHR 0x0A) ''seg00000.ts'' = [''seg00000.ts'']"
  "HasSuffix ''seg00000.ts'' ''.ts''" "\<not> HasPrefix ''seg00000.ts'' ''#''" "\<not> HasPrefix ''seg00000.ts'' hashTag"
  "HasPrefix ''seg00000.ts'' ''sub_'' = False" "HasPrefix ''index.m3u8'' ''sub_'' = False"
  by code_simp+

definition example_after :: Engine where
  "example_after = snd (Engine_File (example_menv [1]) ''c'' ''index.m3u8'' example_engine)"

definition example_index :: string where
  \<comment> \<open>the playlist with the hash of a Segment of the given bytes\<close>
  "example_index = hashTag @ hex_EncodeToString (example_sum256 [1]) @ [CHR 0x0A] @ ''seg00000.ts''"

lemma example_files_simps:
  "example_files seg ''/k/c/index.m3u8'' = RData (bytes_of_string ''seg00000.ts'')"
  "example_files seg ''/k/c/seg00000.ts'' = RData seg"
  by (simp_all add: example_files_def)

lemma example_get: "Store_Get ''c'' [example_title] = Some example_title"
  by (simp add: Store_Get_def example_title_def)

lemma example_job:
  "Engine_File (example_menv [1]) ''c'' ''index.m3u8'' example_engine =
     (Inr (bytes_of_string example_index, False),
      example_engine\<lparr>en_jobs := [(''c'', \<lparr>jb_dir = ''/k/c'', jb_title = example_title, jb_complete = False,
         jb_hashes = \<lparr>sh_dir = ''/k/c'', sh_cache = [(''seg00000.ts'', hex_EncodeToString (example_sum256 [1]))]\<rparr>\<rparr>)],
        en_started := [''c'']\<rparr>)"
  by (simp add: Engine_File_def ensureJob_def example_engine_def NewEngine_def example_menv_def example_get new_job_def NewSegmentHashes_def put_job_def job_file_def example_paths example_files_simps example_seg InjectHashes_def
      inject_line_def SegmentHashes_Hash_def me_file_def example_index_def hashTag_def Let_def)

theorem served_segments_verify_witness:
  "VerifySegment example_sum256 [1] (hex_EncodeToString (example_sum256 [1]))"
proof -
  have hash: "map_of (ParseHashes (bytes_of_string example_index)) ''seg00000.ts'' = Some (hex_EncodeToString (example_sum256 [1]))"
    by code_simp
  have seg: "Engine_File (example_menv [1]) ''c'' ''seg00000.ts'' (fold media_do [MFinish ''c''] (snd (Engine_File (example_menv [1]) ''c'' ''index.m3u8'' example_engine)))
      = (Inr ([1], True), snd (Engine_File (example_menv [1]) ''c'' ''seg00000.ts'' (fold media_do [MFinish ''c''] (snd (Engine_File (example_menv [1]) ''c'' ''index.m3u8'' example_engine)))))"
    unfolding example_job snd_conv
    by (simp add: Engine_File_def ensureJob_def finish_job_def job_file_def put_job_def example_engine_def NewEngine_def example_paths
        example_seg) (simp add: example_menv_def example_files_simps)
  have "VerifySegment (me_sum (example_menv [1])) [1] (hex_EncodeToString (example_sum256 [1]))"
  proof (rule served_segments_verify [of example_engine "[]" "[example_title]" "''/k''" "example_menv [1]" "''c''"
        "bytes_of_string example_index" False _ "bytes_of_string ''seg00000.ts''" "''seg00000.ts''" _ "example_menv [1]" "[MFinish ''c'']"])
    show "Engine_File (example_menv [1]) ''c'' ''index.m3u8'' example_engine =
      (Inr (bytes_of_string example_index, False), snd (Engine_File (example_menv [1]) ''c'' ''index.m3u8'' example_engine))"
      by (simp add: example_job)
  qed (use seg hash in \<open>simp_all add: example_engine_def example_menv_def example_sum256_def example_paths example_files_simps
        example_seg segments_kept_def\<close>)
  then show ?thesis by (simp add: example_menv_def)
qed

text \<open>
  A memoised hash outlives the file: a Segment rewritten after its hash was published (a Node restarted over
  its cache serves the old playlist while the new run of ffmpeg overwrites the files) keeps the old hash in
  every later playlist, and the bytes the Host itself serves fail verification.
\<close>
theorem memoised_hash_goes_stale:
  "let e = snd (Engine_File (example_menv [1]) ''c'' ''index.m3u8'' example_engine)
   in fst (Engine_File (example_menv [2]) ''c'' ''index.m3u8'' e) = Inr (bytes_of_string example_index, False) \<and>
      fst (Engine_File (example_menv [2]) ''c'' ''seg00000.ts'' e) = Inr ([2], False) \<and>
      map_of (ParseHashes (bytes_of_string example_index)) ''seg00000.ts'' = Some (hex_EncodeToString (example_sum256 [1])) \<and>
      \<not> VerifySegment example_sum256 [2] (hex_EncodeToString (example_sum256 [1]))"
proof -
  have p: "map_of (ParseHashes (bytes_of_string example_index)) ''seg00000.ts'' = Some (hex_EncodeToString (example_sum256 [1]))"
    "\<not> VerifySegment example_sum256 [2] (hex_EncodeToString (example_sum256 [1]))"
    by code_simp+
  show ?thesis unfolding Let_def example_job snd_conv
    by (simp add: p) (simp add: Engine_File_def ensureJob_def job_file_def example_menv_def example_paths example_files_simps example_seg
      InjectHashes_def inject_line_def SegmentHashes_Hash_def example_index_def hashTag_def Let_def)
qed


theorem failed_job_is_final_witness:
  "fst (Engine_File (example_menv [1]) ''c'' ''seg00009.ts'' (finish_job ''c'' example_after)) = Inl ErrNotFound"
proof -
  have p: "path_Join [path_Join [''/k'', ''c''], path_Base ''seg00009.ts''] = ''/k/c/seg00009.ts''" by code_simp
  have n: "HasPrefix ''seg00009.ts'' ''sub_'' = False" by code_simp
  have ok: "engine_ok (finish_job ''c'' example_after)" "en_cacheDir (finish_job ''c'' example_after) = ''/k''"
    using engine_ok_run [OF engine_ok_new [of "[example_title]" "''/k''"], of "[MFile (example_menv [1]) ''c'' ''index.m3u8'', MFinish ''c'']"]
    by (simp_all add: example_after_def example_engine_def NewEngine_def)
  have "isComplete ''c'' (finish_job ''c'' example_after)"
    by (simp add: example_after_def example_job isComplete_def finish_job_def put_job_def)
  from failed_job_is_final [OF this ok(1), of "example_menv [1]" "''seg00009.ts''" "[]"] show ?thesis
    by (simp add: ok(2) p n) (simp add: example_menv_def example_files_def)
qed

end
