(* ===== verification/Event_Hub.thy ===== *)
theory Event_Hub
  imports Go_Strings "HOL-Library.Sublist"
begin

text \<open>
  The event hub of \<open>internal/app/events.go\<close>: an in-process fan-out of control-plane events to the
  server-sent-event streams of the user interface.

  A \<open>*subscription\<close> is an index into \<open>hb_chans\<close>, which holds its channel of capacity 32. The goroutine of
  \<open>Subscribe\<close> is a \<open>forwarder\<close>: it holds at most one encoded event while it waits for room in the
  channel \<open>out\<close>. \<open>json.Marshal\<close> of an event is the parameter \<open>marshal\<close> (\<open>None\<close>: an error).
\<close>

section \<open>The hub\<close>

record Event =
  ev_Type :: string
  ev_Data :: "string option"   \<comment> \<open>the JSON of \<open>Data\<close>, absent for nil\<close>

record subscription =
  sb_buf :: "Event list"
  sb_closed :: bool

record hub =
  hb_subs :: "nat list"
  hb_chans :: "subscription list"

definition subCap :: nat where "subCap = 32"

definition newHub :: hub where "newHub = \<lparr>hb_subs = [], hb_chans = []\<rparr>"

definition hub_subscribe :: "hub \<Rightarrow> nat \<times> hub" where
  "hub_subscribe h =
     (let k = length (hb_chans h)
      in (k, h\<lparr>hb_subs := k # hb_subs h, hb_chans := hb_chans h @ [\<lparr>sb_buf = [], sb_closed = False\<rparr>]\<rparr>))"

definition upd_sub :: "nat \<Rightarrow> (subscription \<Rightarrow> subscription) \<Rightarrow> hub \<Rightarrow> hub" where
  "upd_sub k f h = h\<lparr>hb_chans := (hb_chans h)[k := f (hb_chans h ! k)]\<rparr>"

definition hub_unsubscribe :: "nat \<Rightarrow> hub \<Rightarrow> hub" where
  "hub_unsubscribe k h =
     (if k \<in> set (hb_subs h)
      then upd_sub k (\<lambda>s. s\<lparr>sb_closed := True\<rparr>) (h\<lparr>hb_subs := removeAll k (hb_subs h)\<rparr>) else h)"

definition offer :: "Event \<Rightarrow> subscription \<Rightarrow> subscription" where
  \<comment> \<open>\<open>select { case s.ch <- e: default: }\<close>\<close>
  "offer e s = (if length (sb_buf s) < subCap then s\<lparr>sb_buf := sb_buf s @ [e]\<rparr> else s)"

definition hub_publish :: "Event \<Rightarrow> hub \<Rightarrow> hub" where
  "hub_publish e h = fold (\<lambda>k. upd_sub k (offer e)) (hb_subs h) h"

section \<open>The stream of one client: \<open>Subscribe\<close>\<close>

record forwarder =
  fw_out :: "string list"       \<comment> \<open>the channel \<open>out\<close>, of the capacity of \<open>sub.C\<close>\<close>
  fw_hold :: "string option"    \<comment> \<open>the encoded event the goroutine is sending\<close>
  fw_done :: bool
  fw_exited :: bool

definition newForwarder :: forwarder where
  "newForwarder = \<lparr>fw_out = [], fw_hold = None, fw_done = False, fw_exited = False\<rparr>"

definition forward_recv :: "(Event \<Rightarrow> string option) \<Rightarrow> subscription \<Rightarrow> forwarder \<Rightarrow> subscription \<times> forwarder" where
  \<comment> \<open>\<open>case e, ok := <-sub.C\<close>\<close>
  "forward_recv marshal s f =
     (if fw_exited f \<or> fw_hold f \<noteq> None then (s, f)
      else case sb_buf s of
             [] \<Rightarrow> (s, if sb_closed s then f\<lparr>fw_exited := True\<rparr> else f)
           | e # es \<Rightarrow> (s\<lparr>sb_buf := es\<rparr>, f\<lparr>fw_hold := marshal e\<rparr>))"

definition forward_send :: "forwarder \<Rightarrow> forwarder" where
  \<comment> \<open>\<open>case out <- string(b)\<close>\<close>
  "forward_send f =
     (case fw_hold f of None \<Rightarrow> f
      | Some b \<Rightarrow> if fw_exited f \<or> subCap \<le> length (fw_out f) then f
                  else f\<lparr>fw_out := fw_out f @ [b], fw_hold := None\<rparr>)"

definition forward_done :: "forwarder \<Rightarrow> forwarder" where
  \<comment> \<open>\<open>case <-done: return\<close>\<close>
  "forward_done f = (if fw_done f then f\<lparr>fw_exited := True, fw_hold := None\<rparr> else f)"

section \<open>Executions\<close>

record watcher =
  wa_heard :: "Event list"     \<comment> \<open>what was published while subscribed\<close>
  wa_drops :: nat              \<comment> \<open>how often the buffer was full\<close>
  wa_taken :: "string list"    \<comment> \<open>what the client read from \<open>out\<close>\<close>

record hubsys =
  hy_hub :: hub
  hy_fws :: "forwarder list"
  hy_obs :: "watcher list"

datatype hub_ev = HSubscribe | HPublish Event | HRecv nat | HSend nat | HDone nat | HTake nat | HCancel nat

definition listen :: "hub \<Rightarrow> Event \<Rightarrow> nat \<Rightarrow> watcher \<Rightarrow> watcher" where
  "listen h e k wa =
     (if k \<in> set (hb_subs h)
      then wa\<lparr>wa_heard := wa_heard wa @ [e],
              wa_drops := wa_drops wa + (if length (sb_buf (hb_chans h ! k)) < subCap then 0 else 1)\<rparr>
      else wa)"

fun hub_do :: "(Event \<Rightarrow> string option) \<Rightarrow> hub_ev \<Rightarrow> hubsys \<Rightarrow> hubsys" where
  "hub_do marshal HSubscribe y =
     y\<lparr>hy_hub := snd (hub_subscribe (hy_hub y)), hy_fws := hy_fws y @ [newForwarder],
       hy_obs := hy_obs y @ [\<lparr>wa_heard = [], wa_drops = 0, wa_taken = []\<rparr>]\<rparr>"
| "hub_do marshal (HPublish e) y =
     y\<lparr>hy_hub := hub_publish e (hy_hub y), hy_obs := map (\<lambda>k. listen (hy_hub y) e k (hy_obs y ! k)) [0..<length (hy_obs y)]\<rparr>"
| "hub_do marshal (HRecv k) y =
     (if k < length (hy_fws y)
      then (case forward_recv marshal (hb_chans (hy_hub y) ! k) (hy_fws y ! k) of (s, f) \<Rightarrow>
              y\<lparr>hy_hub := upd_sub k (\<lambda>_. s) (hy_hub y), hy_fws := (hy_fws y)[k := f]\<rparr>) else y)"
| "hub_do marshal (HSend k) y =
     (if k < length (hy_fws y) then y\<lparr>hy_fws := (hy_fws y)[k := forward_send (hy_fws y ! k)]\<rparr> else y)"
| "hub_do marshal (HDone k) y =
     (if k < length (hy_fws y) then y\<lparr>hy_fws := (hy_fws y)[k := forward_done (hy_fws y ! k)]\<rparr> else y)"
| "hub_do marshal (HTake k) y =
     (if k < length (hy_fws y)
      then (case fw_out (hy_fws y ! k) of [] \<Rightarrow> y
            | b # bs \<Rightarrow> y\<lparr>hy_fws := (hy_fws y)[k := (hy_fws y ! k)\<lparr>fw_out := bs\<rparr>],
                          hy_obs := (hy_obs y)[k := (hy_obs y ! k)\<lparr>wa_taken := wa_taken (hy_obs y ! k) @ [b]\<rparr>]\<rparr>) else y)"
| "hub_do marshal (HCancel k) y =
     (if k < length (hy_fws y)
      then y\<lparr>hy_hub := hub_unsubscribe k (hy_hub y), hy_fws := (hy_fws y)[k := (hy_fws y ! k)\<lparr>fw_done := True\<rparr>]\<rparr> else y)"

section \<open>Every stream is in order and loses nothing but overflow\<close>

definition pipe :: "(Event \<Rightarrow> string option) \<Rightarrow> subscription \<Rightarrow> forwarder \<Rightarrow> watcher \<Rightarrow> string list" where
  \<comment> \<open>what the client has read, then what is on its way to it\<close>
  "pipe marshal s f wa =
     wa_taken wa @ fw_out f @ (case fw_hold f of None \<Rightarrow> [] | Some b \<Rightarrow> [b]) @ List.map_filter marshal (sb_buf s)"

definition stream_ok :: "(Event \<Rightarrow> string option) \<Rightarrow> subscription \<Rightarrow> forwarder \<Rightarrow> watcher \<Rightarrow> bool" where
  "stream_ok marshal s f wa \<longleftrightarrow>
     subseq (pipe marshal s f wa) (List.map_filter marshal (wa_heard wa)) \<and>
     (wa_drops wa = 0 \<and> \<not> fw_exited f \<longrightarrow> pipe marshal s f wa = List.map_filter marshal (wa_heard wa)) \<and>
     length (sb_buf s) \<le> subCap \<and> length (fw_out f) \<le> subCap"

definition hub_ok :: "(Event \<Rightarrow> string option) \<Rightarrow> hubsys \<Rightarrow> bool" where
  "hub_ok marshal y \<longleftrightarrow>
     length (hy_fws y) = length (hb_chans (hy_hub y)) \<and> length (hy_obs y) = length (hb_chans (hy_hub y)) \<and>
     distinct (hb_subs (hy_hub y)) \<and>
     (\<forall>k \<in> set (hb_subs (hy_hub y)). k < length (hb_chans (hy_hub y)) \<and> \<not> sb_closed (hb_chans (hy_hub y) ! k)) \<and>
     (\<forall>k < length (hb_chans (hy_hub y)). stream_ok marshal (hb_chans (hy_hub y) ! k) (hy_fws y ! k) (hy_obs y ! k))"

lemma map_filter_snoc [simp]:
  "List.map_filter f (xs @ [x]) = List.map_filter f xs @ (case f x of None \<Rightarrow> [] | Some y \<Rightarrow> [y])"
  by (simp add: List.map_filter_def split: option.splits)

lemma map_filter_Cons [simp]:
  "List.map_filter f (x # xs) = (case f x of None \<Rightarrow> [] | Some y \<Rightarrow> [y]) @ List.map_filter f xs"
  by (simp add: List.map_filter_def split: option.splits)

lemma upd_sub_fields [simp]:
  "hb_subs (upd_sub k f h) = hb_subs h" "length (hb_chans (upd_sub k f h)) = length (hb_chans h)"
  by (simp_all add: upd_sub_def)

lemma upd_sub_nth: "k < length (hb_chans h) \<Longrightarrow> hb_chans (upd_sub k f h) ! j = (if j = k then f (hb_chans h ! k) else hb_chans h ! j)"
  by (simp add: upd_sub_def)

lemma publish_fold:
  assumes "distinct ks" and "\<forall>k \<in> set ks. k < length (hb_chans h)"
  shows "hb_subs (fold (\<lambda>k. upd_sub k (offer e)) ks h) = hb_subs h \<and>
         length (hb_chans (fold (\<lambda>k. upd_sub k (offer e)) ks h)) = length (hb_chans h) \<and>
         hb_chans (fold (\<lambda>k. upd_sub k (offer e)) ks h) ! j = (if j \<in> set ks then offer e (hb_chans h ! j) else hb_chans h ! j)"
  using assms by (induction ks arbitrary: h) (auto simp: upd_sub_nth)

lemma offer_closed [simp]: "sb_closed (offer e s) = sb_closed s"
  by (simp add: offer_def)

lemma stream_ok_publish:
  assumes "stream_ok marshal (hb_chans h ! k) f wa" and "k \<in> set (hb_subs h)"
  shows "stream_ok marshal (offer e (hb_chans h ! k)) f (listen h e k wa)"
proof (cases "length (sb_buf (hb_chans h ! k)) < subCap")
  case True
  then show ?thesis using assms
    by (auto simp: stream_ok_def pipe_def offer_def listen_def list_emb_append_mono simp flip: append_assoc)
next
  case False
  then show ?thesis using assms
    by (auto simp: stream_ok_def pipe_def offer_def listen_def intro: subseq_order.order_trans simp flip: append_assoc)
qed

lemma stream_ok_recv:
  assumes "stream_ok marshal s f wa"
  shows "stream_ok marshal (fst (forward_recv marshal s f)) (snd (forward_recv marshal s f)) wa"
  using assms by (auto simp: stream_ok_def pipe_def forward_recv_def split: list.splits option.splits)

lemma stream_ok_send: "stream_ok marshal s f wa \<Longrightarrow> stream_ok marshal s (forward_send f) wa"
  by (auto simp: stream_ok_def pipe_def forward_send_def split: option.splits)

lemma subseq_drop_mid: "subseq (xs @ ys @ zs) ws \<Longrightarrow> subseq (xs @ zs) ws"
proof -
  have "subseq (xs @ zs) (xs @ ys @ zs)" by (simp add: subseq_append' list_emb_append2)
  then show "subseq (xs @ ys @ zs) ws \<Longrightarrow> subseq (xs @ zs) ws" by (rule subseq_order.order_trans)
qed

lemma stream_ok_done:
  assumes "stream_ok marshal s f wa"
  shows "stream_ok marshal s (forward_done f) wa"
proof (cases "fw_done f")
  case True
  have "subseq ((wa_taken wa @ fw_out f) @ List.map_filter marshal (sb_buf s)) (List.map_filter marshal (wa_heard wa))"
    by (rule subseq_drop_mid [where ys = "case fw_hold f of None \<Rightarrow> [] | Some b \<Rightarrow> [b]"])
      (use assms in \<open>simp add: stream_ok_def pipe_def\<close>)
  then show ?thesis using True assms by (simp add: stream_ok_def pipe_def forward_done_def)
qed (use assms in \<open>simp add: forward_done_def\<close>)

lemma stream_ok_take:
  "stream_ok marshal s f wa \<Longrightarrow> fw_out f = b # bs \<Longrightarrow>
   stream_ok marshal s (f\<lparr>fw_out := bs\<rparr>) (wa\<lparr>wa_taken := wa_taken wa @ [b]\<rparr>)"
  by (auto simp: stream_ok_def pipe_def)

lemma stream_ok_flags:
  "stream_ok marshal (s\<lparr>sb_closed := x\<rparr>) f wa = stream_ok marshal s f wa"
  "stream_ok marshal s (f\<lparr>fw_done := y\<rparr>) wa = stream_ok marshal s f wa"
  by (simp_all add: stream_ok_def pipe_def)

lemma hub_okD:
  assumes "hub_ok marshal y"
  shows "length (hy_fws y) = length (hb_chans (hy_hub y))" "length (hy_obs y) = length (hb_chans (hy_hub y))"
    "distinct (hb_subs (hy_hub y))" "k \<in> set (hb_subs (hy_hub y)) \<Longrightarrow> k < length (hb_chans (hy_hub y))"
    "k \<in> set (hb_subs (hy_hub y)) \<Longrightarrow> \<not> sb_closed (hb_chans (hy_hub y) ! k)"
    "k < length (hb_chans (hy_hub y)) \<Longrightarrow> stream_ok marshal (hb_chans (hy_hub y) ! k) (hy_fws y ! k) (hy_obs y ! k)"
  using assms by (auto simp: hub_ok_def)

lemma hub_ok_step:
  assumes "hub_ok marshal y"
  shows "hub_ok marshal (hub_do marshal ev y)"
proof (cases ev)
  case HSubscribe
  then show ?thesis using hub_okD [OF assms]
    by (auto simp: hub_ok_def hub_subscribe_def Let_def nth_append less_Suc_eq stream_ok_def pipe_def newForwarder_def
        List.map_filter_def dest: less_imp_neq)
next
  case (HPublish e)
  note ok = hub_okD [OF assms]
  have "\<forall>k \<in> set (hb_subs (hy_hub y)). k < length (hb_chans (hy_hub y))" using ok(4) by blast
  note pf = publish_fold [OF ok(3) this, of e]
  have listen: "listen (hy_hub y) e k wa = wa" if "k \<notin> set (hb_subs (hy_hub y))" for k wa
    using that by (simp add: listen_def)
  show ?thesis using ok pf HPublish
    by (auto simp: hub_ok_def hub_publish_def stream_ok_publish listen)
next
  case (HRecv k)
  obtain s f where r: "forward_recv marshal (hb_chans (hy_hub y) ! k) (hy_fws y ! k) = (s, f)" by fastforce
  then have "sb_closed s = sb_closed (hb_chans (hy_hub y) ! k)"
    by (auto simp: forward_recv_def split: if_splits list.splits)
  then show ?thesis using hub_okD [OF assms] HRecv r stream_ok_recv [of marshal "hb_chans (hy_hub y) ! k" "hy_fws y ! k"]
    by (auto simp: hub_ok_def upd_sub_nth nth_list_update)
next
  case (HSend k)
  then show ?thesis using hub_okD [OF assms] by (auto simp: hub_ok_def nth_list_update stream_ok_send)
next
  case (HDone k)
  then show ?thesis using hub_okD [OF assms] by (auto simp: hub_ok_def nth_list_update stream_ok_done)
next
  case (HTake k)
  then show ?thesis using hub_okD [OF assms]
    by (auto simp: hub_ok_def nth_list_update stream_ok_take split: list.splits)
next
  case (HCancel k)
  then show ?thesis using hub_okD [OF assms]
    by (auto simp: hub_ok_def nth_list_update stream_ok_flags hub_unsubscribe_def upd_sub_def distinct_removeAll)
qed

lemma hub_ok_run: "hub_ok marshal y \<Longrightarrow> hub_ok marshal (fold (hub_do marshal) evs y)"
  by (induction evs arbitrary: y) (simp_all add: hub_ok_step)

text \<open>
  Event streams: whatever clients come and go and whatever is published, no event is sent on a closed
  channel, and what a client has read followed by what is on its way to it is, in order, a subsequence of
  the events published while it was subscribed; it is all of them unless its buffer of 32 was full at a
  publish or it cancelled. Neither buffer of a client ever exceeds 32, so a slow client costs bounded memory.
\<close>
theorem hub_stream_in_order:
  assumes "y = fold (hub_do marshal) evs \<lparr>hy_hub = newHub, hy_fws = [], hy_obs = []\<rparr>"
    and "k < length (hb_chans (hy_hub y))"
  shows "stream_ok marshal (hb_chans (hy_hub y) ! k) (hy_fws y ! k) (hy_obs y ! k) \<and>
         (k \<in> set (hb_subs (hy_hub y)) \<longrightarrow> \<not> sb_closed (hb_chans (hy_hub y) ! k))"
proof -
  have "hub_ok marshal \<lparr>hy_hub = newHub, hy_fws = [], hy_obs = []\<rparr>" by (simp add: hub_ok_def newHub_def)
  from hub_ok_run [OF this, of evs] show ?thesis using assms hub_okD(5,6) [of marshal y k] by simp
qed

theorem hub_stream_in_order_witness:
  "stream_ok (\<lambda>e. Some (ev_Type e)) \<lparr>sb_buf = [\<lparr>ev_Type = ''audience'', ev_Data = None\<rparr>], sb_closed = False\<rparr>
     \<lparr>fw_out = [], fw_hold = None, fw_done = False, fw_exited = False\<rparr>
     \<lparr>wa_heard = [\<lparr>ev_Type = ''presence'', ev_Data = None\<rparr>, \<lparr>ev_Type = ''audience'', ev_Data = None\<rparr>], wa_drops = 0,
      wa_taken = [''presence'']\<rparr>"
  using hub_stream_in_order
    [OF refl, where k = 0 and marshal = "\<lambda>e. Some (ev_Type e)" and evs = "[HSubscribe, HPublish \<lparr>ev_Type = ''presence'', ev_Data = None\<rparr>, HRecv 0, HSend 0,
      HTake 0, HPublish \<lparr>ev_Type = ''audience'', ev_Data = None\<rparr>]"]
  by (simp add: newHub_def hub_subscribe_def Let_def hub_publish_def upd_sub_def offer_def subCap_def newForwarder_def
      listen_def forward_recv_def forward_send_def)

end
