(* ===== verification/Node_App.thy ===== *)
theory Node_App
  imports Party_Coordinator Peer_Session Signaling Media_Engine Event_Hub
begin

text \<open>
  The Node of \<open>internal/app\<close>: \<open>node.go\<close> (the table of peer sessions, dialing with the glare rule, the
  routing of relays and of the player's requests, the handlers a session is given) and \<open>download.go\<close>.

  A session is the \<open>Session\<close> of \<open>Peer_Session\<close>; the application state its handlers work on is \<open>'w\<close>, and
  for the running Node the record \<open>App\<close>: the Catalog Service, the streaming Service, the party coordinator,
  the event hub, the clock and the files of the moment. The closures \<open>svc.Allowed\<close> and \<open>n.party\<close> that \<open>SetCatalog\<close> hands to the coordinator and to the
  Service read the current state of their owner, and the two Services share one \<open>*Policy\<close> (\<open>cmd/node\<close>):
  \<open>linked_pc\<close>, \<open>linked_svc\<close> and \<open>linked_media\<close> refresh them at every call.

  Background dials and relays are logged in \<open>nd_acts\<close>. Results of calls that leave the program
  (\<open>NewPeerConnection\<close>, the offer exchange, the signaling socket, the file system) are arguments.
\<close>

section \<open>The Node: \<open>node.go\<close>\<close>

datatype node_act =
    ADial NodeID           \<comment> \<open>\<open>go n.Dial(ctx, to)\<close>\<close>
  | ARelay NodeID bytes    \<comment> \<open>\<open>n.client.SendRelay\<close>\<close>
  | AStart NodeID          \<comment> \<open>\<open>sess.Start(ctx, true)\<close>: an offer is driven\<close>

record 'w Node =
  nd_self :: NodeID
  nd_sessions :: "(NodeID, 'w Session) gomap"
  nd_catalog :: "'w RequestHandler option"
  nd_media :: "'w MediaHandler option"
  nd_party :: "'w PartyHandler \<times> 'w SwarmHandler \<times> (NodeID \<Rightarrow> 'w \<Rightarrow> 'w)"
    \<comment> \<open>the coordinator as party handler, swarm handler and \<open>OnLeaveParty\<close> on close\<close>
  nd_acts :: "node_act list"

definition NewNode :: "NodeID \<Rightarrow> 'w PartyHandler \<times> 'w SwarmHandler \<times> (NodeID \<Rightarrow> 'w \<Rightarrow> 'w) \<Rightarrow> 'w Node" where
  \<comment> \<open>once the signaling client is connected\<close>
  "NewNode self party =
     \<lparr>nd_self = self, nd_sessions = [], nd_catalog = None, nd_media = None, nd_party = party, nd_acts = []\<rparr>"

definition log_act :: "node_act \<Rightarrow> 'w Node \<Rightarrow> 'w Node" where
  "log_act a n = n\<lparr>nd_acts := nd_acts n @ [a]\<rparr>"

definition shouldDial :: "NodeID \<Rightarrow> NodeID \<Rightarrow> bool" where
  "shouldDial self peer \<longleftrightarrow> self < peer"

definition ensurePeer ::
  "(RelayEnvelope \<Rightarrow> gerror + bytes) \<Rightarrow> gerror option \<Rightarrow> NodeID \<Rightarrow> 'w Node \<Rightarrow> gerror option \<times> 'w Node" where
  \<comment> \<open>the second argument is the result of \<open>SendRelay\<close>\<close>
  "ensurePeer marshal relayErr node n =
     (if map_of (nd_sessions n) node \<noteq> None then (None, n)
      else if shouldDial (nd_self n) node then (None, log_act (ADial node) n)
      else (case EncodeRelay marshal RelayKindSwarmDial (Inr (bytes_of_string ''null'')) of
              Inl err \<Rightarrow> (Some err, n)
            | Inr payload \<Rightarrow> (relayErr, log_act (ARelay node payload) n)))"

definition peerSession ::
  "(RelayEnvelope \<Rightarrow> gerror + bytes) \<Rightarrow> gerror option \<Rightarrow> NodeID \<Rightarrow> 'w Node \<Rightarrow> (gerror + 'w Session) \<times> 'w Node" where
  "peerSession marshal relayErr node n =
     (case map_of (nd_sessions n) node of
        Some s \<Rightarrow> (if se_ready s then Inr s else Inl ErrUnavailable, n)
      | None \<Rightarrow>
          (case ensurePeer marshal relayErr node n of
             (Some err, n) \<Rightarrow> (Inl err, n)
           | (None, n) \<Rightarrow> (Inl ErrUnavailable, n)))"

definition put_session :: "NodeID \<Rightarrow> 'w Session \<Rightarrow> 'w Node \<Rightarrow> 'w Node" where
  "put_session remote s n = n\<lparr>nd_sessions := AList.update remote s (nd_sessions n)\<rparr>"

definition node_sendTo ::
  "codec \<Rightarrow> (RelayEnvelope \<Rightarrow> gerror + bytes) \<Rightarrow> gerror option \<Rightarrow> NodeID \<Rightarrow> Envelope \<Rightarrow> 'w Node \<Rightarrow> gerror option \<times> 'w Node" where
  "node_sendTo c marshal relayErr node env n =
     (case peerSession marshal relayErr node n of
        (Inl err, n) \<Rightarrow> (Some err, n)
      | (Inr s, n) \<Rightarrow> (case Session_send c env s of (err, s') \<Rightarrow> (err, put_session node s' n)))"

definition install_handlers :: "'w Node \<Rightarrow> 'w Session \<Rightarrow> 'w Session" where
  "install_handlers n s =
     (let s1 = (case nd_catalog n of None \<Rightarrow> s | Some h \<Rightarrow> SetHandler h s);
          s2 = (case nd_media n of None \<Rightarrow> s1 | Some h \<Rightarrow> SetMediaHandler h s1)
      in case nd_party n of (ph, sh, oc) \<Rightarrow> SetOnClose oc (SetSwarmHandler sh (SetPartyHandler ph s2)))"

definition sessionFor :: "gerror option \<Rightarrow> NodeID \<Rightarrow> 'w Node \<Rightarrow> (gerror + 'w Session \<times> bool) \<times> 'w Node" where
  \<comment> \<open>the first argument is the error of \<open>peer.NewSession\<close>; \<open>Start(ctx, false)\<close> of an answerer does nothing\<close>
  "sessionFor newErr remote n =
     (case map_of (nd_sessions n) remote of
        Some s \<Rightarrow> (Inr (s, False), n)
      | None \<Rightarrow>
          (case newErr of Some err \<Rightarrow> (Inl err, n)
           | None \<Rightarrow> let s = install_handlers n (NewSession remote) in (Inr (s, True), put_session remote s n)))"

definition dial_begin :: "gerror option \<Rightarrow> gerror option \<Rightarrow> NodeID \<Rightarrow> 'w Node \<Rightarrow> gerror option \<times> 'w Node" where
  \<comment> \<open>\<open>Dial\<close> up to its \<open>select\<close>; \<open>startErr\<close> is the result of \<open>Start(ctx, true)\<close>\<close>
  "dial_begin newErr startErr remote n =
     (case sessionFor newErr remote n of
        (Inl err, n1) \<Rightarrow> (Some err, n1)
      | (Inr (_, created), n1) \<Rightarrow> if created then (startErr, log_act (AStart remote) n1) else (None, n1))"

definition node_Dial ::
  "gerror option \<Rightarrow> gerror option \<Rightarrow> ('w Node \<Rightarrow> 'w Node) \<Rightarrow> NodeID \<Rightarrow> 'w Node \<Rightarrow> (gerror + 'w Session) \<times> 'w Node" where
  \<comment> \<open>\<open>wait\<close>: what happens to the Node until the \<open>select\<close> fires\<close>
  "node_Dial newErr startErr wait remote n =
     (case dial_begin newErr startErr remote n of
        (Some err, n1) \<Rightarrow> (Inl err, n1)
      | (None, n1) \<Rightarrow>
          (let n2 = wait n1
           in case map_of (nd_sessions n2) remote of
                Some s \<Rightarrow> (if se_ready s then Inr s else Inl ctxErr, n2)
              | None \<Rightarrow> (Inl ctxErr, n2)))"

definition node_session ::
  "gerror option \<Rightarrow> gerror option \<Rightarrow> ('w Node \<Rightarrow> 'w Node) \<Rightarrow> NodeID \<Rightarrow> 'w Node \<Rightarrow> (gerror + 'w Session) \<times> 'w Node" where
  "node_session newErr startErr wait remote n =
     (case map_of (nd_sessions n) remote of Some s \<Rightarrow> (Inr s, n) | None \<Rightarrow> node_Dial newErr startErr wait remote n)"

definition route_relay ::
  "(bytes \<Rightarrow> gerror + RelayEnvelope) \<Rightarrow> (bytes \<Rightarrow> gerror + SignedSignal) \<Rightarrow> gerror option \<Rightarrow>
     (NodeID \<Rightarrow> SignedSignal \<Rightarrow> 'w Node \<Rightarrow> 'w Node) \<Rightarrow> Relay \<Rightarrow> 'w Node \<Rightarrow> 'w Node" where
  \<comment> \<open>one turn of \<open>routeRelays\<close>; the fourth argument is \<open>sess.HandleSignal\<close>, which works on the connection\<close>
  "route_relay unmarshal decodeSig newErr handle rel n =
     (case DecodeRelay unmarshal (rl_Payload rel) of Inl _ \<Rightarrow> n
      | Inr (kind, data) \<Rightarrow>
          (case kind of
             RelayKindSignal \<Rightarrow>
               (case decodeSig data of Inl _ \<Rightarrow> n
                | Inr sig \<Rightarrow>
                    (case sessionFor newErr (rl_From rel) n of
                       (Inl _, n1) \<Rightarrow> n1
                     | (Inr _, n1) \<Rightarrow> handle (rl_From rel) sig n1))
           | RelayKindSwarmDial \<Rightarrow> if shouldDial (nd_self n) (rl_From rel) then log_act (ADial (rl_From rel)) n else n
           | RelayKindOther _ \<Rightarrow> n))"

definition Sees :: "NodeID \<Rightarrow> SigClient \<Rightarrow> bool" where
  "Sees remote c = list_ex (\<lambda>p. pi_NodeID p = remote) (client_Peers c)"

definition map_sessions :: "('w Session \<Rightarrow> 'w Session) \<Rightarrow> 'w Node \<Rightarrow> 'w Node" where
  "map_sessions f n = n\<lparr>nd_sessions := map (\<lambda>(k, s). (k, f s)) (nd_sessions n)\<rparr>"

definition SetMedia :: "'w MediaHandler \<Rightarrow> 'w Node \<Rightarrow> 'w Node" where
  "SetMedia svc n = map_sessions (SetMediaHandler svc) (n\<lparr>nd_media := Some svc\<rparr>)"

definition contentTypeFor :: "string \<Rightarrow> string" where
  "contentTypeFor nm =
     (if HasSuffix nm ''.ts'' then ''video/mp2t'' else if HasSuffix nm ''.vtt'' then ''text/vtt'' else ''application/octet-stream'')"

subsection \<open>The player's requests\<close>

datatype media_source = LocalMedia | MeshSession | HostSession

definition node_Playlist :: "(media_source \<Rightarrow> gerror + PlaylistMsg) \<Rightarrow> NodeID \<Rightarrow> bool \<Rightarrow> NodeID \<Rightarrow> gerror + bytes \<times> string" where
  \<comment> \<open>the first argument gives the result of each source, the third says that \<open>n.media\<close> is a \<open>localMedia\<close>\<close>
  "node_Playlist get self lm host =
     (case get (if host = self \<and> lm then LocalMedia else HostSession) of
        Inl err \<Rightarrow> Inl err | Inr p \<Rightarrow> Inr (pl_data p, pl_content_type p))"

definition node_Segment ::
  "(media_source \<Rightarrow> gerror + bytes) \<Rightarrow> NodeID \<Rightarrow> bool \<Rightarrow> NodeID \<Rightarrow> string \<Rightarrow> string \<Rightarrow> partyCoordinator \<Rightarrow> gerror + bytes \<times> string" where
  "node_Segment get self lm host contentID nm pc =
     (case get (if host = self \<and> lm then LocalMedia
                else if swarmFor host contentID pc \<noteq> None then MeshSession else HostSession) of
        Inl err \<Rightarrow> Inl err | Inr data \<Rightarrow> Inr (data, contentTypeFor nm))"

definition node_Thumbnail :: "gerror + bytes \<Rightarrow> NodeID \<Rightarrow> bool \<Rightarrow> NodeID \<Rightarrow> gerror + bytes \<times> string" where
  "node_Thumbnail loc self lm host =
     (if host = self \<and> lm then (case loc of Inl err \<Rightarrow> Inl err | Inr data \<Rightarrow> Inr (data, ''image/jpeg'')) else Inl ErrNotFound)"

section \<open>The running application\<close>

record App =
  ap_now :: time
  ap_svc :: "Service option"
  ap_pc :: partyCoordinator
  ap_hub :: hub
  ap_media :: "MediaService option"
  ap_menv :: media_env                    \<comment> \<open>database, files and BLAKE3 as the engine finds them now\<close>
  ap_open :: "string \<Rightarrow> gerror + reader"   \<comment> \<open>\<open>os.Open\<close> and \<open>Stat\<close>\<close>

definition publish :: "string \<Rightarrow> App \<Rightarrow> App" where
  "publish t w = w\<lparr>ap_hub := hub_publish \<lparr>ev_Type = t, ev_Data = None\<rparr> (ap_hub w)\<rparr>"

definition linked_pc :: "App \<Rightarrow> partyCoordinator" where
  \<comment> \<open>\<open>n.party.setAllowed(svc.Allowed)\<close>\<close>
  "linked_pc w = (case ap_svc w of None \<Rightarrow> ap_pc w | Some sv \<Rightarrow> setAllowed (\<lambda>r. Service_Allowed r sv) (ap_pc w))"

definition linked_svc :: "App \<Rightarrow> Service \<Rightarrow> Service" where
  \<comment> \<open>\<open>svc.SetPartyProvider(n.party)\<close>\<close>
  "linked_svc w sv = SetPartyProvider (Some (\<lambda>cid. case LiveParty cid (ap_pc w) of (live, v) \<Rightarrow> (live, int v))) sv"

definition set_pc :: "partyCoordinator \<Rightarrow> App \<Rightarrow> App" where
  \<comment> \<open>the coordinator's new state, with the callbacks \<open>onAudience\<close> and \<open>onPartyEnded\<close> run\<close>
  "set_pc pc w =
     (publish ''party-ended'' ^^ (pc_onPartyEnded pc - pc_onPartyEnded (ap_pc w)))
       ((publish ''audience'' ^^ (pc_onAudience pc - pc_onAudience (ap_pc w))) (w\<lparr>ap_pc := pc\<rparr>))"

definition on_pc :: "(time \<Rightarrow> partyCoordinator \<Rightarrow> partyCoordinator) \<Rightarrow> App \<Rightarrow> App" where
  "on_pc f w = set_pc (f (ap_now w) (linked_pc w)) w"

definition catalogHandler :: "(string \<Rightarrow> bytes option) \<Rightarrow> gerror option \<Rightarrow> App RequestHandler" where
  \<comment> \<open>the installed Catalog Service as the request handler of the sessions\<close>
  "catalogHandler readFile dbe =
     \<lparr>rh_Browse = (\<lambda>r w. (case ap_svc w of None \<Rightarrow> Inl ErrUnavailable | Some sv \<Rightarrow> Service_Browse readFile dbe r (linked_svc w sv), w)),
      rh_GetMetadata = (\<lambda>r cid w. (case ap_svc w of None \<Rightarrow> Inl ErrUnavailable
                          | Some sv \<Rightarrow> Service_GetMetadata readFile dbe r cid (linked_svc w sv), w)),
      rh_LiveParties = (\<lambda>r w. (case ap_svc w of None \<Rightarrow> Inl ErrUnavailable | Some sv \<Rightarrow> Service_LiveParties dbe r (linked_svc w sv), w)),
      rh_RequestAccess = (\<lambda>r m w. (None, publish ''request'' (w\<lparr>ap_svc := map_option (Service_RequestAccess r m) (ap_svc w)\<rparr>)))\<rparr>"

definition linked_media :: "App \<Rightarrow> MediaService \<Rightarrow> MediaService" where
  "linked_media w ms = (case ap_svc w of None \<Rightarrow> ms | Some sv \<Rightarrow> ms\<lparr>ms_policy := sv_policy sv\<rparr>)"

definition on_media :: "(media_env \<Rightarrow> MediaService \<Rightarrow> (gerror + 'a) \<times> MediaService) \<Rightarrow> App \<Rightarrow> (gerror + 'a) \<times> App" where
  "on_media f w =
     (case ap_media w of None \<Rightarrow> (Inl ErrUnavailable, w)
      | Some ms \<Rightarrow> (case f (ap_menv w) (linked_media w ms) of (res, ms') \<Rightarrow> (res, w\<lparr>ap_media := Some ms'\<rparr>)))"

definition mediaHandler :: "App MediaHandler" where
  \<comment> \<open>the installed streaming Service\<close>
  "mediaHandler =
     \<lparr>mh_Playlist = (\<lambda>r cid nm. on_media (\<lambda>env. Media_Playlist env r cid nm)),
      mh_Segment = (\<lambda>r cid nm. on_media (\<lambda>env. Media_Segment env r cid nm)),
      mh_OpenFile = (\<lambda>r cid w. on_media (\<lambda>env ms. (Media_OpenFile env (ap_open w) r cid ms, ms)) w)\<rparr>"

definition partyHandler :: "(string \<Rightarrow> string list) \<Rightarrow> App PartyHandler" where
  "partyHandler gc =
     \<lparr>ph_OnJoinParty = (\<lambda>r cid w. case OnJoinParty r cid (ap_now w) (linked_pc w) of (res, pc) \<Rightarrow> (res, set_pc pc w)),
      ph_OnLeaveParty = (\<lambda>r _. on_pc (\<lambda>_. OnLeaveParty r)),
      ph_OnPartyState = (\<lambda>r s. on_pc (OnPartyState r s)),
      ph_OnPartyAudience = (\<lambda>r a. on_pc (\<lambda>_. OnPartyAudience r a)),
      ph_OnPartyInvite = (\<lambda>r i. on_pc (\<lambda>_. OnPartyInvite r i)),
      ph_OnPartyEnded = (\<lambda>r _. on_pc (\<lambda>_. OnPartyEnded r)),
      ph_OnPartyDanmaku = (\<lambda>r d. on_pc (OnPartyDanmaku gc r d))\<rparr>"

definition swarmHandler :: "App SwarmHandler" where
  "swarmHandler =
     \<lparr>sw_OnSwarmHave = (\<lambda>r h. on_pc (pc_OnSwarmHave r h)),
      sw_SwarmSegment = (\<lambda>r req w. case pc_SwarmSegment r req (linked_pc w) of (res, pc) \<Rightarrow> (res, set_pc pc w)),
      sw_release = on_pc (\<lambda>_ pc. pc\<lparr>pc_swarm := map_option upload_release (pc_swarm pc)\<rparr>)\<rparr>"

definition coordinator :: "(string \<Rightarrow> string list) \<Rightarrow> App PartyHandler \<times> App SwarmHandler \<times> (NodeID \<Rightarrow> App \<Rightarrow> App)" where
  "coordinator gc = (partyHandler gc, swarmHandler, \<lambda>r. on_pc (\<lambda>_. OnLeaveParty r))"

definition SetCatalog :: "(string \<Rightarrow> bytes option) \<Rightarrow> gerror option \<Rightarrow> Service \<Rightarrow> App Node \<times> App \<Rightarrow> App Node \<times> App" where
  "SetCatalog readFile dbe svc = (\<lambda>(n, w).
     (map_sessions (SetHandler (catalogHandler readFile dbe)) (n\<lparr>nd_catalog := Some (catalogHandler readFile dbe)\<rparr>),
      w\<lparr>ap_svc := Some svc\<rparr>))"

definition ApproveAccess :: "codec \<Rightarrow> NodeID \<Rightarrow> App Node \<times> App \<Rightarrow> gerror option \<times> App Node \<times> App" where
  "ApproveAccess c remote = (\<lambda>(n, w).
     (case ap_svc w of None \<Rightarrow> (Some (ErrText ''app: no catalog installed''), n, w)
      | Some sv \<Rightarrow>
          let w' = w\<lparr>ap_svc := Some (Service_Approve remote sv)\<rparr>
          in case map_of (nd_sessions n) remote of
               None \<Rightarrow> (None, n, w')
             | Some s \<Rightarrow> (case SendAccessGranted c s of (err, s') \<Rightarrow> (err, put_session remote s' n, w'))))"

definition RejectAccess :: "NodeID \<Rightarrow> App \<Rightarrow> gerror option \<times> App" where
  "RejectAccess remote w =
     (case ap_svc w of None \<Rightarrow> (Some (ErrText ''app: no catalog installed''), w)
      | Some sv \<Rightarrow> (None, w\<lparr>ap_svc := Some (Service_Reject remote sv)\<rparr>))"

definition IngestHostPlayer :: "string \<Rightarrow> int \<Rightarrow> App \<Rightarrow> App" where
  "IngestHostPlayer kind posMS w =
     (case pc_host (ap_pc w) of None \<Rightarrow> w
      | Some h \<Rightarrow>
          let put = (\<lambda>h'. w\<lparr>ap_pc := (ap_pc w)\<lparr>pc_host := Some h'\<rparr>\<rparr>); now = ap_now w
          in if kind = ''play'' then put (Host_OnPlay posMS now h)
             else if kind = ''pause'' then put (Host_OnPause posMS now h)
             else if kind = ''seek'' then put (Host_OnSeek posMS now h)
             else if kind = ''report'' then put (Host_OnReport posMS now h)
             else w)"

definition node_JoinParty ::
  "(NodeID \<Rightarrow> 'n \<Rightarrow> (gerror + 's) \<times> 'n) \<Rightarrow> (string \<Rightarrow> 's \<Rightarrow> gerror + PartyWelcome) \<Rightarrow> NodeID \<Rightarrow> string \<Rightarrow> 'n \<times> App \<Rightarrow>
     gerror option \<times> 'n \<times> App" where
  \<comment> \<open>the first argument is \<open>n.session\<close>, the second \<open>s.JoinParty\<close>\<close>
  "node_JoinParty session join host contentID = (\<lambda>(n, w).
     (case session host n of
        (Inl err, n1) \<Rightarrow> (Some err, n1, w)
      | (Inr s, n1) \<Rightarrow>
          (case pc_JoinParty host contentID (join contentID s) (ap_now w) (linked_pc w) of (err, pc) \<Rightarrow> (err, n1, set_pc pc w))))"

definition node_Close :: "'w Node \<times> App \<Rightarrow> NodeID list \<times> App" where
  \<comment> \<open>the sessions it closes, in the table's order\<close>
  "node_Close = (\<lambda>(n, w). (map fst (nd_sessions n), set_pc (pc_close (ap_pc w)) w))"

section \<open>Downloads: \<open>download.go\<close>\<close>

definition Download ::
  "(bytes \<Rightarrow> bytes) \<Rightarrow> gerror option \<Rightarrow> gerror option \<Rightarrow> gerror option \<times> bytes \<Rightarrow> gerror option \<Rightarrow> gerror option \<Rightarrow> gerror option \<Rightarrow>
     string \<Rightarrow> string \<Rightarrow> (string, bytes) gomap \<Rightarrow> gerror option \<times> (string, bytes) gomap" where
  \<comment> \<open>BLAKE3; the errors of \<open>n.session\<close> and \<open>os.Create\<close>; the result of \<open>DownloadTo\<close> with the bytes it wrote;
     the errors of \<open>Close\<close>, of reading the file back and of \<open>Rename\<close>; the last argument is the file system\<close>
  "Download blake sessErr createErr dl closeErr readErr renameErr contentID destPath fs =
     (case sessErr of Some err \<Rightarrow> (Some err, fs)
      | None \<Rightarrow>
      let tmp = destPath @ ''.part''
      in case createErr of Some err \<Rightarrow> (Some err, fs)
         | None \<Rightarrow>
      let fs1 = AList.update tmp (snd dl) fs; rm = AList.delete tmp fs1
      in case fst dl of Some derr \<Rightarrow> (Some derr, rm)
         | None \<Rightarrow>
      case closeErr of Some cerr \<Rightarrow> (Some cerr, rm)
      | None \<Rightarrow>
      case readErr of Some err \<Rightarrow> (Some err, rm)
      | None \<Rightarrow>
      case HashFile blake (map_of fs1) tmp of None \<Rightarrow> (Some (ErrText ''no such file''), rm)
      | Some got \<Rightarrow>
      if got \<noteq> contentID
      then (Some (ErrText (''app: download integrity check failed (got '' @ got @ '', want '' @ contentID @ '')'')), rm)
      else case renameErr of Some rerr \<Rightarrow> (Some rerr, rm)
           | None \<Rightarrow> (None, AList.update destPath (snd dl) rm))"

section \<open>Executions of a Node\<close>

datatype node_ev =
    NvTime time
  | NvCatalog Service
  | NvMedia MediaService
  | NvFiles media_env "string \<Rightarrow> gerror + reader"   \<comment> \<open>ffmpeg, the scanner or the owner changed the files\<close>
  | NvJobDone string                  \<comment> \<open>the goroutine of a rendition job ends\<close>
  | NvEnsure NodeID "gerror option"
  | NvDial NodeID "gerror option" "gerror option"
  | NvRelay Relay "gerror option"
  | NvPeer NodeID peer_ev             \<comment> \<open>an event of the session to that Node\<close>
  | NvApprove NodeID
  | NvReject NodeID
  | NvParty pc_ev                     \<comment> \<open>an operation of the user or the player on the coordinator\<close>

record node_env =
  ne_codec :: codec
  ne_marshal :: "RelayEnvelope \<Rightarrow> gerror + bytes"
  ne_unmarshal :: "bytes \<Rightarrow> gerror + RelayEnvelope"
  ne_decodeSig :: "bytes \<Rightarrow> gerror + SignedSignal"
  ne_readFile :: "string \<Rightarrow> bytes option"
  ne_graphemes :: "string \<Rightarrow> string list"

fun node_do :: "node_env \<Rightarrow> node_ev \<Rightarrow> App Node \<times> App \<Rightarrow> App Node \<times> App" where
  "node_do en (NvTime t) (n, w) = (n, w\<lparr>ap_now := t\<rparr>)"
| "node_do en (NvCatalog svc) (n, w) = SetCatalog (ne_readFile en) None svc (n, w)"
| "node_do en (NvMedia ms) (n, w) = (SetMedia mediaHandler n, w\<lparr>ap_media := Some ms\<rparr>)"
| "node_do en (NvFiles env op) (n, w) = (n, w\<lparr>ap_menv := env, ap_open := op\<rparr>)"
| "node_do en (NvJobDone cid) (n, w) =
     (n, w\<lparr>ap_media := map_option (\<lambda>ms. ms\<lparr>ms_engine := finish_job cid (ms_engine ms)\<rparr>) (ap_media w)\<rparr>)"
| "node_do en (NvEnsure r relayErr) (n, w) = (snd (ensurePeer (ne_marshal en) relayErr r n), w)"
| "node_do en (NvDial r newErr startErr) (n, w) = (snd (dial_begin newErr startErr r n), w)"
| "node_do en (NvRelay rel newErr) (n, w) =
     (route_relay (ne_unmarshal en) (ne_decodeSig en) newErr (\<lambda>_ _ n. n) rel n, w)"
| "node_do en (NvPeer r ev) (n, w) =
     (case map_of (nd_sessions n) r of None \<Rightarrow> (n, w)
      | Some s \<Rightarrow> (case peer_do (ne_codec en) ev (s, w) of (s', w') \<Rightarrow> (put_session r s' n, w')))"
| "node_do en (NvApprove r) (n, w) = snd (ApproveAccess (ne_codec en) r (n, w))"
| "node_do en (NvReject r) (n, w) = (n, snd (RejectAccess r w))"
| "node_do en (NvParty ev) (n, w) = (n, on_pc (\<lambda>_. pc_do (ne_graphemes en) ev) w)"

section \<open>Only one end of a mesh edge dials\<close>

text \<open>
  Glare: of two Nodes that want a mesh edge, whichever of them asks for it, exactly the one with the
  lower Node ID dials: the lower one on its own request or on the nudge the other's request sends it, and
  the higher one never, not even when a peer nudges it.
\<close>
theorem mesh_edge_single_initiator:
  assumes "nd_self a = x" and "nd_self b = y" and "x < y"
    and "map_of (nd_sessions a) y = None" and "map_of (nd_sessions b) x = None"
    and "marshal \<lparr>re_Kind = RelayKindSwarmDial, re_Data = bytes_of_string ''null''\<rparr> = Inr p"
    and "unmarshal p = Inr \<lparr>re_Kind = RelayKindSwarmDial, re_Data = bytes_of_string ''null''\<rparr>"
  shows "ensurePeer marshal e y a = (None, log_act (ADial y) a) \<and>
         ensurePeer marshal e x b = (e, log_act (ARelay x p) b) \<and>
         route_relay unmarshal dec ne h \<lparr>rl_From = y, rl_To = x, rl_Payload = p\<rparr> a = log_act (ADial y) a \<and>
         route_relay unmarshal dec ne h \<lparr>rl_From = x, rl_To = y, rl_Payload = p\<rparr> b = b"
  using assms less_not_sym [OF assms(3)]
  by (simp add: ensurePeer_def shouldDial_def EncodeRelay_def route_relay_def DecodeRelay_def)

section \<open>Every session has the Node's handlers\<close>

definition hview :: "'w Session \<Rightarrow> NodeID \<times> 'w RequestHandler option \<times> 'w MediaHandler option \<times> 'w PartyHandler option \<times>
    'w SwarmHandler option \<times> (NodeID \<Rightarrow> 'w \<Rightarrow> 'w) option" where
  "hview s = (se_remote s, se_handler s, se_mediaHandler s, se_partyHandler s, se_swarmHandler s, se_onClose s)"

lemma hview_updates [simp]:
  "hview (s\<lparr>se_ids := a\<rparr>) = hview s" "hview (s\<lparr>se_sent := sd\<rparr>) = hview s" "hview (s\<lparr>se_pending := p\<rparr>) = hview s"
  "hview (s\<lparr>se_chans := cs\<rparr>) = hview s" "hview (s\<lparr>se_ready := r\<rparr>) = hview s" "hview (s\<lparr>se_out := out\<rparr>) = hview s"
  "hview (s\<lparr>se_in := bi\<rparr>) = hview s" "hview (s\<lparr>se_remoteCaps := rc\<rparr>) = hview s" "hview (s\<lparr>se_jobs := js\<rparr>) = hview s"
  "hview (s\<lparr>se_control := cn\<rparr>) = hview s"
  by (simp_all add: hview_def)

lemma hview_send [simp]: "hview (snd (Session_send c env s)) = hview s"
  by (simp add: Session_send_def split: sum.split)

lemma hview_send_eqD: "Session_send c e s = (x, s') \<Longrightarrow> hview s' = hview s"
  by (metis hview_send snd_conv)

lemma hview_small [simp]:
  "hview (reply c env s) = hview s" "hview (put_chan ch x s) = hview s" "hview (deliver env s) = hview s"
  "hview (on_error env e s) = hview s" "hview (bulk_reply c i r s) = hview s" "hview (onControlOpen c s) = hview s"
  "hview (call_cancel i s) = hview s" "hview (fetch_cleanup i s) = hview s" "hview (snd (call_recv ch s)) = hview s"
  by (auto simp: reply_def put_chan_def deliver_def Let_def on_error_def bulk_reply_def onControlOpen_def call_cancel_def
      fetch_cleanup_def call_recv_def split: option.split prod.split)

lemma hview_begin [simp]: "hview (snd (call_begin c b s)) = hview s" "hview (snd (fetch_begin c b room s)) = hview s"
  by (auto simp: call_begin_def fetch_begin_def Let_def split: prod.splits option.splits dest!: hview_send_eqD)

lemma hview_job [simp]: "hview (fst (run_job c j (s, w))) = hview s"
  by (cases j) (auto split: prod.splits sum.splits)

lemma hview_dispatch [simp]: "hview (fst (dispatch c env b (s, w))) = hview s"
  by (cases b) (auto simp: dispatch_def handle_defs Let_def split: option.splits prod.splits sum.splits)

lemma hview_peer_do [simp]: "hview (fst (peer_do c ev (s, w))) = hview s"
proof (cases ev)
  case (PvControl raw)
  then show ?thesis by (auto simp: onControlMessage_def split: sum.split option.split)
next
  case PvJob
  then show ?thesis by (cases "se_jobs s") (simp_all)
qed (simp_all add: onConnectionStateChange_def)

definition session_ok :: "'w Node \<Rightarrow> NodeID \<Rightarrow> 'w Session \<Rightarrow> bool" where
  "session_ok n r s \<longleftrightarrow>
     (case nd_party n of (ph, sh, oc) \<Rightarrow> hview s = (r, nd_catalog n, nd_media n, Some ph, Some sh, Some oc))"

definition node_ok :: "node_env \<Rightarrow> App Node \<times> App \<Rightarrow> bool" where
  "node_ok en = (\<lambda>(n, w).
     nd_party n = coordinator (ne_graphemes en) \<and>
     nd_catalog n \<in> {None, Some (catalogHandler (ne_readFile en) None)} \<and> nd_media n \<in> {None, Some mediaHandler} \<and>
     (\<forall>r s. map_of (nd_sessions n) r = Some s \<longrightarrow> session_ok n r s))"

lemma map_of_map_sessions [simp]: "map_of (nd_sessions (map_sessions f n)) r = map_option f (map_of (nd_sessions n) r)"
  by (simp add: map_sessions_def map_of_map)

lemma map_sessions_fields [simp]:
  "nd_party (map_sessions f n) = nd_party n" "nd_catalog (map_sessions f n) = nd_catalog n" "nd_media (map_sessions f n) = nd_media n"
  by (simp_all add: map_sessions_def)

lemma put_session_simps [simp]:
  "map_of (nd_sessions (put_session r s n)) = (map_of (nd_sessions n))(r \<mapsto> s)" "nd_party (put_session r s n) = nd_party n"
  "nd_catalog (put_session r s n) = nd_catalog n" "nd_media (put_session r s n) = nd_media n"
  by (simp_all add: put_session_def update_conv')

lemma log_act_fields [simp]:
  "nd_sessions (log_act a n) = nd_sessions n" "nd_party (log_act a n) = nd_party n"
  "nd_catalog (log_act a n) = nd_catalog n" "nd_media (log_act a n) = nd_media n"
  by (simp_all add: log_act_def)

lemma session_ok_cong:
  "nd_party n' = nd_party n \<Longrightarrow> nd_catalog n' = nd_catalog n \<Longrightarrow> nd_media n' = nd_media n \<Longrightarrow> session_ok n' r s = session_ok n r s"
  by (simp add: session_ok_def)

lemma session_ok_log [simp]: "session_ok (log_act a n) r s = session_ok n r s"
  by (rule session_ok_cong) simp_all

lemma session_ok_put [simp]: "session_ok (put_session r' s' n) r s = session_ok n r s"
  by (rule session_ok_cong) simp_all

lemma session_ok_install [simp]: "session_ok n r (install_handlers n (NewSession r))"
  by (auto simp: session_ok_def install_handlers_def Let_def hview_def NewSession_def SetHandler_def SetMediaHandler_def
      SetPartyHandler_def SetSwarmHandler_def SetOnClose_def split: prod.split option.split)

lemma session_ok_hview: "hview s' = hview s \<Longrightarrow> session_ok n r s \<Longrightarrow> session_ok n r s'"
  by (simp add: session_ok_def)

lemma publish_fields [simp]: "ap_svc (publish t w) = ap_svc w" "ap_pc (publish t w) = ap_pc w" "ap_now (publish t w) = ap_now w"
  by (simp_all add: publish_def)

lemma publish_pow_fields [simp]:
  "ap_svc ((publish t ^^ k) w) = ap_svc w" "ap_pc ((publish t ^^ k) w) = ap_pc w" "ap_now ((publish t ^^ k) w) = ap_now w"
  by (induction k) simp_all

lemma set_pc_fields [simp]: "ap_svc (set_pc pc w) = ap_svc w" "ap_pc (set_pc pc w) = pc" "ap_now (set_pc pc w) = ap_now w"
  by (simp_all add: set_pc_def)

lemma on_pc_svc [simp]: "ap_svc (on_pc f w) = ap_svc w"
  by (simp add: on_pc_def)

lemma node_okI:
  "nd_party n = coordinator (ne_graphemes en) \<Longrightarrow>
   nd_catalog n \<in> {None, Some (catalogHandler (ne_readFile en) None)} \<Longrightarrow> nd_media n \<in> {None, Some mediaHandler} \<Longrightarrow>
   (\<And>r s. map_of (nd_sessions n) r = Some s \<Longrightarrow> session_ok n r s) \<Longrightarrow> node_ok en (n, w)"
  by (simp add: node_ok_def)

lemma node_okD:
  assumes "node_ok en (n, w)"
  shows "nd_party n = coordinator (ne_graphemes en)"
    "nd_catalog n = None \<or> nd_catalog n = Some (catalogHandler (ne_readFile en) None)"
    "nd_media n = None \<or> nd_media n = Some mediaHandler"
    "map_of (nd_sessions n) r = Some s \<Longrightarrow> session_ok n r s"
  using assms by (auto simp: node_ok_def)

lemma node_ok_any: "node_ok en (n, w) = node_ok en (n, w')"
  by (simp add: node_ok_def)

lemma node_ok_put: "node_ok en (n, w) \<Longrightarrow> session_ok n r s \<Longrightarrow> node_ok en (put_session r s n, w)"
  by (auto simp: node_ok_def)

lemma node_ok_log: "node_ok en (n, w) \<Longrightarrow> node_ok en (log_act a n, w)"
  by (auto simp: node_ok_def)

lemma node_ok_sessionFor: "node_ok en (n, w) \<Longrightarrow> node_ok en (snd (sessionFor newErr r n), w)"
  by (auto simp: sessionFor_def Let_def node_ok_put split: option.splits)

lemma node_ok_step:
  assumes "node_ok en (n, w)"
  shows "node_ok en (node_do en ev (n, w))"
proof (cases ev)
  case (NvCatalog svc)
  then show ?thesis using assms
    by (auto simp: node_ok_def SetCatalog_def session_ok_def hview_def SetHandler_def split: prod.splits)
next
  case (NvMedia ms)
  then show ?thesis using assms
    by (auto simp: node_ok_def SetMedia_def session_ok_def hview_def SetMediaHandler_def split: prod.splits)
next
  case (NvEnsure r relayErr)
  then show ?thesis using assms by (auto simp: ensurePeer_def node_ok_log split: sum.split)
next
  case (NvDial r newErr startErr)
  then show ?thesis using node_ok_sessionFor [OF assms, of newErr r]
    by (auto simp: dial_begin_def node_ok_log split: prod.split sum.split)
next
  case (NvRelay rel newErr)
  have fr: "node_ok en (snd (sessionFor newErr (rl_From rel) n), w)" by (rule node_ok_sessionFor [OF assms])
  have "node_ok en (log_act a n, w)" for a by (rule node_ok_log [OF assms])
  then show ?thesis unfolding NvRelay node_do.simps route_relay_def
    using assms fr by (simp split: sum.split prod.split RelayKind.split) (auto split: sum.split prod.split)
next
  case (NvPeer r pev)
  show ?thesis
  proof (cases "map_of (nd_sessions n) r")
    case None
    then show ?thesis using NvPeer assms by simp
  next
    case (Some s)
    obtain s' w' where run: "peer_do (ne_codec en) pev (s, w) = (s', w')" by fastforce
    then have "hview s' = hview s" using hview_peer_do [of "ne_codec en" pev s w] by simp
    then have "session_ok n r s'" using node_okD(4) [OF assms Some] session_ok_hview by blast
    then have "node_ok en (put_session r s' n, w)" by (rule node_ok_put [OF assms])
    then have "node_ok en (put_session r s' n, w')" by (rule iffD1 [OF node_ok_any])
    then show ?thesis using NvPeer Some run by simp
  qed
next
  case (NvApprove r)
  have hv: "hview (snd (SendAccessGranted c s)) = hview s" for c and s :: "App Session" by (simp add: SendAccessGranted_def)
  show ?thesis
  proof (cases "ap_svc w = None \<or> map_of (nd_sessions n) r = None")
    case True
    moreover have "node_ok en (n, w')" for w' using assms by (rule iffD1 [OF node_ok_any])
    ultimately show ?thesis unfolding NvApprove
      by (auto simp: ApproveAccess_def Let_def split: option.split)
  next
    case False
    then obtain sv s where f: "ap_svc w = Some sv" "map_of (nd_sessions n) r = Some s" by auto
    obtain e s' where g: "SendAccessGranted (ne_codec en) s = (e, s')" by fastforce
    then have "hview s' = hview s" using hv [of "ne_codec en" s] by simp
    then have "session_ok n r s'" using node_okD(4) [OF assms f(2)] session_ok_hview by blast
    then have "node_ok en (put_session r s' n, w)" by (rule node_ok_put [OF assms])
    then have "node_ok en (put_session r s' n, w')" for w' by (rule iffD1 [OF node_ok_any])
    then show ?thesis using NvApprove f g by (simp add: ApproveAccess_def Let_def)
  qed
qed (use assms in \<open>auto simp: node_ok_def\<close>)

lemma node_ok_run: "node_ok en (n, w) \<Longrightarrow> node_ok en (fold (node_do en) evs (n, w))"
proof (induction evs arbitrary: n w)
  case (Cons ev evs)
  obtain n1 w1 where "node_do en ev (n, w) = (n1, w1)" by fastforce
  then show ?case using Cons.IH [of n1 w1] node_ok_step [OF Cons.prems, of ev] by simp
qed simp

lemma node_ok_new: "node_ok en (NewNode self (coordinator (ne_graphemes en)), w)"
  by (simp add: node_ok_def NewNode_def)

text \<open>
  Every session a Node ever holds, whether it dialed it or a relay created it, before or after the
  catalog and the media service were installed, bears the Node ID it is filed under and has exactly the
  handlers the Node has at that moment: no peer is served by a stale handler or by none.
\<close>
theorem node_handlers_installed:
  assumes "(n, w) = fold (node_do en) evs (NewNode self (coordinator (ne_graphemes en)), w0)"
    and "map_of (nd_sessions n) r = Some s"
  shows "se_remote s = r \<and> se_handler s = nd_catalog n \<and> se_mediaHandler s = nd_media n \<and>
         se_partyHandler s = Some (partyHandler (ne_graphemes en)) \<and> se_swarmHandler s = Some swarmHandler \<and>
         se_onClose s = Some (\<lambda>r. on_pc (\<lambda>_. OnLeaveParty r))"
proof -
  have ok: "node_ok en (n, w)" using node_ok_run [OF node_ok_new] assms(1) by metis
  show ?thesis using node_okD(4) [OF ok assms(2)] node_okD(1) [OF ok]
    by (simp add: session_ok_def coordinator_def hview_def)
qed

section \<open>Access control, from the wire to the catalog, the files and the party\<close>

definition catalog_request :: "Body \<Rightarrow> bool" where
  "catalog_request b \<longleftrightarrow> b = BBrowse \<or> b = BGetLiveParties \<or> (\<exists>cid. b = BGetMetadata cid)"

definition media_request :: "Body \<Rightarrow> bool" where
  "media_request b \<longleftrightarrow> (\<exists>cid nm. b = BGetPlaylist cid nm \<or> b = BGetSegment cid nm) \<or> (\<exists>cid. b = BDownload cid)"

definition join_request :: "Body \<Rightarrow> bool" where
  "join_request b \<longleftrightarrow> (\<exists>cid. b = BJoinParty cid)"

definition refused :: "codec \<Rightarrow> u64 \<Rightarrow> App Session \<times> App \<Rightarrow> App Session \<times> App \<Rightarrow> Error_Status set \<Rightarrow> bool" where
  \<comment> \<open>the only effect is one error reply, of a status in \<open>sts\<close>; \<open>linked_\<close> only refreshes what is shared\<close>
  "refused c i = (\<lambda>(s, w) (s', w') sts.
     (\<exists>err. s' = reply c (errEnvelope i err) s \<and> statusOf err \<in> sts) \<and>
     w' \<in> {w, w\<lparr>ap_pc := linked_pc w\<rparr>, w\<lparr>ap_media := map_option (linked_media w) (ap_media w)\<rparr>})"

lemma refusedI:
  "s' = reply c (errEnvelope i err) s \<Longrightarrow> statusOf err \<in> sts \<Longrightarrow>
   w' = w \<or> w' = w\<lparr>ap_pc := linked_pc w\<rparr> \<or> w' = w\<lparr>ap_media := map_option (linked_media w) (ap_media w)\<rparr> \<Longrightarrow> refused c i (s, w) (s', w') sts"
  by (auto simp: refused_def)

lemma status_sentinels:
  "statusOf ErrDenied = DENIED" "statusOf ErrUnavailable = UNAVAILABLE" "statusOf ErrNotFound = NOT_FOUND"
  by (simp_all add: statusOf_def)

lemma reply_job_less: "se_jobs s = [] \<Longrightarrow> se_jobs (reply c env s) = []"
  by (simp add: reply_def Session_send_def split: sum.split)

lemma serve_request:
  assumes "decodeEnvelope c raw = Inr (envelope i b)"
  shows "serve c raw (s, w) = peer_do c PvJob (dispatch c (envelope i b) b (s, w))"
  using assms by (simp add: serve_def onControlMessage_def)

lemma on_media_denied:
  assumes "ap_svc w = Some sv" and "\<And>env ms. ms_policy ms = sv_policy sv \<Longrightarrow> f env ms = (Inl ErrDenied, ms)"
  shows "\<exists>err. on_media f w = (Inl err, w\<lparr>ap_media := map_option (linked_media w) (ap_media w)\<rparr>) \<and> (err = ErrDenied \<or> err = ErrUnavailable)"
proof (cases "ap_media w")
  case None
  then have "w\<lparr>ap_media := map_option (linked_media w) (ap_media w)\<rparr> = w" by (cases w) simp
  then show ?thesis using None by (simp add: on_media_def)
next
  case (Some ms)
  then show ?thesis using assms(2) [of "linked_media w ms"] by (simp add: on_media_def linked_media_def assms(1))
qed

lemma media_denied:
  assumes "\<not> Policy_Allowed r (ms_policy ms)"
  shows "Media_Playlist env r cid nm ms = (Inl ErrDenied, ms)" "Media_Segment env r cid nm ms = (Inl ErrDenied, ms)"
    "Media_OpenFile env op r cid ms = Inl ErrDenied"
  using assms by (simp_all add: Media_Playlist_def Media_Segment_def Media_OpenFile_def)

lemma media_refused:
  assumes "se_jobs s = []" and "se_remote s = r" and "se_mediaHandler s = None \<or> se_mediaHandler s = Some mediaHandler"
    and "ap_svc w = Some sv" and "\<not> Policy_Allowed r (sv_policy sv)" and "media_request b"
  shows "refused c i (s, w) (peer_do c PvJob (dispatch c (envelope i b) b (s, w))) {DENIED, UNAVAILABLE}"
proof (cases "se_mediaHandler s")
  case None
  have "peer_do c PvJob (reply c (errEnvelope i ErrUnavailable) s, w) = (reply c (errEnvelope i ErrUnavailable) s, w)"
    using reply_job_less [OF assms(1)] by simp
  then show ?thesis using assms(6) None
    by (auto simp: media_request_def dispatch_def handle_defs status_sentinels intro!: refusedI)
next
  case (Some h)
  then have h: "h = mediaHandler" using assms(3) by simp
  have s: "s\<lparr>se_jobs := []\<rparr> = s" using assms(1) by (cases s) simp
  note den = media_denied [of r] and deny = on_media_denied [OF assms(4)]
  consider cid nm where "b = BGetPlaylist cid nm" | cid nm where "b = BGetSegment cid nm" | cid where "b = BDownload cid"
    using assms(6) by (auto simp: media_request_def)
  then show ?thesis
  proof cases
    case 1
    obtain err where e: "on_media (\<lambda>env. Media_Playlist env r cid nm) w = (Inl err, w\<lparr>ap_media := map_option (linked_media w) (ap_media w)\<rparr>)"
      "err = ErrDenied \<or> err = ErrUnavailable"
      using deny [of "\<lambda>env. Media_Playlist env r cid nm"] den(1) assms(5) by auto
    have "peer_do c PvJob (dispatch c (envelope i b) b (s, w)) =
        (reply c (errEnvelope i err) s, w\<lparr>ap_media := map_option (linked_media w) (ap_media w)\<rparr>)"
      using e(1) 1 Some h assms(1,2) reply_job_less [OF assms(1)] by (simp add: dispatch_def handle_defs mediaHandler_def)
    then show ?thesis using e(2) by (auto simp: status_sentinels intro!: refusedI)
  next
    case 2
    obtain err where e: "on_media (\<lambda>env. Media_Segment env r cid nm) w = (Inl err, w\<lparr>ap_media := map_option (linked_media w) (ap_media w)\<rparr>)"
      "err = ErrDenied \<or> err = ErrUnavailable"
      using deny [of "\<lambda>env. Media_Segment env r cid nm"] den(2) assms(5) by auto
    have "peer_do c PvJob (dispatch c (envelope i b) b (s, w)) =
        (reply c (errEnvelope i err) s, w\<lparr>ap_media := map_option (linked_media w) (ap_media w)\<rparr>)"
      using e(1) 2 Some h assms(1,2) by (simp add: dispatch_def handle_defs mediaHandler_def s)
    then show ?thesis using e(2) by (auto simp: status_sentinels intro!: refusedI)
  next
    case 3
    have "(Media_OpenFile env (ap_open w) r cid ms, ms) = (Inl ErrDenied, ms)" if "ms_policy ms = sv_policy sv" for env ms
      using den(3) [of ms] assms(5) that by simp
    from deny [of "\<lambda>env ms. (Media_OpenFile env (ap_open w) r cid ms, ms)", OF this] obtain err where
      e: "on_media (\<lambda>env ms. (Media_OpenFile env (ap_open w) r cid ms, ms)) w = (Inl err, w\<lparr>ap_media := map_option (linked_media w) (ap_media w)\<rparr>)"
      "err = ErrDenied \<or> err = ErrUnavailable"
      by blast
    have "peer_do c PvJob (dispatch c (envelope i b) b (s, w)) =
        (reply c (errEnvelope i err) s, w\<lparr>ap_media := map_option (linked_media w) (ap_media w)\<rparr>)"
      using e(1) 3 Some h assms(1,2) by (simp add: dispatch_def handle_defs mediaHandler_def s)
    then show ?thesis using e(2) by (auto simp: status_sentinels intro!: refusedI)
  qed
qed

lemma catalog_refused:
  assumes "se_jobs s = []" and "se_remote s = r" and "se_handler s = None \<or> se_handler s = Some (catalogHandler rf None)"
    and "ap_svc w = Some sv" and "\<not> Policy_Allowed r (sv_policy sv)" and "catalog_request b"
  shows "refused c i (s, w) (peer_do c PvJob (dispatch c (envelope i b) b (s, w))) {DENIED, UNAVAILABLE}"
proof -
  have "\<exists>err. dispatch c (envelope i b) b (s, w) = (reply c (errEnvelope i err) s, w) \<and> (err = ErrDenied \<or> err = ErrUnavailable)"
    using assms(2-6)
    by (auto simp: catalog_request_def dispatch_def handle_defs catalogHandler_def linked_svc_def SetPartyProvider_def
        Service_Browse_def Service_GetMetadata_def Service_LiveParties_def)
  then show ?thesis using reply_job_less [OF assms(1)] by (auto simp: status_sentinels intro!: refusedI)
qed

lemma join_refused:
  assumes "se_jobs s = []" and "se_remote s = r" and "se_partyHandler s = Some (partyHandler gc)"
    and "ap_svc w = Some sv" and "\<not> Policy_Allowed r (sv_policy sv)" and "join_request b"
  shows "refused c i (s, w) (peer_do c PvJob (dispatch c (envelope i b) b (s, w))) {DENIED, NOT_FOUND}"
proof -
  obtain cid where b: "b = BJoinParty cid" using assms(6) by (auto simp: join_request_def)
  obtain res pc where j: "OnJoinParty r cid (ap_now w) (linked_pc w) = (res, pc)" by fastforce
  have al: "pc_allowed (linked_pc w) = Some (\<lambda>r. Service_Allowed r sv)" by (simp add: linked_pc_def assms(4) setAllowed_def)
  have "pc = linked_pc w \<and> (res = Inl ErrNotFound \<or> res = Inl ErrDenied)"
    using j assms(5) by (auto simp: OnJoinParty_def al Service_Allowed_def split: option.splits if_splits)
  moreover have "set_pc (linked_pc w) w = w\<lparr>ap_pc := linked_pc w\<rparr>"
    by (simp add: set_pc_def linked_pc_def assms(4) setAllowed_def)
  ultimately show ?thesis using j assms(2,3) reply_job_less [OF assms(1)] unfolding b
    by (auto simp: dispatch_def handle_defs partyHandler_def status_sentinels intro!: refusedI)
qed


section \<open>Failed dials\<close>

text \<open>
  The comment of \<open>session\<close> promises a ready session; a session that is not ready is returned whenever the
  table has one, and a dial that failed leaves one there for good: every later request to that Node goes
  to it at once, without a new dial.
\<close>
theorem failed_dial_sticks:
  assumes "map_of (nd_sessions n) r = None"
  shows "\<exists>s n'. node_Dial None (Some err) wait r n = (Inl err, n') \<and> \<not> se_ready s \<and> \<not> se_control s \<and>
           (\<forall>newErr startErr wait'. node_session newErr startErr wait' r n' = (Inr s, n'))"
proof -
  let ?s = "install_handlers n (NewSession r)"
  have "\<not> se_ready ?s \<and> \<not> se_control ?s"
    by (simp add: install_handlers_def NewSession_def Let_def SetHandler_def SetMediaHandler_def SetPartyHandler_def
        SetSwarmHandler_def SetOnClose_def split: prod.split option.split)
  moreover have "node_Dial None (Some err) wait r n = (Inl err, log_act (AStart r) (put_session r ?s n))"
    using assms by (simp add: node_Dial_def dial_begin_def sessionFor_def Let_def)
  ultimately show ?thesis by (auto simp: node_session_def)
qed

section \<open>Downloads\<close>

text \<open>
  C30. A download is never corrupt: whatever the Host sends and whatever fails, \<open>Download\<close> reports success
  only when the destination holds bytes whose BLAKE3 is the Content ID; otherwise the destination is as it
  was before. No partial file remains once one was created, and no other file changes.
\<close>
theorem download_integrity:
  assumes "Download blake sessErr createErr dl closeErr readErr renameErr cid dest fs = (err, fs')"
  shows "(case err of None \<Rightarrow> map_of fs' dest = Some (snd dl) \<and> hex_EncodeToString (blake (snd dl)) = cid
                    | Some _ \<Rightarrow> map_of fs' dest = map_of fs dest) \<and>
         (sessErr = None \<and> createErr = None \<longrightarrow> map_of fs' (dest @ ''.part'') = None) \<and>
         (\<forall>p. p \<noteq> dest \<and> p \<noteq> dest @ ''.part'' \<longrightarrow> map_of fs' p = map_of fs p)"
  using assms
  by (auto simp: Download_def Let_def HashFile_def update_conv' AList.delete_conv' split: option.splits if_splits)

section \<open>Witnesses\<close>

definition example_node :: "NodeID \<Rightarrow> unit Node" where
  "example_node self = NewNode self
     (\<lparr>ph_OnJoinParty = (\<lambda>_ _ w. (Inl ErrNotFound, w)), ph_OnLeaveParty = (\<lambda>_ _ w. w), ph_OnPartyState = (\<lambda>_ _ w. w),
       ph_OnPartyAudience = (\<lambda>_ _ w. w), ph_OnPartyInvite = (\<lambda>_ _ w. w), ph_OnPartyEnded = (\<lambda>_ _ w. w),
       ph_OnPartyDanmaku = (\<lambda>_ _ w. w)\<rparr>,
      \<lparr>sw_OnSwarmHave = (\<lambda>_ _ w. w), sw_SwarmSegment = (\<lambda>_ _ w. (Inl ErrNotFound, w)), sw_release = (\<lambda>w. w)\<rparr>, \<lambda>_ w. w)"

definition example_marshal :: "RelayEnvelope \<Rightarrow> gerror + bytes" where
  "example_marshal e =
     Inr ((case re_Kind e of RelayKindSignal \<Rightarrow> 0 | RelayKindSwarmDial \<Rightarrow> 1 | RelayKindOther _ \<Rightarrow> 2) # re_Data e)"

definition example_unmarshal :: "bytes \<Rightarrow> gerror + RelayEnvelope" where
  "example_unmarshal b = (case b of [] \<Rightarrow> Inl (ErrText ''empty'')
     | t # d \<Rightarrow> Inr \<lparr>re_Kind = (if t = 0 then RelayKindSignal else if t = 1 then RelayKindSwarmDial else RelayKindOther ''''), re_Data = d\<rparr>)"

theorem mesh_edge_single_initiator_witness:
  "nd_acts (route_relay example_unmarshal (\<lambda>_. Inl ErrNotFound) None (\<lambda>_ _ n. n)
     \<lparr>rl_From = ''b'', rl_To = ''a'', rl_Payload = 1 # bytes_of_string ''null''\<rparr> (example_node ''a'')) = [ADial ''b'']"
  using mesh_edge_single_initiator [of "example_node ''a''" "''a''" "example_node ''b''" "''b''" example_marshal
      "1 # bytes_of_string ''null''" example_unmarshal None "\<lambda>_. Inl ErrNotFound" None "\<lambda>_ _ n. n"]
  by (simp add: example_node_def NewNode_def example_marshal_def example_unmarshal_def log_act_def)

definition example_env :: node_env where
  "example_env =
     \<lparr>ne_codec = example_codec, ne_marshal = example_marshal, ne_unmarshal = example_unmarshal,
      ne_decodeSig = (\<lambda>_. Inl ErrNotFound), ne_readFile = (\<lambda>_. None), ne_graphemes = map (\<lambda>c. [c])\<rparr>"

definition example_app :: App where
  "example_app = \<lparr>ap_now = 0, ap_svc = None, ap_pc = newPartyCoordinator True True ''a'' DefaultConfig, ap_hub = newHub,
     ap_media = None, ap_menv = example_menv [1], ap_open = (\<lambda>_. Inl ErrNotFound)\<rparr>"

definition example_service :: Service where
  "example_service = NewService [] (NewPolicy ''allowlist'') NewRequests '''' []"

definition example_running :: "App Node \<times> App" where
  \<comment> \<open>the catalog is installed, then the stranger \<open>z\<close> is dialed\<close>
  "example_running =
     fold (node_do example_env) [NvCatalog example_service, NvMedia (NewMediaService example_engine (NewPolicy ''allowlist'')), NvDial ''z'' None None]
       (NewNode ''a'' (coordinator (ne_graphemes example_env)), example_app)"

lemma example_running_simps:
  "map_of (nd_sessions (fst example_running)) ''z'' = Some (install_handlers (fst example_running) (NewSession ''z''))"
  "ap_svc (snd example_running) = Some example_service"
  by (simp_all add: example_running_def SetCatalog_def SetMedia_def dial_begin_def sessionFor_def Let_def NewNode_def map_sessions_def
      install_handlers_def coordinator_def put_session_def log_act_def)

theorem node_handlers_installed_witness:
  "se_handler (install_handlers (fst example_running) (NewSession ''z'')) = nd_catalog (fst example_running)"
  using node_handlers_installed [OF trans [OF prod.collapse [of example_running] example_running_def] example_running_simps(1)]
  by blast


theorem download_integrity_witness:
  "map_of (snd (Download (\<lambda>_. [171]) None None (None, [1, 2]) None None None ''ab'' ''f'' [(''f'', [9])])) ''f'' = Some [1, 2]"
proof -
  have e: "fst (Download (\<lambda>_. [171]) None None (None, [1, 2]) None None None ''ab'' ''f'' [(''f'', [9])]) = None"
    by (simp add: Download_def Let_def HashFile_def hex_EncodeToString_def hex_digit_def)
  show ?thesis using download_integrity [OF prod.collapse [symmetric], of "\<lambda>_. [171]" None None "(None, [1, 2])" None None None
      "''ab''" "''f''" "[(''f'', [9])]"] e by simp
qed

end
