(* ===== verification/Handler_Laws.thy ===== *)
theory Handler_Laws
  imports Node_App
begin

text \<open>
  The contract between a peer session and the handlers a Node installs on it. A session runs the handlers on
  whatever its peer sends; if every operation of every handler keeps a relation \<open>R\<close> between the application
  before and after, so does everything the session does (\<open>peer_do\<close>), for as long as the session has no other
  handlers. The Node's own handlers keep the access policy.
\<close>

section \<open>The handlers a session can run\<close>

fun job_by :: "'w MediaHandler \<Rightarrow> 'w SwarmHandler \<Rightarrow> 'w job \<Rightarrow> bool" where
  "job_by mh sh (JSegment h _ _ _) \<longleftrightarrow> h = mh"
| "job_by mh sh (JDownload h _ _) \<longleftrightarrow> h = mh"
| "job_by mh sh (JSwarm h _ _) \<longleftrightarrow> h = sh"

definition served_by ::
  "'w RequestHandler \<Rightarrow> 'w MediaHandler \<Rightarrow> 'w PartyHandler \<Rightarrow> 'w SwarmHandler \<Rightarrow> (NodeID \<Rightarrow> 'w \<Rightarrow> 'w) \<Rightarrow> 'w Session \<Rightarrow> bool" where
  "served_by rh mh ph sh oc s \<longleftrightarrow>
     se_handler s \<in> {None, Some rh} \<and> se_mediaHandler s \<in> {None, Some mh} \<and> se_partyHandler s \<in> {None, Some ph} \<and>
     se_swarmHandler s \<in> {None, Some sh} \<and> se_onClose s \<in> {None, Some oc} \<and> se_onAccessGranted s = None \<and>
     list_all (job_by mh sh) (se_jobs s)"

definition sview :: "'w Session \<Rightarrow> (NodeID \<Rightarrow> 'w \<Rightarrow> 'w) option \<times> 'w job list" where
  "sview s = (se_onAccessGranted s, se_jobs s)"

lemma served_by_view: "hview s' = hview s \<Longrightarrow> sview s' = sview s \<Longrightarrow> served_by rh mh ph sh oc s' = served_by rh mh ph sh oc s"
  by (simp add: served_by_def hview_def sview_def)

lemma sview_updates [simp]:
  "sview (s\<lparr>se_ids := a\<rparr>) = sview s" "sview (s\<lparr>se_sent := sd\<rparr>) = sview s" "sview (s\<lparr>se_pending := p\<rparr>) = sview s"
  "sview (s\<lparr>se_chans := cs\<rparr>) = sview s" "sview (s\<lparr>se_ready := r\<rparr>) = sview s" "sview (s\<lparr>se_out := out\<rparr>) = sview s"
  "sview (s\<lparr>se_in := bi\<rparr>) = sview s" "sview (s\<lparr>se_remoteCaps := rc\<rparr>) = sview s" "sview (s\<lparr>se_control := cn\<rparr>) = sview s"
  by (simp_all add: sview_def)

lemma sview_send [simp]: "sview (snd (Session_send c env s)) = sview s"
  by (simp add: Session_send_def split: sum.split)

lemma sview_send_eqD: "Session_send c e s = (x, s') \<Longrightarrow> sview s' = sview s"
  by (metis sview_send snd_conv)

lemma sview_small [simp]:
  "sview (reply c env s) = sview s" "sview (put_chan ch x s) = sview s" "sview (deliver env s) = sview s"
  "sview (on_error env e s) = sview s" "sview (bulk_reply c i r s) = sview s" "sview (onControlOpen c s) = sview s"
  "sview (call_cancel i s) = sview s" "sview (fetch_cleanup i s) = sview s" "sview (snd (call_recv ch s)) = sview s"
  by (auto simp: reply_def put_chan_def deliver_def Let_def on_error_def bulk_reply_def onControlOpen_def call_cancel_def
      fetch_cleanup_def call_recv_def split: option.split prod.split)

lemma sview_begin [simp]: "sview (snd (call_begin c b s)) = sview s" "sview (snd (fetch_begin c b room s)) = sview s"
  by (auto simp: call_begin_def fetch_begin_def Let_def split: prod.splits option.splits dest!: sview_send_eqD)

lemma snd_outcome: "snd (case p of (r, w) \<Rightarrow> (case r of Inl e \<Rightarrow> (f e w, w) | Inr x \<Rightarrow> (g x w, w))) = snd p"
  "snd (case q of (v, w) \<Rightarrow> (case v of None \<Rightarrow> (f' w, w) | Some e \<Rightarrow> (g' e w, w))) = snd q"
  by (auto split: prod.split sum.split option.split)

section \<open>The contract\<close>

locale handler_laws =
  fixes rh :: "'w RequestHandler" and mh :: "'w MediaHandler" and ph :: "'w PartyHandler" and sh :: "'w SwarmHandler"
    and oc :: "NodeID \<Rightarrow> 'w \<Rightarrow> 'w" and R :: "'w \<Rightarrow> 'w \<Rightarrow> bool"
  assumes R_refl: "R w w"
    and R_trans: "R u v \<Longrightarrow> R v w \<Longrightarrow> R u w"
    and Browse: "R w (snd (rh_Browse rh r w))"
    and GetMetadata: "R w (snd (rh_GetMetadata rh r cid w))"
    and LiveParties: "R w (snd (rh_LiveParties rh r w))"
    and RequestAccess: "R w (snd (rh_RequestAccess rh r m w))"
    and Playlist: "R w (snd (mh_Playlist mh r cid nm w))"
    and Segment: "R w (snd (mh_Segment mh r cid nm w))"
    and OpenFile: "R w (snd (mh_OpenFile mh r cid w))"
    and Join: "R w (snd (ph_OnJoinParty ph r cid w))"
    and Leave: "R w (ph_OnLeaveParty ph r pid w)"
    and PState: "R w (ph_OnPartyState ph r ps w)"
    and Audience: "R w (ph_OnPartyAudience ph r pa w)"
    and Invite: "R w (ph_OnPartyInvite ph r pin w)"
    and Ended: "R w (ph_OnPartyEnded ph r pe w)"
    and PartyComment: "R w (ph_OnPartyDanmaku ph r pd w)"
    and Have: "R w (sw_OnSwarmHave sh r h w)"
    and Swarm: "R w (snd (sw_SwarmSegment sh r req w))"
    and Release: "R w (sw_release sh w)"
    and Close: "R w (oc r w)"
begin

lemmas laws = R_refl Browse GetMetadata LiveParties RequestAccess Playlist Segment OpenFile Join Leave PState Audience
  Invite Ended PartyComment Have Swarm Release Close

lemma handler_cases:
  assumes "served_by rh mh ph sh oc s"
  shows "se_handler s = None \<or> se_handler s = Some rh" "se_mediaHandler s = None \<or> se_mediaHandler s = Some mh"
    "se_partyHandler s = None \<or> se_partyHandler s = Some ph" "se_swarmHandler s = None \<or> se_swarmHandler s = Some sh"
    "se_onClose s = None \<or> se_onClose s = Some oc" "se_onAccessGranted s = None" "list_all (job_by mh sh) (se_jobs s)"
  using assms by (auto simp: served_by_def)

lemma job_keeps:
  assumes "job_by mh sh j" and "run_job c j (s, w) = (s', w')"
  shows "R w w' \<and> hview s' = hview s \<and> sview s' = sview s"
proof -
  have h: "hview s' = hview s" using hview_job [of c j s w] assms(2) by simp
  show ?thesis
  proof (cases j)
    case (JSegment h i cid nm)
    then show ?thesis using assms h Segment [of w "se_remote s" cid nm] by (auto split: prod.splits sum.splits)
  next
    case (JDownload h i cid)
    then show ?thesis using assms h OpenFile [of w "se_remote s" cid] by (auto split: prod.splits sum.splits)
  next
    case (JSwarm h i req)
    obtain res w1 where f: "sw_SwarmSegment sh (se_remote s) req w = (res, w1)" by fastforce
    then have "R w w1" using Swarm [of w "se_remote s" req] by simp
    moreover have "R w (sw_release sh w1)" using calculation Release R_trans by blast
    ultimately show ?thesis using assms h f JSwarm by (auto split: sum.splits)
  qed
qed

lemma dispatch_keeps:
  assumes v: "served_by rh mh ph sh oc s"
  shows "R w (snd (dispatch c env b (s, w)))" and "served_by rh mh ph sh oc (fst (dispatch c env b (s, w)))"
proof -
  note h = handler_cases [OF v]
  have hs: "se_handler s = Some x \<Longrightarrow> x = rh" "se_mediaHandler s = Some y \<Longrightarrow> y = mh" "se_partyHandler s = Some z \<Longrightarrow> z = ph"
    "se_swarmHandler s = Some u \<Longrightarrow> u = sh" for x y z u
    using h by auto
  show "R w (snd (dispatch c env b (s, w)))"
    by (cases b) (simp_all add: dispatch_def handle_defs Let_def snd_outcome laws h(6) split: option.split, auto dest!: hs simp: laws)
  have hv: "hview (fst (dispatch c env b (s, w))) = hview s" by simp
  have "se_onAccessGranted (fst (dispatch c env b (s, w))) = None \<and> list_all (job_by mh sh) (se_jobs (fst (dispatch c env b (s, w))))"
  proof (cases "\<exists>x y q. b = BGetSegment x y \<or> b = BDownload x \<or> b = BGetSwarmSegment q")
    case True
    have "se_onAccessGranted (reply c e s) = None" "se_jobs (reply c e s) = se_jobs s" for e
      using sview_small(1) [of c e s] h(6) by (simp_all add: sview_def)
    then show ?thesis using True h(6,7)
      by (elim exE disjE) (simp_all add: dispatch_def handle_defs split: option.split, auto dest!: hs)
  next
    case False
    then have "sview (fst (dispatch c env b (s, w))) = sview s"
      by (cases b) (simp_all add: dispatch_def handle_defs Let_def split: option.split prod.split sum.split)
    then show ?thesis using h(6,7) by (simp add: sview_def)
  qed
  then show "served_by rh mh ph sh oc (fst (dispatch c env b (s, w)))" using v hv by (simp add: served_by_def hview_def)
qed

lemma step_keeps:
  assumes v: "served_by rh mh ph sh oc s"
  shows "R w (snd (peer_do c ev (s, w)))" and "served_by rh mh ph sh oc (fst (peer_do c ev (s, w)))"
proof -
  note h = handler_cases [OF v]
  have sb: "hview t = hview s \<Longrightarrow> sview t = sview s \<Longrightarrow> served_by rh mh ph sh oc t" for t
    using v served_by_view by blast
  have "R w (snd (peer_do c ev (s, w))) \<and> served_by rh mh ph sh oc (fst (peer_do c ev (s, w)))"
  proof (cases ev)
    case (PvControl raw)
    then show ?thesis using v R_refl dispatch_keeps [OF v]
      by (simp add: onControlMessage_def split: sum.split option.split)
  next
    case (PvState st)
    then show ?thesis using v h R_refl Close by (auto simp: onConnectionStateChange_def split: option.splits)
  next
    case PvJob
    show ?thesis
    proof (cases "se_jobs s")
      case Nil
      then show ?thesis using PvJob v R_refl by simp
    next
      case (Cons j js)
      obtain s' w' where run: "run_job c j (s\<lparr>se_jobs := js\<rparr>, w) = (s', w')" by fastforce
      have k: "R w w'" "hview s' = hview (s\<lparr>se_jobs := js\<rparr>)" "sview s' = sview (s\<lparr>se_jobs := js\<rparr>)"
        using job_keeps [OF _ run] h(7) Cons by simp_all
      have "served_by rh mh ph sh oc (s\<lparr>se_jobs := js\<rparr>)" using v Cons by (simp add: served_by_def)
      then show ?thesis using PvJob Cons run k(1) served_by_view [OF k(2,3)] by simp
    qed
  qed (simp_all add: R_refl sb)
  then show "R w (snd (peer_do c ev (s, w)))" "served_by rh mh ph sh oc (fst (peer_do c ev (s, w)))" by simp_all
qed

lemma run_keeps:
  assumes "served_by rh mh ph sh oc s" and "fold (peer_do c) evs (s, w) = (s', w')"
  shows "R w w' \<and> served_by rh mh ph sh oc s'"
  using assms
proof (induction evs arbitrary: s w)
  case Nil
  then show ?case using R_refl by simp
next
  case (Cons ev evs)
  obtain s1 w1 where f: "peer_do c ev (s, w) = (s1, w1)" by fastforce
  then have "R w w1" "served_by rh mh ph sh oc s1" using step_keeps(1) [OF Cons.prems(1), of w c ev] step_keeps(2) [OF Cons.prems(1), of c ev w] by simp_all
  moreover have "fold (peer_do c) evs (s1, w1) = (s', w')" using Cons.prems(2) f by simp
  ultimately show ?case using Cons.IH R_trans by blast
qed

lemma call_keeps:
  assumes v: "served_by rh mh ph sh oc s" and f: "Session_call c evs done b (s, w) = (res, s', w')"
  shows "R w w' \<and> served_by rh mh ph sh oc s'"
proof -
  obtain r1 s1 where b: "call_begin c b s = (r1, s1)" by fastforce
  have v1: "served_by rh mh ph sh oc s1"
    using v served_by_view [of s1 s] b hview_begin(1) [of c b s] sview_begin(1) [of c b s] by simp
  show ?thesis
  proof (cases r1)
    case (Inl err)
    then show ?thesis using f b v1 R_refl by (simp add: Session_call_def)
  next
    case (Inr p)
    obtain i ch where p: "p = (i, ch)" by fastforce
    obtain s2 w2 where run: "fold (peer_do c) evs (s1, w) = (s2, w2)" by fastforce
    note k = run_keeps [OF v1 run]
    obtain m s3 where rc: "call_recv ch s2 = (m, s3)" by fastforce
    have v3: "served_by rh mh ph sh oc s3" "served_by rh mh ph sh oc (call_cancel i s2)"
      using k served_by_view [of s3 s2] rc hview_small(9) [of ch s2] sview_small(9) [of ch s2] served_by_view [of "call_cancel i s2" s2] by simp_all
    then show ?thesis using f b Inr p run rc k
      by (auto simp: Session_call_def split: option.splits if_splits)
  qed
qed

lemma fetch_keeps:
  assumes v: "served_by rh mh ph sh oc s" and f: "fetchBulk c evs done b (s, w) = (res, s', w')"
  shows "R w w' \<and> served_by rh mh ph sh oc s'"
proof -
  obtain r1 s1 where b: "fetch_begin c b None s = (r1, s1)" by fastforce
  have v1: "served_by rh mh ph sh oc s1"
    using v served_by_view [of s1 s] b hview_begin(2) [of c b None s] sview_begin(2) [of c b None s] by simp
  show ?thesis
  proof (cases r1)
    case (Inl err)
    then show ?thesis using f b v1 R_refl by (simp add: fetchBulk_def fetchBulkTo_def)
  next
    case (Inr i)
    obtain s2 w2 where run: "fold (peer_do c) evs (s1, w) = (s2, w2)" by fastforce
    note k = run_keeps [OF v1 run]
    have "served_by rh mh ph sh oc (fetch_cleanup i s2)"
      using k served_by_view [of "fetch_cleanup i s2" s2] by simp
    then show ?thesis using f b Inr run k
      by (auto simp: fetchBulk_def fetchBulkTo_def split: option.splits if_splits)
  qed
qed

end

section \<open>The Node's handlers and the access policy\<close>

definition same_policy :: "App \<Rightarrow> App \<Rightarrow> bool" where
  "same_policy w w' \<longleftrightarrow> map_option sv_policy (ap_svc w') = map_option sv_policy (ap_svc w)"

lemma on_media_svc [simp]: "ap_svc (snd (on_media f w)) = ap_svc w"
  by (auto simp: on_media_def split: option.split prod.split)

lemma request_policy [simp]: "sv_policy (Service_RequestAccess r m sv) = sv_policy sv"
  by (simp add: Service_RequestAccess_def)

interpretation node_policy: handler_laws "catalogHandler readFile dbe" mediaHandler "partyHandler gc" swarmHandler
  "\<lambda>r. on_pc (\<lambda>_. OnLeaveParty r)" same_policy
  for readFile dbe gc
proof (unfold_locales, goal_cases)
  case (6 w r m)
  show ?case by (cases "ap_svc w") (simp_all add: same_policy_def catalogHandler_def)
qed (auto simp: same_policy_def catalogHandler_def mediaHandler_def partyHandler_def swarmHandler_def split: option.splits prod.splits)

end
