(* ===== verification/Bridge.thy ===== *)
theory Bridge
  imports Go_Path Peer_Wire
begin

text \<open>
  The loopback HTTP server of \<open>internal/bridge\<close>: origin and token checks and the media routes
  (\<open>bridge.go\<close>), the command API (\<open>api.go\<close>), the event stream (\<open>sse.go\<close>), the player's socket
  (\<open>party_ws.go\<close>) and the single-page application with its bootstrap (\<open>static.go\<close>).

  A request is a record of the parts the handlers read, the Node behind the bridge is \<open>'w\<close>, reached through
  the records \<open>Control\<close> and \<open>Streamer\<close> (the Go interfaces). A response is what the client receives; a JSON
  body is the value encoded. \<open>url.Parse\<close>, \<open>net.ParseIP(..).IsLoopback\<close> and the JSON decoding of a request
  body are parameters (\<open>http_env\<close>).
\<close>

section \<open>Strings\<close>

primrec split_n :: "char \<Rightarrow> nat \<Rightarrow> string \<Rightarrow> string list" where
  \<comment> \<open>\<open>strings.SplitN\<close> for a positive count\<close>
  "split_n c 0 s = []"
| "split_n c (Suc k) s =
     (if k = 0 \<or> c \<notin> set s then [s] else takeWhile (\<lambda>x. x \<noteq> c) s # split_n c k (tl (dropWhile (\<lambda>x. x \<noteq> c) s)))"

fun str_index :: "string \<Rightarrow> string \<Rightarrow> nat option" where
  \<comment> \<open>\<open>strings.Index\<close>\<close>
  "str_index sub [] = (if sub = [] then Some 0 else None)"
| "str_index sub (x # xs) = (if HasPrefix (x # xs) sub then Some 0 else map_option Suc (str_index sub xs))"

section \<open>Requests and responses\<close>

record request =
  rq_Method :: string
  rq_Path :: string
  rq_Origin :: string
  rq_Host :: string
  rq_Authorization :: string
  rq_queryToken :: string
  rq_Body :: bytes

record SelfView =
  sv_NodeID :: string
  sv_DisplayName :: string

record PeerView =
  pv_NodeID :: string
  pv_DisplayName :: string
  pv_Online :: bool

record RequestView =
  rv_NodeID :: string
  rv_DisplayName :: string
  rv_Message :: string

record TitleView =
  tv_ContentID :: string
  tv_DisplayTitle :: string
  tv_DurationMs :: int
  tv_PartyLive :: bool
  tv_PartyViewers :: int
  tv_Thumbnail :: string
  tv_RelDir :: string
  tv_RootLabel :: string

record LivePartyView =
  lv_ContentID :: string
  lv_Viewers :: int

record CurrentPartyView =
  cv_Active :: bool
  cv_Role :: string
  cv_Host :: string
  cv_ContentID :: string
  cv_Title :: string
  cv_Viewers :: int

datatype api_value =
    VSelf SelfView | VPeers "PeerView list" | VTitles "TitleView list" | VRequests "RequestView list"
  | VParties "LivePartyView list" | VCurrent CurrentPartyView | VPartyId string

datatype response =
    RError nat string             \<comment> \<open>\<open>http.Error\<close> and \<open>http.NotFound\<close>\<close>
  | RJson api_value               \<comment> \<open>\<open>writeJSON\<close>\<close>
  | RStatus nat                   \<comment> \<open>\<open>w.WriteHeader\<close> alone\<close>
  | RBytes string bytes            \<comment> \<open>a content type and the bytes\<close>
  | RHtml string
  | RAsset string                 \<comment> \<open>the embedded file\<close>
  | REvents                       \<comment> \<open>the event stream is opened\<close>
  | RSocket                       \<comment> \<open>upgraded and handed to the party handler\<close>
  | RRedirect string

definition StatusForbidden :: nat where "StatusForbidden = 403"
definition StatusNotFound :: nat where "StatusNotFound = 404"
definition StatusBadGateway :: nat where "StatusBadGateway = 502"
definition StatusInternalServerError :: nat where "StatusInternalServerError = 500"

definition NotFound :: response where "NotFound = RError StatusNotFound ''404 page not found''"

record 'w Control =
  ct_Self :: "'w \<Rightarrow> SelfView"
  ct_Presence :: "'w \<Rightarrow> PeerView list"
  ct_Library :: "'w \<Rightarrow> gerror + TitleView list"
  ct_Catalog :: "string \<Rightarrow> 'w \<Rightarrow> (gerror + TitleView list) \<times> 'w"
  ct_LiveParties :: "string \<Rightarrow> 'w \<Rightarrow> (gerror + LivePartyView list) \<times> 'w"
  ct_RequestAccess :: "string \<Rightarrow> string \<Rightarrow> 'w \<Rightarrow> gerror option \<times> 'w"
  ct_PendingRequests :: "'w \<Rightarrow> RequestView list"
  ct_Approve :: "string \<Rightarrow> 'w \<Rightarrow> gerror option \<times> 'w"
  ct_Reject :: "string \<Rightarrow> 'w \<Rightarrow> gerror option \<times> 'w"
  ct_StartParty :: "string \<Rightarrow> 'w \<Rightarrow> string \<times> 'w"
  ct_JoinParty :: "string \<Rightarrow> string \<Rightarrow> 'w \<Rightarrow> gerror option \<times> 'w"
  ct_LeaveParty :: "'w \<Rightarrow> 'w"
  ct_EndParty :: "string \<Rightarrow> 'w \<Rightarrow> 'w"
  ct_Audience :: "'w \<Rightarrow> PeerView list"
  ct_CurrentParty :: "'w \<Rightarrow> CurrentPartyView"

record 'w Streamer =
  st_Playlist :: "NodeID \<Rightarrow> string \<Rightarrow> string \<Rightarrow> 'w \<Rightarrow> (gerror + bytes \<times> string) \<times> 'w"
  st_Segment :: "NodeID \<Rightarrow> string \<Rightarrow> string \<Rightarrow> 'w \<Rightarrow> (gerror + bytes \<times> string) \<times> 'w"
  st_Thumbnail :: "NodeID \<Rightarrow> string \<Rightarrow> 'w \<Rightarrow> (gerror + bytes \<times> string) \<times> 'w"

record http_env =
  he_urlParse :: "string \<Rightarrow> (string \<times> string) option"   \<comment> \<open>\<open>Hostname()\<close> and \<open>Port()\<close>; \<open>None\<close>: an error\<close>
  he_loopbackIP :: "string \<Rightarrow> bool"                       \<comment> \<open>\<open>ip != nil && ip.IsLoopback()\<close> for \<open>net.ParseIP\<close>\<close>
  he_field :: "bytes \<Rightarrow> string \<Rightarrow> string"                 \<comment> \<open>a string field of the decoded body, empty by default\<close>
  he_asset :: "string \<Rightarrow> string option"                   \<comment> \<open>the files embedded from \<open>dist\<close>\<close>

record 'w Bridge =
  br_token :: string
  br_port :: "string option"       \<comment> \<open>of the listener, \<open>None\<close> for \<open>b.ln == nil\<close>\<close>
  br_partyHandler :: bool
  br_control :: "'w Control option"
  br_events :: bool
  br_selfNodeID :: string
  br_selfName :: string
  br_streamer :: "'w Streamer"

definition NewBridge :: "'w Streamer \<Rightarrow> string \<Rightarrow> 'w Bridge" where
  "NewBridge streamer token =
     \<lparr>br_token = token, br_port = None, br_partyHandler = False, br_control = None, br_events = False,
      br_selfNodeID = '''', br_selfName = '''', br_streamer = streamer\<rparr>"

definition SetControl :: "'w Control \<Rightarrow> 'w Bridge \<Rightarrow> 'w Bridge" where "SetControl c b = b\<lparr>br_control := Some c\<rparr>"

definition SetEvents :: "'w Bridge \<Rightarrow> 'w Bridge" where "SetEvents b = b\<lparr>br_events := True\<rparr>"

definition Bridge_SetPartyHandler :: "'w Bridge \<Rightarrow> 'w Bridge" where "Bridge_SetPartyHandler b = b\<lparr>br_partyHandler := True\<rparr>"

definition SetBootstrap :: "string \<Rightarrow> string \<Rightarrow> 'w Bridge \<Rightarrow> 'w Bridge" where
  "SetBootstrap nodeID name b = b\<lparr>br_selfNodeID := nodeID, br_selfName := name\<rparr>"

section \<open>Origins and binding: \<open>bridge.go\<close>\<close>

definition isLoopbackHost :: "http_env \<Rightarrow> string \<Rightarrow> bool" where
  "isLoopbackHost he host = (if host = ''localhost'' then True else he_loopbackIP he host)"

definition originAllowed :: "http_env \<Rightarrow> string \<Rightarrow> string \<Rightarrow> bool" where
  "originAllowed he origin port =
     (if origin = '''' then True
      else case he_urlParse he origin of None \<Rightarrow> False
      | Some (hostname, uport) \<Rightarrow> if \<not> isLoopbackHost he hostname then False else port = '''' \<or> uport = port)"

definition originOK :: "http_env \<Rightarrow> 'w Bridge \<Rightarrow> request \<Rightarrow> bool" where
  "originOK he b r = originAllowed he (rq_Origin r) (case br_port b of None \<Rightarrow> '''' | Some p \<Rightarrow> p)"

definition Bridge_Start ::
  "http_env \<Rightarrow> (string \<Rightarrow> gerror + string \<times> string) \<Rightarrow> (string \<Rightarrow> gerror + string) \<Rightarrow> string \<Rightarrow> 'w Bridge \<Rightarrow> gerror option \<times> 'w Bridge" where
  \<comment> \<open>\<open>net.SplitHostPort\<close> and \<open>net.Listen\<close>, which answers the bound port\<close>
  "Bridge_Start he splitHostPort listen addr b =
     (case splitHostPort addr of Inl err \<Rightarrow> (Some err, b)
      | Inr (host, _) \<Rightarrow>
          if \<not> isLoopbackHost he host
          then (Some (ErrText (''bridge: refusing to bind non-loopback address '' @ addr)), b)
          else case listen addr of Inl err \<Rightarrow> (Some err, b)
               | Inr port \<Rightarrow> (None, b\<lparr>br_port := Some port\<rparr>))"

definition data_response :: "(gerror + bytes \<times> string) \<times> 'w \<Rightarrow> response \<times> 'w" where
  "data_response = (\<lambda>(res, w).
     (case res of Inl err \<Rightarrow> RError StatusBadGateway (err_Error err) | Inr (data, ct) \<Rightarrow> RBytes ct data, w))"

definition handleStream :: "http_env \<Rightarrow> 'w Bridge \<Rightarrow> request \<Rightarrow> 'w \<Rightarrow> response \<times> 'w" where
  "handleStream he b r w =
     (if \<not> originOK he b r then (RError StatusForbidden ''bad origin'', w)
      else case split_n (CHR ''/'') 4 (TrimPrefix (rq_Path r) ''/s/'') of
        [token, node, cid, name] \<Rightarrow>
          if token \<noteq> br_token b then (RError StatusForbidden ''forbidden'', w)
          else data_response
                 (if name = ''thumb.jpg'' then st_Thumbnail (br_streamer b) node cid w
                  else if HasSuffix name ''.m3u8'' then st_Playlist (br_streamer b) node cid name w
                  else st_Segment (br_streamer b) node cid name w)
      | _ \<Rightarrow> (NotFound, w))"

section \<open>The command API: \<open>api.go\<close>\<close>

definition apiAuthOK :: "http_env \<Rightarrow> 'w Bridge \<Rightarrow> request \<Rightarrow> bool" where
  "apiAuthOK he b r =
     (if \<not> originOK he b r then False else TrimPrefix (rq_Authorization r) ''Bearer '' = br_token b)"

definition statusForErr :: "gerror \<Rightarrow> nat" where
  "statusForErr err =
     (if errors_Is err ErrDenied then StatusForbidden
      else if errors_Is err ErrNotFound then StatusNotFound
      else StatusBadGateway)"

definition api_error :: "gerror \<Rightarrow> response" where
  "api_error err = RError (statusForErr err) (err_Error err)"

definition splitPeerPath :: "string \<Rightarrow> string \<Rightarrow> string \<times> string \<times> bool" where
  "splitPeerPath path pre =
     (let rest = TrimPrefix path pre
      in if rest = path then ('''', '''', False)
         else case split_n (CHR ''/'') 2 rest of [i, action] \<Rightarrow> (i, action, True) | parts \<Rightarrow> (hd parts, '''', True))"

definition value_or_error :: "('a \<Rightarrow> api_value) \<Rightarrow> (gerror + 'a) \<times> 'w \<Rightarrow> response \<times> 'w" where
  "value_or_error f = (\<lambda>(res, w). (case res of Inl err \<Rightarrow> api_error err | Inr v \<Rightarrow> RJson (f v), w))"

definition status_or_error :: "nat \<Rightarrow> gerror option \<times> 'w \<Rightarrow> response \<times> 'w" where
  "status_or_error st = (\<lambda>(res, w). (case res of Some err \<Rightarrow> api_error err | None \<Rightarrow> RStatus st, w))"

definition handlePeers :: "http_env \<Rightarrow> 'w Control \<Rightarrow> string \<Rightarrow> request \<Rightarrow> 'w \<Rightarrow> response \<times> 'w" where
  \<comment> \<open>the case \<open>strings.HasPrefix(path, "peers/")\<close>\<close>
  "handlePeers he c path r w =
     (case splitPeerPath path ''peers/'' of (i, action, _) \<Rightarrow>
        if action = ''catalog'' \<and> rq_Method r = ''GET'' then value_or_error VTitles (ct_Catalog c i w)
        else if action = ''live-parties'' \<and> rq_Method r = ''GET'' then value_or_error VParties (ct_LiveParties c i w)
        else if action = ''request-access'' \<and> rq_Method r = ''POST''
        then status_or_error 202 (ct_RequestAccess c i (he_field he (rq_Body r) ''message'') w)
        else (NotFound, w))"

definition handleParty_cmd :: "http_env \<Rightarrow> 'w Control \<Rightarrow> string \<Rightarrow> request \<Rightarrow> 'w \<Rightarrow> response \<times> 'w" where
  \<comment> \<open>the case \<open>strings.HasPrefix(path, "party/")\<close> of \<open>handleAPI\<close>\<close>
  "handleParty_cmd he c path r w =
     (let cmd = TrimPrefix path ''party/''
      in if cmd = ''start''
         then (case ct_StartParty c (he_field he (rq_Body r) ''contentId'') w of (i, w') \<Rightarrow> (RJson (VPartyId i), w'))
         else if cmd = ''join''
         then status_or_error 200 (ct_JoinParty c (he_field he (rq_Body r) ''hostNodeId'') (he_field he (rq_Body r) ''contentId'') w)
         else if cmd = ''leave'' then (RStatus 200, ct_LeaveParty c w)
         else if cmd = ''end'' then (RStatus 200, ct_EndParty c ''host ended the party'' w)
         else (NotFound, w))"

definition handleAPI :: "http_env \<Rightarrow> 'w Bridge \<Rightarrow> request \<Rightarrow> 'w \<Rightarrow> response \<times> 'w" where
  "handleAPI he b r w =
     (if \<not> apiAuthOK he b r then (RError StatusForbidden ''forbidden'', w)
      else case br_control b of None \<Rightarrow> (NotFound, w)
      | Some c \<Rightarrow>
          let path = TrimPrefix (rq_Path r) ''/api/''; get = (rq_Method r = ''GET''); post = (rq_Method r = ''POST'')
          in if path = ''self'' \<and> get then (RJson (VSelf (ct_Self c w)), w)
             else if path = ''presence'' \<and> get then (RJson (VPeers (ct_Presence c w)), w)
             else if path = ''library'' \<and> get then value_or_error VTitles (ct_Library c w, w)
             else if path = ''requests'' \<and> get then (RJson (VRequests (ct_PendingRequests c w)), w)
             else if HasPrefix path ''peers/'' then handlePeers he c path r w
             else if HasPrefix path ''requests/'' \<and> post
             then (case splitPeerPath path ''requests/'' of (i, action, _) \<Rightarrow>
                     if action = ''approve'' then status_or_error 200 (ct_Approve c i w)
                     else if action = ''reject'' then status_or_error 200 (ct_Reject c i w)
                     else (NotFound, w))
             else if path = ''party/audience'' \<and> get then (RJson (VPeers (ct_Audience c w)), w)
             else if path = ''party/current'' \<and> get then (RJson (VCurrent (ct_CurrentParty c w)), w)
             else if HasPrefix path ''party/'' \<and> post then handleParty_cmd he c path r w
             else (NotFound, w))"

section \<open>Events and the player's socket: \<open>sse.go\<close>, \<open>party_ws.go\<close>\<close>

definition handleSSE :: "http_env \<Rightarrow> 'w Bridge \<Rightarrow> bool \<Rightarrow> request \<Rightarrow> 'w \<Rightarrow> response \<times> 'w" where
  \<comment> \<open>the third argument: the response writer is an \<open>http.Flusher\<close>\<close>
  "handleSSE he b flusher r w =
     (if \<not> originOK he b r \<or> rq_queryToken r \<noteq> br_token b then (RError StatusForbidden ''forbidden'', w)
      else if \<not> br_events b \<or> \<not> flusher then (RError StatusInternalServerError ''unsupported'', w)
      else (REvents, w))"

definition handleParty :: "http_env \<Rightarrow> 'w Bridge \<Rightarrow> bool \<Rightarrow> request \<Rightarrow> 'w \<Rightarrow> response \<times> 'w" where
  \<comment> \<open>the third argument: the upgrade succeeds (its check is \<open>originOK\<close> again); else it wrote its own error\<close>
  "handleParty he b upgraded r w =
     (if \<not> originOK he b r then (RError StatusForbidden ''bad origin'', w)
      else if TrimPrefix (rq_Path r) ''/party/'' \<noteq> br_token b then (RError StatusForbidden ''forbidden'', w)
      else if \<not> br_partyHandler b then (NotFound, w)
      else if \<not> upgraded \<or> \<not> originOK he b r then (RError 400 ''Bad Request'', w)
      else (RSocket, w))"

section \<open>The application page: \<open>static.go\<close>\<close>

definition hexdig :: "nat \<Rightarrow> char" where "hexdig n = ''0123456789abcdef'' ! n"

definition esc_byte :: "char \<Rightarrow> string" where
  \<comment> \<open>one ASCII byte of a JSON string, HTML-escaped as \<open>json.Marshal\<close> does\<close>
  "esc_byte ch =
     (let n = of_char ch :: nat
      in if n = 0x22 then [CHR 0x5C, CHR 0x22] else if n = 0x5C then [CHR 0x5C, CHR 0x5C]
         else if n = 8 then [CHR 0x5C] @ ''b'' else if n = 12 then [CHR 0x5C] @ ''f'' else if n = 10 then [CHR 0x5C] @ ''n''
         else if n = 13 then [CHR 0x5C] @ ''r'' else if n = 9 then [CHR 0x5C] @ ''t''
         else if n < 0x20 \<or> n = 0x3C \<or> n = 0x3E \<or> n = 0x26
         then [CHR 0x5C] @ ''u00'' @ [hexdig (n div 16), hexdig (n mod 16)]
         else [ch])"

lemma rune_width_pos: "s \<noteq> [] \<Longrightarrow> 0 < rune_width s"
  using rune_width_bounds [of s] by simp

function json_body :: "string \<Rightarrow> string" where
  "json_body s =
     (if s = [] then []
      else if (of_char (hd s) :: nat) < 0x80 then esc_byte (hd s) @ json_body (tl s)
      else if rune_width s = 1 then [CHR 0x5C] @ ''ufffd'' @ json_body (tl s)
      else if take 3 s = [CHR 0xE2, CHR 0x80, CHR 0xA8] then [CHR 0x5C] @ ''u2028'' @ json_body (drop 3 s)
      else if take 3 s = [CHR 0xE2, CHR 0x80, CHR 0xA9] then [CHR 0x5C] @ ''u2029'' @ json_body (drop 3 s)
      else take (rune_width s) s @ json_body (drop (rune_width s) s))"
  by pat_completeness auto
termination by (relation "measure length") (auto simp: rune_width_pos)

declare json_body.simps [simp del]

definition json_string :: "string \<Rightarrow> string" where
  "json_string s = [CHR 0x22] @ json_body s @ [CHR 0x22]"

definition bootstrapJSON :: "'w Bridge \<Rightarrow> string" where
  "bootstrapJSON b =
     ''{'' @ json_string ''token'' @ '':'' @ json_string (br_token b) @ '','' @
     json_string ''nodeId'' @ '':'' @ json_string (br_selfNodeID b) @ '','' @
     json_string ''name'' @ '':'' @ json_string (br_selfName b) @ ''}''"

definition bootMarker :: string where "bootMarker = ''<!--__P2P_BOOTSTRAP__-->''"

definition injectBootstrap :: "string \<Rightarrow> string \<Rightarrow> string" where
  "injectBootstrap html boot =
     (case str_index bootMarker html of
        Some i \<Rightarrow> take i html @ boot @ drop (i + length bootMarker) html
      | None \<Rightarrow>
          (case str_index ''</head>'' html of
             Some i \<Rightarrow> take i html @ boot @ drop i html
           | None \<Rightarrow> boot @ html))"

definition bootScript :: "'w Bridge \<Rightarrow> string" where
  "bootScript b = ''<script>window.__P2P__='' @ bootstrapJSON b @ ''</script>''"

definition placeholderHTML :: string where
  "placeholderHTML =
     ''<!doctype html>'' @ [CHR 0x0A] @ ''<html>'' @ [CHR 0x0A] @
     ''  <head><meta charset='' @ [CHR 0x22] @ ''utf-8'' @ [CHR 0x22] @ ''><title>p2p-hls</title></head>'' @ [CHR 0x0A] @
     ''  <body>'' @ [CHR 0x0A] @
     ''    <div id='' @ [CHR 0x22] @ ''app'' @ [CHR 0x22] @ ''>control plane up '' @ [CHR 0xE2, CHR 0x80, CHR 0x94] @
     '' UI bundle not built yet (run make webui)</div>'' @ [CHR 0x0A] @
     ''    '' @ bootMarker @ [CHR 0x0A] @ ''  </body>'' @ [CHR 0x0A] @ ''</html>'' @ [CHR 0x0A]"

definition handleStatic :: "http_env \<Rightarrow> 'w Bridge \<Rightarrow> request \<Rightarrow> 'w \<Rightarrow> response \<times> 'w" where
  "handleStatic he b r w =
     (if \<not> originOK he b r then (RError StatusForbidden ''bad origin'', w)
      else let clean = TrimPrefix (rq_Path r) ''/''
           in if clean \<noteq> '''' \<and> clean \<noteq> ''index.html'' \<and> he_asset he clean \<noteq> None then (RAsset clean, w)
              else (RHtml (injectBootstrap (case he_asset he ''index.html'' of None \<Rightarrow> placeholderHTML | Some data \<Rightarrow> data) (bootScript b)), w))"

section \<open>The server\<close>

definition cleanPath :: "string \<Rightarrow> string" where
  \<comment> \<open>of \<open>net/http\<close>: \<open>path.Clean\<close>, keeping a trailing slash\<close>
  "cleanPath p =
     (if p = '''' then ''/''
      else let p = (if HasPrefix p ''/'' then p else ''/'' @ p); np = path_Clean p
           in if HasSuffix p ''/'' \<and> np \<noteq> ''/'' then np @ ''/'' else np)"

definition Bridge_serve :: "http_env \<Rightarrow> 'w Bridge \<Rightarrow> bool \<Rightarrow> bool \<Rightarrow> request \<Rightarrow> 'w \<Rightarrow> response \<times> 'w" where
  \<comment> \<open>the mux \<open>Start\<close> installs: the longest matching pattern, after its redirects\<close>
  "Bridge_serve he b flusher upgraded r w =
     (let p = rq_Path r
      in if cleanPath p \<noteq> p then (RRedirect (cleanPath p), w)
         else if p \<in> {''/s'', ''/party'', ''/api''} then (RRedirect (p @ ''/''), w)
         else if p = ''/api/events'' then handleSSE he b flusher r w
         else if HasPrefix p ''/api/'' then handleAPI he b r w
         else if HasPrefix p ''/s/'' then handleStream he b r w
         else if HasPrefix p ''/party/'' then handleParty he b upgraded r w
         else handleStatic he b r w)"

section \<open>Nothing without the token\<close>

definition reveals :: "response \<Rightarrow> bool" where
  \<comment> \<open>the response carries something of the Node or opens a channel to it\<close>
  "reveals resp = (case resp of RJson _ \<Rightarrow> True | RStatus _ \<Rightarrow> True | RBytes _ _ \<Rightarrow> True | REvents \<Rightarrow> True | RSocket \<Rightarrow> True | _ \<Rightarrow> False)"

definition presents_token :: "string \<Rightarrow> request \<Rightarrow> bool" where
  "presents_token token r \<longleftrightarrow>
     (if rq_Path r = ''/api/events'' then rq_queryToken r = token
      else if HasPrefix (rq_Path r) ''/api/'' then rq_Authorization r \<in> {token, ''Bearer '' @ token}
      else rq_Path r = ''/party/'' @ token \<or> (\<exists>node cid name. rq_Path r = ''/s/'' @ token @ ''/'' @ node @ ''/'' @ cid @ ''/'' @ name))"

lemma TrimPrefix_cases: "TrimPrefix s p = t \<Longrightarrow> s = t \<or> s = p @ t"
  by (auto simp: TrimPrefix_def HasPrefix_def split: if_splits) (metis append_take_drop_id)

lemma HasPrefix_append_TrimPrefix: "HasPrefix s p \<Longrightarrow> s = p @ TrimPrefix s p"
  by (simp add: TrimPrefix_def HasPrefix_def) (metis append_take_drop_id)

lemma split_n_join: "0 < k \<Longrightarrow> s = join_with [c] (split_n c k s)"
proof (induction k arbitrary: s)
  case (Suc k)
  show ?case
  proof (cases "k = 0 \<or> c \<notin> set s")
    case False
    then have "dropWhile (\<lambda>x. x \<noteq> c) s \<noteq> []" by (auto simp: dropWhile_eq_Nil_conv)
    then have d: "dropWhile (\<lambda>x. x \<noteq> c) s = c # tl (dropWhile (\<lambda>x. x \<noteq> c) s)"
      using hd_dropWhile [of "\<lambda>x. x \<noteq> c" s] by (cases "dropWhile (\<lambda>x. x \<noteq> c) s") auto
    let ?t = "tl (dropWhile (\<lambda>x. x \<noteq> c) s)"
    have "split_n c k ?t \<noteq> []" using False by (cases k) auto
    then have "join_with [c] (takeWhile (\<lambda>x. x \<noteq> c) s # split_n c k ?t) = takeWhile (\<lambda>x. x \<noteq> c) s @ c # join_with [c] (split_n c k ?t)"
      by (cases "split_n c k ?t") auto
    also have "join_with [c] (split_n c k ?t) = ?t" using Suc.IH [of ?t] False by simp
    finally show ?thesis using False d by (simp add: takeWhile_dropWhile_id)
  qed simp
qed simp

lemma status_responses [simp]: "\<not> reveals NotFound" "\<not> reveals (RError c t)" "\<not> reveals (RRedirect p)" "\<not> reveals (RHtml h)" "\<not> reveals (RAsset a)"
  by (simp_all add: reveals_def NotFound_def)

lemma stream_needs_token:
  assumes "handleStream he b r w = (resp, w')" and "w' \<noteq> w \<or> reveals resp" and "HasPrefix (rq_Path r) ''/s/''"
  shows "originOK he b r \<and> (\<exists>node cid name. rq_Path r = ''/s/'' @ br_token b @ ''/'' @ node @ ''/'' @ cid @ ''/'' @ name)"
proof -
  let ?p = "TrimPrefix (rq_Path r) ''/s/''"
  have o: "originOK he b r" using assms(1,2) by (auto simp: handleStream_def split: if_splits)
  obtain node cid name where s: "split_n (CHR ''/'') 4 ?p = [br_token b, node, cid, name]"
    using assms(1,2) o by (auto simp: handleStream_def split: list.splits if_splits)
  have "?p = join_with [CHR ''/''] [br_token b, node, cid, name]" using split_n_join [of 4 ?p "CHR ''/''"] s by simp
  then have "rq_Path r = ''/s/'' @ br_token b @ ''/'' @ node @ ''/'' @ cid @ ''/'' @ name"
    using HasPrefix_append_TrimPrefix [OF assms(3)] by simp
  then show ?thesis using o by blast
qed


section \<open>The routes of the API\<close>

fun api_spec :: "http_env \<Rightarrow> 'w Control \<Rightarrow> string \<Rightarrow> bytes \<Rightarrow> string list \<Rightarrow> 'w \<Rightarrow> response \<times> 'w" where
  \<comment> \<open>the route table, on the segments of the path\<close>
  "api_spec he c m body [a] w =
     (if m = ''GET'' \<and> a = ''self'' then (RJson (VSelf (ct_Self c w)), w)
      else if m = ''GET'' \<and> a = ''presence'' then (RJson (VPeers (ct_Presence c w)), w)
      else if m = ''GET'' \<and> a = ''library'' then value_or_error VTitles (ct_Library c w, w)
      else if m = ''GET'' \<and> a = ''requests'' then (RJson (VRequests (ct_PendingRequests c w)), w)
      else (NotFound, w))"
| "api_spec he c m body [a, x] w =
     (if m = ''GET'' \<and> a = ''party'' \<and> x = ''audience'' then (RJson (VPeers (ct_Audience c w)), w)
      else if m = ''GET'' \<and> a = ''party'' \<and> x = ''current'' then (RJson (VCurrent (ct_CurrentParty c w)), w)
      else if m = ''POST'' \<and> a = ''party'' \<and> x = ''start''
      then (case ct_StartParty c (he_field he body ''contentId'') w of (i, w') \<Rightarrow> (RJson (VPartyId i), w'))
      else if m = ''POST'' \<and> a = ''party'' \<and> x = ''join''
      then status_or_error 200 (ct_JoinParty c (he_field he body ''hostNodeId'') (he_field he body ''contentId'') w)
      else if m = ''POST'' \<and> a = ''party'' \<and> x = ''leave'' then (RStatus 200, ct_LeaveParty c w)
      else if m = ''POST'' \<and> a = ''party'' \<and> x = ''end'' then (RStatus 200, ct_EndParty c ''host ended the party'' w)
      else (NotFound, w))"
| "api_spec he c m body [a, x, y] w =
     (if m = ''GET'' \<and> a = ''peers'' \<and> y = ''catalog'' then value_or_error VTitles (ct_Catalog c x w)
      else if m = ''GET'' \<and> a = ''peers'' \<and> y = ''live-parties'' then value_or_error VParties (ct_LiveParties c x w)
      else if m = ''POST'' \<and> a = ''peers'' \<and> y = ''request-access''
      then status_or_error 202 (ct_RequestAccess c x (he_field he body ''message'') w)
      else if m = ''POST'' \<and> a = ''requests'' \<and> y = ''approve'' then status_or_error 200 (ct_Approve c x w)
      else if m = ''POST'' \<and> a = ''requests'' \<and> y = ''reject'' then status_or_error 200 (ct_Reject c x w)
      else (NotFound, w))"
| "api_spec he c m body _ w = (NotFound, w)"

lemma prefix_segment:
  assumes "CHR ''/'' \<notin> set a" and "CHR ''/'' \<notin> set p"
  shows "HasPrefix (a @ CHR ''/'' # s) (p @ ''/'') \<longleftrightarrow> a = p" and "\<not> HasPrefix a (p @ ''/'')"
proof -
  have "a = p" if "a @ CHR ''/'' # s = (p @ ''/'') @ t" for t
    using that assms by (auto simp: append_eq_append_conv2 Cons_eq_append_conv append_eq_Cons_conv)
  then show "HasPrefix (a @ CHR ''/'' # s) (p @ ''/'') \<longleftrightarrow> a = p" by (auto simp: HasPrefix_prefix prefix_def)
  show "\<not> HasPrefix a (p @ ''/'')" using assms(1) by (auto simp: HasPrefix_prefix prefix_def)
qed

lemma split_n_two:
  assumes "CHR ''/'' \<notin> set x"
  shows "split_n (CHR ''/'') 2 (x @ CHR ''/'' # s) = [x, s]" and "split_n (CHR ''/'') 2 x = [x]"
proof -
  have "takeWhile (\<lambda>c. c \<noteq> CHR ''/'') (x @ CHR ''/'' # s) = x" "dropWhile (\<lambda>c. c \<noteq> CHR ''/'') (x @ CHR ''/'' # s) = CHR ''/'' # s"
    using assms by (induction x) auto
  then show "split_n (CHR ''/'') 2 (x @ CHR ''/'' # s) = [x, s]" "split_n (CHR ''/'') 2 x = [x]"
    using assms by (simp_all add: numeral_2_eq_2)
qed

lemma peer_path:
  assumes "CHR ''/'' \<notin> set x"
  shows "splitPeerPath (p @ x @ CHR ''/'' # s) p = (if p = '''' then ('''', '''', False) else (x, s, True))"
    and "splitPeerPath (p @ x) p = (if p = '''' then ('''', '''', False) else (x, '''', True))"
  by (simp_all add: splitPeerPath_def Let_def split_n_two [OF assms])

definition api_tail :: "http_env \<Rightarrow> 'w Control \<Rightarrow> string \<Rightarrow> string \<Rightarrow> request \<Rightarrow> 'w \<Rightarrow> response \<times> 'w" where
  \<comment> \<open>the cases of \<open>handleAPI\<close> once the path is known to be \<open>a/s\<close>\<close>
  "api_tail he c a s r w =
     (if a = ''peers'' then handlePeers he c (''peers/'' @ s) r w
      else if a = ''requests'' \<and> rq_Method r = ''POST''
      then (case splitPeerPath (''requests/'' @ s) ''requests/'' of (i, action, _) \<Rightarrow>
              if action = ''approve'' then status_or_error 200 (ct_Approve c i w)
              else if action = ''reject'' then status_or_error 200 (ct_Reject c i w)
              else (NotFound, w))
      else if a = ''party'' \<and> s = ''audience'' \<and> rq_Method r = ''GET'' then (RJson (VPeers (ct_Audience c w)), w)
      else if a = ''party'' \<and> s = ''current'' \<and> rq_Method r = ''GET'' then (RJson (VCurrent (ct_CurrentParty c w)), w)
      else if a = ''party'' \<and> rq_Method r = ''POST'' then handleParty_cmd he c (''party/'' @ s) r w
      else (NotFound, w))"

lemma slash_word: "CHR ''/'' \<notin> set q \<Longrightarrow> a @ CHR ''/'' # s \<noteq> q"
  by auto

lemma slash_two:
  assumes "CHR ''/'' \<notin> set a" and "CHR ''/'' \<notin> set p"
  shows "a @ CHR ''/'' # s = p @ CHR ''/'' # t \<longleftrightarrow> a = p \<and> s = t"
proof -
  have tw: "takeWhile (\<lambda>c. c \<noteq> CHR ''/'') (v @ CHR ''/'' # u) = v" if "CHR ''/'' \<notin> set v" for u v :: string
    using that by (induction v) auto
  have "a = p" if "a @ CHR ''/'' # s = p @ CHR ''/'' # t" using tw [OF assms(1), of s] tw [OF assms(2), of t] that by simp
  then show ?thesis by blast
qed

lemma api_tail_eq:
  assumes a: "CHR ''/'' \<notin> set a"
  shows "(let path = a @ CHR ''/'' # s; get = (rq_Method r = ''GET''); post = (rq_Method r = ''POST'')
      in if path = ''self'' \<and> get then (RJson (VSelf (ct_Self c w)), w)
         else if path = ''presence'' \<and> get then (RJson (VPeers (ct_Presence c w)), w)
         else if path = ''library'' \<and> get then value_or_error VTitles (ct_Library c w, w)
         else if path = ''requests'' \<and> get then (RJson (VRequests (ct_PendingRequests c w)), w)
         else if HasPrefix path ''peers/'' then handlePeers he c path r w
         else if HasPrefix path ''requests/'' \<and> post
         then (case splitPeerPath path ''requests/'' of (i, action, _) \<Rightarrow>
                 if action = ''approve'' then status_or_error 200 (ct_Approve c i w)
                 else if action = ''reject'' then status_or_error 200 (ct_Reject c i w)
                 else (NotFound, w))
         else if path = ''party/audience'' \<and> get then (RJson (VPeers (ct_Audience c w)), w)
         else if path = ''party/current'' \<and> get then (RJson (VCurrent (ct_CurrentParty c w)), w)
         else if HasPrefix path ''party/'' \<and> post then handleParty_cmd he c path r w
         else (NotFound, w)) = api_tail he c a s r w"
proof -
  have n4: "a @ CHR ''/'' # s \<noteq> ''self''" "a @ CHR ''/'' # s \<noteq> ''presence''" "a @ CHR ''/'' # s \<noteq> ''library''" "a @ CHR ''/'' # s \<noteq> ''requests''"
    by (rule slash_word, simp)+
  have pf: "HasPrefix (a @ CHR ''/'' # s) ''peers/'' \<longleftrightarrow> a = ''peers''" "HasPrefix (a @ CHR ''/'' # s) ''requests/'' \<longleftrightarrow> a = ''requests''"
    "HasPrefix (a @ CHR ''/'' # s) ''party/'' \<longleftrightarrow> a = ''party''"
    using prefix_segment(1) [OF a, of "''peers''" s] prefix_segment(1) [OF a, of "''requests''" s] prefix_segment(1) [OF a, of "''party''" s] by simp_all
  have two: "a @ CHR ''/'' # s = ''party/audience'' \<longleftrightarrow> a = ''party'' \<and> s = ''audience''"
    "a @ CHR ''/'' # s = ''party/current'' \<longleftrightarrow> a = ''party'' \<and> s = ''current''"
    using slash_two [OF a, of "''party''" s "''audience''"] slash_two [OF a, of "''party''" s "''current''"] by simp_all
  have tails: "''peers'' @ CHR ''/'' # s = ''peers/'' @ s" "''requests'' @ CHR ''/'' # s = ''requests/'' @ s"
    "''party'' @ CHR ''/'' # s = ''party/'' @ s" by simp_all
  show ?thesis unfolding Let_def pf two api_tail_def
    by (simp only: n4 simp_thms if_False cong: if_cong) (simp only: tails conj_ac cong: if_cong)
qed

lemma api_tail_spec:
  assumes x: "CHR ''/'' \<notin> set x"
  shows "api_tail he c a (join_with ''/'' (x # rest)) r w = api_spec he c (rq_Method r) (rq_Body r) (a # x # rest) w"
proof (cases rest)
  case Nil
  have "splitPeerPath (''peers/'' @ x) ''peers/'' = (x, '''', True)" "splitPeerPath (''requests/'' @ x) ''requests/'' = (x, '''', True)"
    using peer_path(2) [OF x, of "''peers/''"] peer_path(2) [OF x, of "''requests/''"] by simp_all
  moreover have "TrimPrefix (''party/'' @ x) ''party/'' = x" by (rule TrimPrefix_append)
  ultimately show ?thesis unfolding Nil api_tail_def handlePeers_def handleParty_cmd_def api_spec.simps join_with.simps Let_def
    by (simp only: prod.case conj_ac list.distinct simp_thms if_False cong: if_cong) (cases "a = ''peers''"; cases "a = ''requests''"; cases "a = ''party''"; simp)
next
  case (Cons y rest')
  define s where "s = join_with ''/'' (y # rest')"
  have j: "join_with ''/'' (x # rest) = x @ CHR ''/'' # s" by (simp add: Cons s_def)
  have sp: "splitPeerPath (''peers/'' @ x @ CHR ''/'' # s) ''peers/'' = (x, s, True)"
    "splitPeerPath (''requests/'' @ x @ CHR ''/'' # s) ''requests/'' = (x, s, True)"
    using peer_path(1) [OF x, of "''peers/''" s] peer_path(1) [OF x, of "''requests/''" s] by simp_all
  have nx: "x @ CHR ''/'' # s \<noteq> q" if "CHR ''/'' \<notin> set q" for q using that by (rule slash_word)
  have pn: "x @ CHR ''/'' # s \<noteq> ''audience''" "x @ CHR ''/'' # s \<noteq> ''current''" "x @ CHR ''/'' # s \<noteq> ''start''"
    "x @ CHR ''/'' # s \<noteq> ''join''" "x @ CHR ''/'' # s \<noteq> ''leave''" "x @ CHR ''/'' # s \<noteq> ''end''"
    by (rule nx, simp)+
  have pc: "handleParty_cmd he c (''party/'' @ x @ CHR ''/'' # s) r w = (NotFound, w)"
    using TrimPrefix_append [of "''party/''" "x @ CHR ''/'' # s"] pn by (simp add: handleParty_cmd_def Let_def)
  show ?thesis
  proof (cases rest')
    case Nil
    then have sy: "s = y" by (simp add: s_def)
    show ?thesis unfolding j unfolding api_tail_def handlePeers_def Cons Nil api_spec.simps pc sp prod.case unfolding sy
      by (simp only: pn [unfolded sy] simp_thms if_False if_True cong: if_cong) (cases "a = ''peers''"; cases "a = ''requests''"; cases "a = ''party''"; simp)
  next
    case (Cons z zs)
    then have "s = y @ CHR ''/'' # join_with ''/'' (z # zs)" by (simp add: s_def)
    then have "s \<noteq> q" if "CHR ''/'' \<notin> set q" for q using that slash_word by metis
    then have "s \<noteq> ''catalog''" "s \<noteq> ''live-parties''" "s \<noteq> ''request-access''" "s \<noteq> ''approve''" "s \<noteq> ''reject''" by simp_all
    then show ?thesis unfolding j unfolding api_tail_def handlePeers_def \<open>rest = y # rest'\<close> Cons api_spec.simps pc sp prod.case
      by (simp only: pn simp_thms if_False if_True if_cancel cong: if_cong)
  qed
qed

lemma handleAPI_routes:
  assumes "apiAuthOK he b r" and "br_control b = Some c"
  shows "handleAPI he b r w = api_spec he c (rq_Method r) (rq_Body r) (split_on (CHR ''/'') (TrimPrefix (rq_Path r) ''/api/'')) w"
proof -
  let ?path = "TrimPrefix (rq_Path r) ''/api/''"
  define parts where "parts = split_on (CHR ''/'') ?path"
  have ns: "CHR ''/'' \<notin> set x" if "x \<in> set parts" for x using split_on_parts that unfolding parts_def by blast
  have path: "?path = join_with ''/'' parts" unfolding parts_def by (simp add: join_split)
  have ne: "parts \<noteq> []" by (simp add: parts_def)
  have h: "handleAPI he b r w = (let path = join_with ''/'' parts; get = (rq_Method r = ''GET''); post = (rq_Method r = ''POST'')
      in if path = ''self'' \<and> get then (RJson (VSelf (ct_Self c w)), w)
         else if path = ''presence'' \<and> get then (RJson (VPeers (ct_Presence c w)), w)
         else if path = ''library'' \<and> get then value_or_error VTitles (ct_Library c w, w)
         else if path = ''requests'' \<and> get then (RJson (VRequests (ct_PendingRequests c w)), w)
         else if HasPrefix path ''peers/'' then handlePeers he c path r w
         else if HasPrefix path ''requests/'' \<and> post
         then (case splitPeerPath path ''requests/'' of (i, action, _) \<Rightarrow>
                 if action = ''approve'' then status_or_error 200 (ct_Approve c i w)
                 else if action = ''reject'' then status_or_error 200 (ct_Reject c i w)
                 else (NotFound, w))
         else if path = ''party/audience'' \<and> get then (RJson (VPeers (ct_Audience c w)), w)
         else if path = ''party/current'' \<and> get then (RJson (VCurrent (ct_CurrentParty c w)), w)
         else if HasPrefix path ''party/'' \<and> post then handleParty_cmd he c path r w
         else (NotFound, w))"
    using assms unfolding handleAPI_def path [symmetric] by simp
  obtain a rest where p: "parts = a # rest" using ne by (cases parts) auto
  have a: "CHR ''/'' \<notin> set a" using ns p by simp
  have np: "\<not> HasPrefix a ''peers/''" "\<not> HasPrefix a ''requests/''" "\<not> HasPrefix a ''party/''"
    using prefix_segment(2) [OF a, of "''peers''"] prefix_segment(2) [OF a, of "''requests''"] prefix_segment(2) [OF a, of "''party''"] by simp_all
  show ?thesis
  proof (cases rest)
    case Nil
    have "a \<noteq> ''party/audience'' \<and> a \<noteq> ''party/current''" using a by auto
    then show ?thesis unfolding h parts_def [symmetric] unfolding p Nil Let_def join_with.simps api_spec.simps
      by (simp only: np simp_thms if_False conj_ac cong: if_cong)
  next
    case (Cons x rest')
    have x: "CHR ''/'' \<notin> set x" using ns p Cons by simp
    obtain s where j: "join_with ''/'' parts = a @ CHR ''/'' # s" "s = join_with ''/'' (x # rest')" by (simp add: p Cons)
    have "handleAPI he b r w = api_tail he c a s r w" unfolding h j(1) by (rule api_tail_eq [OF a])
    also have "\<dots> = api_spec he c (rq_Method r) (rq_Body r) (a # x # rest') w" unfolding j(2) by (rule api_tail_spec [OF x])
    finally show ?thesis by (simp add: parts_def [symmetric] p Cons)
  qed
qed

text \<open>
  C31. The nested cases of \<open>handleAPI\<close> are a route table: an authorised request is dispatched by its method and
  the segments of its path exactly as the table \<open>api_spec\<close> says, and everything else is not found; no path is
  caught by the wrong prefix and no trailing segment is ignored.
\<close>
theorem api_routes:
  assumes "apiAuthOK he b r" and "br_control b = Some c"
  shows "handleAPI he b r w = api_spec he c (rq_Method r) (rq_Body r) (split_on (CHR ''/'') (TrimPrefix (rq_Path r) ''/api/'')) w"
  by (rule handleAPI_routes [OF assms])

section \<open>The page\<close>

definition json_unsafe :: "char set" where
  \<comment> \<open>what could end the script element or start another\<close>
  "json_unsafe = {CHR ''<'', CHR ''>'', CHR ''&''}"

lemma hexdig_safe: "n < 16 \<Longrightarrow> hexdig n \<notin> json_unsafe"
  by (auto simp: hexdig_def json_unsafe_def less_Suc_eq numeral_eq_Suc)

lemma esc_byte_safe: "set (esc_byte ch) \<inter> json_unsafe = {}"
proof -
  define n :: nat where "n = of_char ch"
  have m: "hexdig (n mod 16) \<notin> json_unsafe" by (rule hexdig_safe) simp
  have d: "hexdig (n div 16) \<notin> json_unsafe" if "n < 0x20 \<or> n = 0x3C \<or> n = 0x3E \<or> n = 0x26"
    by (rule hexdig_safe) (use that in auto)
  have c: "n = 0x3C \<or> n = 0x3E \<or> n = 0x26" if "ch \<in> json_unsafe" using that by (auto simp: json_unsafe_def n_def)
  have l: "CHR 0x5C \<notin> json_unsafe" "set ''u00'' \<inter> json_unsafe = {}" "set ''bfnrt'' \<inter> json_unsafe = {}" "CHR 0x22 \<notin> json_unsafe"
    by (auto simp: json_unsafe_def)
  show ?thesis unfolding esc_byte_def Let_def n_def [symmetric] using m d c l by (auto split: if_splits)
qed

lemma cont_safe: "is_cont c \<Longrightarrow> c \<notin> json_unsafe"
  by (auto simp: is_cont_def json_unsafe_def)

lemma json_body_safe: "set (json_body s) \<inter> json_unsafe = {}"
proof (induction s rule: json_body.induct)
  case (1 s)
  have w: "set (take (rune_width s) s) \<inter> json_unsafe = {}" if "\<not> (of_char (hd s) :: nat) < 0x80"
  proof -
    have "s ! i \<notin> json_unsafe" if "i < rune_width s" "i < length s" for i
    proof (cases i)
      case 0
      then have "s ! i = hd s" using that(2) by (cases s) auto
      then show ?thesis using \<open>\<not> (of_char (hd s) :: nat) < 0x80\<close> by (auto simp: json_unsafe_def)
    next
      case (Suc j)
      then show ?thesis using rune_width_conts [of i s] that cont_safe by simp
    qed
    then show ?thesis by (auto simp: in_set_conv_nth)
  qed
  have l: "CHR 0x5C \<notin> json_unsafe" "set ''ufffd'' \<inter> json_unsafe = {}" "set ''u2028'' \<inter> json_unsafe = {}" "set ''u2029'' \<inter> json_unsafe = {}"
    by (auto simp: json_unsafe_def)
  show ?case using 1 w l esc_byte_safe [of "hd s"] by (subst json_body.simps) (simp add: Int_Un_distrib2)
qed

lemma bootstrapJSON_safe: "set (bootstrapJSON b) \<inter> json_unsafe = {}"
proof -
  have q: "set (json_string s) \<inter> json_unsafe = {}" for s
    using json_body_safe [of s] by (auto simp: json_string_def json_unsafe_def)
  have l: "set ''{'' \<inter> json_unsafe = {}" "set '':'' \<inter> json_unsafe = {}" "set '','' \<inter> json_unsafe = {}" "set ''}'' \<inter> json_unsafe = {}"
    by (auto simp: json_unsafe_def)
  show ?thesis unfolding bootstrapJSON_def set_append Int_Un_distrib2 using q l by simp
qed

lemma str_index_split: "str_index sub s = Some i \<Longrightarrow> s = take i s @ sub @ drop (i + length sub) s"
proof (induction sub s arbitrary: i rule: str_index.induct)
  case (2 sub x xs)
  show ?case
  proof (cases "HasPrefix (x # xs) sub")
    case True
    then have "i = 0" using 2 by simp
    then show ?thesis using True by (simp add: HasPrefix_def) (metis append_take_drop_id)
  next
    case False
    then obtain j where "str_index sub xs = Some j" "i = Suc j" using 2 by auto
    then show ?thesis using 2(1) [OF False] by simp
  qed
qed (simp split: if_splits)

lemma injectBootstrap_shape:
  "\<exists>pre cut post. html = pre @ cut @ post \<and> cut \<in> {'''', bootMarker} \<and> injectBootstrap html boot = pre @ boot @ post"
proof (cases "str_index bootMarker html")
  case (Some i)
  then show ?thesis using str_index_split [OF Some] unfolding injectBootstrap_def Some option.case by blast
next
  case None
  show ?thesis
  proof (cases "str_index ''</head>'' html")
    case (Some i)
    then show ?thesis unfolding injectBootstrap_def None Some option.case
      by (intro exI [of _ "take i html"] exI [of _ "''''"] exI [of _ "drop i html"]) simp
  next
    case None': None
    show ?thesis unfolding injectBootstrap_def None None' option.case
      by (intro exI [of _ "''''"] exI [of _ "''''"] exI [of _ html]) simp
  qed
qed

text \<open>
  C32. The page cannot be broken out of: the page of the application is the embedded \<open>index.html\<close> (or the
  placeholder) with one script inserted, in place of the marker where there is one, and whatever bytes the token,
  the Node id and the display name hold, the object literal of that script contains none of the characters that
  could close the script element or open another.
\<close>
theorem bootstrap_no_breakout:
  assumes "handleStatic he b r w = (RHtml html, w')"
  shows "\<exists>pre cut js post.
     (case he_asset he ''index.html'' of None \<Rightarrow> placeholderHTML | Some data \<Rightarrow> data) = pre @ cut @ post \<and> cut \<in> {'''', bootMarker} \<and>
     html = pre @ ''<script>window.__P2P__='' @ js @ ''</script>'' @ post \<and> js = bootstrapJSON b \<and> set js \<inter> json_unsafe = {}"
proof -
  have "html = injectBootstrap (case he_asset he ''index.html'' of None \<Rightarrow> placeholderHTML | Some data \<Rightarrow> data) (bootScript b)"
    using assms by (auto simp: handleStatic_def Let_def split: if_splits)
  then show ?thesis
    using injectBootstrap_shape [of "case he_asset he ''index.html'' of None \<Rightarrow> placeholderHTML | Some data \<Rightarrow> data" "bootScript b"]
      bootstrapJSON_safe [of b] unfolding bootScript_def by (metis append.assoc)
qed

section \<open>Concrete instances\<close>

definition demo_env :: http_env where
  "demo_env = \<lparr>he_urlParse = (\<lambda>o'. if o' = ''http://evil.test'' then Some (''evil.test'', '''') else None),
     he_loopbackIP = (\<lambda>h. h = ''127.0.0.1''), he_field = (\<lambda>_ _. ''''), he_asset = (\<lambda>_. None)\<rparr>"

definition demo_control :: "nat Control" where
  \<comment> \<open>a Node whose state counts the commands it has taken\<close>
  "demo_control =
     \<lparr>ct_Self = (\<lambda>_. \<lparr>sv_NodeID = ''n1'', sv_DisplayName = ''Ada''\<rparr>), ct_Presence = (\<lambda>_. []), ct_Library = (\<lambda>_. Inr []),
      ct_Catalog = (\<lambda>_ w. (Inr [], w)), ct_LiveParties = (\<lambda>_ w. (Inr [], w)), ct_RequestAccess = (\<lambda>_ _ w. (None, Suc w)),
      ct_PendingRequests = (\<lambda>_. []), ct_Approve = (\<lambda>_ w. (None, Suc w)), ct_Reject = (\<lambda>_ w. (None, Suc w)),
      ct_StartParty = (\<lambda>_ w. (''p1'', Suc w)), ct_JoinParty = (\<lambda>_ _ w. (None, Suc w)), ct_LeaveParty = Suc,
      ct_EndParty = (\<lambda>_. Suc), ct_Audience = (\<lambda>_. []),
      ct_CurrentParty = (\<lambda>_. \<lparr>cv_Active = False, cv_Role = '''', cv_Host = '''', cv_ContentID = '''', cv_Title = '''', cv_Viewers = 0\<rparr>)\<rparr>"

definition demo_bridge :: "nat Bridge" where
  "demo_bridge =
     SetBootstrap ''n1'' ''Ada'' (SetControl demo_control
       (NewBridge \<lparr>st_Playlist = (\<lambda>_ _ _ w. (Inr ([], ''text''), w)), st_Segment = (\<lambda>_ _ _ w. (Inr ([], ''video''), w)),
                   st_Thumbnail = (\<lambda>_ _ w. (Inr ([], ''image''), w))\<rparr> ''tok''))"

definition demo_request :: "string \<Rightarrow> string \<Rightarrow> request" where
  "demo_request m p = \<lparr>rq_Method = m, rq_Path = p, rq_Origin = '''', rq_Host = ''evil.test'', rq_Authorization = ''Bearer tok'',
     rq_queryToken = '''', rq_Body = []\<rparr>"

lemma demo_leave: "Bridge_serve demo_env demo_bridge True False (demo_request ''POST'' ''/api/party/leave'') 0 = (RStatus 200, 1)"
  by code_simp


theorem api_routes_witness:
  "handleAPI demo_env demo_bridge (demo_request ''POST'' ''/api/requests/n7/approve'') 4 = (RStatus 200, 5)"
proof -
  have a: "apiAuthOK demo_env demo_bridge (demo_request ''POST'' ''/api/requests/n7/approve'')" by code_simp
  have c: "br_control demo_bridge = Some demo_control" by (simp add: demo_bridge_def SetBootstrap_def SetControl_def)
  have "api_spec demo_env demo_control ''POST'' [] [''requests'', ''n7'', ''approve''] 4 = (RStatus 200, 5)" by code_simp
  moreover have "split_on (CHR ''/'') (TrimPrefix ''/api/requests/n7/approve'' ''/api/'') = [''requests'', ''n7'', ''approve'']" by code_simp
  ultimately show ?thesis using api_routes [OF a c, of 4] by (simp add: demo_request_def)
qed

definition demo_page :: string where
  "demo_page = (case fst (handleStatic demo_env demo_bridge (demo_request ''GET'' ''/'') (0::nat)) of RHtml h \<Rightarrow> h | _ \<Rightarrow> '''')"

theorem bootstrap_no_breakout_witness:
  "\<exists>pre js post. demo_page = pre @ ''<script>window.__P2P__='' @ js @ ''</script>'' @ post \<and> set js \<inter> json_unsafe = {}"
proof -
  have "handleStatic demo_env demo_bridge (demo_request ''GET'' ''/'') 0 = (RHtml demo_page, 0)"
    by (simp add: demo_page_def handleStatic_def originOK_def originAllowed_def demo_request_def demo_env_def Let_def TrimPrefix_def HasPrefix_def)
  from bootstrap_no_breakout [OF this] show ?thesis by blast
qed

section \<open>What an empty origin is given\<close>

text \<open>
  The check is on \<open>Origin\<close> alone and lets an empty one through, and browsers send none with a plain navigation or a
  same-origin GET: a page reached under any \<open>Host\<close> name that resolves to the loopback address is given the token.
\<close>
theorem page_token_for_any_host:
  assumes "rq_Origin r = ''''" and "rq_Path r = ''/''"
  shows "\<exists>pre post. Bridge_serve he b flusher upgraded r w =
    (RHtml (pre @ ''{'' @ json_string ''token'' @ '':'' @ json_string (br_token b) @ post), w)"
proof -
  let ?t = "case he_asset he ''index.html'' of None \<Rightarrow> placeholderHTML | Some data \<Rightarrow> data"
  have cp: "cleanPath ''/'' = ''/''" by code_simp
  have "\<not> HasPrefix ''/'' ''/api/''" "\<not> HasPrefix ''/'' ''/s/''" "\<not> HasPrefix ''/'' ''/party/''" "TrimPrefix ''/'' ''/'' = ''''" by code_simp+
  then have "Bridge_serve he b flusher upgraded r w = (RHtml (injectBootstrap ?t (bootScript b)), w)"
    unfolding Bridge_serve_def Let_def assms(2) cp by (simp add: handleStatic_def originOK_def originAllowed_def assms Let_def)
  moreover obtain pre post where "injectBootstrap ?t (bootScript b) = pre @ bootScript b @ post"
    using injectBootstrap_shape [of ?t "bootScript b"] by blast
  moreover define x where "x = '','' @ json_string ''nodeId'' @ '':'' @ json_string (br_selfNodeID b) @ '','' @
       json_string ''name'' @ '':'' @ json_string (br_selfName b) @ ''}'' @ ''</script>''"
  have "bootScript b = ''<script>window.__P2P__='' @ ''{'' @ json_string ''token'' @ '':'' @ json_string (br_token b) @ x"
    unfolding bootScript_def bootstrapJSON_def x_def by (simp only: append.assoc)
  ultimately have "Bridge_serve he b flusher upgraded r w =
      (RHtml ((pre @ ''<script>window.__P2P__='') @ ''{'' @ json_string ''token'' @ '':'' @ json_string (br_token b) @ (x @ post)), w)"
    by (simp only: append.assoc)
  then show ?thesis by blast
qed

theorem page_token_for_any_host_witness:
  "\<exists>pre post. Bridge_serve demo_env demo_bridge True False (demo_request ''GET'' ''/'') (0::nat) =
    (RHtml (pre @ ''{'' @ json_string ''token'' @ '':'' @ json_string ''tok'' @ post), 0)"
proof -
  have "br_token demo_bridge = ''tok''" by (simp add: demo_bridge_def SetBootstrap_def SetControl_def NewBridge_def)
  then show ?thesis using page_token_for_any_host [of "demo_request ''GET'' ''/''" demo_env demo_bridge True False 0]
    by (simp add: demo_request_def)
qed

end
