(* ===== verification/Node_Control.thy ===== *)
theory Node_Control
  imports Handler_Laws Bridge
begin

text \<open>
  What the Node offers the loopback bridge: the \<open>Control\<close> interface (\<open>control.go\<close> and the commands of \<open>node.go\<close>)
  and the \<open>Streamer\<close> interface, on the state of the whole program; the configuration and the access policy that
  \<open>cmd/node\<close> builds from it; and the composition of the two sides, what peers send and what the owner's browser
  sends, as one execution.

  A command that calls another Node is given what the world does meanwhile (\<open>call_env\<close>): the events of the Node while
  it dials, and those of the session until the call returns. The Segments of a Watch Party come from the mesh session,
  whose \<open>FetchSegment\<close> runs on the Node's own transport (\<open>node_transport\<close>): each of its calls takes the next \<open>mesh_call\<close>
  of the list, which says what the world does during it; once the list is used up the player's request has ended and
  every further call fails with the context's error.
\<close>

section \<open>The program's state\<close>

record World =
  wd_node :: "App Node"
  wd_app :: App
  wd_client :: SigClient
  wd_name :: string

record call_env =
  ce_env :: node_env
  ce_newErr :: "gerror option"        \<comment> \<open>\<open>peer.NewSession\<close>\<close>
  ce_startErr :: "gerror option"      \<comment> \<open>\<open>sess.Start(ctx, true)\<close>\<close>
  ce_dialing :: "node_ev list"        \<comment> \<open>what happens while \<open>Dial\<close> waits\<close>
  ce_evs :: "peer_ev list"            \<comment> \<open>what happens on the session until the call returns\<close>
  ce_done :: bool                     \<comment> \<open>the context ends first\<close>

record mesh_call = call_env +
  mc_relayErr :: "gerror option"      \<comment> \<open>\<open>SendRelay\<close>, when the peer has to be nudged\<close>
  mc_ops :: "swarm_op list"           \<comment> \<open>what others do to the mesh session meanwhile\<close>
  mc_after :: "node_ev list"          \<comment> \<open>what else happens to the Node until the call returns\<close>

record ctl_env = call_env +
  ce_dbErr :: "gerror option"
  ce_mesh :: "mesh_call list"
  ce_fuel :: nat                      \<comment> \<open>iterations of the retry loop of \<open>FetchSegment\<close> before the player gives up\<close>
  ce_ffmpeg :: "string list \<Rightarrow> gerror option \<times> (string \<Rightarrow> read_res)"

definition ctl_session :: "'c call_env_scheme \<Rightarrow> NodeID \<Rightarrow> World \<Rightarrow> (gerror + App Session) \<times> World" where
  "ctl_session ce remote W =
     (case map_of (nd_sessions (wd_node W)) remote of Some s \<Rightarrow> (Inr s, W)
      | None \<Rightarrow>
      case dial_begin (ce_newErr ce) (ce_startErr ce) remote (wd_node W) of
        (Some err, n1) \<Rightarrow> (Inl err, W\<lparr>wd_node := n1\<rparr>)
      | (None, n1) \<Rightarrow>
      case fold (node_do (ce_env ce)) (ce_dialing ce) (n1, wd_app W) of
        (n2, w2) \<Rightarrow>
          (case map_of (nd_sessions n2) remote of
             Some s \<Rightarrow> if se_ready s then Inr s else Inl ctxErr
           | None \<Rightarrow> Inl ctxErr, W\<lparr>wd_node := n2, wd_app := w2\<rparr>))"

definition with_rpc ::
  "'c call_env_scheme \<Rightarrow> NodeID \<Rightarrow> (App Session \<times> App \<Rightarrow> (gerror + 'a) \<times> App Session \<times> App) \<Rightarrow> World \<Rightarrow> (gerror + 'a) \<times> World" where
  "with_rpc ce remote call W =
     (case ctl_session ce remote W of
        (Inl err, W1) \<Rightarrow> (Inl err, W1)
      | (Inr s, W1) \<Rightarrow>
          (case call (s, wd_app W1) of
             (res, s', w') \<Rightarrow> (res, W1\<lparr>wd_node := put_session remote s' (wd_node W1), wd_app := w'\<rparr>)))"

section \<open>The Node as the transport of its mesh session\<close>

record mesh_world =
  mw_world :: World
  mw_calls :: "mesh_call list"
  mw_ops :: "swarm_op list"           \<comment> \<open>what the last call let happen to the mesh session\<close>

definition ended_call :: "node_env \<Rightarrow> mesh_call" where
  \<comment> \<open>a call once the player's request has ended\<close>
  "ended_call en =
     \<lparr>ce_env = en, ce_newErr = None, ce_startErr = None, ce_dialing = [], ce_evs = [], ce_done = True,
      mc_relayErr = None, mc_ops = [], mc_after = []\<rparr>"

definition next_call :: "node_env \<Rightarrow> mesh_world \<Rightarrow> mesh_call" where
  "next_call en M = (case mw_calls M of [] \<Rightarrow> ended_call en | mc # _ \<Rightarrow> mc\<lparr>ce_env := en\<rparr>)"

definition end_call :: "mesh_call \<Rightarrow> World \<Rightarrow> mesh_world \<Rightarrow> mesh_world" where
  "end_call mc W M =
     (case fold (node_do (ce_env mc)) (mc_after mc) (wd_node W, wd_app W) of
        (n, w) \<Rightarrow> \<lparr>mw_world = W\<lparr>wd_node := n, wd_app := w\<rparr>, mw_calls = tl (mw_calls M), mw_ops = mc_ops mc\<rparr>)"

definition with_peer ::
  "mesh_call \<Rightarrow> NodeID \<Rightarrow> (App Session \<times> App \<Rightarrow> (gerror + 'a) \<times> App Session \<times> App) \<Rightarrow> World \<Rightarrow> (gerror + 'a) \<times> World" where
  \<comment> \<open>a call over \<open>peerSession\<close>, which never waits for a session\<close>
  "with_peer mc node call W =
     (case peerSession (ne_marshal (ce_env mc)) (mc_relayErr mc) node (wd_node W) of
        (Inl err, n) \<Rightarrow> (Inl err, W\<lparr>wd_node := n\<rparr>)
      | (Inr s, n) \<Rightarrow>
          (case call (s, wd_app W) of
             (res, s', w') \<Rightarrow> (res, W\<lparr>wd_node := put_session node s' n, wd_app := w'\<rparr>)))"

definition fetchSwarmSegment :: "node_env \<Rightarrow> NodeID \<Rightarrow> GetSwarmSegment \<Rightarrow> mesh_world \<Rightarrow> (gerror + bytes) \<times> mesh_world" where
  "fetchSwarmSegment en node req M =
     (let mc = next_call en M
      in case with_peer mc node (Session_GetSwarmSegment (ne_codec en) (ce_evs mc) (ce_done mc) req) (mw_world M) of
           (res, W) \<Rightarrow> (res, end_call mc W M))"

definition hostPlaylist :: "node_env \<Rightarrow> NodeID \<Rightarrow> string \<Rightarrow> string \<Rightarrow> mesh_world \<Rightarrow> (gerror + bytes) \<times> mesh_world" where
  "hostPlaylist en host contentID nm M =
     (let mc = next_call en M
      in case with_rpc mc host (Session_GetPlaylist (ne_codec en) (ce_evs mc) (ce_done mc) contentID nm) (mw_world M) of
           (res, W) \<Rightarrow> (case res of Inl err \<Rightarrow> Inl err | Inr p \<Rightarrow> Inr (pl_data p), end_call mc W M))"

definition hostSegment :: "node_env \<Rightarrow> NodeID \<Rightarrow> string \<Rightarrow> string \<Rightarrow> mesh_world \<Rightarrow> (gerror + bytes) \<times> mesh_world" where
  "hostSegment en host contentID nm M =
     (let mc = next_call en M
      in case with_rpc mc host (Session_GetSegment (ne_codec en) (ce_evs mc) (ce_done mc) contentID nm) (mw_world M) of
           (res, W) \<Rightarrow> (res, end_call mc W M))"

definition clock_after :: "mesh_call \<Rightarrow> World \<Rightarrow> time" where
  \<comment> \<open>the clock when a call returns; only \<open>NvTime\<close> moves it\<close>
  "clock_after mc W = fold (\<lambda>ev t. case ev of NvTime u \<Rightarrow> u | _ \<Rightarrow> t) (mc_after mc) (ap_now (wd_app W))"

definition measureRTT :: "node_env \<Rightarrow> NodeID \<Rightarrow> mesh_world \<Rightarrow> (gerror + duration) \<times> mesh_world" where
  "measureRTT en node M =
     (let mc = next_call en M; W = mw_world M
      in case with_peer mc node
                (MeasureRTT (ne_codec en) (ce_evs mc) (ce_done mc) (ap_now (wd_app W)) (clock_after mc W)) W of
           (res, W') \<Rightarrow> (res, end_call mc W' M))"

definition node_transport :: "node_env \<Rightarrow> mesh_world transport" where
  \<comment> \<open>\<open>var _ swarmTransport = (*Node)(nil)\<close>\<close>
  "node_transport en =
     \<lparr>t_now = (\<lambda>M. ap_now (wd_app (mw_world M))), t_fetchSwarmSegment = fetchSwarmSegment en, t_hostPlaylist = hostPlaylist en,
      t_hostSegment = hostSegment en, t_meanwhile = mw_ops\<rparr>"

definition put_swarm :: "swarmSession \<Rightarrow> World \<Rightarrow> World" where
  \<comment> \<open>written back unless the party has been left, or another joined, meanwhile\<close>
  "put_swarm ss W =
     (case swarmFor (ss_host ss) (ss_contentID ss) (ap_pc (wd_app W)) of None \<Rightarrow> W
      | Some _ \<Rightarrow> W\<lparr>wd_app := set_pc ((ap_pc (wd_app W))\<lparr>pc_swarm := Some ss\<rparr>) (wd_app W)\<rparr>)"

definition mesh_fetch :: "ctl_env \<Rightarrow> string \<Rightarrow> swarmSession \<Rightarrow> World \<Rightarrow> (gerror + bytes) \<times> World" where
  \<comment> \<open>\<open>ss.FetchSegment(ctx, name)\<close>; out of fuel, the player has gone and nobody reads the result\<close>
  "mesh_fetch ce nm ss W =
     (case FetchSegment (me_sum (ap_menv (wd_app W))) (node_transport (ce_env ce)) (ce_fuel ce) nm ss
             \<lparr>mw_world = W, mw_calls = ce_mesh ce, mw_ops = []\<rparr> of
        None \<Rightarrow> (Inl ctxErr, W)
      | Some (res, ss', M) \<Rightarrow> (res, put_swarm ss' (mw_world M)))"

fun gossip_round :: "node_env \<Rightarrow> (NodeID \<times> Envelope) list \<Rightarrow> mesh_world \<Rightarrow> (NodeID \<times> duration) list \<times> mesh_world" where
  \<comment> \<open>the sends of one tick of \<open>gossipLoop\<close>, each followed by an RTT sample\<close>
  "gossip_round en [] M = ([], M)"
| "gossip_round en ((tgt, env) # sends) M =
     (let mc = next_call en M; W = mw_world M;
          M1 = M\<lparr>mw_world := W\<lparr>wd_node := snd (node_sendTo (ne_codec en) (ne_marshal en) (mc_relayErr mc) tgt env (wd_node W))\<rparr>\<rparr>
      in case measureRTT en tgt M1 of
           (rtt, M2) \<Rightarrow>
             (case gossip_round en sends M2 of
                (rtts, M3) \<Rightarrow> (case rtt of Inl _ \<Rightarrow> rtts | Inr d \<Rightarrow> (tgt, d) # rtts, M3)))"

definition gossip_turn :: "node_env \<Rightarrow> (nat \<Rightarrow> nat \<Rightarrow> nat) \<Rightarrow> mesh_call list \<Rightarrow> World \<Rightarrow> World" where
  \<comment> \<open>one tick of the running session's \<open>gossipLoop\<close>; \<open>intn\<close> draws the targets\<close>
  "gossip_turn en intn calls W =
     (case pc_swarm (ap_pc (wd_app W)) of None \<Rightarrow> W
      | Some ss \<Rightarrow> if ss_stopped ss then W
          else let now = ap_now (wd_app W)
               in case gossip_round en (fst (gossip_tick intn now (\<lambda>_. None) ss)) \<lparr>mw_world = W, mw_calls = calls, mw_ops = []\<rparr> of
                    (rtts, M) \<Rightarrow> put_swarm (snd (gossip_tick intn now (map_of rtts) ss)) (mw_world M))"

section \<open>Views: \<open>control.go\<close>\<close>

definition b64_digit :: "nat \<Rightarrow> char" where
  "b64_digit n = (''ABCDEFGHIJKLMNOPQRSTUVWXYZabcdefghijklmnopqrstuvwxyz0123456789'' @ ''+/'') ! n"

fun base64_EncodeToString :: "bytes \<Rightarrow> string" where
  \<comment> \<open>\<open>base64.StdEncoding\<close>\<close>
  "base64_EncodeToString [] = []"
| "base64_EncodeToString [a] =
     [b64_digit (unat a div 4), b64_digit (unat a mod 4 * 16), CHR ''='', CHR ''='']"
| "base64_EncodeToString [a, b] =
     [b64_digit (unat a div 4), b64_digit (unat a mod 4 * 16 + unat b div 16), b64_digit (unat b mod 16 * 4), CHR ''='']"
| "base64_EncodeToString (a # b # c # r) =
     [b64_digit (unat a div 4), b64_digit (unat a mod 4 * 16 + unat b div 16),
      b64_digit (unat b mod 16 * 4 + unat c div 64), b64_digit (unat c mod 64)] @ base64_EncodeToString r"

definition title_view :: "TitleMeta \<Rightarrow> TitleView" where
  "title_view m =
     \<lparr>tv_ContentID = tm_content_id m, tv_DisplayTitle = tm_display_title m, tv_DurationMs = tm_duration_ms m,
      tv_PartyLive = tm_party_live m, tv_PartyViewers = tm_party_viewers m,
      tv_Thumbnail = (if tm_thumbnail m = [] then '''' else ''data:image/jpeg;base64,'' @ base64_EncodeToString (tm_thumbnail m)),
      tv_RelDir = tm_rel_dir m, tv_RootLabel = tm_root_label m\<rparr>"

definition toTitleViews :: "TitleMeta list \<Rightarrow> TitleView list" where
  "toTitleViews metas = map title_view metas"

definition ctl_Self :: "World \<Rightarrow> SelfView" where
  "ctl_Self W = \<lparr>sv_NodeID = nd_self (wd_node W), sv_DisplayName = wd_name W\<rparr>"

definition ctl_Presence :: "World \<Rightarrow> PeerView list" where
  "ctl_Presence W =
     map (\<lambda>p. \<lparr>pv_NodeID = pi_NodeID p, pv_DisplayName = pi_DisplayName p, pv_Online = True\<rparr>) (client_Peers (wd_client W))"

definition ctl_Library :: "ctl_env \<Rightarrow> World \<Rightarrow> gerror + TitleView list" where
  "ctl_Library ce W =
     (case ap_svc (wd_app W) of None \<Rightarrow> Inr []
      | Some svc \<Rightarrow>
          (case Service_Library (ne_readFile (ce_env ce)) (ce_dbErr ce) (linked_svc (wd_app W) svc) of
             Inl err \<Rightarrow> Inl err | Inr metas \<Rightarrow> Inr (toTitleViews metas)))"

definition node_Browse :: "ctl_env \<Rightarrow> NodeID \<Rightarrow> World \<Rightarrow> (gerror + TitleMeta list) \<times> World" where
  "node_Browse ce remote = with_rpc ce remote (Session_Browse (ne_codec (ce_env ce)) (ce_evs ce) (ce_done ce))"

definition ctl_Catalog :: "ctl_env \<Rightarrow> string \<Rightarrow> World \<Rightarrow> (gerror + TitleView list) \<times> World" where
  "ctl_Catalog ce peerID W =
     (case node_Browse ce peerID W of
        (Inl err, W1) \<Rightarrow> (Inl err, W1) | (Inr metas, W1) \<Rightarrow> (Inr (toTitleViews metas), W1))"

definition ctl_LiveParties :: "ctl_env \<Rightarrow> string \<Rightarrow> World \<Rightarrow> (gerror + LivePartyView list) \<times> World" where
  "ctl_LiveParties ce peerID W =
     (case with_rpc ce peerID (Session_LiveParties (ne_codec (ce_env ce)) (ce_evs ce) (ce_done ce)) W of
        (Inl err, W1) \<Rightarrow> (Inl err, W1)
      | (Inr metas, W1) \<Rightarrow> (Inr (map (\<lambda>m. \<lparr>lv_ContentID = lp_content_id m, lv_Viewers = lp_viewers m\<rparr>) metas), W1))"

definition node_RequestAccess :: "ctl_env \<Rightarrow> string \<Rightarrow> string \<Rightarrow> World \<Rightarrow> gerror option \<times> World" where
  "node_RequestAccess ce peerID message W =
     (case with_rpc ce peerID (Session_RequestAccess (ne_codec (ce_env ce)) (ce_evs ce) (ce_done ce) message) W of
        (Inl err, W1) \<Rightarrow> (Some err, W1) | (Inr _, W1) \<Rightarrow> (None, W1))"

definition presence_names :: "PeerView list \<Rightarrow> (string, string) gomap" where
  "presence_names ps =
     fold (\<lambda>p m. if pv_DisplayName p \<noteq> '''' then AList.update (pv_NodeID p) (pv_DisplayName p) m else m) ps []"

definition ctl_PendingRequests :: "World \<Rightarrow> RequestView list" where
  "ctl_PendingRequests W =
     (case ap_svc (wd_app W) of None \<Rightarrow> []
      | Some svc \<Rightarrow>
          let names = presence_names (ctl_Presence W)
          in sort_key rv_NodeID
               (map (\<lambda>(i, m). \<lparr>rv_NodeID = i, rv_DisplayName = (case map_of names i of None \<Rightarrow> '''' | Some d \<Rightarrow> d), rv_Message = m\<rparr>)
                  (Requests_Pending (sv_reqs svc))))"

definition ctl_Audience :: "World \<Rightarrow> PeerView list" where
  "ctl_Audience W =
     map (\<lambda>m. \<lparr>pv_NodeID = am_node_id m, pv_DisplayName = am_display_name m, pv_Online = True\<rparr>) (audienceView (ap_pc (wd_app W)))"

definition titleFor :: "ctl_env \<Rightarrow> string \<Rightarrow> World \<Rightarrow> string" where
  "titleFor ce contentID W =
     (if contentID = '''' then ''''
      else case ctl_Library ce W of Inl _ \<Rightarrow> ''''
      | Inr lib \<Rightarrow> (case find (\<lambda>t. tv_ContentID t = contentID) lib of None \<Rightarrow> '''' | Some t \<Rightarrow> tv_DisplayTitle t))"

definition ctl_CurrentParty :: "ctl_env \<Rightarrow> World \<Rightarrow> CurrentPartyView" where
  "ctl_CurrentParty ce W =
     (let cp = currentParty (ap_pc (wd_app W))
      in if \<not> cp_active cp
         then \<lparr>cv_Active = False, cv_Role = '''', cv_Host = '''', cv_ContentID = '''', cv_Title = '''', cv_Viewers = 0\<rparr>
         else \<lparr>cv_Active = True, cv_Role = cp_role cp, cv_Host = cp_host cp, cv_ContentID = cp_contentID cp,
               cv_Title = titleFor ce (cp_contentID cp) W, cv_Viewers = int (cp_viewers cp)\<rparr>)"

section \<open>Commands\<close>

definition ctl_Approve :: "ctl_env \<Rightarrow> string \<Rightarrow> World \<Rightarrow> gerror option \<times> World" where
  "ctl_Approve ce peerID W =
     (case ApproveAccess (ne_codec (ce_env ce)) peerID (wd_node W, wd_app W) of
        (err, n, w) \<Rightarrow> (err, W\<lparr>wd_node := n, wd_app := w\<rparr>))"

definition ctl_Reject :: "string \<Rightarrow> World \<Rightarrow> gerror option \<times> World" where
  "ctl_Reject peerID W = (case RejectAccess peerID (wd_app W) of (err, w) \<Rightarrow> (err, W\<lparr>wd_app := w\<rparr>))"

definition node_StartParty :: "string \<Rightarrow> World \<Rightarrow> string \<times> World" where
  "node_StartParty contentID W =
     (case StartParty contentID (ap_now (wd_app W)) (linked_pc (wd_app W)) of (i, pc) \<Rightarrow> (i, W\<lparr>wd_app := set_pc pc (wd_app W)\<rparr>))"

definition ctl_JoinParty :: "ctl_env \<Rightarrow> string \<Rightarrow> string \<Rightarrow> World \<Rightarrow> gerror option \<times> World" where
  \<comment> \<open>an error of \<open>n.session\<close> is returned as one of the call is\<close>
  "ctl_JoinParty ce host contentID W =
     (case with_rpc ce host (Session_JoinParty (ne_codec (ce_env ce)) (ce_evs ce) (ce_done ce) contentID) W of
        (rpc, W1) \<Rightarrow>
          (case pc_JoinParty host contentID rpc (ap_now (wd_app W1)) (linked_pc (wd_app W1)) of
             (err, pc) \<Rightarrow> (err, W1\<lparr>wd_app := set_pc pc (wd_app W1)\<rparr>)))"

definition ctl_LeaveParty :: "World \<Rightarrow> World" where
  "ctl_LeaveParty W = W\<lparr>wd_app := on_pc (\<lambda>_. LeaveParty) (wd_app W)\<rparr>"

definition ctl_EndParty :: "string \<Rightarrow> World \<Rightarrow> World" where
  "ctl_EndParty reason W = W\<lparr>wd_app := on_pc (\<lambda>_. EndParty reason) (wd_app W)\<rparr>"

definition node_control :: "ctl_env \<Rightarrow> World Control" where
  \<comment> \<open>\<open>var _ bridge.Control = (*Node)(nil)\<close>\<close>
  "node_control ce =
     \<lparr>ct_Self = ctl_Self, ct_Presence = ctl_Presence, ct_Library = ctl_Library ce, ct_Catalog = ctl_Catalog ce,
      ct_LiveParties = ctl_LiveParties ce, ct_RequestAccess = node_RequestAccess ce, ct_PendingRequests = ctl_PendingRequests,
      ct_Approve = ctl_Approve ce, ct_Reject = ctl_Reject, ct_StartParty = node_StartParty, ct_JoinParty = ctl_JoinParty ce,
      ct_LeaveParty = ctl_LeaveParty, ct_EndParty = ctl_EndParty, ct_Audience = ctl_Audience,
      ct_CurrentParty = ctl_CurrentParty ce\<rparr>"

section \<open>The player's requests\<close>

definition on_local :: "(media_env \<Rightarrow> MediaService \<Rightarrow> (gerror + 'a) \<times> MediaService) \<Rightarrow> World \<Rightarrow> (gerror + 'a) \<times> World" where
  "on_local f W = (case on_media f (wd_app W) of (res, w) \<Rightarrow> (res, W\<lparr>wd_app := w\<rparr>))"

definition is_local :: "NodeID \<Rightarrow> World \<Rightarrow> bool" where
  \<comment> \<open>\<open>host == n.self.NodeID()\<close> and \<open>n.media\<close> is a \<open>localMedia\<close>, which the installed service is\<close>
  "is_local host W \<longleftrightarrow> host = nd_self (wd_node W) \<and> nd_media (wd_node W) \<noteq> None"

definition ctl_Playlist :: "ctl_env \<Rightarrow> NodeID \<Rightarrow> string \<Rightarrow> string \<Rightarrow> World \<Rightarrow> (gerror + bytes \<times> string) \<times> World" where
  "ctl_Playlist ce host contentID nm W =
     (case (if is_local host W then on_local (\<lambda>env. LocalPlaylist env contentID nm) W
            else with_rpc ce host (Session_GetPlaylist (ne_codec (ce_env ce)) (ce_evs ce) (ce_done ce) contentID nm) W) of
        (Inl err, W1) \<Rightarrow> (Inl err, W1) | (Inr p, W1) \<Rightarrow> (Inr (pl_data p, pl_content_type p), W1))"

definition ctl_Segment :: "ctl_env \<Rightarrow> NodeID \<Rightarrow> string \<Rightarrow> string \<Rightarrow> World \<Rightarrow> (gerror + bytes \<times> string) \<times> World" where
  "ctl_Segment ce host contentID nm W =
     (case (if is_local host W then on_local (\<lambda>env. LocalSegment env contentID nm) W
            else case swarmFor host contentID (ap_pc (wd_app W)) of
              Some ss \<Rightarrow> mesh_fetch ce nm ss W
            | None \<Rightarrow> with_rpc ce host (Session_GetSegment (ne_codec (ce_env ce)) (ce_evs ce) (ce_done ce) contentID nm) W) of
        (Inl err, W1) \<Rightarrow> (Inl err, W1) | (Inr data, W1) \<Rightarrow> (Inr (data, contentTypeFor nm), W1))"

definition ctl_Thumbnail :: "ctl_env \<Rightarrow> NodeID \<Rightarrow> string \<Rightarrow> World \<Rightarrow> (gerror + bytes \<times> string) \<times> World" where
  "ctl_Thumbnail ce host contentID W =
     (if is_local host W
      then (case on_local (\<lambda>env ms. (LocalThumbnail env (ce_ffmpeg ce) contentID ms, ms)) W of
              (Inl err, W1) \<Rightarrow> (Inl err, W1) | (Inr data, W1) \<Rightarrow> (Inr (data, ''image/jpeg''), W1))
      else (Inl ErrNotFound, W))"

definition node_streamer :: "ctl_env \<Rightarrow> World Streamer" where
  "node_streamer ce = \<lparr>st_Playlist = ctl_Playlist ce, st_Segment = ctl_Segment ce, st_Thumbnail = ctl_Thumbnail ce\<rparr>"

section \<open>Configuration: \<open>config.go\<close>, \<open>token.go\<close>, \<open>cmd/node\<close>\<close>

record NodeConfig =
  cf_DisplayName :: string
  cf_SignalingURL :: string
  cf_STUNServers :: "string list"
  cf_SharedFolders :: "string list"
  cf_DefaultVisibility :: string
  cf_AllowList :: "string list"
  cf_BlockList :: "string list"
  cf_DataDir :: string

definition defaults :: NodeConfig where
  "defaults =
     \<lparr>cf_DisplayName = ''anonymous'', cf_SignalingURL = ''ws://localhost:8080/ws'',
      cf_STUNServers = [''stun:stun.l.google.com:19302''], cf_SharedFolders = [], cf_DefaultVisibility = ''restricted'',
      cf_AllowList = [], cf_BlockList = [], cf_DataDir = ''''\<rparr>"

definition LoadConfig :: "read_res \<Rightarrow> (bytes \<Rightarrow> NodeConfig \<Rightarrow> gerror + NodeConfig) \<Rightarrow> gerror + NodeConfig" where
  \<comment> \<open>the file as it is read, and \<open>toml.Unmarshal\<close> over the defaults\<close>
  "LoadConfig file unmarshal =
     (case file of RNotExist \<Rightarrow> Inr defaults | RErr err \<Rightarrow> Inl err | RData raw \<Rightarrow> unmarshal raw defaults)"

definition NewToken :: "bytes \<Rightarrow> string" where
  \<comment> \<open>the argument: the 16 bytes of \<open>rand.Read\<close>\<close>
  "NewToken b = hex_EncodeToString b"

definition config_policy :: "NodeConfig \<Rightarrow> Policy" where
  \<comment> \<open>the policy \<open>main\<close> builds\<close>
  "config_policy cfg =
     fold AddBlock (cf_BlockList cfg)
       (fold AddAllow (cf_AllowList cfg) (NewPolicy (if cf_DefaultVisibility cfg = ''public'' then ''public'' else ''restricted'')))"

definition main_bridge :: "string \<Rightarrow> string \<Rightarrow> string \<Rightarrow> ctl_env \<Rightarrow> World Bridge" where
  \<comment> \<open>the wiring of the bridge in \<open>main\<close>, before \<open>Start\<close>\<close>
  "main_bridge token nodeID nm ce =
     Bridge_SetPartyHandler (SetBootstrap nodeID nm (SetEvents (SetControl (node_control ce) (NewBridge (node_streamer ce) token))))"

end
