(* ===== verification/Node_Laws.thy ===== *)
theory Node_Laws
  imports Node_Control
begin

text \<open>
  What a Node keeps while it works for its owner: the handlers of its sessions (\<open>wired\<close>) and the access policy. The
  relation \<open>world_keeps\<close> is shown for everything a call to another Node does, and, through the contract
  \<open>transport_laws\<close> between a mesh session and its transport, for a whole Segment fetch and a whole gossip round.
\<close>

section \<open>Wired Nodes\<close>

definition outside :: "node_ev \<Rightarrow> bool" where
  \<comment> \<open>what is neither the wiring of \<open>main\<close> nor a decision of the owner\<close>
  "outside ev = (case ev of NvCatalog _ \<Rightarrow> False | NvApprove _ \<Rightarrow> False | _ \<Rightarrow> True)"

definition wired :: "node_env \<Rightarrow> App Node \<Rightarrow> bool" where
  "wired en n \<longleftrightarrow>
     nd_party n = coordinator (ne_graphemes en) \<and>
     nd_catalog n \<in> {None, Some (catalogHandler (ne_readFile en) None)} \<and> nd_media n \<in> {None, Some mediaHandler} \<and>
     (\<forall>r s. map_of (nd_sessions n) r = Some s \<longrightarrow>
        served_by (catalogHandler (ne_readFile en) None) mediaHandler (partyHandler (ne_graphemes en)) swarmHandler
          (\<lambda>r. on_pc (\<lambda>_. OnLeaveParty r)) s)"

abbreviation node_served :: "node_env \<Rightarrow> App Session \<Rightarrow> bool" where
  "node_served en \<equiv> served_by (catalogHandler (ne_readFile en) None) mediaHandler (partyHandler (ne_graphemes en)) swarmHandler
     (\<lambda>r. on_pc (\<lambda>_. OnLeaveParty r))"

lemma wiredD: "wired en n \<Longrightarrow> map_of (nd_sessions n) r = Some s \<Longrightarrow> node_served en s"
  by (simp add: wired_def)

lemma wired_put: "wired en n \<Longrightarrow> node_served en s \<Longrightarrow> wired en (put_session r s n)"
  by (simp add: wired_def)

lemma wired_log [simp]: "wired en (log_act a n) = wired en n"
  by (simp add: wired_def)

lemma served_new: "wired en n \<Longrightarrow> node_served en (install_handlers n (NewSession r))"
  by (auto simp: wired_def coordinator_def served_by_def install_handlers_def Let_def NewSession_def SetHandler_def SetMediaHandler_def
      SetPartyHandler_def SetSwarmHandler_def SetOnClose_def split: option.split)

lemma wired_sessionFor: "wired en n \<Longrightarrow> wired en (snd (sessionFor newErr r n))"
  by (auto simp: sessionFor_def Let_def wired_put served_new split: option.splits)

lemma wired_dial: "wired en n \<Longrightarrow> wired en (snd (dial_begin newErr startErr r n))"
  using wired_sessionFor [of en n newErr r] by (auto simp: dial_begin_def split: prod.split sum.split)

lemma same_policy_refl [simp]: "same_policy w w"
  by (simp add: same_policy_def)

lemma same_policy_trans: "same_policy u v \<Longrightarrow> same_policy v w \<Longrightarrow> same_policy u w"
  by (simp add: same_policy_def)

lemma node_step_keeps:
  assumes w: "wired en n" and o': "outside ev"
  shows "wired en (fst (node_do en ev (n, a))) \<and> same_policy a (snd (node_do en ev (n, a)))"
proof (cases ev)
  case (NvMedia ms)
  have "node_served en s \<Longrightarrow> node_served en (SetMediaHandler mediaHandler s)" for s
    by (simp add: served_by_def SetMediaHandler_def)
  then show ?thesis using w NvMedia by (auto simp: wired_def SetMedia_def same_policy_def)
next
  case (NvEnsure r relayErr)
  then show ?thesis using w by (auto simp: ensurePeer_def split: sum.split)
next
  case (NvDial r newErr startErr)
  then show ?thesis using wired_dial [OF w] by simp
next
  case (NvRelay rel newErr)
  have "wired en (snd (sessionFor newErr (rl_From rel) n))" by (rule wired_sessionFor [OF w])
  then show ?thesis unfolding NvRelay node_do.simps route_relay_def
    using w by (simp split: sum.split prod.split RelayKind.split) (auto split: sum.split prod.split)
next
  case (NvPeer r pev)
  show ?thesis
  proof (cases "map_of (nd_sessions n) r")
    case None
    then show ?thesis using NvPeer w by simp
  next
    case (Some s)
    obtain s' a' where run: "peer_do (ne_codec en) pev (s, a) = (s', a')" by fastforce
    have "same_policy a a'" "node_served en s'"
      using node_policy.step_keeps(1) [OF wiredD [OF w Some], of a "ne_codec en" pev]
        node_policy.step_keeps(2) [OF wiredD [OF w Some], of "ne_codec en" pev a] run by simp_all
    then show ?thesis using NvPeer Some run wired_put [OF w] by simp
  qed
next
  case (NvReject r)
  then show ?thesis using w
    by (auto simp: RejectAccess_def same_policy_def Service_Reject_def split: option.split)
qed (use w o' in \<open>auto simp: outside_def same_policy_def\<close>)

lemma node_run_keeps:
  assumes "wired en n" and "list_all outside evs" and "fold (node_do en) evs (n, a) = (n', a')"
  shows "wired en n' \<and> same_policy a a'"
  using assms
proof (induction evs arbitrary: n a)
  case (Cons ev evs)
  obtain n1 a1 where f: "node_do en ev (n, a) = (n1, a1)" by fastforce
  then have "wired en n1" "same_policy a a1" using node_step_keeps [of en n ev a] Cons.prems by simp_all
  moreover have "fold (node_do en) evs (n1, a1) = (n', a')" using Cons.prems(3) f by simp
  ultimately show ?case using Cons.IH [of n1 a1] Cons.prems(2) same_policy_trans by auto
qed simp

definition call_outside :: "mesh_call \<Rightarrow> bool" where
  "call_outside mc \<longleftrightarrow> list_all outside (ce_dialing mc) \<and> list_all outside (mc_after mc)"

definition world_keeps :: "ctl_env \<Rightarrow> World \<Rightarrow> World \<Rightarrow> bool" where
  "world_keeps ce W W' \<longleftrightarrow>
     (list_all outside (ce_dialing ce) \<longrightarrow> list_all call_outside (ce_mesh ce) \<longrightarrow> wired (ce_env ce) (wd_node W) \<longrightarrow>
      wired (ce_env ce) (wd_node W') \<and> same_policy (wd_app W) (wd_app W'))"

lemma world_keepsI:
  "(list_all outside (ce_dialing ce) \<Longrightarrow> list_all call_outside (ce_mesh ce) \<Longrightarrow> wired (ce_env ce) (wd_node W) \<Longrightarrow>
      wired (ce_env ce) (wd_node W') \<and> same_policy (wd_app W) (wd_app W')) \<Longrightarrow> world_keeps ce W W'"
  by (simp add: world_keeps_def)

lemma session_keeps:
  assumes "list_all outside (ce_dialing ce)" and "wired (ce_env ce) (wd_node W)" and "ctl_session ce r W = (res, W')"
  shows "wired (ce_env ce) (wd_node W') \<and> same_policy (wd_app W) (wd_app W') \<and> (\<forall>s. res = Inr s \<longrightarrow> node_served (ce_env ce) s)"
proof (cases "map_of (nd_sessions (wd_node W)) r")
  case (Some s)
  then show ?thesis using assms wiredD [OF assms(2) Some] by (auto simp: ctl_session_def)
next
  case None
  obtain e n1 where d: "dial_begin (ce_newErr ce) (ce_startErr ce) r (wd_node W) = (e, n1)" by fastforce
  have w1: "wired (ce_env ce) n1" using wired_dial [OF assms(2), of "ce_newErr ce" "ce_startErr ce" r] d by simp
  obtain n2 w2 where f: "fold (node_do (ce_env ce)) (ce_dialing ce) (n1, wd_app W) = (n2, w2)" by fastforce
  note k = node_run_keeps [OF w1 assms(1) f]
  show ?thesis using assms(3) None d f w1 k wiredD [of "ce_env ce" n2 r]
    by (auto simp: ctl_session_def split: option.splits if_splits)
qed

lemma with_rpc_keeps:
  assumes call: "\<And>s a res s' a'. node_served (ce_env ce) s \<Longrightarrow> call (s, a) = (res, s', a') \<Longrightarrow> same_policy a a' \<and> node_served (ce_env ce) s'"
    and h: "list_all outside (ce_dialing ce)" "wired (ce_env ce) (wd_node W)"
  shows "wired (ce_env ce) (wd_node (snd (with_rpc ce r call W))) \<and> same_policy (wd_app W) (wd_app (snd (with_rpc ce r call W)))"
proof -
  obtain res W1 where f: "ctl_session ce r W = (res, W1)" by fastforce
  note k = session_keeps [OF h f]
  show "wired (ce_env ce) (wd_node (snd (with_rpc ce r call W))) \<and> same_policy (wd_app W) (wd_app (snd (with_rpc ce r call W)))"
  proof (cases res)
    case (Inl err)
    then show ?thesis using k f by (simp add: with_rpc_def)
  next
    case (Inr s)
    obtain v s' a' where c: "call (s, wd_app W1) = (v, s', a')" by (metis prod_cases3)
    then have "same_policy (wd_app W1) a'" "node_served (ce_env ce) s'" using call [of s "wd_app W1" v s' a'] k Inr by simp_all
    then show ?thesis using k f Inr c same_policy_trans wired_put by (simp add: with_rpc_def) blast
  qed
qed

lemma rpc_keeps:
  assumes "\<And>s a res s' a'. node_served (ce_env ce) s \<Longrightarrow> call (s, a) = (res, s', a') \<Longrightarrow> same_policy a a' \<and> node_served (ce_env ce) s'"
  shows "world_keeps ce W (snd (with_rpc ce r call W))"
  by (rule world_keepsI) (rule with_rpc_keeps [OF assms], assumption+)

lemma snd_rpc_result [simp]: "snd (rpc_result get p) = snd p"
  by (auto simp: rpc_result_def split: prod.split sum.split option.split Body.split)

lemma rpc_result_state: "rpc_result get (Session_call c evs done b sa) = (res, s', a') \<Longrightarrow> \<exists>r. Session_call c evs done b sa = (r, s', a')"
  by (metis snd_rpc_result prod.collapse snd_conv)

lemma calls_keep:
  assumes "node_served en s"
  shows "Session_Browse c evs done (s, a) = (r1, s', a') \<Longrightarrow> same_policy a a' \<and> node_served en s'"
    and "Session_LiveParties c evs done (s, a) = (r2, s', a') \<Longrightarrow> same_policy a a' \<and> node_served en s'"
    and "Session_RequestAccess c evs done m (s, a) = (r3, s', a') \<Longrightarrow> same_policy a a' \<and> node_served en s'"
    and "Session_GetPlaylist c evs done cid nm (s, a) = (r4, s', a') \<Longrightarrow> same_policy a a' \<and> node_served en s'"
    and "Session_GetSegment c evs done cid nm (s, a) = (r5, s', a') \<Longrightarrow> same_policy a a' \<and> node_served en s'"
    and "Session_JoinParty c evs done cid (s, a) = (r6, s', a') \<Longrightarrow> same_policy a a' \<and> node_served en s'"
    and "Session_GetSwarmSegment c evs done req (s, a) = (r7, s', a') \<Longrightarrow> same_policy a a' \<and> node_served en s'"
    and "MeasureRTT c evs done t0 t1 (s, a) = (r8, s', a') \<Longrightarrow> same_policy a a' \<and> node_served en s'"
proof -
  have k: "same_policy a a' \<and> node_served en s'" if "rpc_result get (Session_call c evs done b (s, a)) = (r, s', a')"
    for get :: "Body option \<Rightarrow> 'v" and b r
    using rpc_result_state [OF that] node_policy.call_keeps [OF assms] by blast
  show "Session_Browse c evs done (s, a) = (r1, s', a') \<Longrightarrow> same_policy a a' \<and> node_served en s'"
    unfolding Session_Browse_def by (rule k)
  show "Session_LiveParties c evs done (s, a) = (r2, s', a') \<Longrightarrow> same_policy a a' \<and> node_served en s'"
    unfolding Session_LiveParties_def by (rule k)
  show "Session_RequestAccess c evs done m (s, a) = (r3, s', a') \<Longrightarrow> same_policy a a' \<and> node_served en s'"
    unfolding Session_RequestAccess_def by (rule k)
  show "Session_GetPlaylist c evs done cid nm (s, a) = (r4, s', a') \<Longrightarrow> same_policy a a' \<and> node_served en s'"
    unfolding Session_GetPlaylist_def by (rule k)
  show "Session_GetSegment c evs done cid nm (s, a) = (r5, s', a') \<Longrightarrow> same_policy a a' \<and> node_served en s'"
    unfolding Session_GetSegment_def by (rule node_policy.fetch_keeps [OF assms])
  show "Session_GetSwarmSegment c evs done req (s, a) = (r7, s', a') \<Longrightarrow> same_policy a a' \<and> node_served en s'"
    unfolding Session_GetSwarmSegment_def by (rule node_policy.fetch_keeps [OF assms])
  show "MeasureRTT c evs done t0 t1 (s, a) = (r8, s', a') \<Longrightarrow> same_policy a a' \<and> node_served en s'"
  proof -
    assume m: "MeasureRTT c evs done t0 t1 (s, a) = (r8, s', a')"
    obtain r where "Session_Ping c evs done ''rtt'' (s, a) = (r, s', a')"
      using m by (auto simp: MeasureRTT_def split: prod.splits sum.splits)
    then show ?thesis unfolding Session_Ping_def by (rule k)
  qed
  show "Session_JoinParty c evs done cid (s, a) = (r6, s', a') \<Longrightarrow> same_policy a a' \<and> node_served en s'"
  proof -
    assume j: "Session_JoinParty c evs done cid (s, a) = (r6, s', a')"
    let ?get = "\<lambda>b. case b of Some (BPartyWelcome wl) \<Rightarrow> Some wl | _ \<Rightarrow> None"
    obtain x where "rpc_result ?get (Session_call c evs done (BJoinParty cid) (s, a)) = (x, s', a')"
      using j unfolding Session_JoinParty_def by (auto split: prod.splits sum.splits option.splits)
    then show "same_policy a a' \<and> node_served en s'" by (rule k)
  qed
qed

lemma world_keeps_trans: "world_keeps ce U V \<Longrightarrow> world_keeps ce V W \<Longrightarrow> world_keeps ce U W"
  unfolding world_keeps_def using same_policy_trans by blast

lemma world_keeps_refl [simp]: "world_keeps ce W W"
  by (simp add: world_keeps_def)

lemma world_keeps_app: "same_policy (wd_app W) a \<Longrightarrow> world_keeps ce W (W\<lparr>wd_app := a\<rparr>)"
  by (simp add: world_keeps_def)

lemma same_policy_pc [simp]: "same_policy w (set_pc pc w)" "same_policy w (on_pc f w)" "same_policy w (snd (on_media g w))"
  by (simp_all add: same_policy_def)

lemma local_keeps: "world_keeps ce W (snd (on_local f W))"
proof -
  have "snd (on_local f W) = W\<lparr>wd_app := snd (on_media f (wd_app W))\<rparr>" by (simp add: on_local_def split: prod.split)
  then show ?thesis using world_keeps_app [of W "snd (on_media f (wd_app W))" ce] by simp
qed

lemma snd_ctl:
  "snd (ctl_Catalog ce i W) = snd (node_Browse ce i W)"
  "snd (ctl_LiveParties ce i W) = snd (with_rpc ce i (Session_LiveParties (ne_codec (ce_env ce)) (ce_evs ce) (ce_done ce)) W)"
  "snd (node_RequestAccess ce i m W) = snd (with_rpc ce i (Session_RequestAccess (ne_codec (ce_env ce)) (ce_evs ce) (ce_done ce) m) W)"
  by (auto simp: ctl_Catalog_def ctl_LiveParties_def node_RequestAccess_def split: prod.split sum.split)

section \<open>A mesh session and its transport\<close>

locale transport_laws =
  fixes tr :: "'w transport" and P :: "'w \<Rightarrow> bool"
  assumes swarm: "P w \<Longrightarrow> P (snd (t_fetchSwarmSegment tr n req w))"
    and playlist: "P w \<Longrightarrow> P (snd (t_hostPlaylist tr h cid nm w))"
    and segment: "P w \<Longrightarrow> P (snd (t_hostSegment tr h cid nm w))"
begin

lemma keepD:
  "P w \<Longrightarrow> t_fetchSwarmSegment tr n req w = (r, w1) \<Longrightarrow> P w1"
  "P w \<Longrightarrow> t_hostPlaylist tr h cid nm w = (r, w1) \<Longrightarrow> P w1"
  "P w \<Longrightarrow> t_hostSegment tr h cid nm w = (r, w1) \<Longrightarrow> P w1"
  by (metis swarm snd_conv) (metis playlist snd_conv, metis segment snd_conv)

lemma loop_keeps: "P w \<Longrightarrow> pull_loop blake tr fuel idx nm want ss w = Some (r, ss', w') \<Longrightarrow> P w'"
proof (induction fuel arbitrary: ss w)
  case (Suc fuel)
  then show ?case
    by (auto simp: Let_def split: option.splits prod.splits sum.splits if_splits dest: keepD(1))
qed simp

lemma hash_keeps: "P w \<Longrightarrow> expectedHash tr nm ss w = (want, ss', w') \<Longrightarrow> P w'"
  by (auto simp: expectedHash_def Let_def split: option.splits prod.splits sum.splits dest: keepD(2))

lemma fetch_keeps:
  assumes "P w" and f: "FetchSegment blake tr fuel nm ss w = Some (r, ss', w')"
  shows "P w'"
proof (cases "SegIndex nm")
  case None
  then show ?thesis using f keepD(3) [OF \<open>P w\<close>] by (auto simp: FetchSegment_def split: prod.splits)
next
  case (Some idx)
  show ?thesis
  proof (cases "cache_get (ss_cache ss) idx")
    case None
    obtain want ss1 w1 where e: "expectedHash tr nm (ss\<lparr>ss_lastIdx := idx\<rparr>) w = (want, ss1, w1)" by (metis prod_cases3)
    have w1: "P w1" by (rule hash_keeps [OF \<open>P w\<close> e])
    obtain d ss2 w2 where l: "(if want \<noteq> '''' then pull_loop blake tr fuel idx nm want ss1 w1 else Some (None, ss1, w1)) = Some (d, ss2, w2)"
      using f None e Some by (auto simp: FetchSegment_def Let_def split: option.splits)
    then have w2: "P w2" using w1 loop_keeps [OF w1] by (auto split: if_splits)
    show ?thesis
    proof (cases d)
      case None': None
      then show ?thesis using f Some None e l w2
        by (auto simp: FetchSegment_def Let_def split: prod.splits sum.splits if_splits dest: keepD(3))
    qed (use f Some None e l w2 in \<open>simp add: FetchSegment_def Let_def\<close>)
  qed (use f Some \<open>P w\<close> in \<open>simp add: FetchSegment_def Let_def\<close>)
qed

end

locale quiet_transport = transport_laws +
  fixes T :: time and d :: duration
  assumes alone: "P w \<Longrightarrow> t_meanwhile tr w = []"
    and clock: "P w \<Longrightarrow> T \<le> t_now tr w \<and> t_now tr w < T + d"
begin

lemma loop_returns:
  assumes "P w" and "swarm_ok (ss_eng ss)" and "s_cfg (ss_eng ss) = cfg" and "BusyCooldown cfg = d"
    and "length (s_peers (ss_eng ss)) < fuel"
  shows "pull_loop blake tr fuel idx nm want ss w \<noteq> None"
  by (rule pull_loop_returns [where P = P and T = T])
    (use assms alone clock swarm in \<open>auto intro: le_less_trans [OF length_filter_le]\<close>)

end

definition mesh_keeps :: "node_env \<Rightarrow> World \<Rightarrow> mesh_world \<Rightarrow> bool" where
  "mesh_keeps en W M \<longleftrightarrow>
     wired en (wd_node (mw_world M)) \<and> same_policy (wd_app W) (wd_app (mw_world M)) \<and> list_all call_outside (mw_calls M)"

lemma call_outside_upd [simp]: "call_outside (mc\<lparr>ce_env := en\<rparr>) = call_outside mc" "call_outside (ended_call en)"
  by (simp_all add: call_outside_def ended_call_def)

lemma next_call:
  "ce_env (next_call en M) = en" "mesh_keeps en W M \<Longrightarrow> call_outside (next_call en M)"
  by (auto simp: next_call_def mesh_keeps_def ended_call_def call_outside_def split: list.split)

lemma end_call_keeps:
  assumes M: "mesh_keeps en W M" and W': "wired en (wd_node W')" "same_policy (wd_app (mw_world M)) (wd_app W')"
    and mc: "mc = next_call en M"
  shows "mesh_keeps en W (end_call mc W' M)"
proof -
  have mc': "ce_env mc = en" "list_all outside (mc_after mc)"
    using next_call(2) [OF M] mc by (simp_all add: next_call(1) call_outside_def)
  obtain n w where f: "fold (node_do en) (mc_after mc) (wd_node W', wd_app W') = (n, w)" by fastforce
  have "list_all call_outside (tl (mw_calls M))" using M by (cases "mw_calls M") (auto simp: mesh_keeps_def)
  moreover have "same_policy (wd_app W) w"
    using M W'(2) node_run_keeps [OF W'(1) mc'(2) f] same_policy_trans unfolding mesh_keeps_def by blast
  ultimately show ?thesis using node_run_keeps [OF W'(1) mc'(2) f] f mc'(1)
    by (simp add: mesh_keeps_def end_call_def)
qed

lemma peerSession_keeps:
  assumes "wired en n" and "peerSession marshal e r n = (res, n')"
  shows "wired en n' \<and> (\<forall>s. res = Inr s \<longrightarrow> node_served en s)"
  using assms wiredD [OF assms(1), of r]
  by (auto simp: peerSession_def ensurePeer_def split: option.splits sum.splits if_splits)

lemma with_peer_keeps:
  assumes call: "\<And>s a res s' a'. node_served en s \<Longrightarrow> call (s, a) = (res, s', a') \<Longrightarrow> same_policy a a' \<and> node_served en s'"
    and "ce_env mc = en" and w: "wired en (wd_node W)"
  shows "wired en (wd_node (snd (with_peer mc r call W))) \<and> same_policy (wd_app W) (wd_app (snd (with_peer mc r call W)))"
proof -
  obtain res n where p: "peerSession (ne_marshal en) (mc_relayErr mc) r (wd_node W) = (res, n)" by fastforce
  note k = peerSession_keeps [OF w p]
  show ?thesis
  proof (cases res)
    case (Inl err)
    then show ?thesis using k p assms(2) by (simp add: with_peer_def)
  next
    case (Inr s)
    obtain v s' a' where c: "call (s, wd_app W) = (v, s', a')" by (metis prod_cases3)
    then show ?thesis using call [of s "wd_app W" v s' a'] k Inr p assms(2) wired_put by (simp add: with_peer_def)
  qed
qed

lemma mesh_call_keeps:
  assumes M: "mesh_keeps en W M" and mc: "mc = next_call en M"
  shows "mesh_keeps en W (end_call mc (snd (with_peer mc r (Session_GetSwarmSegment c (ce_evs mc) (ce_done mc) req) (mw_world M))) M)"
    and "mesh_keeps en W (end_call mc (snd (with_peer mc r (MeasureRTT c (ce_evs mc) (ce_done mc) t0 t1) (mw_world M))) M)"
    and "mesh_keeps en W (end_call mc (snd (with_rpc mc r (Session_GetPlaylist c (ce_evs mc) (ce_done mc) cid nm) (mw_world M))) M)"
    and "mesh_keeps en W (end_call mc (snd (with_rpc mc r (Session_GetSegment c (ce_evs mc) (ce_done mc) cid nm) (mw_world M))) M)"
proof -
  have h: "ce_env mc = en" "wired en (wd_node (mw_world M))" "list_all outside (ce_dialing mc)"
    using M next_call(2) [OF M] mc by (simp_all add: mesh_keeps_def next_call(1) call_outside_def)
  have k: "wired en (wd_node (snd (with_peer mc r f (mw_world M)))) \<and> same_policy (wd_app (mw_world M)) (wd_app (snd (with_peer mc r f (mw_world M))))"
    if "\<And>s a res s' a'. node_served en s \<Longrightarrow> f (s, a) = (res, s', a') \<Longrightarrow> same_policy a a' \<and> node_served en s'"
    for f :: "App Session \<times> App \<Rightarrow> (gerror + 'v) \<times> App Session \<times> App"
    by (rule with_peer_keeps [OF that h(1,2)])
  have k': "wired en (wd_node (snd (with_rpc mc r f (mw_world M)))) \<and> same_policy (wd_app (mw_world M)) (wd_app (snd (with_rpc mc r f (mw_world M))))"
    if "\<And>s a res s' a'. node_served en s \<Longrightarrow> f (s, a) = (res, s', a') \<Longrightarrow> same_policy a a' \<and> node_served en s'"
    for f :: "App Session \<times> App \<Rightarrow> (gerror + 'v) \<times> App Session \<times> App"
    using with_rpc_keeps [of mc f "mw_world M" r] that h by simp
  note fin = end_call_keeps [OF M _ _ mc, OF conjunct1 conjunct2]
  show "mesh_keeps en W (end_call mc (snd (with_peer mc r (Session_GetSwarmSegment c (ce_evs mc) (ce_done mc) req) (mw_world M))) M)"
    by (rule fin; rule k; rule calls_keep(7); assumption)
  show "mesh_keeps en W (end_call mc (snd (with_peer mc r (MeasureRTT c (ce_evs mc) (ce_done mc) t0 t1) (mw_world M))) M)"
    by (rule fin; rule k; rule calls_keep(8); assumption)
  show "mesh_keeps en W (end_call mc (snd (with_rpc mc r (Session_GetPlaylist c (ce_evs mc) (ce_done mc) cid nm) (mw_world M))) M)"
    by (rule fin; rule k'; rule calls_keep(4); assumption)
  show "mesh_keeps en W (end_call mc (snd (with_rpc mc r (Session_GetSegment c (ce_evs mc) (ce_done mc) cid nm) (mw_world M))) M)"
    by (rule fin; rule k'; rule calls_keep(5); assumption)
qed

lemma measureRTT_keeps: "mesh_keeps en W M \<Longrightarrow> mesh_keeps en W (snd (measureRTT en n M))"
  using mesh_call_keeps(2) [OF _ refl] by (simp add: measureRTT_def Let_def split_beta)

interpretation node_mesh: transport_laws "node_transport en" "mesh_keeps en W" for en W
proof
  fix M n req h cid nm
  assume M: "mesh_keeps en W M"
  show "mesh_keeps en W (snd (t_fetchSwarmSegment (node_transport en) n req M))"
    using mesh_call_keeps(1) [OF M refl] by (simp add: node_transport_def fetchSwarmSegment_def Let_def split_beta)
  show "mesh_keeps en W (snd (t_hostPlaylist (node_transport en) h cid nm M))"
    using mesh_call_keeps(3) [OF M refl] by (simp add: node_transport_def hostPlaylist_def Let_def split_beta)
  show "mesh_keeps en W (snd (t_hostSegment (node_transport en) h cid nm M))"
    using mesh_call_keeps(4) [OF M refl] by (simp add: node_transport_def hostSegment_def Let_def split_beta)
qed

lemma put_swarm_keeps: "wired en (wd_node (put_swarm ss W)) = wired en (wd_node W)" "same_policy w (wd_app (put_swarm ss W)) = same_policy w (wd_app W)"
  by (auto simp: put_swarm_def same_policy_def split: option.split)

lemma mesh_fetch_keeps: "world_keeps ce W (snd (mesh_fetch ce nm ss W))"
proof (rule world_keepsI)
  assume h: "list_all outside (ce_dialing ce)" "list_all call_outside (ce_mesh ce)" "wired (ce_env ce) (wd_node W)"
  let ?M = "\<lparr>mw_world = W, mw_calls = ce_mesh ce, mw_ops = []\<rparr>"
  have P: "mesh_keeps (ce_env ce) W ?M" using h by (simp add: mesh_keeps_def same_policy_def)
  show "wired (ce_env ce) (wd_node (snd (mesh_fetch ce nm ss W))) \<and> same_policy (wd_app W) (wd_app (snd (mesh_fetch ce nm ss W)))"
  proof (cases "FetchSegment (me_sum (ap_menv (wd_app W))) (node_transport (ce_env ce)) (ce_fuel ce) nm ss ?M")
    case None
    then show ?thesis using h by (simp add: mesh_fetch_def same_policy_def)
  next
    case (Some p)
    obtain r ss' M where p: "p = (r, ss', M)" by (metis prod_cases3)
    have "mesh_keeps (ce_env ce) W M" using node_mesh.fetch_keeps [OF P] Some p by blast
    then show ?thesis using Some p by (simp add: mesh_fetch_def put_swarm_keeps mesh_keeps_def)
  qed
qed

lemma node_sendTo_wired: "wired en n \<Longrightarrow> wired en (snd (node_sendTo c marshal e r env n))"
proof -
  assume w: "wired en n"
  obtain res n' where p: "peerSession marshal e r n = (res, n')" by fastforce
  note k = peerSession_keeps [OF w p]
  show ?thesis
  proof (cases res)
    case (Inr s)
    obtain err s' where g: "Session_send c env s = (err, s')" by fastforce
    then have "node_served en s'" using k Inr served_by_view hview_send_eqD sview_send_eqD by blast
    then show ?thesis using k p Inr g wired_put by (simp add: node_sendTo_def)
  qed (use k p in \<open>simp add: node_sendTo_def\<close>)
qed

lemma gossip_round_keeps: "mesh_keeps en W M \<Longrightarrow> mesh_keeps en W (snd (gossip_round en sends M))"
proof (induction en sends M rule: gossip_round.induct)
  case (2 en tgt env sends M)
  let ?mc = "next_call en M"
  let ?M1 = "M\<lparr>mw_world := (mw_world M)\<lparr>wd_node := snd (node_sendTo (ne_codec en) (ne_marshal en) (mc_relayErr ?mc) tgt env (wd_node (mw_world M)))\<rparr>\<rparr>"
  have M1: "mesh_keeps en W ?M1" using "2.prems" by (simp add: mesh_keeps_def node_sendTo_wired)
  obtain rtt M2 where m: "measureRTT en tgt ?M1 = (rtt, M2)" by fastforce
  then have "mesh_keeps en W M2" using measureRTT_keeps [OF M1, of tgt] by simp
  then have "mesh_keeps en W (snd (gossip_round en sends M2))" using "2.IH" [OF refl refl refl m [symmetric]] by simp
  then show ?case using m by (simp add: Let_def split_beta)
qed simp

lemma gossip_turn_keeps:
  assumes "wired en (wd_node W)" and "list_all call_outside calls"
  shows "wired en (wd_node (gossip_turn en intn calls W)) \<and> same_policy (wd_app W) (wd_app (gossip_turn en intn calls W))"
proof -
  have k: "mesh_keeps en W (snd (gossip_round en sends \<lparr>mw_world = W, mw_calls = calls, mw_ops = []\<rparr>))" for sends
    by (rule gossip_round_keeps) (use assms in \<open>simp add: mesh_keeps_def same_policy_def\<close>)
  show ?thesis
  proof (cases "pc_swarm (ap_pc (wd_app W))")
    case None
    then show ?thesis using assms by (simp add: gossip_turn_def same_policy_def)
  next
    case (Some ss)
    obtain rtts M where g: "gossip_round en (fst (gossip_tick intn (ap_now (wd_app W)) (\<lambda>_. None) ss))
        \<lparr>mw_world = W, mw_calls = calls, mw_ops = []\<rparr> = (rtts, M)" by fastforce
    then show ?thesis using k [of "fst (gossip_tick intn (ap_now (wd_app W)) (\<lambda>_. None) ss)"] Some assms
      by (simp add: gossip_turn_def Let_def put_swarm_keeps mesh_keeps_def)
  qed
qed

section \<open>A Segment fetch of the Node returns\<close>

definition mesh_ended :: "time \<Rightarrow> mesh_world \<Rightarrow> bool" where
  \<comment> \<open>the player's request has ended: every call fails at once\<close>
  "mesh_ended T M \<longleftrightarrow> mw_calls M = [] \<and> mw_ops M = [] \<and> ap_now (wd_app (mw_world M)) = T"

lemma fetchBulk_ended: "snd (snd (fetchBulk c [] True b (s, w))) = w"
  by (auto simp: fetchBulk_def fetchBulkTo_def split: prod.split sum.split option.split)

lemma call_ended: "snd (snd (Session_call c [] True b (s, w))) = w"
  by (auto simp: Session_call_def split: prod.split sum.split option.split)

lemma with_peer_now:
  "(\<And>s w. snd (snd (call (s, w))) = w) \<Longrightarrow> wd_app (snd (with_peer mc r call W)) = wd_app W"
  by (auto simp: with_peer_def split: prod.split sum.split) (metis snd_conv)

lemma ended_fetch:
  assumes "mw_calls M = []"
  shows "mw_calls (snd (fetchSwarmSegment en r req M)) = [] \<and> mw_ops (snd (fetchSwarmSegment en r req M)) = [] \<and>
         wd_app (mw_world (snd (fetchSwarmSegment en r req M))) = wd_app (mw_world M)"
proof -
  have "wd_app (snd (with_peer (ended_call en) r (Session_GetSwarmSegment (ne_codec en) [] True req) (mw_world M))) = wd_app (mw_world M)"
    by (rule with_peer_now) (simp add: Session_GetSwarmSegment_def fetchBulk_ended)
  then show ?thesis using assms
    by (simp add: fetchSwarmSegment_def next_call_def end_call_def ended_call_def Let_def split_beta)
qed

lemma with_rpc_now:
  "ce_dialing ce = [] \<Longrightarrow> (\<And>s w. snd (snd (call (s, w))) = w) \<Longrightarrow> wd_app (snd (with_rpc ce r call W)) = wd_app W"
  by (auto simp: with_rpc_def ctl_session_def split: prod.split sum.split option.split) (metis snd_conv)+

lemma ended_host:
  assumes "mesh_ended T M"
  shows "mesh_ended T (snd (hostPlaylist en h cid nm M))" and "mesh_ended T (snd (hostSegment en h cid nm M))"
proof -
  have "wd_app (snd (with_rpc (ended_call en) h (Session_GetPlaylist (ne_codec en) [] True cid nm) (mw_world M))) = wd_app (mw_world M)"
    by (rule with_rpc_now) (simp_all add: ended_call_def Session_GetPlaylist_def call_ended)
  then show "mesh_ended T (snd (hostPlaylist en h cid nm M))" using assms
    by (simp add: mesh_ended_def hostPlaylist_def next_call_def end_call_def ended_call_def Let_def split_beta)
  have "wd_app (snd (with_rpc (ended_call en) h (Session_GetSegment (ne_codec en) [] True cid nm) (mw_world M))) = wd_app (mw_world M)"
    by (rule with_rpc_now) (simp_all add: ended_call_def Session_GetSegment_def fetchBulk_ended)
  then show "mesh_ended T (snd (hostSegment en h cid nm M))" using assms
    by (simp add: mesh_ended_def hostSegment_def next_call_def end_call_def ended_call_def Let_def split_beta)
qed

interpretation node_ended: quiet_transport "node_transport en" "mesh_ended T" T "BusyCooldown SwarmDefaultConfig" for en T
proof
  fix M n req h cid nm
  assume M: "mesh_ended T M"
  show "mesh_ended T (snd (t_fetchSwarmSegment (node_transport en) n req M))"
    using M ended_fetch [of M en n req] by (simp add: mesh_ended_def node_transport_def)
  show "mesh_ended T (snd (t_hostPlaylist (node_transport en) h cid nm M))" "mesh_ended T (snd (t_hostSegment (node_transport en) h cid nm M))"
    using ended_host [OF M] by (simp_all add: node_transport_def)
  show "t_meanwhile (node_transport en) M = []"
    "T \<le> t_now (node_transport en) M \<and> t_now (node_transport en) M < T + BusyCooldown SwarmDefaultConfig"
    using M by (simp_all add: mesh_ended_def node_transport_def SwarmDefaultConfig_def second_def)
qed

lemma s_cfg_run [simp]: "s_cfg (fold swarm_do ops s) = s_cfg s"
proof (induction ops arbitrary: s)
  case (Cons op ops)
  have "s_cfg (swarm_do op s) = s_cfg s"
    by (cases op) (simp_all add: SetPeers_def OnPeerHave_def ExpireStale_def Swarm_OnRTT_def MarkBusy_def Demote_def Let_def)
  then show ?case using Cons by simp
qed simp

lemma node_loop_returns:
  assumes "swarm_ok (ss_eng ss)" and "s_cfg (ss_eng ss) = SwarmDefaultConfig"
  shows "\<exists>fuel. pull_loop blake (node_transport en) fuel idx nm want ss M \<noteq> None"
  using assms
proof (induction "length (mw_calls M)" arbitrary: ss M rule: less_induct)
  case less
  let ?tr = "node_transport en"
  show ?case
  proof (cases "SelectSource idx (t_now ?tr M) (ss_eng ss)")
    case None
    then have "pull_loop blake ?tr 1 idx nm want ss M \<noteq> None" by simp
    then show ?thesis by blast
  next
    case (Some src)
    obtain res M1 where f: "t_fetchSwarmSegment ?tr src \<lparr>gs_party_id = ss_partyID ss, gs_rendition = swarmRendition, gs_seg_name = nm\<rparr> M = (res, M1)"
      by fastforce
    let ?ss1 = "on_eng (fold swarm_do (t_meanwhile ?tr M1)) ss"
    have again: "\<exists>fuel. pull_loop blake ?tr fuel idx nm want (on_eng g ?ss1) M1 \<noteq> None"
      if "swarm_ok (g (ss_eng ?ss1))" "s_cfg (g (ss_eng ?ss1)) = SwarmDefaultConfig" for g
    proof (cases "mw_calls M")
      case Nil
      have "M1 = snd (fetchSwarmSegment en src \<lparr>gs_party_id = ss_partyID ss, gs_rendition = swarmRendition, gs_seg_name = nm\<rparr> M)"
        using f by (simp add: node_transport_def)
      then have "mesh_ended (ap_now (wd_app (mw_world M1))) M1" using ended_fetch [OF Nil] by (simp add: mesh_ended_def)
      then have "pull_loop blake ?tr (Suc (length (s_peers (ss_eng (on_eng g ?ss1))))) idx nm want (on_eng g ?ss1) M1 \<noteq> None"
        by (rule node_ended.loop_returns [where cfg = SwarmDefaultConfig]) (use that in \<open>simp_all add: on_eng_def\<close>)
      then show ?thesis by blast
    next
      case (Cons c cs)
      then have "length (mw_calls M1) < length (mw_calls M)"
        using f by (auto simp: node_transport_def fetchSwarmSegment_def end_call_def Let_def split_beta)
      from less.hyps [OF this, of "on_eng g ?ss1"] that show ?thesis by (simp add: on_eng_def)
    qed
    have e: "swarm_ok (ss_eng ?ss1)" "s_cfg (ss_eng ?ss1) = SwarmDefaultConfig"
      using less.prems by (simp_all add: on_eng_def swarm_ok_run)
    have gs: "swarm_ok (Demote src (ss_eng ?ss1))" "s_cfg (Demote src (ss_eng ?ss1)) = SwarmDefaultConfig"
      "swarm_ok (MarkBusy src t (ss_eng ?ss1))" "s_cfg (MarkBusy src t (ss_eng ?ss1)) = SwarmDefaultConfig" for t
      using e by (simp_all add: Demote_def MarkBusy_def swarm_ok_upd_peer)
    obtain k1 k2 where "pull_loop blake ?tr k1 idx nm want (on_eng (Demote src) ?ss1) M1 \<noteq> None"
      "pull_loop blake ?tr k2 idx nm want (on_eng (MarkBusy src (t_now ?tr M1)) ?ss1) M1 \<noteq> None"
      using again [of "Demote src"] again [of "MarkBusy src (t_now ?tr M1)"] gs by blast
    then have "pull_loop blake ?tr (Suc k1) idx nm want ss M \<noteq> None \<or> pull_loop blake ?tr (Suc k2) idx nm want ss M \<noteq> None"
      using Some f by (auto simp: Let_def split: sum.split)
    then show ?thesis by blast
  qed
qed

lemma pull_loop_mono:
  "pull_loop blake tr fuel idx nm want ss w = Some r \<Longrightarrow> fuel \<le> fuel' \<Longrightarrow> pull_loop blake tr fuel' idx nm want ss w = Some r"
proof (induction fuel arbitrary: fuel' ss w)
  case (Suc fuel)
  obtain k where k: "fuel' = Suc k" "fuel \<le> k" using Suc.prems(2) by (cases fuel') auto
  show ?case using Suc.prems(1) Suc.IH [OF _ k(2)] unfolding k(1)
    by (auto simp: Let_def split: option.splits prod.splits sum.splits if_splits)
qed simp

text \<open>
  C4. A player's Segment request always ends: whatever the peers, the Host and the rest of the world do during the
  calls that the Node's mesh session makes, once the player's request has ended (the calls given are used up) the
  retry loop, which has no deadline of its own, runs out of sources and \<open>FetchSegment\<close> returns.
\<close>
theorem node_fetch_returns:
  assumes "swarm_ok (ss_eng ss)" and "s_cfg (ss_eng ss) = SwarmDefaultConfig"
  shows "\<exists>N res. \<forall>fuel \<ge> N. FetchSegment blake (node_transport en) fuel nm ss \<lparr>mw_world = W, mw_calls = calls, mw_ops = []\<rparr> = Some res"
proof -
  let ?M = "\<lparr>mw_world = W, mw_calls = calls, mw_ops = []\<rparr>" and ?tr = "node_transport en"
  have fin: "\<exists>N res. \<forall>fuel \<ge> N. FetchSegment blake ?tr fuel nm ss ?M = Some res"
    if "\<And>fuel. FetchSegment blake ?tr fuel nm ss ?M = FetchSegment blake ?tr 0 nm ss ?M" "FetchSegment blake ?tr 0 nm ss ?M \<noteq> None"
    using that by (metis not_None_eq)
  show ?thesis
  proof (cases "SegIndex nm")
    case None
    then show ?thesis by (intro fin) (simp_all add: FetchSegment_def split_beta)
  next
    case (Some idx)
    show ?thesis
    proof (cases "cache_get (ss_cache ss) idx")
      case (Some b)
      then show ?thesis using \<open>SegIndex nm = Some idx\<close> by (intro fin) (simp_all add: FetchSegment_def Let_def)
    next
      case None
      obtain want ss1 M1 where e: "expectedHash ?tr nm (ss\<lparr>ss_lastIdx := idx\<rparr>) ?M = (want, ss1, M1)" by (metis prod_cases3)
      obtain hs where ss1: "ss1 = ss\<lparr>ss_lastIdx := idx, ss_hashes := hs\<rparr>" using expectedHash_frame [OF e] by auto
      have "\<exists>fuel. pull_loop blake ?tr fuel idx nm want ss1 M1 \<noteq> None"
        by (rule node_loop_returns) (use assms ss1 in simp_all)
      then obtain N r where N: "pull_loop blake ?tr N idx nm want ss1 M1 = Some r" by auto
      obtain d ss2 M2 where r: "r = (d, ss2, M2)" by (metis prod_cases3)
      have loop: "pull_loop blake ?tr fuel idx nm want ss1 M1 = Some (d, ss2, M2)" if "N \<le> fuel" for fuel
        using pull_loop_mono [OF N that] r by simp
      have "FetchSegment blake ?tr fuel nm ss ?M = FetchSegment blake ?tr N nm ss ?M" if "N \<le> fuel" for fuel
        using Some None e loop [OF that] loop [OF order_refl] by (simp add: FetchSegment_def Let_def)
      moreover have "FetchSegment blake ?tr N nm ss ?M \<noteq> None"
        using Some None e loop [OF order_refl]
        by (auto simp: FetchSegment_def Let_def split: option.split prod.split sum.split)
      ultimately show ?thesis by (metis not_None_eq)
    qed
  qed
qed

theorem node_fetch_returns_witness:
  "\<exists>N res. \<forall>fuel \<ge> N. FetchSegment (\<lambda>d. d) (node_transport example_env) fuel ''seg00001.ts''
     (on_eng (SetPeers [''n3'', ''n4'']) (newSwarmSession ''n1'' ''n2'' ''abc'' SwarmDefaultConfig))
     \<lparr>mw_world = \<lparr>wd_node = NewNode ''n1'' (coordinator (ne_graphemes example_env)), wd_app = example_app,
        wd_client = \<lparr>cl_peers = [], cl_relays = [], cl_changes = 0\<rparr>, wd_name = ''Ada''\<rparr>,
      mw_calls = [ended_call example_env], mw_ops = []\<rparr> = Some res"
proof (rule node_fetch_returns)
  show "swarm_ok (ss_eng (on_eng (SetPeers [''n3'', ''n4'']) (newSwarmSession ''n1'' ''n2'' ''abc'' SwarmDefaultConfig)))"
    by (simp add: on_eng_def newSwarmSession_def swarm_ok_SetPeers)
  show "s_cfg (ss_eng (on_eng (SetPeers [''n3'', ''n4'']) (newSwarmSession ''n1'' ''n2'' ''abc'' SwarmDefaultConfig))) = SwarmDefaultConfig"
    by (simp add: on_eng_def newSwarmSession_def SetPeers_def Swarm_New_def)
qed

end
