(* ===== verification/Program.thy ===== *)
theory Program
  imports Node_Laws
begin

text \<open>
  Executions of the whole program: what peers and the signaling server send the Node, and what reaches its
  loopback bridge, in any order. The contract of the bridge with the \<open>Control\<close> and \<open>Streamer\<close> behind it is the
  locale \<open>owner_laws\<close>, interpreted on the Node; the theorem says who is allowed to watch.
\<close>

section \<open>The bridge and what is behind it\<close>

definition owner_approves :: "http_env \<Rightarrow> 'w Bridge \<Rightarrow> request \<Rightarrow> string option" where
  \<comment> \<open>an authorised \<open>POST /api/requests/{id}/approve\<close>\<close>
  "owner_approves he b r =
     (if cleanPath (rq_Path r) = rq_Path r \<and> HasPrefix (rq_Path r) ''/api/'' \<and> apiAuthOK he b r \<and> rq_Method r = ''POST''
      then (case split_on (CHR ''/'') (TrimPrefix (rq_Path r) ''/api/'') of
              [a, i, y] \<Rightarrow> if a = ''requests'' \<and> y = ''approve'' then Some i else None
            | _ \<Rightarrow> None)
      else None)"

lemma snd_value_or_error [simp]: "snd (value_or_error f p) = snd p"
  by (simp add: value_or_error_def split: prod.split)

lemma snd_status_or_error [simp]: "snd (status_or_error n p) = snd p"
  by (simp add: status_or_error_def split: prod.split)

lemma snd_data_response [simp]: "snd (data_response p) = snd p"
  by (simp add: data_response_def split: prod.split)

locale owner_laws =
  fixes c :: "'w Control" and st :: "'w Streamer" and R :: "'w \<Rightarrow> 'w \<Rightarrow> bool"
  assumes R_refl: "R w w"
    and Catalog: "R w (snd (ct_Catalog c i w))"
    and LiveParties: "R w (snd (ct_LiveParties c i w))"
    and RequestAccess: "R w (snd (ct_RequestAccess c i m w))"
    and Reject: "R w (snd (ct_Reject c i w))"
    and Start: "R w (snd (ct_StartParty c cid w))"
    and Join: "R w (snd (ct_JoinParty c h cid w))"
    and Leave: "R w (ct_LeaveParty c w)"
    and End: "R w (ct_EndParty c reason w)"
    and Playlist: "R w (snd (st_Playlist st node cid nm w))"
    and Segment: "R w (snd (st_Segment st node cid nm w))"
    and Thumbnail: "R w (snd (st_Thumbnail st node cid w))"
begin

lemmas laws = R_refl Catalog LiveParties RequestAccess Reject Start Join Leave End Playlist Segment Thumbnail

lemma keep_if: "(P \<Longrightarrow> R w (snd x)) \<Longrightarrow> (\<not> P \<Longrightarrow> R w (snd y)) \<Longrightarrow> R w (snd (if P then x else y))"
  by simp

lemma keep_start: "R w (snd (case ct_StartParty c cid w of (i, w') \<Rightarrow> (f i, w')))"
  using Start [of w cid] by (simp add: case_prod_beta)

lemma api_keeps:
  assumes "m \<noteq> ''POST'' \<or> \<not> (\<exists>i. parts = [''requests'', i, ''approve''])"
  shows "R w (snd (api_spec he c m body parts w))"
proof -
  consider "parts = []" | a where "parts = [a]" | a x where "parts = [a, x]" | a x y where "parts = [a, x, y]"
    | a x y z r where "parts = a # x # y # z # r"
    by (metis neq_Nil_conv)
  then show ?thesis
  proof cases
    case (4 a x y)
    have no: "\<not> (m = ''POST'' \<and> a = ''requests'' \<and> y = ''approve'')" using assms 4 by auto
    show ?thesis unfolding 4 api_spec.simps
      by (intro keep_if) (use no in \<open>simp_all only: snd_value_or_error snd_status_or_error snd_conv laws simp_thms\<close>)
  next
    case (3 a x)
    show ?thesis unfolding 3 api_spec.simps
      by (intro keep_if keep_start) (simp_all only: snd_value_or_error snd_status_or_error snd_conv laws)
  next
    case (2 a)
    show ?thesis unfolding 2 api_spec.simps
      by (intro keep_if) (simp_all only: snd_value_or_error snd_conv laws)
  qed (simp_all only: api_spec.simps snd_conv laws)
qed

lemma stream_keeps:
  assumes "br_streamer b = st"
  shows "R w (snd (handleStream he b r w))"
  using assms by (auto simp: handleStream_def laws split: list.splits)

lemma api_handler_keeps:
  assumes "br_control b = Some c" and "owner_approves he b r = None"
    and "cleanPath (rq_Path r) = rq_Path r" and "HasPrefix (rq_Path r) ''/api/''"
  shows "R w (snd (handleAPI he b r w))"
proof (cases "apiAuthOK he b r")
  case True
  have "rq_Method r \<noteq> ''POST'' \<or> \<not> (\<exists>i. split_on (CHR ''/'') (TrimPrefix (rq_Path r) ''/api/'') = [''requests'', i, ''approve''])"
    using assms True by (auto simp: owner_approves_def)
  then show ?thesis unfolding handleAPI_routes [OF True assms(1)] by (rule api_keeps)
next
  case False
  then show ?thesis by (simp add: handleAPI_def R_refl)
qed

lemma serve_keeps:
  assumes "br_control b = Some c" and "br_streamer b = st" and "owner_approves he b r = None"
  shows "R w (snd (Bridge_serve he b fl up r w))"
proof -
  have "snd (handleSSE he b fl r w) = w" "snd (handleParty he b up r w) = w" "snd (handleStatic he b r w) = w"
    by (simp_all add: handleSSE_def handleParty_def handleStatic_def Let_def)
  then show ?thesis using stream_keeps [OF assms(2)] api_handler_keeps [OF assms(1,3)]
    by (simp add: Bridge_serve_def Let_def R_refl)
qed

end

lemma serve_approves:
  assumes "br_control b = Some c" and "owner_approves he b r = Some i"
  shows "Bridge_serve he b fl up r w = status_or_error 200 (ct_Approve c i w)"
proof -
  have f: "cleanPath (rq_Path r) = rq_Path r" "HasPrefix (rq_Path r) ''/api/''" "apiAuthOK he b r" "rq_Method r = ''POST''"
    and s: "split_on (CHR ''/'') (TrimPrefix (rq_Path r) ''/api/'') = [''requests'', i, ''approve'']"
    using assms(2) by (auto simp: owner_approves_def split: if_splits list.splits)
  have e: "rq_Path r \<noteq> ''/api/events''"
  proof
    assume "rq_Path r = ''/api/events''"
    then have "TrimPrefix (rq_Path r) ''/api/'' = ''events''" by (simp add: TrimPrefix_def HasPrefix_def)
    then show False using s by simp
  qed
  have "rq_Path r \<notin> {''/s'', ''/party'', ''/api''}" using f(2) by (auto simp: HasPrefix_def)
  then show ?thesis unfolding Bridge_serve_def Let_def using f e
    by (simp add: handleAPI_routes [OF f(3) assms(1)] s)
qed

section \<open>The Node behind it\<close>

interpretation node_owner: owner_laws "node_control ce" "node_streamer ce" "world_keeps ce" for ce
proof
  fix W :: World and i m cid h nm reason :: string and node :: NodeID
  note ks = calls_keep [of "ce_env ce"]
  show "world_keeps ce W W" by simp
  show "world_keeps ce W (snd (ct_Catalog (node_control ce) i W))"
    by (simp add: node_control_def snd_ctl node_Browse_def) (rule rpc_keeps, rule ks(1))
  show "world_keeps ce W (snd (ct_LiveParties (node_control ce) i W))"
    by (simp add: node_control_def snd_ctl) (rule rpc_keeps, rule ks(2))
  show "world_keeps ce W (snd (ct_RequestAccess (node_control ce) i m W))"
    by (simp add: node_control_def snd_ctl) (rule rpc_keeps, rule ks(3))
  show "world_keeps ce W (snd (ct_Reject (node_control ce) i W))"
    by (auto simp: node_control_def ctl_Reject_def RejectAccess_def same_policy_def Service_Reject_def intro!: world_keeps_app split: option.split)
  show "world_keeps ce W (snd (ct_StartParty (node_control ce) cid W))"
    by (auto simp: node_control_def node_StartParty_def intro!: world_keeps_app split: prod.split)
  show "world_keeps ce W (snd (ct_JoinParty (node_control ce) h cid W))"
  proof -
    obtain rpc W1 where f: "with_rpc ce h (Session_JoinParty (ne_codec (ce_env ce)) (ce_evs ce) (ce_done ce) cid) W = (rpc, W1)" by fastforce
    have "world_keeps ce W (snd (with_rpc ce h (Session_JoinParty (ne_codec (ce_env ce)) (ce_evs ce) (ce_done ce) cid) W))"
      by (rule rpc_keeps, rule ks(6))
    then have "world_keeps ce W W1" using f by simp
    moreover have "world_keeps ce W1 (W1\<lparr>wd_app := set_pc pc (wd_app W1)\<rparr>)" for pc by (rule world_keeps_app) simp
    ultimately have "world_keeps ce W (W1\<lparr>wd_app := set_pc pc (wd_app W1)\<rparr>)" for pc using world_keeps_trans by blast
    then show ?thesis using f by (simp add: node_control_def ctl_JoinParty_def split: prod.split)
  qed
  show "world_keeps ce W (ct_LeaveParty (node_control ce) W)" by (auto simp: node_control_def ctl_LeaveParty_def intro!: world_keeps_app)
  show "world_keeps ce W (ct_EndParty (node_control ce) reason W)" by (auto simp: node_control_def ctl_EndParty_def intro!: world_keeps_app)
  show "world_keeps ce W (snd (st_Playlist (node_streamer ce) node cid nm W))"
  proof -
    have "world_keeps ce W (snd (with_rpc ce node (Session_GetPlaylist (ne_codec (ce_env ce)) (ce_evs ce) (ce_done ce) cid nm) W))"
      by (rule rpc_keeps, rule ks(4))
    then show ?thesis using local_keeps [of ce W "\<lambda>env. LocalPlaylist env cid nm"]
      by (auto simp: node_streamer_def ctl_Playlist_def split: prod.split sum.split)
  qed
  show "world_keeps ce W (snd (st_Segment (node_streamer ce) node cid nm W))"
  proof -
    have "world_keeps ce W (snd (with_rpc ce node (Session_GetSegment (ne_codec (ce_env ce)) (ce_evs ce) (ce_done ce) cid nm) W))"
      by (rule rpc_keeps, rule ks(5))
    moreover have "mesh_fetch ce nm ss W = (r, W') \<Longrightarrow> world_keeps ce W W'" for ss r W'
      using mesh_fetch_keeps [of ce W nm ss] by simp
    ultimately show ?thesis using local_keeps [of ce W "\<lambda>env. LocalSegment env cid nm"]
      by (auto simp: node_streamer_def ctl_Segment_def split: prod.split sum.split option.split)
  qed
  show "world_keeps ce W (snd (st_Thumbnail (node_streamer ce) node cid W))"
    using local_keeps [of ce W "\<lambda>env ms. (LocalThumbnail env (ce_ffmpeg ce) cid ms, ms)"]
    by (auto simp: node_streamer_def ctl_Thumbnail_def world_keeps_def split: prod.split sum.split)
qed

section \<open>Executions of the program\<close>

definition set_store :: "Store \<Rightarrow> App \<Rightarrow> App" where
  \<comment> \<open>the table that the Catalog Service and the streaming engine read\<close>
  "set_store st w =
     w\<lparr>ap_svc := map_option (\<lambda>sv. sv\<lparr>sv_store := st\<rparr>) (ap_svc w),
       ap_media := map_option (\<lambda>ms. ms\<lparr>ms_engine := (ms_engine ms)\<lparr>en_store := st\<rparr>\<rparr>) (ap_media w)\<rparr>"

definition rescan :: "scan_env \<Rightarrow> (string \<Rightarrow> walk_entry list) \<Rightarrow> string list \<Rightarrow> App \<Rightarrow> App" where
  \<comment> \<open>the watch loop's \<open>ScanOnce\<close> of the shared folders; the third argument: the posters already present\<close>
  "rescan env walk thumbs w =
     (case ap_svc w of None \<Rightarrow> w
      | Some sv \<Rightarrow>
          set_store (sc_store (ScanOnce env walk (sv_roots sv)
              \<lparr>sc_store = sv_store sv, sc_cacheDir = sv_cacheDir sv, sc_thumber = True, sc_thumbs = thumbs, sc_hashed = []\<rparr>)) w)"

definition on_node :: "(App Node \<times> App \<Rightarrow> App Node \<times> App) \<Rightarrow> World \<Rightarrow> World" where
  "on_node f W = (case f (wd_node W, wd_app W) of (n, w) \<Rightarrow> W\<lparr>wd_node := n, wd_app := w\<rparr>)"

datatype world_ev =
    WNode node_ev                                     \<comment> \<open>peers, the signaling server, time, files, the player\<close>
  | WHttp ctl_env http_env bool bool request          \<comment> \<open>a request at the bridge\<close>
  | WPresence SigClient                               \<comment> \<open>the signaling client read messages\<close>
  | WScan scan_env "string \<Rightarrow> walk_entry list" "string list"   \<comment> \<open>the watch loop's timer fires\<close>
  | WGossip "nat \<Rightarrow> nat \<Rightarrow> nat" "mesh_call list"       \<comment> \<open>the ticker of \<open>gossipLoop\<close> fires\<close>

definition behind :: "node_env \<Rightarrow> ctl_env \<Rightarrow> World Bridge \<Rightarrow> World Bridge" where
  \<comment> \<open>the bridge with the Node's interfaces, as \<open>main\<close> installs them\<close>
  "behind en ce b = b\<lparr>br_control := Some (node_control (ce\<lparr>ce_env := en\<rparr>)), br_streamer := node_streamer (ce\<lparr>ce_env := en\<rparr>)\<rparr>"

fun world_do :: "node_env \<Rightarrow> World Bridge \<Rightarrow> world_ev \<Rightarrow> World \<Rightarrow> World" where
  "world_do en b (WNode ev) W = (case node_do en ev (wd_node W, wd_app W) of (n, w) \<Rightarrow> W\<lparr>wd_node := n, wd_app := w\<rparr>)"
| "world_do en b (WHttp ce he fl up r) W = snd (Bridge_serve he (behind en ce b) fl up r W)"
| "world_do en b (WPresence cl) W = W\<lparr>wd_client := cl\<rparr>"
| "world_do en b (WScan env walk thumbs) W = W\<lparr>wd_app := rescan env walk thumbs (wd_app W)\<rparr>"
| "world_do en b (WGossip intn calls) W = gossip_turn en intn calls W"

fun world_outside :: "world_ev \<Rightarrow> bool" where
  "world_outside (WNode ev) = outside ev"
| "world_outside (WHttp ce _ _ _ _) = (list_all outside (ce_dialing ce) \<and> list_all call_outside (ce_mesh ce))"
| "world_outside (WPresence _) = True"
| "world_outside (WScan _ _ _) = True"
| "world_outside (WGossip _ calls) = list_all call_outside calls"

fun approval_in :: "World Bridge \<Rightarrow> world_ev \<Rightarrow> string option" where
  "approval_in b (WHttp _ he _ _ r) = owner_approves he b r"
| "approval_in b _ = None"

definition start_world :: "node_env \<Rightarrow> NodeID \<Rightarrow> Service \<Rightarrow> App \<Rightarrow> SigClient \<Rightarrow> string \<Rightarrow> World" where
  \<comment> \<open>\<open>NewNode\<close> and \<open>SetCatalog\<close>, as in \<open>main\<close>\<close>
  "start_world en self svc w cl nm =
     (case SetCatalog (ne_readFile en) None svc (NewNode self (coordinator (ne_graphemes en)), w) of
        (n, w1) \<Rightarrow> \<lparr>wd_node = n, wd_app = w1, wd_client = cl, wd_name = nm\<rparr>)"

definition policy_of :: "World \<Rightarrow> Policy option" where
  "policy_of W = map_option sv_policy (ap_svc (wd_app W))"

lemma same_policy_of: "same_policy (wd_app W) (wd_app W') \<longleftrightarrow> policy_of W' = policy_of W"
  by (simp add: same_policy_def policy_of_def)

lemma owner_approves_behind [simp]: "owner_approves he (behind en ce b) r = owner_approves he b r"
  by (simp add: owner_approves_def apiAuthOK_def originOK_def behind_def)

lemma approve_effect:
  assumes "wired en (wd_node W)" and "policy_of W = Some p"
  shows "wired en (wd_node (snd (ctl_Approve ce i W))) \<and> policy_of (snd (ctl_Approve ce i W)) = Some (AddAllow i p)"
proof -
  obtain sv where sv: "ap_svc (wd_app W) = Some sv" "p = sv_policy sv" using assms(2) by (auto simp: policy_of_def)
  have pol: "sv_policy (Service_Approve i sv) = AddAllow i p" by (simp add: Service_Approve_def sv(2))
  show ?thesis
  proof (cases "map_of (nd_sessions (wd_node W)) i")
    case None
    then show ?thesis using assms sv pol by (simp add: ctl_Approve_def ApproveAccess_def Let_def policy_of_def)
  next
    case (Some s)
    obtain e s' where g: "SendAccessGranted (ne_codec (ce_env ce)) s = (e, s')" by fastforce
    then have "hview s' = hview s" "sview s' = sview s"
      using hview_send_eqD sview_send_eqD unfolding SendAccessGranted_def by blast+
    then have "node_served en s'" using served_by_view wiredD [OF assms(1) Some] by blast
    then show ?thesis using assms sv pol Some g wired_put [OF assms(1)]
      by (simp add: ctl_Approve_def ApproveAccess_def Let_def policy_of_def)
  qed
qed

lemma world_step:
  assumes w: "wired en (wd_node W)" and p: "policy_of W = Some p" and o': "world_outside ev"
  shows "wired en (wd_node (world_do en b ev W)) \<and>
         policy_of (world_do en b ev W) = Some (case approval_in b ev of None \<Rightarrow> p | Some i \<Rightarrow> AddAllow i p)"
proof (cases ev)
  case (WNode nev)
  obtain n a where "node_do en nev (wd_node W, wd_app W) = (n, a)" by fastforce
  then show ?thesis using node_step_keeps [OF w, of nev "wd_app W"] o' p WNode
    by (simp add: same_policy_def policy_of_def)
next
  case (WHttp ce he fl up r)
  let ?ce = "ce\<lparr>ce_env := en\<rparr>"
  have c: "br_control (behind en ce b) = Some (node_control ?ce)" "br_streamer (behind en ce b) = node_streamer ?ce"
    by (simp_all add: behind_def)
  show ?thesis
  proof (cases "owner_approves he b r")
    case None
    have "world_keeps ?ce W (snd (Bridge_serve he (behind en ce b) fl up r W))"
      by (rule node_owner.serve_keeps [OF c]) (simp add: None)
    then show ?thesis using w p o' None WHttp by (simp add: world_keeps_def same_policy_of)
  next
    case (Some i)
    have "Bridge_serve he (behind en ce b) fl up r W = status_or_error 200 (ct_Approve (node_control ?ce) i W)"
      by (rule serve_approves [OF c(1)]) (simp add: Some)
    then show ?thesis using approve_effect [OF w p, of ?ce i] Some WHttp by (simp add: node_control_def)
  qed
next
  case (WPresence cl)
  then show ?thesis using w p by (simp add: policy_of_def)
next
  case (WScan env walk thumbs)
  then show ?thesis using w p by (auto simp: policy_of_def rescan_def set_store_def)
next
  case (WGossip intn calls)
  then show ?thesis using gossip_turn_keeps [OF w, of calls intn] o' p by (simp add: same_policy_of)
qed

lemma world_run:
  assumes "wired en (wd_node W)" and "policy_of W = Some p" and "list_all world_outside evs"
  shows "policy_of (fold (world_do en b) evs W) = Some (fold AddAllow (List.map_filter (approval_in b) evs) p)"
  using assms
proof (induction evs arbitrary: W p)
  case (Cons ev evs)
  have "wired en (wd_node (world_do en b ev W)) \<and>
      policy_of (world_do en b ev W) = Some (case approval_in b ev of None \<Rightarrow> p | Some i \<Rightarrow> AddAllow i p)"
    by (rule world_step) (use Cons.prems in auto)
  then show ?case using Cons.IH Cons.prems(3)
    by (cases "approval_in b ev") (simp_all add: List.map_filter_simps)
qed (simp add: List.map_filter_simps)

lemma fold_AddAllow:
  "po_def (fold AddAllow is p) = po_def p" "po_block (fold AddAllow is p) = po_block p"
  "set (po_allow (fold AddAllow is p)) = set is \<union> set (po_allow p)"
  by (induction "is" arbitrary: p) (auto simp: AddAllow_def)

lemma fold_AddBlock:
  "po_def (fold AddBlock is p) = po_def p" "po_allow (fold AddBlock is p) = po_allow p"
  "set (po_block (fold AddBlock is p)) = set is \<union> set (po_block p)"
  by (induction "is" arbitrary: p) (auto simp: AddBlock_def)

lemma policy_allows:
  assumes "policy_of W = Some (fold AddAllow (List.map_filter (approval_in b) evs) (config_policy cfg))"
  shows "\<exists>sv. ap_svc (wd_app W) = Some sv \<and>
     (\<forall>i. Service_Allowed i sv \<longleftrightarrow>
        i \<notin> set (cf_BlockList cfg) \<and>
        (cf_DefaultVisibility cfg = ''public'' \<or> i \<in> set (cf_AllowList cfg) \<or> (\<exists>ev \<in> set evs. approval_in b ev = Some i)))"
proof -
  obtain sv where sv: "ap_svc (wd_app W) = Some sv" "sv_policy sv = fold AddAllow (List.map_filter (approval_in b) evs) (config_policy cfg)"
    using assms by (auto simp: policy_of_def)
  have "i \<in> set (List.map_filter (approval_in b) evs) \<longleftrightarrow> (\<exists>ev \<in> set evs. approval_in b ev = Some i)" for i
    by (force simp: List.map_filter_def)
  then show ?thesis using sv
    by (auto simp: Service_Allowed_def Policy_Allowed_def fold_AddAllow fold_AddBlock config_policy_def NewPolicy_def)
qed

lemma wired_start: "wired en (wd_node (start_world en self svc w cl nm))"
  by (simp add: start_world_def SetCatalog_def NewNode_def wired_def map_sessions_def)

text \<open>
  Who may watch: in every execution of the program, whatever peers, the signaling server and any client of the
  bridge send and in whatever order, the Nodes the access policy allows are exactly those that the configuration
  does not block and that it lists (or all, when it says public) or that the owner approved by a request bearing
  the session token; nothing a peer sends and no request without the token ever admits anyone.
\<close>
theorem who_may_watch:
  assumes "W = fold (world_do en b) evs (start_world en self (NewService store (config_policy cfg) NewRequests cacheDir folders) w0 cl nm)"
    and "list_all world_outside evs"
  shows "\<exists>sv. ap_svc (wd_app W) = Some sv \<and>
     (\<forall>i. Service_Allowed i sv \<longleftrightarrow>
        i \<notin> set (cf_BlockList cfg) \<and>
        (cf_DefaultVisibility cfg = ''public'' \<or> i \<in> set (cf_AllowList cfg) \<or> (\<exists>ev \<in> set evs. approval_in b ev = Some i)))"
proof -
  let ?W0 = "start_world en self (NewService store (config_policy cfg) NewRequests cacheDir folders) w0 cl nm"
  have "policy_of ?W0 = Some (config_policy cfg)"
    by (simp add: start_world_def SetCatalog_def policy_of_def NewService_def)
  then have "policy_of W = Some (fold AddAllow (List.map_filter (approval_in b) evs) (config_policy cfg))"
    unfolding assms(1) using world_run [OF wired_start _ assms(2)] by blast
  then show ?thesis by (rule policy_allows)
qed

section \<open>A concrete execution\<close>

definition example_ctl :: ctl_env where
  "example_ctl =
     \<lparr>ce_env = example_env, ce_newErr = None, ce_startErr = None, ce_dialing = [], ce_evs = [], ce_done = False, ce_dbErr = None,
      ce_mesh = [], ce_fuel = 0, ce_ffmpeg = (\<lambda>_. (None, \<lambda>_. RNotExist))\<rparr>"

definition example_cfg :: NodeConfig where
  "example_cfg = defaults\<lparr>cf_AllowList := [''n3''], cf_BlockList := [''n9'']\<rparr>"

definition example_bridge :: "World Bridge" where
  "example_bridge = main_bridge ''tok'' ''n1'' ''Ada'' example_ctl"

definition example_approval :: "string \<Rightarrow> string \<Rightarrow> world_ev" where
  "example_approval i auth =
     WHttp example_ctl demo_env True False
       ((demo_request ''POST'' (''/api/requests/'' @ i @ ''/approve''))\<lparr>rq_Authorization := auth\<rparr>)"

lemma example_approvals:
  "approval_in example_bridge (example_approval ''n7'' ''Bearer tok'') = Some ''n7''"
  "approval_in example_bridge (example_approval ''n8'' ''Bearer guess'') = None"
  by code_simp+

theorem who_may_watch_witness:
  "\<exists>sv. ap_svc (wd_app (fold (world_do example_env example_bridge)
           [example_approval ''n7'' ''Bearer tok'', example_approval ''n8'' ''Bearer guess'']
           (start_world example_env ''n1'' (NewService [] (config_policy example_cfg) NewRequests ''/cache'' []) example_app
             \<lparr>cl_peers = [], cl_relays = [], cl_changes = 0\<rparr> ''Ada''))) = Some sv \<and>
     Service_Allowed ''n3'' sv \<and> Service_Allowed ''n7'' sv \<and> \<not> Service_Allowed ''n8'' sv \<and> \<not> Service_Allowed ''n9'' sv"
proof -
  have o': "list_all world_outside [example_approval ''n7'' ''Bearer tok'', example_approval ''n8'' ''Bearer guess'']"
    by (simp add: example_approval_def example_ctl_def)
  have l: "cf_AllowList example_cfg = [''n3'']" "cf_BlockList example_cfg = [''n9'']" "cf_DefaultVisibility example_cfg = ''restricted''"
    by (simp_all add: example_cfg_def defaults_def)
  obtain sv where sv: "ap_svc (wd_app (fold (world_do example_env example_bridge)
           [example_approval ''n7'' ''Bearer tok'', example_approval ''n8'' ''Bearer guess'']
           (start_world example_env ''n1'' (NewService [] (config_policy example_cfg) NewRequests ''/cache'' []) example_app
             \<lparr>cl_peers = [], cl_relays = [], cl_changes = 0\<rparr> ''Ada''))) = Some sv"
    and who: "\<forall>i. Service_Allowed i sv \<longleftrightarrow> i \<notin> set (cf_BlockList example_cfg) \<and>
        (cf_DefaultVisibility example_cfg = ''public'' \<or> i \<in> set (cf_AllowList example_cfg) \<or>
         (\<exists>ev \<in> set [example_approval ''n7'' ''Bearer tok'', example_approval ''n8'' ''Bearer guess'']. approval_in example_bridge ev = Some i))"
    using who_may_watch [OF refl o', of example_env example_bridge "''n1''" "[]" example_cfg "''/cache''" "[]" example_app
      "\<lparr>cl_peers = [], cl_relays = [], cl_changes = 0\<rparr>" "''Ada''"] by blast
  have "Service_Allowed ''n3'' sv" "Service_Allowed ''n7'' sv" "\<not> Service_Allowed ''n8'' sv" "\<not> Service_Allowed ''n9'' sv"
    using who by (simp_all add: l example_approvals)
  then show ?thesis using sv by blast
qed

end
