(* ===== verification/Library_Watch.thy ===== *)
theory Library_Watch
  imports Library
begin

text \<open>
  The live watch of the Shared folders, \<open>Scanner.Watch\<close> of \<open>internal/library/scanner.go\<close>, and the assembly of a
  \<open>Probe\<close> from ffprobe's output (\<open>probe.go\<close>). Paths are lists of components. The file system and fsnotify are the
  environment of the loop: an event is queued for a change in a watched directory and for no other. The state
  carries what the loop keeps (the watch list and the debounce timer) and, to state what it is for, the scans it
  started and whether a file changed since the last one.
\<close>

section \<open>\<open>Probe\<close>\<close>

record ffprobeStream =
  fs_Index :: int
  fs_CodecType :: string
  fs_CodecName :: string
  fs_Width :: int
  fs_Height :: int
  fs_Language :: string

record ffprobeOutput =
  fo_FormatName :: string
  fo_Duration :: string
  fo_Streams :: "ffprobeStream list"

definition probe_stream :: "ffprobeStream \<Rightarrow> Probe \<Rightarrow> Probe" where
  \<comment> \<open>one turn of the loop over \<open>raw.Streams\<close>\<close>
  "probe_stream s p =
     (if fs_CodecType s = ''video''
      then p\<lparr>pr_Video := pr_Video p @ [\<lparr>vs_Codec = fs_CodecName s, vs_Width = fs_Width s, vs_Height = fs_Height s\<rparr>]\<rparr>
      else if fs_CodecType s = ''audio'' then p\<lparr>pr_Audio := pr_Audio p @ [fs_CodecName s]\<rparr>
      else if fs_CodecType s = ''subtitle''
      then p\<lparr>pr_Subtitles := pr_Subtitles p @
               [\<lparr>sb_Index = fs_Index s, sb_Codec = ToLower (fs_CodecName s),
                 sb_Language = (if fs_Language s = '''' then ''und'' else fs_Language s)\<rparr>]\<rparr>
      else p)"

definition FFProbe_Probe ::
  "(string \<Rightarrow> int option) \<Rightarrow> (bytes \<Rightarrow> gerror + ffprobeOutput) \<Rightarrow> gerror + bytes \<Rightarrow> gerror + Probe" where
  \<comment> \<open>\<open>int64(secs * 1000)\<close> of \<open>strconv.ParseFloat\<close>, \<open>json.Unmarshal\<close>, and the output of the ffprobe run\<close>
  "FFProbe_Probe parseMS unmarshal out =
     (case out of Inl err \<Rightarrow> Inl err
      | Inr raw \<Rightarrow>
      case unmarshal raw of Inl err \<Rightarrow> Inl err
      | Inr o' \<Rightarrow>
          Inr (fold probe_stream (fo_Streams o')
            \<lparr>pr_DurationMS = (case parseMS (fo_Duration o') of None \<Rightarrow> 0 | Some ms \<Rightarrow> ms),
             pr_Container = fo_FormatName o', pr_Video = [], pr_Audio = [], pr_Subtitles = []\<rparr>))"

section \<open>The watch loop\<close>

type_synonym fpath = "string list"

record fsevent =
  fe_Name :: fpath
  fe_Create :: bool            \<comment> \<open>\<open>ev.Op & fsnotify.Create != 0\<close>\<close>

record watch =
  wa_roots :: "fpath list"
  wa_dirs :: "fpath list"      \<comment> \<open>the directories that exist below the roots\<close>
  wa_watched :: "fpath list"   \<comment> \<open>\<open>w.Add\<close>\<close>
  wa_events :: "fsevent list"  \<comment> \<open>\<open>w.Events\<close>, oldest first\<close>
  wa_timer :: "time option"    \<comment> \<open>when the pending \<open>time.AfterFunc\<close> is due\<close>
  wa_last :: time              \<comment> \<open>when the loop last took an event\<close>
  wa_scans :: "time list"      \<comment> \<open>starts of \<open>sc.ScanOnce\<close>\<close>
  wa_dirty :: bool             \<comment> \<open>a file changed since the last scan started\<close>

definition debounceDelay :: duration where "debounceDelay = 500 * millisecond"

definition addTree :: "fpath \<Rightarrow> watch \<Rightarrow> watch" where
  \<comment> \<open>\<open>filepath.WalkDir\<close> from \<open>dir\<close>, adding the directories\<close>
  "addTree dir s = s\<lparr>wa_watched := wa_watched s @ filter (\<lambda>p. prefix dir p \<and> p \<notin> set (wa_watched s)) (wa_dirs s)\<rparr>"

definition debounce :: "time \<Rightarrow> watch \<Rightarrow> watch" where
  \<comment> \<open>\<open>Stop\<close> the pending timer, if any, and start another\<close>
  "debounce now s = s\<lparr>wa_timer := Some (now + debounceDelay), wa_last := now\<rparr>"

definition on_event :: "fsevent \<Rightarrow> time \<Rightarrow> watch \<Rightarrow> watch" where
  \<comment> \<open>the case \<open>ev, ok := <-w.Events\<close>\<close>
  "on_event ev now s =
     debounce now (if fe_Create ev \<and> fe_Name ev \<in> set (wa_dirs s) then addTree (fe_Name ev) s else s)"

definition watch_start :: "fpath list \<Rightarrow> fpath list \<Rightarrow> watch" where
  \<comment> \<open>up to the loop\<close>
  "watch_start roots dirs =
     fold addTree roots \<lparr>wa_roots = roots, wa_dirs = dirs, wa_watched = [], wa_events = [], wa_timer = None, wa_last = 0,
                         wa_scans = [], wa_dirty = False\<rparr>"

definition notify :: "fpath \<Rightarrow> fsevent \<Rightarrow> watch \<Rightarrow> watch" where
  \<comment> \<open>fsnotify: an event for a change in a directory, when it is watched\<close>
  "notify dir ev s = (if dir \<in> set (wa_watched s) then s\<lparr>wa_events := wa_events s @ [ev]\<rparr> else s)"

inductive watch_step :: "watch \<Rightarrow> watch \<Rightarrow> bool" where
  Mkdir: "butlast p \<in> set (wa_dirs s) \<Longrightarrow> p \<noteq> [] \<Longrightarrow> p \<notin> set (wa_dirs s) \<Longrightarrow>
     watch_step s (notify (butlast p) \<lparr>fe_Name = p, fe_Create = True\<rparr> (s\<lparr>wa_dirs := wa_dirs s @ [p]\<rparr>))"
| File: "d \<in> set (wa_dirs s) \<Longrightarrow>
     watch_step s (notify d \<lparr>fe_Name = d @ [f], fe_Create = created\<rparr> (s\<lparr>wa_dirty := True\<rparr>))"
| Rmdir: "p \<in> set (wa_dirs s) \<Longrightarrow> p \<notin> set (wa_roots s) \<Longrightarrow> \<forall>q \<in> set (wa_dirs s). prefix p q \<longrightarrow> q = p \<Longrightarrow>
     watch_step s (notify (butlast p) \<lparr>fe_Name = p, fe_Create = False\<rparr>
       (s\<lparr>wa_dirs := removeAll p (wa_dirs s), wa_watched := removeAll p (wa_watched s)\<rparr>))"
| Take: "wa_events s = ev # evs \<Longrightarrow> wa_last s \<le> now \<Longrightarrow> watch_step s (on_event ev now (s\<lparr>wa_events := evs\<rparr>))"
| Fire: "wa_timer s = Some due \<Longrightarrow> due \<le> now \<Longrightarrow>
     watch_step s (s\<lparr>wa_timer := None, wa_scans := wa_scans s @ [now], wa_dirty := False\<rparr>)"

inductive_cases watch_stepE: "watch_step s s'"

section \<open>No change is missed\<close>

definition below :: "fpath list \<Rightarrow> fpath \<Rightarrow> bool" where
  "below roots p \<longleftrightarrow> (\<exists>r \<in> set roots. prefix r p)"

definition announced :: "fsevent list \<Rightarrow> fpath \<Rightarrow> bool" where
  \<comment> \<open>the creation of the directory, or of one above it, is still to be taken\<close>
  "announced evs d \<longleftrightarrow> (\<exists>ev \<in> set evs. fe_Create ev \<and> prefix (fe_Name ev) d)"

definition tree_ok :: "fpath list \<Rightarrow> fpath list \<Rightarrow> bool" where
  \<comment> \<open>the directories are below the roots, with all those between\<close>
  "tree_ok roots dirs \<longleftrightarrow> set roots \<subseteq> set dirs \<and> (\<forall>d \<in> set dirs. below roots d) \<and>
     (\<forall>d \<in> set dirs. \<forall>a. prefix a d \<and> below roots a \<longrightarrow> a \<in> set dirs)"

definition watch_ok :: "watch \<Rightarrow> bool" where
  "watch_ok s \<longleftrightarrow>
     tree_ok (wa_roots s) (wa_dirs s) \<and> set (wa_watched s) \<subseteq> set (wa_dirs s) \<and>
     (\<forall>ev \<in> set (wa_events s). below (wa_roots s) (fe_Name ev)) \<and>
     (\<forall>d \<in> set (wa_dirs s). d \<in> set (wa_watched s) \<or> announced (wa_events s) d) \<and>
     (wa_dirty s \<longrightarrow> wa_events s \<noteq> [] \<or> wa_timer s \<noteq> None) \<and>
     (\<forall>due. wa_timer s = Some due \<longrightarrow> due = wa_last s + debounceDelay)"

lemma announced_simps [simp]:
  "\<not> announced [] d" "announced (ev # evs) d \<longleftrightarrow> fe_Create ev \<and> prefix (fe_Name ev) d \<or> announced evs d"
  "announced (evs @ evs') d \<longleftrightarrow> announced evs d \<or> announced evs' d"
  by (auto simp: announced_def)

lemma addTree_fields [simp]:
  "wa_roots (addTree d s) = wa_roots s" "wa_dirs (addTree d s) = wa_dirs s" "wa_events (addTree d s) = wa_events s"
  "wa_timer (addTree d s) = wa_timer s" "wa_last (addTree d s) = wa_last s" "wa_scans (addTree d s) = wa_scans s"
  "wa_dirty (addTree d s) = wa_dirty s"
  "set (wa_watched (addTree d s)) = set (wa_watched s) \<union> {p \<in> set (wa_dirs s). prefix d p}"
  by (auto simp: addTree_def)

lemma notify_fields [simp]:
  "wa_roots (notify d ev s) = wa_roots s" "wa_dirs (notify d ev s) = wa_dirs s" "wa_watched (notify d ev s) = wa_watched s"
  "wa_timer (notify d ev s) = wa_timer s" "wa_last (notify d ev s) = wa_last s" "wa_scans (notify d ev s) = wa_scans s"
  "wa_dirty (notify d ev s) = wa_dirty s"
  "wa_events (notify d ev s) = (if d \<in> set (wa_watched s) then wa_events s @ [ev] else wa_events s)"
  by (simp_all add: notify_def)

lemma prefix_butlast: "p \<noteq> [] \<Longrightarrow> prefix a p \<longleftrightarrow> a = p \<or> prefix a (butlast p)"
  using prefix_snoc [of a "butlast p" "last p"] by simp

lemma below_down: "below roots p \<Longrightarrow> prefix p q \<Longrightarrow> below roots q"
  unfolding below_def using prefix_order.trans by blast

lemma tree_okD:
  assumes "tree_ok roots dirs"
  shows "d \<in> set dirs \<Longrightarrow> below roots d" "d \<in> set dirs \<Longrightarrow> prefix a d \<Longrightarrow> below roots a \<Longrightarrow> a \<in> set dirs" "set roots \<subseteq> set dirs"
  using assms unfolding tree_ok_def by blast+

lemma watch_okD:
  assumes "watch_ok s"
  shows "tree_ok (wa_roots s) (wa_dirs s)" "set (wa_watched s) \<subseteq> set (wa_dirs s)"
    "ev \<in> set (wa_events s) \<Longrightarrow> below (wa_roots s) (fe_Name ev)"
    "d \<in> set (wa_dirs s) \<Longrightarrow> d \<in> set (wa_watched s) \<or> announced (wa_events s) d"
    "wa_dirty s \<Longrightarrow> wa_events s \<noteq> [] \<or> wa_timer s \<noteq> None" "wa_timer s = Some due \<Longrightarrow> due = wa_last s + debounceDelay"
  using assms unfolding watch_ok_def by blast+

lemma tree_ok_mkdir:
  assumes t: "tree_ok roots dirs" and p: "butlast p \<in> set dirs" "p \<noteq> []"
  shows "tree_ok roots (dirs @ [p])"
proof -
  have "below roots p" using tree_okD(1) [OF t p(1)] below_down prefix_butlast [OF p(2)] by blast
  moreover have "a \<in> set dirs \<or> a = p" if "prefix a p" "below roots a" for a
    using that prefix_butlast [OF p(2)] tree_okD(2) [OF t p(1)] by blast
  ultimately show ?thesis using tree_okD [OF t] unfolding tree_ok_def by auto
qed

lemma tree_ok_rmdir:
  assumes "tree_ok roots dirs" and "p \<notin> set roots" and "\<forall>q \<in> set dirs. prefix p q \<longrightarrow> q = p"
  shows "tree_ok roots (removeAll p dirs)"
  unfolding tree_ok_def using tree_okD [OF assms(1)] assms(2,3) by auto

lemma watch_ok_mkdir:
  assumes ok: "watch_ok s" and p: "butlast p \<in> set (wa_dirs s)" "p \<noteq> []"
  shows "watch_ok (notify (butlast p) \<lparr>fe_Name = p, fe_Create = True\<rparr> (s\<lparr>wa_dirs := wa_dirs s @ [p]\<rparr>))"
proof -
  have tr: "tree_ok (wa_roots s) (wa_dirs s @ [p])" by (rule tree_ok_mkdir [OF watch_okD(1) [OF ok] p])
  have bp: "below (wa_roots s) p" by (rule tree_okD(1) [OF tr]) simp
  have an: "announced (wa_events s) p" if "butlast p \<notin> set (wa_watched s)"
    using watch_okD(4) [OF ok p(1)] that prefix_butlast [OF p(2)] prefix_order.trans by (fastforce simp: announced_def)
  show ?thesis using tr bp an watch_okD(2-6) [OF ok] unfolding watch_ok_def by (cases "butlast p \<in> set (wa_watched s)") auto
qed

lemma watch_ok_file:
  assumes ok: "watch_ok s" and d: "d \<in> set (wa_dirs s)"
  shows "watch_ok (notify d \<lparr>fe_Name = d @ [f], fe_Create = created\<rparr> (s\<lparr>wa_dirty := True\<rparr>))"
proof -
  have bf: "below (wa_roots s) (d @ [f])" using tree_okD(1) [OF watch_okD(1) [OF ok] d] below_down by simp
  have ne: "wa_events s \<noteq> []" if "d \<notin> set (wa_watched s)" using watch_okD(4) [OF ok d] that by auto
  show ?thesis using bf ne watch_okD [OF ok] unfolding watch_ok_def by (cases "d \<in> set (wa_watched s)") auto
qed

lemma watch_ok_rmdir:
  assumes ok: "watch_ok s" and p: "p \<notin> set (wa_roots s)" "p \<in> set (wa_dirs s)" "\<forall>q \<in> set (wa_dirs s). prefix p q \<longrightarrow> q = p"
  shows "watch_ok (notify (butlast p) \<lparr>fe_Name = p, fe_Create = False\<rparr>
       (s\<lparr>wa_dirs := removeAll p (wa_dirs s), wa_watched := removeAll p (wa_watched s)\<rparr>))"
proof -
  have tr: "tree_ok (wa_roots s) (removeAll p (wa_dirs s))" by (rule tree_ok_rmdir [OF watch_okD(1) [OF ok] p(1,3)])
  have bp: "below (wa_roots s) p" by (rule tree_okD(1) [OF watch_okD(1) [OF ok] p(2)])
  show ?thesis using tr bp watch_okD(2-6) [OF ok] unfolding watch_ok_def by auto
qed

lemma watch_ok_take:
  assumes ok: "watch_ok s" and e: "wa_events s = ev # evs"
  shows "watch_ok (on_event ev now (s\<lparr>wa_events := evs\<rparr>))" (is "watch_ok ?t")
proof -
  have f: "wa_roots ?t = wa_roots s" "wa_dirs ?t = wa_dirs s" "wa_events ?t = evs" "wa_timer ?t = Some (now + debounceDelay)"
    "wa_last ?t = now"
    by (simp_all add: on_event_def debounce_def)
  have w: "set (wa_watched ?t) =
      set (wa_watched s) \<union> (if fe_Create ev \<and> fe_Name ev \<in> set (wa_dirs s) then {p \<in> set (wa_dirs s). prefix (fe_Name ev) p} else {})"
    by (simp add: on_event_def debounce_def)
  have bn: "below (wa_roots s) (fe_Name ev)" using watch_okD(3) [OF ok] e by simp
  have c: "d \<in> set (wa_watched ?t) \<or> announced evs d" if d: "d \<in> set (wa_dirs s)" for d
  proof (cases "fe_Create ev \<and> prefix (fe_Name ev) d")
    case True
    then have "fe_Name ev \<in> set (wa_dirs s)" using tree_okD(2) [OF watch_okD(1) [OF ok] d] bn by blast
    then show ?thesis using d w True by simp
  next
    case False
    then show ?thesis using watch_okD(4) [OF ok d] w e by auto
  qed
  have sub: "set (wa_watched ?t) \<subseteq> set (wa_dirs s)" using watch_okD(2) [OF ok] w by auto
  have be: "\<forall>ev \<in> set evs. below (wa_roots s) (fe_Name ev)" using watch_okD(3) [OF ok] e by simp
  show ?thesis unfolding watch_ok_def f using watch_okD(1) [OF ok] c sub be by simp
qed

lemma watch_ok_step: "watch_step s s' \<Longrightarrow> watch_ok s \<Longrightarrow> watch_ok s'"
proof (induction rule: watch_step.induct)
  case (Fire s due now)
  then show ?case by (simp add: watch_ok_def)
qed (simp_all add: watch_ok_mkdir watch_ok_file watch_ok_rmdir watch_ok_take)

lemma addTree_fold [simp]:
  "wa_roots (fold addTree rs s) = wa_roots s" "wa_dirs (fold addTree rs s) = wa_dirs s" "wa_events (fold addTree rs s) = wa_events s"
  "wa_timer (fold addTree rs s) = wa_timer s" "wa_dirty (fold addTree rs s) = wa_dirty s" "wa_last (fold addTree rs s) = wa_last s"
  "set (wa_watched (fold addTree rs s)) = set (wa_watched s) \<union> {p \<in> set (wa_dirs s). below rs p}"
  by (induction rs arbitrary: s) (auto simp: below_def)

lemma watch_ok_start: "tree_ok roots dirs \<Longrightarrow> watch_ok (watch_start roots dirs)"
  using tree_okD(1) [of roots dirs] unfolding watch_ok_def watch_start_def by auto

lemma watch_ok_reach: "watch_step\<^sup>*\<^sup>* s s' \<Longrightarrow> watch_ok s \<Longrightarrow> watch_ok s'"
  by (induction rule: rtranclp_induct) (auto intro: watch_ok_step)


text \<open>A watched folder: a directory appears in it, a file in that one before the loop has taken the event, then a scan.\<close>

definition folder :: fpath where "folder = [''media'']"

definition example_watched :: "nat \<Rightarrow> watch" where
  \<comment> \<open>after the directory and the file were made; after the event was taken; after the scan started\<close>
  "example_watched k =
     (let s0 = watch_start [folder] [folder];
          s1 = notify folder \<lparr>fe_Name = folder @ [''new''], fe_Create = True\<rparr> (s0\<lparr>wa_dirs := wa_dirs s0 @ [folder @ [''new'']]\<rparr>);
          s2 = notify (folder @ [''new'']) \<lparr>fe_Name = folder @ [''new'', ''a.mkv''], fe_Create = True\<rparr> (s1\<lparr>wa_dirty := True\<rparr>);
          s3 = on_event \<lparr>fe_Name = folder @ [''new''], fe_Create = True\<rparr> 7 (s2\<lparr>wa_events := []\<rparr>)
      in if k = 0 then s0 else if k = 1 then s1 else if k = 2 then s2 else if k = 3 then s3
         else s3\<lparr>wa_timer := None, wa_scans := wa_scans s3 @ [7 + debounceDelay], wa_dirty := False\<rparr>)"

lemma example_watch_steps: "watch_step\<^sup>*\<^sup>* (watch_start [folder] [folder]) (example_watched 4)"
proof -
  have d0: "wa_dirs (example_watched 0) = [folder]" "butlast (folder @ [''new'']) = folder" by code_simp+
  have "watch_step (example_watched 0) (example_watched 1)"
    using watch_step.Mkdir [of "folder @ [''new'']" "example_watched 0"] d0 by (simp add: example_watched_def Let_def folder_def)
  moreover have "folder @ [''new''] \<in> set (wa_dirs (example_watched 1))" by code_simp
  then have "watch_step (example_watched 1) (example_watched 2)"
    using watch_step.File [of "folder @ [''new'']" "example_watched 1" "''a.mkv''" True] by (simp add: example_watched_def Let_def)
  moreover have "wa_events (example_watched 2) = [\<lparr>fe_Name = folder @ [''new''], fe_Create = True\<rparr>]" "wa_last (example_watched 2) \<le> 7"
    by code_simp+
  then have "watch_step (example_watched 2) (example_watched 3)"
    using watch_step.Take [of "example_watched 2" _ "[]" 7] by (simp add: example_watched_def Let_def)
  moreover have "wa_timer (example_watched 3) = Some (7 + debounceDelay)" by code_simp
  then have "watch_step (example_watched 3) (example_watched 4)"
    using watch_step.Fire [of "example_watched 3" _ "7 + debounceDelay"] by (simp add: example_watched_def Let_def)
  moreover have "example_watched 0 = watch_start [folder] [folder]" by (simp add: example_watched_def Let_def)
  ultimately show ?thesis by (metis converse_rtranclp_into_rtranclp rtranclp.rtrancl_refl)
qed


section \<open>What is missed\<close>

text \<open>
  A change made before the watch starts, after the scan of its directory (\<open>main\<close> runs \<open>ScanOnce\<close> first), or one
  whose event fsnotify drops (its overflow error is only logged) has neither event nor timer: until another change
  in a watched directory starts a timer, no scan runs.
\<close>
lemma no_scan_without_timer: "watch_step s s' \<Longrightarrow> wa_timer s = None \<Longrightarrow> wa_scans s' = wa_scans s"
  by (cases rule: watch_step.cases, assumption) (auto simp: on_event_def debounce_def)

end
