(* ===== verification/Page_JSON.thy ===== *)
theory Page_JSON
  imports Bridge
begin

text \<open>
  What the page reads back: a JSON string literal as ECMAScript and \<open>encoding/json\<close> read it, on the bytes of the page,
  and the round trip of the bootstrap object that \<open>internal/bridge/static.go\<close> writes.
\<close>

section \<open>Reading a literal\<close>

definition hex_val :: "char \<Rightarrow> nat" where
  "hex_val ch =
     (let n = of_char ch :: nat
      in if 0x30 \<le> n \<and> n \<le> 0x39 then n - 0x30 else if 0x61 \<le> n \<and> n \<le> 0x66 then n - 0x61 + 10
         else if 0x41 \<le> n \<and> n \<le> 0x46 then n - 0x41 + 10 else 0)"

definition utf8_encode :: "nat \<Rightarrow> string" where
  \<comment> \<open>a code point of the basic plane\<close>
  "utf8_encode n =
     (if n < 0x80 then [char_of n]
      else if n < 0x800 then [char_of (0xC0 + n div 64), char_of (0x80 + n mod 64)]
      else [char_of (0xE0 + n div 4096), char_of (0x80 + n div 64 mod 64), char_of (0x80 + n mod 64)])"

definition escape_val :: "char \<Rightarrow> char" where
  "escape_val e =
     (if e = CHR ''b'' then char_of (8::nat) else if e = CHR ''f'' then char_of (12::nat) else if e = CHR ''n'' then char_of (10::nat)
      else if e = CHR ''r'' then char_of (13::nat) else if e = CHR ''t'' then char_of (9::nat) else e)"

fun read_chars :: "string \<Rightarrow> (string \<times> string) option" where
  \<comment> \<open>the text up to the closing quote, and what follows it\<close>
  "read_chars [] = None"
| "read_chars (ch # s) =
     (if ch = CHR 0x22 then Some ([], s)
      else if ch = CHR 0x5C
      then (case s of [] \<Rightarrow> None
            | e # t \<Rightarrow>
                if e = CHR ''u''
                then (case t of h1 # h2 # h3 # h4 # r \<Rightarrow>
                        map_option (apfst (append (utf8_encode (((hex_val h1 * 16 + hex_val h2) * 16 + hex_val h3) * 16 + hex_val h4))))
                          (read_chars r)
                      | _ \<Rightarrow> None)
                else map_option (apfst (Cons (escape_val e))) (read_chars t))
      else map_option (apfst (Cons ch)) (read_chars s))"

definition read_string :: "string \<Rightarrow> (string \<times> string) option" where
  "read_string s = (case s of ch # r \<Rightarrow> if ch = CHR 0x22 then read_chars r else None | [] \<Rightarrow> None)"

function utf8_ok :: "string \<Rightarrow> bool" where
  "utf8_ok s =
     (if s = [] then True
      else if (of_char (hd s) :: nat) < 0x80 \<or> 1 < rune_width s then utf8_ok (drop (rune_width s) s) else False)"
  by pat_completeness auto
termination by (relation "measure length") (auto simp: rune_width_pos)

declare utf8_ok.simps [simp del]

section \<open>The round trip\<close>

lemma hex_val_hexdig: "n < 16 \<Longrightarrow> hex_val (hexdig n) = n"
proof -
  have "\<forall>n \<in> set [0 ..< 16]. hex_val (hexdig n) = n" by code_simp
  then show "n < 16 \<Longrightarrow> hex_val (hexdig n) = n" by simp
qed

lemma read_plain:
  "CHR 0x22 \<notin> set xs \<Longrightarrow> CHR 0x5C \<notin> set xs \<Longrightarrow> read_chars (xs @ s) = map_option (apfst (append xs)) (read_chars s)"
  by (induction xs; cases "read_chars s") auto

lemma read_u00:
  assumes "n < 0x80"
  shows "read_chars ([CHR 0x5C] @ ''u00'' @ [hexdig (n div 16), hexdig (n mod 16)] @ s) = map_option (apfst (Cons (char_of n))) (read_chars s)"
proof -
  have h: "hex_val (hexdig (n div 16)) = n div 16" "hex_val (hexdig (n mod 16)) = n mod 16"
    using assms by (auto intro!: hex_val_hexdig)
  have z: "hex_val (CHR ''0'') = 0" by (simp add: hex_val_def)
  have u: "utf8_encode (((hex_val (CHR ''0'') * 16 + hex_val (CHR ''0'')) * 16 + n div 16) * 16 + n mod 16) = [char_of n]"
    using assms by (simp add: z utf8_encode_def)
  have "read_chars ([CHR 0x5C] @ ''u00'' @ [hexdig (n div 16), hexdig (n mod 16)] @ s) =
      map_option (apfst (append (utf8_encode (((hex_val (CHR ''0'') * 16 + hex_val (CHR ''0'')) * 16 + hex_val (hexdig (n div 16))) * 16 + hex_val (hexdig (n mod 16))))))
        (read_chars s)"
    by simp
  also have "\<dots> = map_option (apfst (append [char_of n])) (read_chars s)" unfolding h u ..
  finally show ?thesis by (cases "read_chars s") auto
qed

lemma read_esc_byte:
  assumes "(of_char ch :: nat) < 0x80"
  shows "read_chars (esc_byte ch @ s) = map_option (apfst (Cons ch)) (read_chars s)"
proof -
  define n :: nat where "n = of_char ch"
  have ch: "ch = char_of n" by (simp add: n_def)
  have ascii: "char_of (34::nat) = CHR 0x22" "char_of (92::nat) = CHR 0x5C" by code_simp+
  consider "n \<in> {0x22, 0x5C, 8, 12, 10, 13, 9}"
    | (hex) "n \<notin> {0x22, 0x5C, 8, 12, 10, 13, 9}" "n < 0x20 \<or> n = 0x3C \<or> n = 0x3E \<or> n = 0x26"
    | (plain) "n \<notin> {0x22, 0x5C, 8, 12, 10, 13, 9}" "\<not> (n < 0x20 \<or> n = 0x3C \<or> n = 0x3E \<or> n = 0x26)"
    by blast
  then show ?thesis
  proof cases
    case 1
    then show ?thesis unfolding esc_byte_def Let_def n_def [symmetric]
      by (auto simp: ch escape_val_def ascii)
  next
    case hex
    then have e: "esc_byte ch = [CHR 0x5C] @ ''u00'' @ [hexdig (n div 16), hexdig (n mod 16)]"
      unfolding esc_byte_def Let_def n_def [symmetric] by simp
    have "n < 0x80" using assms by (simp add: n_def)
    then have "read_chars (esc_byte ch @ s) = map_option (apfst (Cons (char_of n))) (read_chars s)"
      unfolding e append_assoc by (rule read_u00)
    then show ?thesis unfolding ch [symmetric] .
  next
    case plain
    then have "esc_byte ch = [ch]" unfolding esc_byte_def Let_def n_def [symmetric] by simp
    moreover have "ch \<noteq> CHR 0x22" "ch \<noteq> CHR 0x5C" using plain(1) by (auto simp: n_def)
    ultimately show ?thesis by simp
  qed
qed

lemma rune_bytes:
  assumes "\<not> (of_char (hd s) :: nat) < 0x80"
  shows "CHR 0x22 \<notin> set (take (rune_width s) s)" "CHR 0x5C \<notin> set (take (rune_width s) s)"
proof -
  have "0x80 \<le> (of_char (s ! i) :: nat)" if "i < rune_width s" "i < length s" for i
  proof (cases i)
    case 0
    then have "s ! i = hd s" using that(2) by (cases s) auto
    then show ?thesis using assms by simp
  next
    case (Suc j)
    then show ?thesis using rune_width_conts [of i s] that by (simp add: is_cont_def)
  qed
  then have "\<forall>ch \<in> set (take (rune_width s) s). 0x80 \<le> (of_char ch :: nat)" by (auto simp: in_set_conv_nth)
  moreover have "(of_char (CHR 0x22) :: nat) < 0x80" "(of_char (CHR 0x5C) :: nat) < 0x80" by simp_all
  ultimately show "CHR 0x22 \<notin> set (take (rune_width s) s)" "CHR 0x5C \<notin> set (take (rune_width s) s)" by (metis not_le)+
qed

lemma rune_width_separators:
  assumes "take 3 s = [CHR 0xE2, CHR 0x80, x]" and "is_cont x"
  shows "rune_width s = 3"
proof -
  have "s = [CHR 0xE2, CHR 0x80, x] @ drop 3 s" using assms(1) append_take_drop_id [of 3 s] by simp
  moreover have "rune_width ([CHR 0xE2, CHR 0x80, x] @ r) = 3" for r using assms(2) by (simp add: second_ok_def is_cont_def)
  ultimately show ?thesis by metis
qed

lemma encode_separators:
  "utf8_encode (((hex_val (CHR ''2'') * 16 + hex_val (CHR ''0'')) * 16 + hex_val (CHR ''2'')) * 16 + hex_val (CHR ''8'')) = [CHR 0xE2, CHR 0x80, CHR 0xA8]"
  "utf8_encode (((hex_val (CHR ''2'') * 16 + hex_val (CHR ''0'')) * 16 + hex_val (CHR ''2'')) * 16 + hex_val (CHR ''9'')) = [CHR 0xE2, CHR 0x80, CHR 0xA9]"
proof -
  have v: "hex_val (CHR ''2'') = 2" "hex_val (CHR ''0'') = 0" "hex_val (CHR ''8'') = 8" "hex_val (CHR ''9'') = 9"
    by (simp_all add: hex_val_def)
  have c: "char_of (226::nat) = CHR 0xE2" "char_of (128::nat) = CHR 0x80" "char_of (168::nat) = CHR 0xA8" "char_of (169::nat) = CHR 0xA9"
    by code_simp+
  show "utf8_encode (((hex_val (CHR ''2'') * 16 + hex_val (CHR ''0'')) * 16 + hex_val (CHR ''2'')) * 16 + hex_val (CHR ''8'')) = [CHR 0xE2, CHR 0x80, CHR 0xA8]"
    "utf8_encode (((hex_val (CHR ''2'') * 16 + hex_val (CHR ''0'')) * 16 + hex_val (CHR ''2'')) * 16 + hex_val (CHR ''9'')) = [CHR 0xE2, CHR 0x80, CHR 0xA9]"
    by (simp_all add: v utf8_encode_def c)
qed

lemma read_json_body:
  "utf8_ok s \<Longrightarrow> read_chars (json_body s @ CHR 0x22 # rest) = Some (s, rest)"
proof (induction s rule: utf8_ok.induct)
  case (1 s)
  show ?case
  proof (cases "s = []")
    case True
    then show ?thesis by (simp add: json_body.simps)
  next
    case False
    let ?w = "rune_width s"
    have ok: "(of_char (hd s) :: nat) < 0x80 \<or> 1 < ?w" "utf8_ok (drop ?w s)"
      using 1(2) False by (simp_all add: utf8_ok.simps [of s] split: if_splits)
    have IH: "read_chars (json_body (drop ?w s) @ CHR 0x22 # rest) = Some (drop ?w s, rest)"
      using 1(1) [OF False ok(1) ok(2)] .
    show ?thesis
    proof (cases "(of_char (hd s) :: nat) < 0x80")
      case True
      then have w: "?w = 1" "drop ?w s = tl s" using False by (cases s; simp)+
      have "json_body s = esc_byte (hd s) @ json_body (tl s)" using False True by (simp add: json_body.simps [of s])
      then show ?thesis using read_esc_byte [OF True] IH [unfolded w(2)] False by (cases s) simp_all
    next
      case hi: False
      then have w: "?w \<noteq> 1" using ok(1) by simp
      show ?thesis
      proof (cases "take 3 s = [CHR 0xE2, CHR 0x80, CHR 0xA8] \<or> take 3 s = [CHR 0xE2, CHR 0x80, CHR 0xA9]")
        case True
        then have w3: "?w = 3" using rune_width_separators [of s "CHR 0xA8"] rune_width_separators [of s "CHR 0xA9"] by (auto simp: is_cont_def)
        have s3: "s = take 3 s @ drop 3 s" by simp
        have j: "json_body s = [CHR 0x5C] @ (if take 3 s = [CHR 0xE2, CHR 0x80, CHR 0xA8] then ''u2028'' else ''u2029'') @ json_body (drop 3 s)"
          using True False hi w by (elim disjE) (simp_all add: json_body.simps [of s])
        have rd: "read_chars ([CHR 0x5C] @ ''u202'' @ [e] @ json_body (drop 3 s) @ CHR 0x22 # rest) =
            Some (utf8_encode (((hex_val (CHR ''2'') * 16 + hex_val (CHR ''0'')) * 16 + hex_val (CHR ''2'')) * 16 + hex_val e) @ drop 3 s, rest)" for e
          using IH [unfolded w3] by simp
        show ?thesis
        proof (cases "take 3 s = [CHR 0xE2, CHR 0x80, CHR 0xA8]")
          case A8: True
          have "read_chars (json_body s @ CHR 0x22 # rest) = Some ([CHR 0xE2, CHR 0x80, CHR 0xA8] @ drop 3 s, rest)"
            using rd [of "CHR ''8''"] unfolding encode_separators(1) by (simp add: j A8)
          then show ?thesis using s3 unfolding A8 by simp
        next
          case A9: False
          then have t9: "take 3 s = [CHR 0xE2, CHR 0x80, CHR 0xA9]" using True by blast
          have "read_chars (json_body s @ CHR 0x22 # rest) = Some ([CHR 0xE2, CHR 0x80, CHR 0xA9] @ drop 3 s, rest)"
            using rd [of "CHR ''9''"] unfolding encode_separators(2) by (simp add: j t9)
          then show ?thesis using s3 unfolding t9 by simp
        qed
      next
        case no: False
        have j: "json_body s = take ?w s @ json_body (drop ?w s)" using False hi w no by (simp add: json_body.simps [of s])
        show ?thesis unfolding j append_assoc read_plain [OF rune_bytes [OF hi]] IH by simp
      qed
    qed
  qed
qed

lemma read_json_string: "utf8_ok s \<Longrightarrow> read_string (json_string s @ rest) = Some (s, rest)"
  by (simp add: read_string_def json_string_def read_json_body)

section \<open>The bootstrap object\<close>

definition read_member :: "string \<Rightarrow> string \<Rightarrow> (string \<times> string) option" where
  \<comment> \<open>a member of that name, and what follows its value\<close>
  "read_member name s =
     (case read_string s of
        Some (k, ch # r) \<Rightarrow> if k = name \<and> ch = CHR '':'' then read_string r else None
      | _ \<Rightarrow> None)"

definition read_bootstrap :: "string \<Rightarrow> (string \<times> string \<times> string) option" where
  \<comment> \<open>token, Node id and name of \<open>window.__P2P__\<close>\<close>
  "read_bootstrap s =
     (case s of [] \<Rightarrow> None
      | o' # r0 \<Rightarrow> if o' \<noteq> CHR ''{'' then None
        else case read_member ''token'' r0 of
          Some (t, c1 # r1) \<Rightarrow> if c1 \<noteq> CHR '','' then None
            else (case read_member ''nodeId'' r1 of
              Some (i, c2 # r2) \<Rightarrow> if c2 \<noteq> CHR '','' then None
                else (case read_member ''name'' r2 of
                  Some (n, [c3]) \<Rightarrow> if c3 = CHR ''}'' then Some (t, i, n) else None
                | _ \<Rightarrow> None)
            | _ \<Rightarrow> None)
        | _ \<Rightarrow> None)"

lemma read_member_written:
  assumes "utf8_ok name" and "utf8_ok v"
  shows "read_member name (json_string name @ '':'' @ json_string v @ rest) = Some (v, rest)"
  unfolding read_member_def read_json_string [OF assms(1)] by (simp add: read_json_string [OF assms(2)])

text \<open>
  The page knows its session: whatever characters the display name holds (any valid UTF-8, quotes, backslashes,
  control characters and angle brackets included), the script of the page reads back exactly the token, the Node id
  and the name the bridge was given.
\<close>
theorem bootstrap_roundtrip:
  assumes "utf8_ok (br_token b)" and "utf8_ok (br_selfNodeID b)" and "utf8_ok (br_selfName b)"
  shows "read_bootstrap (bootstrapJSON b) = Some (br_token b, br_selfNodeID b, br_selfName b)"
proof -
  have k: "utf8_ok ''token''" "utf8_ok ''nodeId''" "utf8_ok ''name''" by code_simp+
  have m: "read_member ''token'' (json_string ''token'' @ '':'' @ json_string (br_token b) @ r) = Some (br_token b, r)"
    "read_member ''nodeId'' (json_string ''nodeId'' @ '':'' @ json_string (br_selfNodeID b) @ r) = Some (br_selfNodeID b, r)"
    "read_member ''name'' (json_string ''name'' @ '':'' @ json_string (br_selfName b) @ r) = Some (br_selfName b, r)" for r
    by (rule read_member_written [OF k(1) assms(1)] read_member_written [OF k(2) assms(2)] read_member_written [OF k(3) assms(3)])+
  have "bootstrapJSON b = CHR ''{'' # (json_string ''token'' @ '':'' @ json_string (br_token b) @
      CHR '','' # (json_string ''nodeId'' @ '':'' @ json_string (br_selfNodeID b) @
      CHR '','' # (json_string ''name'' @ '':'' @ json_string (br_selfName b) @ [CHR ''}''])))"
    by (simp add: bootstrapJSON_def)
  then show ?thesis by (simp only: read_bootstrap_def list.case m option.case prod.case simp_thms if_True if_False)
qed

theorem bootstrap_roundtrip_witness:
  "read_bootstrap (bootstrapJSON (SetBootstrap ''n1'' ([CHR 0x22, CHR 0x5C, CHR 0x0A] @ ''</script>'' @ [CHR 0xC3, CHR 0xA9]) demo_bridge)) =
     Some (''tok'', ''n1'', [CHR 0x22, CHR 0x5C, CHR 0x0A] @ ''</script>'' @ [CHR 0xC3, CHR 0xA9])"
proof -
  let ?b = "SetBootstrap ''n1'' ([CHR 0x22, CHR 0x5C, CHR 0x0A] @ ''</script>'' @ [CHR 0xC3, CHR 0xA9]) demo_bridge"
  have f: "br_token ?b = ''tok''" "br_selfNodeID ?b = ''n1''"
    "br_selfName ?b = [CHR 0x22, CHR 0x5C, CHR 0x0A] @ ''</script>'' @ [CHR 0xC3, CHR 0xA9]"
    by (simp_all add: SetBootstrap_def demo_bridge_def SetControl_def NewBridge_def)
  have u: "utf8_ok ''tok''" "utf8_ok ''n1''" "utf8_ok ([CHR 0x22, CHR 0x5C, CHR 0x0A] @ ''</script>'' @ [CHR 0xC3, CHR 0xA9])"
    by code_simp+
  show ?thesis using bootstrap_roundtrip [of ?b] unfolding f using u by blast
qed

end
