(* ===== verification/Go_JSON.thy ===== *)
theory Go_JSON
  imports Page_JSON
begin

text \<open>
  The values of \<open>encoding/json\<close>: a printer in the compact form \<open>json.Marshal\<close> writes and a parser for the grammar
  \<open>json.Unmarshal\<close> accepts, with the theorem that parsing what was printed gives the value back. A number is kept as
  its literal. Every recursive call of the parser is given one unit of fuel less; \<open>json_parse\<close> starts with twice the
  length of the text, and no nesting needs more, since a value and its bracket or separator take two calls and at least
  one character.
\<close>

section \<open>Values\<close>

datatype jval =
    JNull
  | JBool bool
  | JNum string
  | JStr string
  | JArr "jval list"
  | JObj "(string \<times> jval) list"

fun json_print :: "jval \<Rightarrow> string" where
  "json_print JNull = ''null''"
| "json_print (JBool b) = (if b then ''true'' else ''false'')"
| "json_print (JNum n) = n"
| "json_print (JStr s) = json_string s"
| "json_print (JArr vs) = ''['' @ join_with '','' (map json_print vs) @ '']''"
| "json_print (JObj ms) = ''{'' @ join_with '','' (map (\<lambda>(k, v). json_string k @ '':'' @ json_print v) ms) @ ''}''"

section \<open>Parsing\<close>

definition is_ws :: "char \<Rightarrow> bool" where
  "is_ws ch \<longleftrightarrow> ch = CHR '' '' \<or> ch = CHR 0x09 \<or> ch = CHR 0x0A \<or> ch = CHR 0x0D"

definition skip_ws :: "string \<Rightarrow> string" where
  "skip_ws s = dropWhile is_ws s"

definition is_digit :: "char \<Rightarrow> bool" where
  "is_digit ch \<longleftrightarrow> digit_val ch \<noteq> None"

definition read_digits :: "string \<Rightarrow> (string \<times> string) option" where
  \<comment> \<open>at least one digit\<close>
  "read_digits s = (if takeWhile is_digit s = [] then None else Some (takeWhile is_digit s, dropWhile is_digit s))"

definition read_whole :: "string \<Rightarrow> (string \<times> string) option" where
  \<comment> \<open>a zero, or digits that do not begin with one\<close>
  "read_whole s = (case s of ch # r \<Rightarrow> if ch = CHR ''0'' then Some ([ch], r) else read_digits s | [] \<Rightarrow> None)"

definition read_frac :: "string \<Rightarrow> (string \<times> string) option" where
  "read_frac s =
     (case s of ch # r \<Rightarrow> if ch = CHR ''.'' then map_option (apfst (Cons ch)) (read_digits r) else Some ([], s) | [] \<Rightarrow> Some ([], s))"

definition read_expo :: "string \<Rightarrow> (string \<times> string) option" where
  "read_expo s =
     (case s of
        ch # r \<Rightarrow>
          if ch = CHR ''e'' \<or> ch = CHR ''E''
          then (case r of
                  sg # r' \<Rightarrow> if sg = CHR ''+'' \<or> sg = CHR ''-'' then map_option (apfst (\<lambda>d. ch # sg # d)) (read_digits r')
                            else map_option (apfst (Cons ch)) (read_digits r)
                | [] \<Rightarrow> None)
          else Some ([], s)
      | [] \<Rightarrow> Some ([], s))"

definition read_number :: "string \<Rightarrow> (string \<times> string) option" where
  "read_number s =
     (let (sg, s0) = (case s of ch # r \<Rightarrow> if ch = CHR ''-'' then ([ch], r) else ([], s) | [] \<Rightarrow> ([], s))
      in case read_whole s0 of None \<Rightarrow> None
         | Some (w, s1) \<Rightarrow>
             (case read_frac s1 of None \<Rightarrow> None
              | Some (f, s2) \<Rightarrow>
                  (case read_expo s2 of None \<Rightarrow> None | Some (e, s3) \<Rightarrow> Some (sg @ w @ f @ e, s3))))"

definition read_word :: "string \<Rightarrow> jval \<Rightarrow> string \<Rightarrow> (jval \<times> string) option" where
  "read_word w v s = (if take (length w) s = w then Some (v, drop (length w) s) else None)"

fun parse_value :: "nat \<Rightarrow> string \<Rightarrow> (jval \<times> string) option"
  and parse_elems :: "nat \<Rightarrow> string \<Rightarrow> (jval list \<times> string) option"
  and parse_members :: "nat \<Rightarrow> string \<Rightarrow> ((string \<times> jval) list \<times> string) option" where
  "parse_value 0 s = None"
| "parse_value (Suc n) s =
     (case skip_ws s of [] \<Rightarrow> None
      | ch # r \<Rightarrow>
          if ch = CHR ''{''
          then (case skip_ws r of [] \<Rightarrow> None
                | c2 # t \<Rightarrow> if c2 = CHR ''}'' then Some (JObj [], t) else map_option (apfst JObj) (parse_members n r))
          else if ch = CHR ''[''
          then (case skip_ws r of [] \<Rightarrow> None
                | c2 # t \<Rightarrow> if c2 = CHR '']'' then Some (JArr [], t) else map_option (apfst JArr) (parse_elems n r))
          else if ch = CHR 0x22 then map_option (apfst JStr) (read_chars r)
          else if ch = CHR ''t'' then read_word ''true'' (JBool True) (ch # r)
          else if ch = CHR ''f'' then read_word ''false'' (JBool False) (ch # r)
          else if ch = CHR ''n'' then read_word ''null'' JNull (ch # r)
          else map_option (apfst JNum) (read_number (ch # r)))"
| "parse_elems 0 s = None"
| "parse_elems (Suc n) s =
     (case parse_value n s of None \<Rightarrow> None
      | Some (v, r) \<Rightarrow>
          (case skip_ws r of [] \<Rightarrow> None
           | ch # t \<Rightarrow> if ch = CHR '']'' then Some ([v], t)
                      else if ch = CHR '','' then map_option (apfst (Cons v)) (parse_elems n t) else None))"
| "parse_members 0 s = None"
| "parse_members (Suc n) s =
     (case read_string (skip_ws s) of None \<Rightarrow> None
      | Some (k, r) \<Rightarrow>
          (case skip_ws r of [] \<Rightarrow> None
           | c1 # t \<Rightarrow> if c1 \<noteq> CHR '':'' then None
               else (case parse_value n t of None \<Rightarrow> None
                     | Some (v, u) \<Rightarrow>
                         (case skip_ws u of [] \<Rightarrow> None
                          | c2 # x \<Rightarrow> if c2 = CHR ''}'' then Some ([(k, v)], x)
                              else if c2 = CHR '','' then map_option (apfst (Cons (k, v))) (parse_members n x) else None))))"

definition json_parse :: "string \<Rightarrow> jval option" where
  \<comment> \<open>one value and nothing but white space around it\<close>
  "json_parse s =
     (case parse_value (2 * length s) s of Some (v, r) \<Rightarrow> if skip_ws r = [] then Some v else None | None \<Rightarrow> None)"

fun key_fold :: "string \<Rightarrow> string" where
  \<comment> \<open>the case folding \<open>encoding/json\<close> matches keys by, on keys that can match an ASCII name\<close>
  "key_fold [] = []"
| "key_fold (ch # s) =
     (if take 3 (ch # s) = [CHR 0xE2, CHR 0x84, CHR 0xAA] then CHR ''k'' # key_fold (drop 2 s)
      else if take 2 (ch # s) = [CHR 0xC5, CHR 0xBF] then CHR ''s'' # key_fold (drop 1 s)
      else lower1 ch # key_fold s)"

section \<open>Printing, then parsing\<close>

definition num_ok :: "string \<Rightarrow> bool" where
  \<comment> \<open>a literal the printer may write: one that reads back whole\<close>
  "num_ok n \<longleftrightarrow> n \<noteq> [] \<and> (hd n = CHR ''-'' \<or> is_digit (hd n)) \<and>
     (\<forall>rest. rest = [] \<or> hd rest \<in> {CHR '','', CHR '']'', CHR ''}''} \<longrightarrow> read_number (n @ rest) = Some (n, rest))"

fun jval_ok :: "jval \<Rightarrow> bool" where
  "jval_ok (JNum n) \<longleftrightarrow> num_ok n"
| "jval_ok (JStr s) \<longleftrightarrow> utf8_ok s"
| "jval_ok (JArr vs) \<longleftrightarrow> (\<forall>v \<in> set vs. jval_ok v)"
| "jval_ok (JObj ms) \<longleftrightarrow> (\<forall>(k, v) \<in> set ms. utf8_ok k \<and> jval_ok v)"
| "jval_ok _ \<longleftrightarrow> True"

definition ends :: "string \<Rightarrow> bool" where
  "ends rest \<longleftrightarrow> rest = [] \<or> hd rest \<in> {CHR '','', CHR '']'', CHR ''}''}"

lemma ends_simps [simp]: "ends []" "ends (CHR '','' # r)" "ends (CHR '']'' # r)" "ends (CHR ''}'' # r)"
  by (simp_all add: ends_def)

lemma skip_ws_stop [simp]: "\<not> is_ws ch \<Longrightarrow> skip_ws (ch # r) = ch # r"
  by (simp add: skip_ws_def)

lemma punctuation [simp]:
  "\<not> is_ws (CHR '','')" "\<not> is_ws (CHR '']'')" "\<not> is_ws (CHR ''}'')" "\<not> is_ws (CHR ''['')" "\<not> is_ws (CHR ''{'')"
  "\<not> is_ws (CHR '':'')" "\<not> is_ws (CHR 0x22)" "\<not> is_ws (CHR ''t'')" "\<not> is_ws (CHR ''f'')" "\<not> is_ws (CHR ''n'')" "\<not> is_ws (CHR ''-'')"
  by (simp_all add: is_ws_def)

lemma is_digit_chars:
  "\<not> is_digit (CHR '','')" "\<not> is_digit (CHR '']'')" "\<not> is_digit (CHR ''}'')" "\<not> is_digit (CHR ''-'')" "\<not> is_digit (CHR ''{'')"
  "\<not> is_digit (CHR ''['')" "\<not> is_digit (CHR 0x22)" "\<not> is_digit (CHR ''t'')" "\<not> is_digit (CHR ''f'')" "\<not> is_digit (CHR ''n'')"
  "\<not> is_digit (CHR '' '')" "\<not> is_digit (CHR 0x09)" "\<not> is_digit (CHR 0x0A)" "\<not> is_digit (CHR 0x0D)"
  by code_simp+

lemma digit_head:
  assumes "is_digit ch"
  shows "\<not> is_ws ch" "ch \<notin> {CHR ''{'', CHR ''['', CHR 0x22, CHR ''t'', CHR ''f'', CHR ''n'', CHR '']'', CHR ''}''}"
  using assms is_digit_chars by (auto simp: is_ws_def)

lemma itoa_nat_digits: "\<forall>ch \<in> set (itoa_nat n). is_digit ch"
proof (induction n rule: itoa_nat.induct)
  case (1 n)
  show ?case
  proof (cases "n < 10")
    case True
    then show ?thesis by (subst itoa_nat.simps) (simp add: is_digit_def digit_val_char_of)
  next
    case False
    then show ?thesis using 1 digit_val_char_of [of "n mod 10"] by (subst itoa_nat.simps) (simp add: is_digit_def)
  qed
qed

lemma itoa_nat_zero: "hd (itoa_nat n) = CHR ''0'' \<longleftrightarrow> n = 0"
proof (induction n rule: itoa_nat.induct)
  case (1 n)
  have z: "char_of (48 + k) = CHR ''0'' \<longleftrightarrow> k = 0" if "k < 10" for k :: nat
  proof -
    have "\<forall>k \<in> set [0 ..< 10]. char_of (48 + k) = CHR ''0'' \<longleftrightarrow> k = 0" by code_simp
    then show ?thesis using that by simp
  qed
  show ?case
  proof (cases "n < 10")
    case True
    then show ?thesis using z by (subst itoa_nat.simps) simp
  next
    case False
    then show ?thesis using 1 by (subst itoa_nat.simps) simp
  qed
qed

lemma read_digits_all:
  assumes "\<forall>ch \<in> set ds. is_digit ch" and "ds \<noteq> []" and "ends rest"
  shows "read_digits (ds @ rest) = Some (ds, rest)"
proof -
  have "takeWhile is_digit rest = []" "dropWhile is_digit rest = rest"
    using assms(3) is_digit_chars by (cases rest; auto simp: ends_def)+
  then show ?thesis using assms(1,2) by (simp add: read_digits_def)
qed

lemma no_frac: "ends rest \<Longrightarrow> read_frac rest = Some ([], rest) \<and> read_expo rest = Some ([], rest)"
  by (cases rest) (auto simp: ends_def read_frac_def read_expo_def)

lemma read_whole_itoa:
  assumes "ends rest"
  shows "read_whole (itoa_nat n @ rest) = Some (itoa_nat n, rest)"
proof (cases "n = 0")
  case True
  have "itoa_nat 0 = ''0''" by (subst itoa_nat.simps) code_simp
  then show ?thesis using True by (simp add: read_whole_def)
next
  case False
  then have "hd (itoa_nat n) \<noteq> CHR ''0''" by (simp add: itoa_nat_zero)
  moreover have "read_digits (itoa_nat n @ rest) = Some (itoa_nat n, rest)"
    by (rule read_digits_all) (use itoa_nat_digits assms in auto)
  moreover obtain d ds where "itoa_nat n = d # ds" by (cases "itoa_nat n") auto
  ultimately show ?thesis by (simp only: read_whole_def append_Cons list.case list.sel if_False)
qed

lemma num_ok_Itoa [simp]: "num_ok (Itoa i)"
proof -
  have rd: "read_number (Itoa i @ rest) = Some (Itoa i, rest)" if "ends rest" for rest
  proof (cases "i < 0")
    case True
    then show ?thesis using read_whole_itoa [OF that] no_frac [OF that] by (simp add: Itoa_def read_number_def Let_def)
  next
    case False
    obtain d ds where d: "itoa_nat (nat i) = d # ds" by (cases "itoa_nat (nat i)") auto
    have "d \<noteq> CHR ''-''" using hd_itoa_nat [of "nat i"] d by simp
    then show ?thesis using False read_whole_itoa [OF that, of "nat i"] no_frac [OF that] d
      by (simp add: Itoa_def read_number_def Let_def)
  qed
  have "is_digit (hd (itoa_nat (nat i)))" using itoa_nat_digits [of "nat i"] itoa_nat_ne [of "nat i"] by (meson list.set_sel(1))
  then show ?thesis using rd unfolding num_ok_def ends_def [symmetric] by (simp add: Itoa_def)
qed

lemma parse_word:
  "parse_value (Suc n) (''null'' @ rest) = Some (JNull, rest)"
  "parse_value (Suc n) (''true'' @ rest) = Some (JBool True, rest)"
  "parse_value (Suc n) (''false'' @ rest) = Some (JBool False, rest)"
  by (simp_all add: read_word_def)

lemma parse_number:
  assumes "num_ok num" and "ends rest"
  shows "parse_value (Suc n) (num @ rest) = Some (JNum num, rest)"
proof -
  obtain d ds where d: "num = d # ds" using assms(1) by (cases num) (auto simp: num_ok_def)
  have r: "read_number (num @ rest) = Some (num, rest)" using assms unfolding num_ok_def ends_def by blast
  have dc: "d = CHR ''-'' \<or> is_digit d" using assms(1) d by (simp add: num_ok_def)
  have ws: "\<not> is_ws d" using dc digit_head(1) [of d] by (elim disjE) simp_all
  have h: "d \<noteq> CHR ''{''" "d \<noteq> CHR ''[''" "d \<noteq> CHR 0x22" "d \<noteq> CHR ''t''" "d \<noteq> CHR ''f''" "d \<noteq> CHR ''n''"
    using dc digit_head(2) [of d] by (elim disjE; simp)+
  have "parse_value (Suc n) (num @ rest) = map_option (apfst JNum) (read_number (num @ rest))"
    unfolding d append_Cons parse_value.simps skip_ws_stop [OF ws] list.case by (simp only: h if_False)
  then show ?thesis by (simp add: r)
qed

lemma json_string_eq: "json_string s @ rest = CHR 0x22 # json_body s @ CHR 0x22 # rest"
  by (simp add: json_string_def)

lemma print_nonempty: "jval_ok v \<Longrightarrow> json_print v \<noteq> [] \<and> \<not> is_ws (hd (json_print v)) \<and> hd (json_print v) \<notin> {CHR '']'', CHR ''}''}"
proof (cases v)
  case (JNum n)
  moreover assume "jval_ok v"
  ultimately have "n \<noteq> []" "hd n = CHR ''-'' \<or> is_digit (hd n)" by (auto simp: num_ok_def)
  then show ?thesis using JNum digit_head [of "hd n"] by (auto simp: is_ws_def)
qed (auto simp: json_string_def is_ws_def)

lemma json_string_length: "2 \<le> length (json_string s)"
  by (simp add: json_string_def)

lemma join_cons: "xs \<noteq> [] \<Longrightarrow> join_with sep (x # xs) = x @ sep @ join_with sep xs"
  by (cases xs) auto

lemma parse_elems_printed:
  assumes "\<And>v m rest. v \<in> set vs \<Longrightarrow> ends rest \<Longrightarrow> 2 * length (json_print v) \<le> m \<Longrightarrow> parse_value m (json_print v @ rest) = Some (v, rest)"
    and "vs \<noteq> []" and "2 * length (join_with '','' (map json_print vs)) + 1 \<le> m"
  shows "parse_elems m (join_with '','' (map json_print vs) @ CHR '']'' # rest) = Some (vs, rest)"
  using assms
proof (induction vs arbitrary: m)
  case (Cons v vs)
  obtain k where k: "m = Suc k" using Cons.prems(3) by (cases m) auto
  show ?case
  proof (cases "vs = []")
    case True
    have "parse_value k (json_print v @ CHR '']'' # rest) = Some (v, CHR '']'' # rest)"
      by (rule Cons.prems(1)) (use Cons.prems(3) True k in auto)
    then show ?thesis using True k by simp
  next
    case False
    let ?j = "join_with '','' (map json_print vs)"
    have len: "length (join_with '','' (map json_print (v # vs))) = length (json_print v) + 1 + length ?j"
      using False by (simp add: join_cons)
    have "parse_value k (json_print v @ CHR '','' # ?j @ CHR '']'' # rest) = Some (v, CHR '','' # ?j @ CHR '']'' # rest)"
      by (rule Cons.prems(1)) (use Cons.prems(3) len k in auto)
    moreover have "parse_elems k (?j @ CHR '']'' # rest) = Some (vs, rest)"
      by (rule Cons.IH) (use Cons.prems(1,3) False len k in auto)
    ultimately show ?thesis using False k by (simp add: join_cons)
  qed
qed simp

lemma parse_members_printed:
  assumes "\<forall>(k, v) \<in> set ms. utf8_ok k \<and>
      (\<forall>m rest. ends rest \<longrightarrow> 2 * length (json_print v) \<le> m \<longrightarrow> parse_value m (json_print v @ rest) = Some (v, rest))"
    and "ms \<noteq> []" and "2 * length (join_with '','' (map (\<lambda>(k, v). json_string k @ '':'' @ json_print v) ms)) + 1 \<le> m"
  shows "parse_members m (join_with '','' (map (\<lambda>(k, v). json_string k @ '':'' @ json_print v) ms) @ CHR ''}'' # rest) = Some (ms, rest)"
  using assms
proof (induction ms arbitrary: m)
  case (Cons p ms)
  obtain n where n: "m = Suc n" using Cons.prems(3) by (cases m) auto
  obtain k v where p: "p = (k, v)" by fastforce
  have key: "read_string (skip_ws (json_string k @ r)) = Some (k, r)" for r
    using read_json_string [of k r] Cons.prems(1) p by (simp add: json_string_eq)
  have val: "ends r \<Longrightarrow> 2 * length (json_print v) \<le> i \<Longrightarrow> parse_value i (json_print v @ r) = Some (v, r)" for i r
    using Cons.prems(1) p by simp
  show ?case
  proof (cases "ms = []")
    case True
    have "parse_value n (json_print v @ CHR ''}'' # rest) = Some (v, CHR ''}'' # rest)"
      by (rule val) (use Cons.prems(3) True n p in simp_all)
    then show ?thesis using True n p key by simp
  next
    case False
    let ?j = "join_with '','' (map (\<lambda>(k, v). json_string k @ '':'' @ json_print v) ms)"
    have len: "length (join_with '','' (map (\<lambda>(k, v). json_string k @ '':'' @ json_print v) (p # ms))) =
        length (json_string k) + 1 + length (json_print v) + 1 + length ?j"
      using False p by (simp add: join_cons)
    have bound: "2 * (length (json_string k) + 1 + length (json_print v) + 1 + length ?j) \<le> n"
      using Cons.prems(3) n unfolding len by simp
    have "parse_value n (json_print v @ CHR '','' # ?j @ CHR ''}'' # rest) = Some (v, CHR '','' # ?j @ CHR ''}'' # rest)"
      by (rule val) (use bound in simp_all)
    moreover have "parse_members n (?j @ CHR ''}'' # rest) = Some (ms, rest)"
      by (rule Cons.IH) (use Cons.prems(1) False bound in simp_all)
    ultimately show ?thesis using False n p key by (simp add: join_cons)
  qed
qed simp

lemma parse_printed:
  "jval_ok v \<Longrightarrow> ends rest \<Longrightarrow> 2 * length (json_print v) \<le> n \<Longrightarrow> parse_value n (json_print v @ rest) = Some (v, rest)"
proof (induction v arbitrary: n rest)
  case (JArr vs)
  obtain k where k: "n = Suc k" using JArr.prems(3) by (cases n) auto
  show ?case
  proof (cases "vs = []")
    case True
    then show ?thesis using k by simp
  next
    case False
    let ?j = "join_with '','' (map json_print vs)"
    have "parse_elems k (?j @ CHR '']'' # rest) = Some (vs, rest)"
      by (rule parse_elems_printed) (use JArr k False in auto)
    moreover obtain x xs where "?j @ CHR '']'' # rest = x # xs" "\<not> is_ws x" "x \<noteq> CHR '']''"
      using False JArr.prems(1) print_nonempty [of "hd vs"] by (cases vs; cases "tl vs"; cases "json_print (hd vs)") auto
    ultimately show ?thesis using k by simp
  qed
next
  case (JObj ms)
  obtain k where k: "n = Suc k" using JObj.prems(3) by (cases n) auto
  show ?case
  proof (cases "ms = []")
    case True
    then show ?thesis using k by simp
  next
    case False
    let ?j = "join_with '','' (map (\<lambda>(k, v). json_string k @ '':'' @ json_print v) ms)"
    have "parse_members k (?j @ CHR ''}'' # rest) = Some (ms, rest)"
    proof (rule parse_members_printed)
      show "\<forall>(q, v) \<in> set ms. utf8_ok q \<and>
          (\<forall>m rest. ends rest \<longrightarrow> 2 * length (json_print v) \<le> m \<longrightarrow> parse_value m (json_print v @ rest) = Some (v, rest))"
        using JObj.IH JObj.prems(1) by fastforce
    qed (use JObj.prems k False in simp_all)
    moreover obtain x where "?j @ CHR ''}'' # rest = CHR 0x22 # x"
      using False by (cases ms; cases "tl ms"; cases "hd ms") (auto simp: json_string_def)
    ultimately show ?thesis using k by simp
  qed
next
  case (JNum num)
  then obtain k where "n = Suc k" by (cases n) (auto simp: num_ok_def)
  then show ?case using parse_number JNum.prems by simp
next
  case (JStr s)
  obtain k where "n = Suc k" using JStr.prems(3) json_string_length [of s] by (cases n) auto
  then show ?case using read_json_body [of s rest] JStr.prems by (simp add: json_string_eq)
next
  case (JBool b)
  then obtain k where "n = Suc k" by (cases n) (auto split: if_splits)
  then show ?case using parse_word by (cases b) simp_all
next
  case JNull
  then obtain k where "n = Suc k" by (cases n) auto
  then show ?case using parse_word by simp
qed

lemma json_roundtrip: "jval_ok v \<Longrightarrow> json_parse (json_print v) = Some v"
  using parse_printed [of v "[]" "2 * length (json_print v)"] by (simp add: json_parse_def skip_ws_def)

section \<open>The fuel is enough\<close>

lemma skip_ws_le: "length (skip_ws s) \<le> length s"
  by (simp add: skip_ws_def length_dropWhile_le)

lemma read_chars_less: "read_chars s = Some (t, r) \<Longrightarrow> length r < length s"
proof (induction s arbitrary: t r rule: read_chars.induct)
  case (2 ch s)
  then show ?case by (auto split: if_splits list.splits) fastforce+
qed simp

lemma read_string_less: "read_string s = Some (t, r) \<Longrightarrow> length r < length s"
  by (auto simp: read_string_def split: list.splits if_splits dest!: read_chars_less)

lemma read_digits_less: "read_digits s = Some (t, r) \<Longrightarrow> length r < length s"
proof -
  assume "read_digits s = Some (t, r)"
  then have "takeWhile is_digit s \<noteq> []" "r = dropWhile is_digit s" by (auto simp: read_digits_def split: if_splits)
  moreover have "length s = length (takeWhile is_digit s) + length (dropWhile is_digit s)"
    by (metis length_append takeWhile_dropWhile_id)
  ultimately show ?thesis by simp
qed

lemma read_number_less: "read_number s = Some (t, r) \<Longrightarrow> length r < length s"
proof -
  have w: "read_whole s = Some (t, r) \<Longrightarrow> length r < length s" for s t r
    by (auto simp: read_whole_def split: list.splits if_splits dest: read_digits_less)
  have f: "read_frac s = Some (t, r) \<Longrightarrow> length r \<le> length s" "read_expo s = Some (t, r) \<Longrightarrow> length r \<le> length s" for s t r
    by (auto simp: read_frac_def read_expo_def split: list.splits if_splits dest!: read_digits_less)
  assume "read_number s = Some (t, r)"
  then obtain s0 s1 s2 t0 t1 t2 where "length s0 \<le> length s" "read_whole s0 = Some (t0, s1)" "read_frac s1 = Some (t1, s2)" "read_expo s2 = Some (t2, r)"
    by (auto simp: read_number_def Let_def split: prod.splits option.splits list.splits if_splits) (metis le_refl le_SucI length_Cons)+
  then show ?thesis using w f by fastforce
qed

lemma skip_wsD: "skip_ws s = ch # r \<Longrightarrow> Suc (length r) \<le> length s"
  using skip_ws_le [of s] by simp

lemma read_word_less: "read_word w u s = Some (v, r) \<Longrightarrow> w \<noteq> [] \<Longrightarrow> length r < length s"
  by (cases w; cases s) (auto simp: read_word_def split: if_splits)

lemma parse_less:
  "parse_value n s = Some (v, r) \<Longrightarrow> length r < length s"
  "parse_elems n s = Some (vs, r) \<Longrightarrow> length r < length s"
  "parse_members n s = Some (ms, r) \<Longrightarrow> length r < length s"
proof (induction n s and n s and n s arbitrary: v r and vs r and ms r rule: parse_value_parse_elems_parse_members.induct)
  case (2 n s)
  obtain ch t where w: "skip_ws s = ch # t" using "2.prems" by (cases "skip_ws s") auto
  note lt = skip_wsD [OF w]
  have "length r < Suc (length t)"
  proof (cases "ch = CHR ''{'' \<or> ch = CHR ''[''")
    case True
    obtain c2 u where u: "skip_ws t = c2 # u" using "2.prems" w True by (cases "skip_ws t") auto
    then show ?thesis using "2.IH"(1) [OF w _ u] "2.IH"(2) [OF w _ _ u] True "2.prems" w skip_wsD [OF u]
      by (elim disjE) (auto split: if_splits intro: less_SucI)
  next
    case False
    then show ?thesis using "2.prems" w
      by (auto split: if_splits dest!: read_chars_less read_number_less read_word_less)
  qed
  then show ?case using lt by simp
next
  case (4 n s)
  then show ?case by (fastforce split: list.splits option.splits if_splits dest!: skip_wsD)
next
  case (6 n s)
  then show ?case using skip_ws_le [of s]
    by (fastforce split: list.splits option.splits if_splits dest!: skip_wsD read_string_less)
qed auto

lemma parse_fuel:
  "2 * length s \<le> n \<Longrightarrow> 2 * length s \<le> m \<Longrightarrow> parse_value n s = parse_value m s"
  "2 * length s < n \<Longrightarrow> 2 * length s < m \<Longrightarrow> parse_elems n s = parse_elems m s"
  "2 * length s < n \<Longrightarrow> 2 * length s < m \<Longrightarrow> parse_members n s = parse_members m s"
proof (induction n s and n s and n s arbitrary: m and m and m rule: parse_value_parse_elems_parse_members.induct)
  case (1 s)
  then show ?case by (cases m) (simp_all add: skip_ws_def)
next
  case (2 n s)
  show ?case
  proof (cases "skip_ws s")
    case Nil
    then show ?thesis by (cases m) simp_all
  next
    case (Cons ch t)
    note lt = skip_wsD [OF Cons]
    obtain k where k: "m = Suc k" using "2.prems" lt by (cases m) auto
    show ?thesis
    proof (cases "skip_ws t")
      case Nil
      then show ?thesis using Cons k by simp
    next
      case u: (Cons c2 u)
      show ?thesis using "2.IH"(1) [OF Cons _ u, of k] "2.IH"(2) [OF Cons _ _ u, of k] "2.prems" lt Cons u k by simp
    qed
  qed
next
  case (4 n s)
  obtain k where k: "m = Suc k" using "4.prems" by (cases m) auto
  have v: "parse_value n s = parse_value k s" using "4.IH"(1) [of k] "4.prems" k by simp
  show ?case
  proof (cases "parse_value n s")
    case None
    then show ?thesis using v k by simp
  next
    case (Some p)
    obtain x r where p: "p = (x, r)" by fastforce
    have lr: "length r < length s" using parse_less(1) Some p by blast
    have both: "parse_value n s = Some (x, r)" "parse_value k s = Some (x, r)" using v Some p by simp_all
    show ?thesis
    proof (cases "skip_ws r")
      case Nil
      then show ?thesis using both k by simp
    next
      case (Cons ch t)
      then show ?thesis using "4.IH"(2) [OF both(1) refl Cons, of k] both k skip_wsD [OF Cons] lr "4.prems" by simp
    qed
  qed
next
  case (6 n s)
  obtain k where k: "m = Suc k" using "6.prems" by (cases m) auto
  show ?case
  proof (cases "read_string (skip_ws s)")
    case None
    then show ?thesis using k by simp
  next
    case (Some p)
    obtain key r where p: "p = (key, r)" by fastforce
    have rs: "read_string (skip_ws s) = Some (key, r)" using Some p by simp
    have lr: "length r < length s" using read_string_less [of "skip_ws s" key r] Some p skip_ws_le [of s] by simp
    show ?thesis
    proof (cases "skip_ws r")
      case Nil
      then show ?thesis using rs k by simp
    next
      case c1: (Cons c1 t)
      have v: "c1 = CHR '':'' \<Longrightarrow> parse_value n t = parse_value k t"
        using "6.IH"(1) [OF rs refl c1, of k] skip_wsD [OF c1] lr "6.prems" k by simp
      show ?thesis
      proof (cases "parse_value n t")
        case None
        then show ?thesis using v rs c1 k by simp
      next
        case vs: (Some q)
        obtain x w where q: "q = (x, w)" by fastforce
        have vn: "parse_value n t = Some (x, w)" using vs q by simp
        have vk: "c1 = CHR '':'' \<Longrightarrow> parse_value k t = Some (x, w)" using v vn by simp
        have lw: "length w < length t" using parse_less(1) vn by blast
        show ?thesis
        proof (cases "skip_ws w")
          case Nil
          then show ?thesis using vn vk rs c1 k by simp
        next
          case c2: (Cons c2 y)
          have "c1 = CHR '':'' \<Longrightarrow> c2 = CHR '','' \<Longrightarrow> parse_members n y = parse_members k y"
            using "6.IH"(2) [OF rs refl c1 _ vn refl c2, of k] skip_wsD [OF c1] skip_wsD [OF c2] lr lw "6.prems" k by simp
          then show ?thesis using vn vk rs c1 c2 k by simp
        qed
      qed
    qed
  qed
qed auto

end
