(* ===== verification/Library_Store.thy ===== *)
theory Library_Store
  imports Library Go_JSON
begin

text \<open>
  \<open>internal/library/store.go\<close> down to the columns of its table: how a Title becomes a row (\<open>Upsert\<close>), how a row becomes
  a Title (\<open>scanTitle\<close>, with the JSON columns read back by \<open>json.Unmarshal\<close>), and the five operations on the table. The
  list of Titles of \<open>Library\<close>, on which the scanner, the catalog and the streaming engine are built, is the
  abstraction of the table (\<open>titles_of\<close>): every operation commutes with it.

  The table is the list of its rows in the order SQLite visits them. What the database itself may report (a failing
  query, a failing row) is an argument of the operations.
\<close>

section \<open>Rows\<close>

record TitleRow =
  tr_content_id :: string
  tr_path :: string
  tr_display_title :: string
  tr_size :: int
  tr_mod_unix :: int
  tr_duration_ms :: int
  tr_container :: string
  tr_video_codec :: string
  tr_audio_codecs :: string          \<comment> \<open>JSON text\<close>
  tr_width :: int
  tr_height :: int
  tr_hls_compatible :: int
  tr_subtitles :: string             \<comment> \<open>JSON text\<close>
  tr_added_unix :: int

type_synonym DB = "TitleRow list"

definition boolToInt :: "bool \<Rightarrow> int" where
  "boolToInt b = (if b then 1 else 0)"

section \<open>The JSON columns\<close>

definition strings_value :: "string list \<Rightarrow> jval" where
  \<comment> \<open>a Go slice built by \<open>append\<close>: nil when nothing was appended\<close>
  "strings_value xs = (if xs = [] then JNull else JArr (map JStr xs))"

definition subtitle_value :: "LibSubtitle \<Rightarrow> jval" where
  "subtitle_value su =
     JObj [(''ID'', JStr (su_ID su)), (''Language'', JStr (su_Language su)), (''Label'', JStr (su_Label su)),
           (''Kind'', JStr (su_Kind su)), (''Source'', JStr (su_Source su)), (''Index'', JNum (Itoa (su_Index su)))]"

definition subtitles_value :: "LibSubtitle list \<Rightarrow> jval" where
  "subtitles_value ss = (if ss = [] then JNull else JArr (map subtitle_value ss))"

definition string_field :: "jval \<Rightarrow> string \<Rightarrow> string" where
  \<comment> \<open>a value decoded into a string field: anything but a string leaves it as it was\<close>
  "string_field v old = (case v of JStr s \<Rightarrow> s | _ \<Rightarrow> old)"

definition int_field :: "jval \<Rightarrow> int \<Rightarrow> int" where
  \<comment> \<open>a number that is not an \<open>int\<close> literal is an error and leaves the field\<close>
  "int_field v old = (case v of JNum n \<Rightarrow> (case Atoi n of Some i \<Rightarrow> i | None \<Rightarrow> old) | _ \<Rightarrow> old)"

definition subtitle_member :: "string \<times> jval \<Rightarrow> LibSubtitle \<Rightarrow> LibSubtitle" where
  "subtitle_member m su =
     (case m of (key, v) \<Rightarrow>
        let k = key_fold key
        in if k = ''id'' then su\<lparr>su_ID := string_field v (su_ID su)\<rparr>
           else if k = ''language'' then su\<lparr>su_Language := string_field v (su_Language su)\<rparr>
           else if k = ''label'' then su\<lparr>su_Label := string_field v (su_Label su)\<rparr>
           else if k = ''kind'' then su\<lparr>su_Kind := string_field v (su_Kind su)\<rparr>
           else if k = ''source'' then su\<lparr>su_Source := string_field v (su_Source su)\<rparr>
           else if k = ''index'' then su\<lparr>su_Index := int_field v (su_Index su)\<rparr>
           else su)"

definition zero_subtitle :: LibSubtitle where
  "zero_subtitle = \<lparr>su_ID = '''', su_Language = '''', su_Label = '''', su_Kind = '''', su_Source = '''', su_Index = 0\<rparr>"

definition read_subtitle :: "jval \<Rightarrow> LibSubtitle" where
  "read_subtitle v = (case v of JObj ms \<Rightarrow> fold subtitle_member ms zero_subtitle | _ \<Rightarrow> zero_subtitle)"

definition read_strings :: "string \<Rightarrow> string list" where
  \<comment> \<open>\<open>_ = json.Unmarshal(text, &[]string)\<close>: on an error the slice is what was decoded so far\<close>
  "read_strings txt = (case json_parse txt of Some (JArr vs) \<Rightarrow> map (\<lambda>v. string_field v '''') vs | _ \<Rightarrow> [])"

definition read_subtitles :: "string \<Rightarrow> LibSubtitle list" where
  "read_subtitles txt = (case json_parse txt of Some (JArr vs) \<Rightarrow> map read_subtitle vs | _ \<Rightarrow> [])"

section \<open>Operations\<close>

definition OpenStore :: "gerror option \<Rightarrow> gerror option \<Rightarrow> DB option \<Rightarrow> gerror + DB" where
  \<comment> \<open>the errors of \<open>sql.Open\<close> and of executing the schema; the table the file has, if it has one\<close>
  "OpenStore openErr schemaErr existing =
     (case openErr of Some err \<Rightarrow> Inl err
      | None \<Rightarrow>
          (case schemaErr of Some err \<Rightarrow> Inl (ErrCtx ''init schema'' err)
           | None \<Rightarrow> Inr (case existing of None \<Rightarrow> [] | Some db \<Rightarrow> db)))"

definition title_row :: "Title \<Rightarrow> TitleRow" where
  "title_row t =
     \<lparr>tr_content_id = ti_ContentID t, tr_path = ti_Path t, tr_display_title = ti_DisplayTitle t, tr_size = ti_Size t,
      tr_mod_unix = ti_ModUnix t, tr_duration_ms = ti_DurationMS t, tr_container = ti_Container t,
      tr_video_codec = ti_VideoCodec t, tr_audio_codecs = json_print (strings_value (ti_AudioCodecs t)),
      tr_width = ti_Width t, tr_height = ti_Height t, tr_hls_compatible = boolToInt (ti_HLSCompatible t),
      tr_subtitles = json_print (subtitles_value (ti_Subtitles t)), tr_added_unix = ti_AddedAt t div second\<rparr>"

definition db_Upsert :: "gerror option \<Rightarrow> Title \<Rightarrow> DB \<Rightarrow> gerror option \<times> DB" where
  "db_Upsert err t db =
     (case err of Some e \<Rightarrow> (Some e, db)
      | None \<Rightarrow>
          (None,
           if list_ex (\<lambda>r. tr_content_id r = ti_ContentID t) db
           then map (\<lambda>r. if tr_content_id r = ti_ContentID t then (title_row t)\<lparr>tr_added_unix := tr_added_unix r\<rparr> else r) db
           else db @ [title_row t]))"

definition row_title :: "TitleRow \<Rightarrow> Title" where
  \<comment> \<open>the columns of a row as the fields of a Title\<close>
  "row_title r =
     \<lparr>ti_ContentID = tr_content_id r, ti_Path = tr_path r, ti_DisplayTitle = tr_display_title r, ti_Size = tr_size r,
      ti_ModUnix = tr_mod_unix r, ti_DurationMS = tr_duration_ms r, ti_Container = tr_container r,
      ti_VideoCodec = tr_video_codec r, ti_AudioCodecs = read_strings (tr_audio_codecs r), ti_Width = tr_width r,
      ti_Height = tr_height r, ti_HLSCompatible = (tr_hls_compatible r \<noteq> 0),
      ti_Subtitles = read_subtitles (tr_subtitles r), ti_AddedAt = tr_added_unix r * second\<rparr>"

definition scanTitle :: "gerror option \<Rightarrow> TitleRow \<Rightarrow> gerror + Title" where
  \<comment> \<open>the first argument is the error of \<open>rows.Scan\<close>\<close>
  "scanTitle err r = (case err of Some e \<Rightarrow> Inl e | None \<Rightarrow> Inr (row_title r))"

record db_env =
  de_queryErr :: "gerror option"
  de_scanErr :: "TitleRow \<Rightarrow> gerror option"
  de_rowsErr :: "gerror option"       \<comment> \<open>\<open>rows.Err()\<close> after the last row\<close>

definition queryOne :: "db_env \<Rightarrow> (TitleRow \<Rightarrow> bool) \<Rightarrow> DB \<Rightarrow> gerror + Title option" where
  \<comment> \<open>the second argument is the \<open>WHERE\<close> clause; \<open>Inr None\<close>: not found\<close>
  "queryOne en p db =
     (case de_queryErr en of Some e \<Rightarrow> Inl e
      | None \<Rightarrow>
          (case find p db of
             None \<Rightarrow> (case de_rowsErr en of Some e \<Rightarrow> Inl e | None \<Rightarrow> Inr None)
           | Some r \<Rightarrow> (case scanTitle (de_scanErr en r) r of Inl e \<Rightarrow> Inl e | Inr t \<Rightarrow> Inr (Some t))))"

definition db_Get :: "db_env \<Rightarrow> string \<Rightarrow> DB \<Rightarrow> gerror + Title option" where
  "db_Get en contentID = queryOne en (\<lambda>r. tr_content_id r = contentID)"

definition db_GetByPath :: "db_env \<Rightarrow> string \<Rightarrow> DB \<Rightarrow> gerror + Title option" where
  "db_GetByPath en path = queryOne en (\<lambda>r. tr_path r = path)"

fun scan_all :: "db_env \<Rightarrow> DB \<Rightarrow> gerror + Title list" where
  \<comment> \<open>the loop of \<open>All\<close>\<close>
  "scan_all en [] = (case de_rowsErr en of Some e \<Rightarrow> Inl e | None \<Rightarrow> Inr [])"
| "scan_all en (r # rs) =
     (case scanTitle (de_scanErr en r) r of Inl e \<Rightarrow> Inl e
      | Inr t \<Rightarrow> (case scan_all en rs of Inl e \<Rightarrow> Inl e | Inr ts \<Rightarrow> Inr (t # ts)))"

definition db_All :: "db_env \<Rightarrow> DB \<Rightarrow> gerror + Title list" where
  "db_All en db = (case de_queryErr en of Some e \<Rightarrow> Inl e | None \<Rightarrow> scan_all en db)"

definition db_Delete :: "gerror option \<Rightarrow> string \<Rightarrow> DB \<Rightarrow> gerror option \<times> DB" where
  "db_Delete err contentID db =
     (case err of Some e \<Rightarrow> (Some e, db) | None \<Rightarrow> (None, filter (\<lambda>r. tr_content_id r \<noteq> contentID) db))"

section \<open>Reading back what was written\<close>

definition subtitle_ok :: "LibSubtitle \<Rightarrow> bool" where
  "subtitle_ok su \<longleftrightarrow>
     utf8_ok (su_ID su) \<and> utf8_ok (su_Language su) \<and> utf8_ok (su_Label su) \<and> utf8_ok (su_Kind su) \<and> utf8_ok (su_Source su) \<and>
     in_i64 (su_Index su)"

definition title_ok :: "Title \<Rightarrow> bool" where
  \<comment> \<open>the JSON columns can hold the text: it is valid UTF-8\<close>
  "title_ok t \<longleftrightarrow> list_all utf8_ok (ti_AudioCodecs t) \<and> list_all subtitle_ok (ti_Subtitles t)"

lemma strings_parse: "list_all utf8_ok xs \<Longrightarrow> json_parse (json_print (strings_value xs)) = Some (strings_value xs)"
  by (rule json_roundtrip) (auto simp: strings_value_def list_all_iff)

lemma subtitle_names:
  "utf8_ok ''ID''" "utf8_ok ''Language''" "utf8_ok ''Label''" "utf8_ok ''Kind''" "utf8_ok ''Source''" "utf8_ok ''Index''"
  "key_fold ''ID'' = ''id''" "key_fold ''Language'' = ''language''" "key_fold ''Label'' = ''label''"
  "key_fold ''Kind'' = ''kind''" "key_fold ''Source'' = ''source''" "key_fold ''Index'' = ''index''"
  by code_simp+

lemma subtitles_parse: "list_all subtitle_ok ss \<Longrightarrow> json_parse (json_print (subtitles_value ss)) = Some (subtitles_value ss)"
proof (rule json_roundtrip)
  assume ok: "list_all subtitle_ok ss"
  have "subtitle_ok su \<Longrightarrow> jval_ok (subtitle_value su)" for su
    by (simp add: subtitle_value_def subtitle_ok_def subtitle_names)
  then show "jval_ok (subtitles_value ss)" using ok by (auto simp: subtitles_value_def list_all_iff)
qed

lemma subtitle_members:
  "subtitle_member (''ID'', v) su = su\<lparr>su_ID := string_field v (su_ID su)\<rparr>"
  "subtitle_member (''Language'', v) su = su\<lparr>su_Language := string_field v (su_Language su)\<rparr>"
  "subtitle_member (''Label'', v) su = su\<lparr>su_Label := string_field v (su_Label su)\<rparr>"
  "subtitle_member (''Kind'', v) su = su\<lparr>su_Kind := string_field v (su_Kind su)\<rparr>"
  "subtitle_member (''Source'', v) su = su\<lparr>su_Source := string_field v (su_Source su)\<rparr>"
  "subtitle_member (''Index'', v) su = su\<lparr>su_Index := int_field v (su_Index su)\<rparr>"
  unfolding subtitle_member_def Let_def prod.case subtitle_names by simp_all

lemma read_subtitle_value: "in_i64 (su_Index su) \<Longrightarrow> read_subtitle (subtitle_value su) = su"
  unfolding read_subtitle_def subtitle_value_def jval.case fold_simps comp_apply subtitle_members id_apply
  by (simp add: string_field_def int_field_def zero_subtitle_def Atoi_Itoa)

lemma read_strings_written: "list_all utf8_ok xs \<Longrightarrow> read_strings (json_print (strings_value xs)) = xs"
proof -
  have "map (\<lambda>v. string_field v '''') (map JStr xs) = xs" by (simp add: string_field_def comp_def)
  then show "list_all utf8_ok xs \<Longrightarrow> ?thesis" by (simp only: read_strings_def strings_parse) (simp add: strings_value_def)
qed

lemma read_subtitles_written: "list_all subtitle_ok ss \<Longrightarrow> read_subtitles (json_print (subtitles_value ss)) = ss"
proof -
  assume ok: "list_all subtitle_ok ss"
  then have "map read_subtitle (map subtitle_value ss) = ss"
    by (induction ss) (simp_all add: read_subtitle_value subtitle_ok_def)
  then show ?thesis using ok by (simp only: read_subtitles_def subtitles_parse) (simp add: subtitles_value_def)
qed

lemma row_title_row: "title_ok t \<Longrightarrow> row_title (title_row t) = t\<lparr>ti_AddedAt := unix_seconds (ti_AddedAt t)\<rparr>"
  by (simp add: row_title_def title_row_def title_ok_def read_strings_written read_subtitles_written boolToInt_def unix_seconds_def)

lemma row_title_added: "row_title (r\<lparr>tr_added_unix := u\<rparr>) = (row_title r)\<lparr>ti_AddedAt := u * second\<rparr>"
  by (simp add: row_title_def)

lemma row_title_fields [simp]:
  "ti_ContentID (row_title r) = tr_content_id r" "ti_Path (row_title r) = tr_path r" "ti_AddedAt (row_title r) = tr_added_unix r * second"
  "tr_content_id (title_row t) = ti_ContentID t"
  by (simp_all add: row_title_def title_row_def)

section \<open>The table refines the list of Titles\<close>

definition titles_of :: "DB \<Rightarrow> Store" where
  "titles_of db = map row_title db"

definition quiet_db :: db_env where
  \<comment> \<open>a database that reports no error\<close>
  "quiet_db = \<lparr>de_queryErr = None, de_scanErr = (\<lambda>_. None), de_rowsErr = None\<rparr>"

datatype store_op = SoUpsert "gerror option" Title | SoDelete "gerror option" string

fun db_do :: "store_op \<Rightarrow> DB \<Rightarrow> DB" where
  "db_do (SoUpsert err t) db = snd (db_Upsert err t db)"
| "db_do (SoDelete err cid) db = snd (db_Delete err cid db)"

fun store_do :: "store_op \<Rightarrow> Store \<Rightarrow> Store" where
  "store_do (SoUpsert err t) st = (if err = None then Store_Upsert t st else st)"
| "store_do (SoDelete err cid) st = (if err = None then Store_Delete cid st else st)"

fun op_ok :: "store_op \<Rightarrow> bool" where
  "op_ok (SoUpsert _ t) \<longleftrightarrow> title_ok t"
| "op_ok (SoDelete _ _) \<longleftrightarrow> True"

lemma has_row: "list_ex (\<lambda>r. tr_content_id r = c) db \<longleftrightarrow> c \<in> ti_ContentID ` set (titles_of db)"
  by (force simp: list_ex_iff titles_of_def)

lemma upsert_titles: "title_ok t \<Longrightarrow> titles_of (snd (db_Upsert None t db)) = Store_Upsert t (titles_of db)"
proof (cases "list_ex (\<lambda>r. tr_content_id r = ti_ContentID t) db")
  case True
  assume ok: "title_ok t"
  have "row_title (if tr_content_id r = ti_ContentID t then (title_row t)\<lparr>tr_added_unix := tr_added_unix r\<rparr> else r) =
      (if ti_ContentID (row_title r) = ti_ContentID t then t\<lparr>ti_AddedAt := ti_AddedAt (row_title r)\<rparr> else row_title r)" for r
    using ok by (simp add: row_title_added row_title_row)
  then show ?thesis using True has_row [of "ti_ContentID t" db]
    by (simp add: db_Upsert_def Store_Upsert_def) (simp add: titles_of_def)
next
  case False
  assume "title_ok t"
  then show ?thesis using False has_row [of "ti_ContentID t" db]
    by (simp add: db_Upsert_def Store_Upsert_def) (simp add: titles_of_def row_title_row)
qed

lemma delete_titles: "titles_of (snd (db_Delete None c db)) = Store_Delete c (titles_of db)"
  by (simp add: db_Delete_def Store_Delete_def titles_of_def filter_map comp_def)

lemma refused [simp]: "snd (db_Upsert (Some e) t db) = db" "snd (db_Delete (Some e) c db) = db"
  by (simp_all add: db_Upsert_def db_Delete_def)

lemma db_do_titles: "op_ok op \<Longrightarrow> titles_of (db_do op db) = store_do op (titles_of db)"
  by (cases op rule: op_ok.cases) (auto simp: upsert_titles delete_titles)

lemma db_run_titles: "list_all op_ok ops \<Longrightarrow> titles_of (fold db_do ops db) = fold store_do ops (titles_of db)"
  by (induction ops arbitrary: db) (simp_all add: db_do_titles)

lemma find_titles: "find P (titles_of db) = map_option row_title (find (\<lambda>r. P (row_title r)) db)"
  unfolding titles_of_def by (induction db) auto

lemma queries_titles:
  "db_Get quiet_db c db = Inr (Store_Get c (titles_of db))"
  "db_GetByPath quiet_db p db = Inr (Store_GetByPath p (titles_of db))"
  "db_All quiet_db db = Inr (Store_All (titles_of db))"
proof -
  show "db_Get quiet_db c db = Inr (Store_Get c (titles_of db))" "db_GetByPath quiet_db p db = Inr (Store_GetByPath p (titles_of db))"
    by (simp_all add: db_Get_def db_GetByPath_def queryOne_def quiet_db_def scanTitle_def Store_Get_def Store_GetByPath_def find_titles
        split: option.split)
  have "scan_all quiet_db db = Inr (map row_title db)" by (induction db) (simp_all add: quiet_db_def scanTitle_def)
  then show "db_All quiet_db db = Inr (Store_All (titles_of db))"
    by (simp add: db_All_def Store_All_def titles_of_def) (simp add: quiet_db_def)
qed

text \<open>
  C26. The SQLite table implements the Library: after any inserts, updates and deletions (some of them refused by the
  database) of Titles whose text is valid UTF-8, the three queries answer exactly what the list of Titles on which
  scanner, catalog and streaming work would answer, the codecs and subtitles having gone through their JSON columns.
\<close>
theorem store_refinement:
  assumes "list_all op_ok ops" and "titles_of db0 = st0"
  shows "db_Get quiet_db c (fold db_do ops db0) = Inr (Store_Get c (fold store_do ops st0)) \<and>
     db_GetByPath quiet_db p (fold db_do ops db0) = Inr (Store_GetByPath p (fold store_do ops st0)) \<and>
     db_All quiet_db (fold db_do ops db0) = Inr (Store_All (fold store_do ops st0))"
  using db_run_titles [OF assms(1), of db0] assms(2) by (simp add: queries_titles)

section \<open>The table is well typed\<close>

definition strings_typed :: "jval \<Rightarrow> bool" where
  "strings_typed v = (case v of JNull \<Rightarrow> True | JArr vs \<Rightarrow> list_all (\<lambda>x. case x of JStr s \<Rightarrow> utf8_ok s | _ \<Rightarrow> False) vs | _ \<Rightarrow> False)"

definition subtitle_typed :: "jval \<Rightarrow> bool" where
  "subtitle_typed v =
     (case v of
        JObj ms \<Rightarrow>
          map fst ms = [''ID'', ''Language'', ''Label'', ''Kind'', ''Source'', ''Index''] \<and>
          list_all (\<lambda>(k, x). case x of JStr s \<Rightarrow> k \<noteq> ''Index'' \<and> utf8_ok s | JNum n \<Rightarrow> k = ''Index'' \<and> Atoi n \<noteq> None | _ \<Rightarrow> False) ms
      | _ \<Rightarrow> False)"

definition subtitles_typed :: "jval \<Rightarrow> bool" where
  "subtitles_typed v = (case v of JNull \<Rightarrow> True | JArr vs \<Rightarrow> list_all subtitle_typed vs | _ \<Rightarrow> False)"

definition row_typed :: "TitleRow \<Rightarrow> bool" where
  "row_typed r \<longleftrightarrow>
     list_all in_i64 [tr_size r, tr_mod_unix r, tr_duration_ms r, tr_width r, tr_height r, tr_added_unix r] \<and>
     tr_hls_compatible r \<in> {0, 1} \<and>
     (case json_parse (tr_audio_codecs r) of Some v \<Rightarrow> strings_typed v | None \<Rightarrow> False) \<and>
     (case json_parse (tr_subtitles r) of Some v \<Rightarrow> subtitles_typed v | None \<Rightarrow> False)"

definition title_typed :: "Title \<Rightarrow> bool" where
  "title_typed t \<longleftrightarrow>
     title_ok t \<and>
     list_all in_i64 [ti_Size t, ti_ModUnix t, ti_DurationMS t, ti_Width t, ti_Height t, ti_AddedAt t div second]"

fun op_typed :: "store_op \<Rightarrow> bool" where
  "op_typed (SoUpsert _ t) \<longleftrightarrow> title_typed t"
| "op_typed (SoDelete _ _) \<longleftrightarrow> True"

lemma title_row_typed: "title_typed t \<Longrightarrow> row_typed (title_row t)"
proof -
  assume t: "title_typed t"
  then have ok: "list_all utf8_ok (ti_AudioCodecs t)" "list_all subtitle_ok (ti_Subtitles t)"
    by (simp_all add: title_typed_def title_ok_def)
  have "strings_typed (strings_value (ti_AudioCodecs t))"
    using ok(1) by (auto simp: strings_value_def strings_typed_def list_all_iff)
  moreover have "subtitle_ok su \<Longrightarrow> subtitle_typed (subtitle_value su)" for su
    by (simp add: subtitle_typed_def subtitle_value_def subtitle_ok_def Atoi_Itoa)
  then have "subtitles_typed (subtitles_value (ti_Subtitles t))"
    using ok(2) by (auto simp: subtitles_value_def subtitles_typed_def list_all_iff)
  ultimately show ?thesis using t ok
    by (simp add: row_typed_def title_row_def title_typed_def strings_parse subtitles_parse boolToInt_def)
qed

lemma row_typed_added: "row_typed r \<Longrightarrow> row_typed q \<Longrightarrow> row_typed (q\<lparr>tr_added_unix := tr_added_unix r\<rparr>)"
  by (simp add: row_typed_def)

lemma rows_typed_step: "op_typed op \<Longrightarrow> list_all row_typed db \<Longrightarrow> list_all row_typed (db_do op db)"
proof (cases op)
  case (SoUpsert err t)
  assume "op_typed op" and db: "list_all row_typed db"
  then have "row_typed (title_row t)" using SoUpsert title_row_typed by simp
  then show ?thesis using db SoUpsert row_typed_added
    by (auto simp: db_Upsert_def list_all_iff split: option.split)
qed (auto simp: db_Delete_def list_all_iff split: option.split)

lemma op_typed_ok: "op_typed op \<Longrightarrow> op_ok op"
  by (cases op) (simp_all add: title_typed_def)

lemma key_step: "op_typed op \<Longrightarrow> store_ok (titles_of db) \<Longrightarrow> store_ok (titles_of (db_do op db))"
proof -
  assume "op_typed op" and ok: "store_ok (titles_of db)"
  then have "titles_of (db_do op db) = store_do op (titles_of db)" using db_do_titles op_typed_ok by blast
  moreover have "store_ok (store_do op st)" if "store_ok st" for st
    using that by (cases op) (auto simp: store_ok_Upsert, auto simp: store_ok_def Store_Delete_def distinct_map_filter)
  ultimately show ?thesis using ok by simp
qed


section \<open>A path the JSON column cannot hold\<close>

lemma invalid_path_changed:
  \<comment> \<open>a subtitle file whose name is not UTF-8 is read back under another name\<close>
  "read_string (json_string (''/m/a'' @ [CHR 0xFF] @ ''.srt'')) = Some (''/m/a'' @ [CHR 0xEF, CHR 0xBF, CHR 0xBD] @ ''.srt'', [])"
proof -
  have j: "json_string (''/m/a'' @ [CHR 0xFF] @ ''.srt'') = CHR 0x22 # ''/m/a'' @ [CHR 0x5C] @ ''ufffd'' @ ''.srt'' @ [CHR 0x22]"
    by code_simp
  have v: "hex_val (CHR ''f'') = 15" "hex_val (CHR ''d'') = 13" by (simp_all add: hex_val_def)
  have c: "char_of (239::nat) = CHR 0xEF" "char_of (191::nat) = CHR 0xBF" "char_of (189::nat) = CHR 0xBD" by code_simp+
  have u: "utf8_encode (4368 * hex_val (CHR ''f'') + hex_val (CHR ''d'')) =
      [CHR 0xEF, CHR 0xBF, CHR 0xBD]"
    by (simp add: v utf8_encode_def c)
  show ?thesis unfolding j by (simp add: read_string_def u)
qed

section \<open>A concrete table\<close>

definition example_track :: LibSubtitle where
  "example_track =
     \<lparr>su_ID = ''embedded:2'', su_Language = ''en'', su_Label = [CHR 0x22] @ ''en'' @ [CHR 0x22], su_Kind = ''text'', su_Source = '''', su_Index = 2\<rparr>"

definition example_title :: "string \<Rightarrow> string \<Rightarrow> Title" where
  "example_title cid path =
     \<lparr>ti_ContentID = cid, ti_Path = path, ti_DisplayTitle = ''Film'', ti_Size = 3, ti_ModUnix = 100, ti_DurationMS = 1000,
      ti_Container = ''mov'', ti_VideoCodec = ''h264'', ti_AudioCodecs = [''aac''], ti_Width = 640, ti_Height = 360,
      ti_HLSCompatible = True, ti_Subtitles = [example_track], ti_AddedAt = 5000000007\<rparr>"

lemma example_title_typed [simp]: "title_typed (example_title cid path)"
proof -
  have "subtitle_ok example_track" "utf8_ok ''aac''" by code_simp+
  then show ?thesis by (simp add: title_typed_def title_ok_def example_title_def in_i64_def second_def)
qed

definition example_ops :: "store_op list" where
  "example_ops =
     [SoUpsert None (example_title ''c1'' ''/m/a.mkv''), SoUpsert (Some ErrUnavailable) (example_title ''c3'' ''/m/c.mkv''),
      SoUpsert None (example_title ''c2'' ''/m/b.mkv''), SoUpsert None (example_title ''c1'' ''/m/d.mkv''), SoDelete None ''c2'']"

theorem store_refinement_witness:
  "db_Get quiet_db ''c1'' (fold db_do example_ops []) = Inr (Store_Get ''c1'' (fold store_do example_ops [])) \<and>
   db_GetByPath quiet_db ''/m/b.mkv'' (fold db_do example_ops []) = Inr (Store_GetByPath ''/m/b.mkv'' (fold store_do example_ops [])) \<and>
   db_All quiet_db (fold db_do example_ops []) = Inr (Store_All (fold store_do example_ops []))"
  by (rule store_refinement) (simp_all add: example_ops_def titles_of_def op_typed_ok [of "SoUpsert _ _", simplified])


end
