(* ===== verification/Node_Main.thy ===== *)
theory Node_Main
  imports Program Library_Watch Library_Store
begin

text \<open>
  The two commands: \<open>cmd/node/main.go\<close> as one function from what the operating system, the signaling server and the
  peers do during startup to a fatal error or a serving program, with the effects it has on the way, and
  \<open>cmd/signal-server/main.go\<close>. \<open>fatal\<close> ends the process without running the deferred \<open>Close\<close> calls, and a program
  that serves never returns from \<open>main\<close>; so none of them ever runs.

  The Node is reachable by peers from the moment it is connected to the signaling server: what they do before the
  catalog is installed, before the streaming service is, and while the shared folders are scanned are the event lists
  \<open>mn_early\<close>, \<open>mn_mid\<close> and \<open>mn_scanning\<close>.
\<close>

section \<open>Startup: \<open>config.go\<close>, \<open>cmd/node/main.go\<close>\<close>

definition ConfigDir :: "gerror + string \<Rightarrow> gerror + string" where
  \<comment> \<open>the argument is the result of \<open>os.UserConfigDir\<close>\<close>
  "ConfigDir userConfigDir = (case userConfigDir of Inl err \<Rightarrow> Inl err | Inr base \<Rightarrow> Inr (path_Join [base, ''p2p-hls'']))"

record flags =
  fl_name :: string
  fl_noOpen :: bool
  fl_bridgeAddr :: string
  fl_configDir :: string

definition default_flags :: flags where
  "default_flags = \<lparr>fl_name = ''anonymous'', fl_noOpen = False, fl_bridgeAddr = ''127.0.0.1:0'', fl_configDir = ''''\<rparr>"

datatype effect =
    FxMkdir string
  | FxPrint string
  | FxRun "string list"          \<comment> \<open>a process is started\<close>
  | FxConnect string             \<comment> \<open>the Node is registered at that signaling server\<close>
  | FxListen string              \<comment> \<open>the bridge accepts requests on that address\<close>

record main_env =
  mn_userConfigDir :: "gerror + string"
  mn_mkdirErr :: "string \<Rightarrow> gerror option"
  mn_crypto :: crypto
  mn_gen :: "gerror + bytes \<times> bytes"                \<comment> \<open>\<open>ed25519.GenerateKey\<close>\<close>
  mn_readConfig :: "string \<Rightarrow> read_res"
  mn_toml :: "bytes \<Rightarrow> NodeConfig \<Rightarrow> gerror + NodeConfig"
  mn_dialErr :: "string \<Rightarrow> gerror option"           \<comment> \<open>of opening the websocket to the signaling server\<close>
  mn_json :: sjson
  mn_challenge :: "gerror + bytes"                 \<comment> \<open>the first message read from it\<close>
  mn_sigWrite :: "bytes \<Rightarrow> gerror option"
  mn_snapshot :: "gerror + bytes"                  \<comment> \<open>the second\<close>
  mn_openDB :: "string \<Rightarrow> gerror option \<times> gerror option \<times> DB option"
  mn_scan :: scan_env
  mn_walk :: "string \<Rightarrow> walk_entry list"
  mn_thumbs :: "string list"                       \<comment> \<open>posters already present\<close>
  mn_rand :: bytes
  mn_http :: http_env
  mn_splitHostPort :: "string \<Rightarrow> gerror + string \<times> string"
  mn_listen :: "string \<Rightarrow> gerror + string"         \<comment> \<open>the port bound\<close>
  mn_listenAddr :: string                          \<comment> \<open>\<open>ln.Addr().String()\<close>\<close>
  mn_goos :: string
  mn_node :: node_env
  mn_app :: App                                    \<comment> \<open>clock, files and \<open>os.Open\<close> of the moment\<close>
  mn_early :: "node_ev list"
  mn_mid :: "node_ev list"
  mn_scanning :: "node_ev list"

record Serving =
  sg_world :: World
  sg_bridge :: "World Bridge"
  sg_fs :: fsys
  sg_cfg :: NodeConfig
  sg_db :: DB
  sg_watching :: bool          \<comment> \<open>\<open>go scanner.Watch\<close> was started\<close>

type_synonym 'a run = "(gerror + 'a) \<times> effect list"

definition and_then :: "'a run \<Rightarrow> ('a \<Rightarrow> 'b run) \<Rightarrow> 'b run" where
  \<comment> \<open>the next statement; an error is \<open>fatal\<close>\<close>
  "and_then m f = (case m of (Inl err, fx) \<Rightarrow> (Inl err, fx) | (Inr x, fx) \<Rightarrow> (case f x of (r, fx') \<Rightarrow> (r, fx @ fx')))"

definition MkdirAll :: "main_env \<Rightarrow> string \<Rightarrow> unit run" where
  "MkdirAll en dir = (case mn_mkdirErr en dir of Some err \<Rightarrow> (Inl err, []) | None \<Rightarrow> (Inr (), [FxMkdir dir]))"

definition openBrowser :: "string \<Rightarrow> string \<Rightarrow> string list" where
  \<comment> \<open>the command line; the first argument is \<open>runtime.GOOS\<close>\<close>
  "openBrowser goos url =
     (if goos = ''darwin'' then [''open'', url]
      else if goos = ''windows'' then [''rundll32'', ''url.dll,FileProtocolHandler'', url]
      else [''xdg-open'', url])"

definition main_config_dir :: "main_env \<Rightarrow> flags \<Rightarrow> gerror + string" where
  "main_config_dir en fl = (if fl_configDir fl = '''' then ConfigDir (mn_userConfigDir en) else Inr (fl_configDir fl))"

definition main_data_dir :: "NodeConfig \<Rightarrow> string \<Rightarrow> string" where
  "main_data_dir cfg configDir = (if cf_DataDir cfg = '''' then configDir else cf_DataDir cfg)"

definition signaling_dial :: "main_env \<Rightarrow> string \<Rightarrow> Identity \<Rightarrow> string \<Rightarrow> gerror + SigClient" where
  "signaling_dial en url ident name =
     (case mn_dialErr en url of Some err \<Rightarrow> Inl (ErrCtx ''dial signaling'' err)
      | None \<Rightarrow> fst (sig_Dial (mn_json en) (mn_crypto en) ident name (mn_challenge en) (mn_sigWrite en) (mn_snapshot en)))"

definition dial_node :: "main_env \<Rightarrow> Identity \<Rightarrow> string \<Rightarrow> NodeConfig \<Rightarrow> World run" where
  \<comment> \<open>\<open>app.NewNode\<close>, and what the peers do until the catalog is installed\<close>
  "dial_node en ident name cfg =
     (case signaling_dial en (cf_SignalingURL cfg) ident name of
        Inl err \<Rightarrow> (Inl err, [])
      | Inr cl \<Rightarrow>
          (case fold (node_do (mn_node en)) (mn_early en)
                  (NewNode (i_id ident) (coordinator (ne_graphemes (mn_node en))),
                   (mn_app en)\<lparr>ap_svc := None, ap_media := None, ap_hub := newHub, ap_pc := newPartyCoordinator True True (i_id ident) DefaultConfig\<rparr>) of
             (n, w) \<Rightarrow> (Inr \<lparr>wd_node = n, wd_app = w, wd_client = cl, wd_name = name\<rparr>, [FxConnect (cf_SignalingURL cfg)])))"

definition install_services :: "main_env \<Rightarrow> NodeConfig \<Rightarrow> string \<Rightarrow> DB \<Rightarrow> World \<Rightarrow> World" where
  \<comment> \<open>\<open>node.SetCatalog\<close>, \<open>node.SetMedia\<close>, with the peers in between; one policy and one store for both\<close>
  "install_services en cfg cacheDir db W =
     (let policy = config_policy cfg; store = titles_of db;
          svc = NewService store policy NewRequests cacheDir (cf_SharedFolders cfg);
          ms = NewMediaService (NewEngine store cacheDir) policy
      in on_node (node_do (mn_node en) (NvMedia ms))
           (on_node (fold (node_do (mn_node en)) (mn_mid en))
             (on_node (node_do (mn_node en) (NvCatalog svc)) W)))"

definition new_scanner :: "main_env \<Rightarrow> string \<Rightarrow> Store \<Rightarrow> Scanner" where
  \<comment> \<open>\<open>NewScanner\<close> and \<open>SetThumbnailer\<close>\<close>
  "new_scanner en cacheDir store =
     \<lparr>sc_store = store, sc_cacheDir = cacheDir, sc_thumber = True, sc_thumbs = mn_thumbs en, sc_hashed = []\<rparr>"

definition list_line :: "string list \<Rightarrow> string" where
  \<comment> \<open>the verb \<open>%v\<close> on a slice of strings\<close>
  "list_line xs = ''['' @ join_with '' '' xs @ '']''"

definition index_folders :: "main_env \<Rightarrow> NodeConfig \<Rightarrow> string \<Rightarrow> Store \<Rightarrow> World \<Rightarrow> World run" where
  \<comment> \<open>the scan before the UI is served; the peers go on meanwhile\<close>
  "index_folders en cfg cacheDir store W =
     (if cf_SharedFolders cfg = [] then (Inr W, [])
      else let st = sc_store (ScanOnce (mn_scan en) (mn_walk en) (cf_SharedFolders cfg) (new_scanner en cacheDir store));
               W1 = on_node (fold (node_do (mn_node en)) (mn_scanning en)) W
           in (Inr (W1\<lparr>wd_app := set_store st (wd_app W1)\<rparr>),
               [FxPrint (''Library: '' @ Itoa (int (length st)) @ '' title(s) indexed from '' @ list_line (cf_SharedFolders cfg))]))"

definition BaseURL :: "string \<Rightarrow> string" where
  "BaseURL lnAddr = ''http://'' @ lnAddr"

definition serve_bridge :: "main_env \<Rightarrow> flags \<Rightarrow> ctl_env \<Rightarrow> Identity \<Rightarrow> World Bridge run" where
  \<comment> \<open>the bridge, its start, and the lines and the browser that announce it\<close>
  "serve_bridge en fl ce ident =
     (let token = NewToken (mn_rand en); addr = fl_bridgeAddr fl
      in case Bridge_Start (mn_http en) (mn_splitHostPort en) (mn_listen en) addr (main_bridge token (i_id ident) (fl_name fl) ce) of
           (Some err, _) \<Rightarrow> (Inl err, [])
         | (None, br) \<Rightarrow>
             (let base = BaseURL (mn_listenAddr en)
              in (Inr br,
                  [FxListen addr, FxPrint (''UI ready: '' @ base), FxPrint (''Dev URL (nuxt dev): '' @ base @ ''/?token='' @ token)] @
                  (if fl_noOpen fl then [] else [FxRun (openBrowser (mn_goos en) base)]))))"

definition node_main :: "main_env \<Rightarrow> flags \<Rightarrow> ctl_env \<Rightarrow> fsys \<Rightarrow> Serving run" where
  "node_main en fl ce fs =
     and_then (main_config_dir en fl, []) (\<lambda>configDir.
     and_then (MkdirAll en configDir) (\<lambda>_.
     case LoadOrCreate (mn_crypto en) (mn_gen en) (path_Join [configDir, ''identity.key'']) fs of (loaded, fs1) \<Rightarrow>
     and_then (loaded, []) (\<lambda>ident.
     and_then (Inr (), [FxPrint (''Node ID: '' @ i_id ident)]) (\<lambda>_.
     and_then (LoadConfig (mn_readConfig en (path_Join [configDir, ''config.toml''])) (mn_toml en), []) (\<lambda>cfg.
     and_then (dial_node en ident (fl_name fl) cfg) (\<lambda>W0.
     let dataDir = main_data_dir cfg configDir; cacheDir = path_Join [dataDir, ''cache''] in
     and_then (case mn_openDB en (path_Join [dataDir, ''library.db'']) of (e1, e2, tab) \<Rightarrow> OpenStore e1 e2 tab, []) (\<lambda>db.
     and_then (MkdirAll en cacheDir) (\<lambda>_.
     and_then (index_folders en cfg cacheDir (titles_of db) (install_services en cfg cacheDir db W0)) (\<lambda>W.
     and_then (serve_bridge en fl ce ident) (\<lambda>br.
     (Inr \<lparr>sg_world = W, sg_bridge = br, sg_fs = fs1, sg_cfg = cfg, sg_db = db, sg_watching = (cf_SharedFolders cfg \<noteq> [])\<rparr>, [])))))))))))"

section \<open>The signaling server: \<open>cmd/signal-server/main.go\<close>\<close>

definition server_route :: "string \<Rightarrow> bool" where
  \<comment> \<open>the only path the server handles, with \<open>HandleWS\<close>\<close>
  "server_route path \<longleftrightarrow> path = ''/ws''"

definition server_main :: "string option \<Rightarrow> gerror option \<Rightarrow> Server \<times> string \<times> int option" where
  \<comment> \<open>the \<open>-addr\<close> flag, if given, and the error \<open>ListenAndServe\<close> ends with; the server, the address it listens on and
     the exit status, if it ends\<close>
  "server_main addr listenErr =
     (Server_New, case addr of Some a \<Rightarrow> a | None \<Rightarrow> '':8080'', case listenErr of Some _ \<Rightarrow> Some 1 | None \<Rightarrow> None)"

section \<open>What a run of \<open>main\<close> has done\<close>

lemma and_then_Inr:
  assumes "and_then m f = (Inr y, fx)"
  obtains x fx1 fx2 where "m = (Inr x, fx1)" "f x = (Inr y, fx2)" "fx = fx1 @ fx2"
  using assms by (cases m; cases "fst m") (auto simp: and_then_def split: prod.splits)

lemma and_then_Inr_iff:
  "and_then m f = (Inr y, fx) \<longleftrightarrow> (\<exists>x fx1 fx2. m = (Inr x, fx1) \<and> f x = (Inr y, fx2) \<and> fx = fx1 @ fx2)"
  by (cases m; cases "fst m") (auto simp: and_then_def split: prod.splits)

lemma MkdirAll_Inr: "MkdirAll en d = (Inr u, fx) \<longleftrightarrow> mn_mkdirErr en d = None \<and> fx = [FxMkdir d]"
  by (auto simp: MkdirAll_def split: option.split)

lemma main_steps:
  assumes "node_main en fl ce fs = (Inr sg, fx)"
  obtains configDir ident W0 cacheDir fx1 fx2 fx3 fx4 where
    "main_config_dir en fl = Inr configDir"
    "LoadOrCreate (mn_crypto en) (mn_gen en) (path_Join [configDir, ''identity.key'']) fs = (Inr ident, sg_fs sg)"
    "LoadConfig (mn_readConfig en (path_Join [configDir, ''config.toml''])) (mn_toml en) = Inr (sg_cfg sg)"
    "dial_node en ident (fl_name fl) (sg_cfg sg) = (Inr W0, fx2)"
    "cacheDir = path_Join [main_data_dir (sg_cfg sg) configDir, ''cache'']"
    "(case mn_openDB en (path_Join [main_data_dir (sg_cfg sg) configDir, ''library.db'']) of (e1, e2, tab) \<Rightarrow> OpenStore e1 e2 tab) = Inr (sg_db sg)"
    "index_folders en (sg_cfg sg) cacheDir (titles_of (sg_db sg)) (install_services en (sg_cfg sg) cacheDir (sg_db sg) W0) = (Inr (sg_world sg), fx3)"
    "serve_bridge en fl ce ident = (Inr (sg_bridge sg), fx4)"
    "fx1 = [FxMkdir configDir, FxPrint (''Node ID: '' @ i_id ident)]"
    "fx = fx1 @ fx2 @ [FxMkdir cacheDir] @ fx3 @ fx4"
    "sg_watching sg \<longleftrightarrow> cf_SharedFolders (sg_cfg sg) \<noteq> []"
proof -
  from assms obtain dir a1 where 1: "main_config_dir en fl = Inr dir" "mn_mkdirErr en dir = None" and fx: "fx = FxMkdir dir # a1"
    and r1: "(case LoadOrCreate (mn_crypto en) (mn_gen en) (path_Join [dir, ''identity.key'']) fs of (loaded, fs1) \<Rightarrow>
     and_then (loaded, []) (\<lambda>ident.
     and_then (Inr (), [FxPrint (''Node ID: '' @ i_id ident)]) (\<lambda>_.
     and_then (LoadConfig (mn_readConfig en (path_Join [dir, ''config.toml''])) (mn_toml en), []) (\<lambda>cfg.
     and_then (dial_node en ident (fl_name fl) cfg) (\<lambda>W0.
     let dataDir = main_data_dir cfg dir; cacheDir = path_Join [dataDir, ''cache''] in
     and_then (case mn_openDB en (path_Join [dataDir, ''library.db'']) of (e1, e2, tab) \<Rightarrow> OpenStore e1 e2 tab, []) (\<lambda>db.
     and_then (MkdirAll en cacheDir) (\<lambda>_.
     and_then (index_folders en cfg cacheDir (titles_of db) (install_services en cfg cacheDir db W0)) (\<lambda>W.
     and_then (serve_bridge en fl ce ident) (\<lambda>br.
     (Inr \<lparr>sg_world = W, sg_bridge = br, sg_fs = fs1, sg_cfg = cfg, sg_db = db, sg_watching = (cf_SharedFolders cfg \<noteq> [])\<rparr>, [])))))))))) = (Inr sg, a1)"
    unfolding node_main_def by (auto simp only: and_then_Inr_iff MkdirAll_Inr prod.inject append_Nil append_Cons)
  obtain loaded fs1 where l: "LoadOrCreate (mn_crypto en) (mn_gen en) (path_Join [dir, ''identity.key'']) fs = (loaded, fs1)" by fastforce
  from r1 show ?thesis unfolding l prod.case Let_def
    by (auto simp only: and_then_Inr_iff MkdirAll_Inr prod.inject append_Nil sum.inject Serving.simps intro!: that [OF 1(1)]) (simp_all add: l fx)
qed

section \<open>The services are installed before anything is served\<close>

lemma wired_new: "wired en (NewNode self (coordinator (ne_graphemes en)))"
  by (simp add: wired_def NewNode_def)

lemma dial_node_wired:
  assumes "dial_node en ident nm cfg = (Inr W, fx)" and "list_all outside (mn_early en)"
  shows "wired (mn_node en) (wd_node W)"
proof -
  let ?w = "(mn_app en)\<lparr>ap_svc := None, ap_media := None, ap_hub := newHub, ap_pc := newPartyCoordinator True True (i_id ident) DefaultConfig\<rparr>"
  obtain n w where f: "fold (node_do (mn_node en)) (mn_early en) (NewNode (i_id ident) (coordinator (ne_graphemes (mn_node en))), ?w) = (n, w)"
    by fastforce
  then have "wd_node W = n" using assms(1) by (auto simp: dial_node_def split: sum.splits)
  then show ?thesis using node_run_keeps [OF wired_new assms(2) f] by simp
qed

lemma on_node_fields: "on_node f W = W\<lparr>wd_node := fst (f (wd_node W, wd_app W)), wd_app := snd (f (wd_node W, wd_app W))\<rparr>"
  by (simp add: on_node_def split: prod.split)

lemma on_node_run:
  assumes "wired en (wd_node W)" and "list_all outside evs" and "policy_of W = p"
  shows "wired en (wd_node (on_node (fold (node_do en) evs) W)) \<and> policy_of (on_node (fold (node_do en) evs) W) = p"
proof -
  obtain n w where f: "fold (node_do en) evs (wd_node W, wd_app W) = (n, w)" by fastforce
  show ?thesis using node_run_keeps [OF assms(1,2) f] f assms(3) by (simp add: on_node_def policy_of_def same_policy_def)
qed

lemma wired_catalog: "wired en n \<Longrightarrow> wired en (fst (node_do en (NvCatalog svc) (n, w)))"
proof -
  have "node_served en s \<Longrightarrow> node_served en (SetHandler (catalogHandler (ne_readFile en) None) s)" for s
    by (simp add: served_by_def SetHandler_def)
  then show "wired en n \<Longrightarrow> ?thesis" by (auto simp: wired_def SetCatalog_def)
qed

lemma install_services_wired:
  assumes "wired (mn_node en) (wd_node W)" and "list_all outside (mn_mid en)"
  shows "wired (mn_node en) (wd_node (install_services en cfg cacheDir db W)) \<and>
         policy_of (install_services en cfg cacheDir db W) = Some (config_policy cfg)"
proof -
  let ?en = "mn_node en"
  let ?svc = "NewService (titles_of db) (config_policy cfg) NewRequests cacheDir (cf_SharedFolders cfg)"
  let ?ms = "NewMediaService (NewEngine (titles_of db) cacheDir) (config_policy cfg)"
  let ?W1 = "on_node (node_do ?en (NvCatalog ?svc)) W"
  have "wired ?en (wd_node ?W1)" "policy_of ?W1 = Some (config_policy cfg)"
    using wired_catalog [OF assms(1), of ?svc "wd_app W"]
    by (simp_all add: on_node_fields policy_of_def SetCatalog_def NewService_def)
  from on_node_run [OF this(1) assms(2) this(2)]
  have W2: "wired ?en (wd_node (on_node (fold (node_do ?en) (mn_mid en)) ?W1))"
    "policy_of (on_node (fold (node_do ?en) (mn_mid en)) ?W1) = Some (config_policy cfg)" by simp_all
  have "outside (NvMedia ?ms)" by (simp add: outside_def)
  from on_node_run [OF W2(1) _ W2(2), of "[NvMedia ?ms]"] this show ?thesis
    by (simp add: install_services_def Let_def on_node_def)
qed

lemma set_store_policy [simp]: "policy_of (W\<lparr>wd_app := set_store st (wd_app W)\<rparr>) = policy_of W"
  by (auto simp: policy_of_def set_store_def option.map_comp comp_def)

lemma index_folders_wired:
  assumes "index_folders en cfg cacheDir store W = (Inr W', fx)" and "wired (mn_node en) (wd_node W)" and "policy_of W = p"
    and "list_all outside (mn_scanning en)"
  shows "wired (mn_node en) (wd_node W') \<and> policy_of W' = p"
proof (cases "cf_SharedFolders cfg = []")
  case True
  then show ?thesis using assms by (simp add: index_folders_def)
next
  case False
  then have W': "W' = (on_node (fold (node_do (mn_node en)) (mn_scanning en)) W)
      \<lparr>wd_app := set_store (sc_store (ScanOnce (mn_scan en) (mn_walk en) (cf_SharedFolders cfg) (new_scanner en cacheDir store)))
          (wd_app (on_node (fold (node_do (mn_node en)) (mn_scanning en)) W))\<rparr>"
    using assms(1) by (simp add: index_folders_def Let_def)
  show ?thesis using on_node_run [OF assms(2,4,3)] unfolding W' set_store_policy by simp
qed

lemma main_world:
  assumes "node_main en fl ce fs = (Inr sg, fx)" and "list_all outside (mn_early en @ mn_mid en @ mn_scanning en)"
  shows "wired (mn_node en) (wd_node (sg_world sg)) \<and> policy_of (sg_world sg) = Some (config_policy (sg_cfg sg))"
proof -
  from assms(1) obtain configDir ident W0 cacheDir fx1 fx2 fx3 fx4 where
    d: "dial_node en ident (fl_name fl) (sg_cfg sg) = (Inr W0, fx2)" and
    i: "index_folders en (sg_cfg sg) cacheDir (titles_of (sg_db sg)) (install_services en (sg_cfg sg) cacheDir (sg_db sg) W0) = (Inr (sg_world sg), fx3)"
    by (rule main_steps)
  have "list_all outside (mn_early en)" "list_all outside (mn_mid en)" "list_all outside (mn_scanning en)" using assms(2) by simp_all
  then show ?thesis using index_folders_wired [OF i] install_services_wired [OF dial_node_wired [OF d]] by blast
qed

text \<open>
  C2. Who may watch: once \<open>main\<close> serves, in every later execution of the program, whatever peers did while it started
  up and whatever peers, the signaling server and any client of the bridge send after that and in whatever order, the
  Nodes the access policy allows are exactly those that the configuration file does not block and that it lists (or
  all, when it says public) or that the owner approved by a request bearing the session token.
\<close>
theorem program_who_may_watch:
  assumes "node_main en fl ce fs = (Inr sg, fx)" and "list_all outside (mn_early en @ mn_mid en @ mn_scanning en)"
    and "W = fold (world_do (mn_node en) (sg_bridge sg)) evs (sg_world sg)" and "list_all world_outside evs"
  shows "\<exists>sv. ap_svc (wd_app W) = Some sv \<and>
     (\<forall>i. Service_Allowed i sv \<longleftrightarrow>
        i \<notin> set (cf_BlockList (sg_cfg sg)) \<and>
        (cf_DefaultVisibility (sg_cfg sg) = ''public'' \<or> i \<in> set (cf_AllowList (sg_cfg sg)) \<or>
         (\<exists>ev \<in> set evs. approval_in (sg_bridge sg) ev = Some i)))"
proof -
  note m = main_world [OF assms(1,2)]
  have "policy_of W = Some (fold AddAllow (List.map_filter (approval_in (sg_bridge sg)) evs) (config_policy (sg_cfg sg)))"
    unfolding assms(3) using m world_run [OF _ _ assms(4)] by blast
  then show ?thesis by (rule policy_allows)
qed

definition serving :: "'w Node \<Rightarrow> bool" where
  \<comment> \<open>the Catalog Service and the streaming service are installed\<close>
  "serving n \<longleftrightarrow> nd_catalog n \<noteq> None \<and> nd_media n \<noteq> None"

definition handlers_of :: "'w Node \<Rightarrow> NodeID \<times> 'w RequestHandler option \<times> 'w MediaHandler option" where
  "handlers_of n = (nd_self n, nd_catalog n, nd_media n)"

lemma handlers_frame [simp]:
  "handlers_of (put_session r s n) = handlers_of n" "handlers_of (log_act a n) = handlers_of n"
  "handlers_of (snd (sessionFor e r n)) = handlers_of n"
  by (auto simp: handlers_of_def put_session_def log_act_def sessionFor_def Let_def split: option.split)

lemma handlers_sessionForD: "sessionFor e r n = (x, n') \<Longrightarrow> handlers_of n' = handlers_of n"
  by (metis handlers_frame(3) snd_conv)

lemma handlers_step:
  assumes "outside ev"
  shows "handlers_of (fst (node_do en ev (n, w))) = handlers_of n \<or>
         (\<exists>ms. ev = NvMedia ms \<and> handlers_of (fst (node_do en ev (n, w))) = (nd_self n, nd_catalog n, Some mediaHandler))"
proof (cases ev)
  case (NvMedia ms)
  then show ?thesis by (simp add: SetMedia_def map_sessions_def handlers_of_def)
next
  case (NvEnsure r e)
  then show ?thesis by (simp add: ensurePeer_def split: sum.split)
next
  case (NvDial r e1 e2)
  have "handlers_of (snd (dial_begin e1 e2 r n)) = handlers_of n"
    by (auto simp: dial_begin_def split: prod.split sum.split dest: handlers_sessionForD)
  then show ?thesis using NvDial by simp
next
  case (NvRelay rel e)
  show ?thesis unfolding NvRelay node_do.simps route_relay_def
    by (simp split: sum.split prod.split RelayKind.split) (auto split: sum.split prod.split dest: handlers_sessionForD)
next
  case (NvPeer r pev)
  then show ?thesis by (simp split: option.split prod.split)
qed (use assms in \<open>simp_all add: outside_def\<close>)

lemma handlers_run:
  "list_all outside evs \<Longrightarrow> nd_self (fst (fold (node_do en) evs (n, w))) = nd_self n \<and> (serving n \<longrightarrow> serving (fst (fold (node_do en) evs (n, w))))
     \<and> (nd_catalog n \<noteq> None \<longrightarrow> nd_catalog (fst (fold (node_do en) evs (n, w))) \<noteq> None)"
proof (induction evs arbitrary: n w)
  case (Cons ev evs)
  obtain n1 w1 where f: "node_do en ev (n, w) = (n1, w1)" by fastforce
  have "nd_self n1 = nd_self n \<and> (serving n \<longrightarrow> serving n1) \<and> (nd_catalog n \<noteq> None \<longrightarrow> nd_catalog n1 \<noteq> None)"
    using handlers_step [of ev en n w] Cons.prems f by (auto simp: handlers_of_def serving_def)
  then show ?case using Cons f by auto
qed simp

lemma on_node_handlers:
  assumes "list_all outside evs"
  shows "nd_self (wd_node (on_node (fold (node_do en) evs) W)) = nd_self (wd_node W)"
    and "serving (wd_node W) \<Longrightarrow> serving (wd_node (on_node (fold (node_do en) evs) W))"
    and "nd_catalog (wd_node W) \<noteq> None \<Longrightarrow> nd_catalog (wd_node (on_node (fold (node_do en) evs) W)) \<noteq> None"
  using handlers_run [OF assms, of en "wd_node W" "wd_app W"] by (simp_all add: on_node_fields)

lemma install_serving:
  assumes "list_all outside (mn_mid en)"
  shows "serving (wd_node (install_services en cfg cacheDir db W)) \<and> nd_self (wd_node (install_services en cfg cacheDir db W)) = nd_self (wd_node W)"
proof -
  let ?svc = "NewService (titles_of db) (config_policy cfg) NewRequests cacheDir (cf_SharedFolders cfg)"
  let ?W1 = "on_node (node_do (mn_node en) (NvCatalog ?svc)) W"
  have "nd_catalog (wd_node ?W1) \<noteq> None" "nd_self (wd_node ?W1) = nd_self (wd_node W)"
    by (simp_all add: on_node_fields SetCatalog_def map_sessions_def)
  then show ?thesis using on_node_handlers [OF assms, where en = "mn_node en" and W = ?W1]
    by (simp add: install_services_def Let_def on_node_fields [of "node_do (mn_node en) (NvMedia _)"] SetMedia_def map_sessions_def serving_def)
qed

lemma index_node:
  "index_folders en cfg cacheDir store W = (Inr W', fx) \<Longrightarrow>
     wd_node W' = wd_node W \<or> wd_node W' = wd_node (on_node (fold (node_do (mn_node en)) (mn_scanning en)) W)"
  by (auto simp: index_folders_def Let_def split: if_splits)

lemma Bridge_Start_ok:
  "Bridge_Start he sp ls addr b = (None, b') \<Longrightarrow>
     br_token b' = br_token b \<and> br_selfNodeID b' = br_selfNodeID b \<and> (\<exists>h p. sp addr = Inr (h, p) \<and> isLoopbackHost he h)"
  by (auto simp: Bridge_Start_def split: sum.splits if_splits)

lemma serve_bridge_ok:
  assumes "serve_bridge en fl ce ident = (Inr br, fx)"
  shows "br_token br = NewToken (mn_rand en)" "br_selfNodeID br = i_id ident"
    and "\<exists>h p. mn_splitHostPort en (fl_bridgeAddr fl) = Inr (h, p) \<and> isLoopbackHost (mn_http en) h"
    and "FxListen a \<in> set fx \<longleftrightarrow> a = fl_bridgeAddr fl"
proof -
  let ?b0 = "main_bridge (NewToken (mn_rand en)) (i_id ident) (fl_name fl) ce"
  obtain e b' where st: "Bridge_Start (mn_http en) (mn_splitHostPort en) (mn_listen en) (fl_bridgeAddr fl) ?b0 = (e, b')" by fastforce
  with assms have e: "e = None" and b': "b' = br" and fx: "FxListen a \<in> set fx \<longleftrightarrow> a = fl_bridgeAddr fl"
    by (auto simp: serve_bridge_def Let_def split: option.splits if_splits)
  have "br_token ?b0 = NewToken (mn_rand en)" "br_selfNodeID ?b0 = i_id ident"
    by (simp_all add: main_bridge_def Bridge_SetPartyHandler_def SetBootstrap_def SetEvents_def SetControl_def NewBridge_def)
  then show "br_token br = NewToken (mn_rand en)" "br_selfNodeID br = i_id ident"
    "\<exists>h p. mn_splitHostPort en (fl_bridgeAddr fl) = Inr (h, p) \<and> isLoopbackHost (mn_http en) h"
    using Bridge_Start_ok [OF st [unfolded e b']] by auto
  show "FxListen a \<in> set fx \<longleftrightarrow> a = fl_bridgeAddr fl" by (rule fx)
qed

lemma main_node:
  assumes "node_main en fl ce fs = (Inr sg, fx)" and "list_all outside (mn_early en @ mn_mid en @ mn_scanning en)"
  shows "serving (wd_node (sg_world sg)) \<and> nd_self (wd_node (sg_world sg)) = br_selfNodeID (sg_bridge sg)"
proof -
  have o': "list_all outside (mn_early en)" "list_all outside (mn_mid en)" "list_all outside (mn_scanning en)" using assms(2) by simp_all
  from assms(1) obtain configDir ident W0 cacheDir fx1 fx2 fx3 fx4 where
    d: "dial_node en ident (fl_name fl) (sg_cfg sg) = (Inr W0, fx2)" and
    i: "index_folders en (sg_cfg sg) cacheDir (titles_of (sg_db sg)) (install_services en (sg_cfg sg) cacheDir (sg_db sg) W0) = (Inr (sg_world sg), fx3)" and
    b: "serve_bridge en fl ce ident = (Inr (sg_bridge sg), fx4)"
    by (rule main_steps)
  let ?W1 = "install_services en (sg_cfg sg) cacheDir (sg_db sg) W0"
  have "nd_self (wd_node W0) = i_id ident"
    using d handlers_run [OF o'(1), of "mn_node en" "NewNode (i_id ident) (coordinator (ne_graphemes (mn_node en)))"]
    by (auto simp: dial_node_def NewNode_def split: sum.splits prod.splits) (metis fst_conv)
  moreover have "serving (wd_node ?W1)" "nd_self (wd_node ?W1) = nd_self (wd_node W0)" using install_serving [OF o'(2)] by simp_all
  moreover have "nd_self (wd_node (sg_world sg)) = nd_self (wd_node ?W1) \<and> (serving (wd_node ?W1) \<longrightarrow> serving (wd_node (sg_world sg)))"
    using index_node [OF i] on_node_handlers [OF o'(3), where en = "mn_node en" and W = ?W1] by auto
  moreover have "br_selfNodeID (sg_bridge sg) = i_id ident"
    by (rule serve_bridge_ok(2) [OF b])
  ultimately show ?thesis by simp
qed

section \<open>Nothing is served early\<close>

definition listens_last :: "'a run \<Rightarrow> bool" where
  "listens_last m \<longleftrightarrow> (\<forall>a. FxListen a \<in> set (snd m) \<longrightarrow> (\<exists>y. fst m = Inr y))"

lemma listens_last_and_then:
  "(\<And>a. FxListen a \<notin> set (snd m)) \<Longrightarrow> (\<And>x. listens_last (f x)) \<Longrightarrow> listens_last (and_then m f)"
  by (cases m; cases "fst m") (auto simp: and_then_def listens_last_def case_prod_unfold)

lemma listens_last_serve: "listens_last (and_then (serve_bridge en fl ce ident) (\<lambda>br. (Inr (f br), [])))"
  by (auto simp: and_then_def listens_last_def serve_bridge_def Let_def split: prod.splits option.splits)

lemma quiet_steps [simp]:
  "FxListen a \<notin> set (snd (MkdirAll en d))" "FxListen a \<notin> set (snd (dial_node en ident nm cfg))"
  "FxListen a \<notin> set (snd (index_folders en cfg cacheDir store W))"
  by (auto simp: MkdirAll_def dial_node_def index_folders_def Let_def split: option.split sum.split prod.split)

lemma main_listens: "listens_last (node_main en fl ce fs)"
  unfolding node_main_def Let_def
  by (intro listens_last_and_then) (simp_all split: prod.split add: listens_last_and_then listens_last_serve)


section \<open>What a restart keeps\<close>

text \<open>
  C29. A Node keeps its identity across restarts: after a first successful start, every later successful start with
  the same configuration directory, whatever its other flags, whatever key the generator would give then and whatever
  else has changed around it, is the same Node ID, and it leaves the identity file as it is.
\<close>
theorem restart_keeps_identity:
  assumes "node_main en fl ce fs = (Inr sg, fx)" and "node_main en' fl' ce' (sg_fs sg) = (Inr sg', fx')"
    and "main_config_dir en' fl' = main_config_dir en fl" and "mn_crypto en' = mn_crypto en"
    and "ed25519_gen (mn_crypto en) (mn_gen en)" and "seed_law (mn_crypto en)"
  shows "br_selfNodeID (sg_bridge sg') = br_selfNodeID (sg_bridge sg) \<and> sg_fs sg' = sg_fs sg"
proof -
  from assms(1) obtain dir ident fx4 where 1: "main_config_dir en fl = Inr dir"
    "LoadOrCreate (mn_crypto en) (mn_gen en) (path_Join [dir, ''identity.key'']) fs = (Inr ident, sg_fs sg)"
    "serve_bridge en fl ce ident = (Inr (sg_bridge sg), fx4)" by (rule main_steps)
  from assms(2) obtain dir' ident' fx4' where 2: "main_config_dir en' fl' = Inr dir'"
    "LoadOrCreate (mn_crypto en') (mn_gen en') (path_Join [dir', ''identity.key'']) (sg_fs sg) = (Inr ident', sg_fs sg')"
    "serve_bridge en' fl' ce' ident' = (Inr (sg_bridge sg'), fx4')" by (rule main_steps)
  have dir: "dir' = dir" using 1(1) 2(1) assms(3) by simp
  have "ident' = ident \<and> sg_fs sg' = sg_fs sg"
    using identity_stable [OF assms(5,6) 1(2), of "mn_gen en'"] 2(2) unfolding dir assms(4) by simp
  then show ?thesis using serve_bridge_ok(2) [OF 1(3)] serve_bridge_ok(2) [OF 2(3)] by simp
qed

section \<open>The library is there when the UI is\<close>

lemma index_folders_store:
  assumes "index_folders en cfg cacheDir store W = (Inr W', fx)" and "cf_SharedFolders cfg \<noteq> []" and "policy_of W' \<noteq> None"
  shows "\<exists>sv. ap_svc (wd_app W') = Some sv \<and>
    sv_store sv = sc_store (ScanOnce (mn_scan en) (mn_walk en) (cf_SharedFolders cfg) (new_scanner en cacheDir store))"
  using assms by (auto simp: index_folders_def Let_def policy_of_def set_store_def)


section \<open>A start that goes well\<close>

lemma and_then_ok [simp]: "and_then (Inr x, fx) f = (fst (f x), fx @ snd (f x))"
  by (simp add: and_then_def split: prod.split)

lemma dial_node_ok: "signaling_dial en (cf_SignalingURL cfg) ident nm = Inr cl \<Longrightarrow> \<exists>W. dial_node en ident nm cfg = (Inr W, [FxConnect (cf_SignalingURL cfg)])"
  by (simp add: dial_node_def split: prod.split)

lemma index_folders_ok: "\<exists>W' fx. index_folders en cfg cacheDir store W = (Inr W', fx)"
  by (simp add: index_folders_def Let_def)

lemma serve_bridge_runs:
  "Bridge_Start (mn_http en) (mn_splitHostPort en) (mn_listen en) (fl_bridgeAddr fl) (main_bridge (NewToken (mn_rand en)) (i_id ident) (fl_name fl) ce) = (None, br)
     \<Longrightarrow> \<exists>fx. serve_bridge en fl ce ident = (Inr br, FxListen (fl_bridgeAddr fl) # fx)"
  by (simp add: serve_bridge_def Let_def)

lemma main_runs:
  assumes "main_config_dir en fl = Inr dir" and mk: "\<And>d. mn_mkdirErr en d = None"
    and "LoadOrCreate (mn_crypto en) (mn_gen en) (path_Join [dir, ''identity.key'']) fs = (Inr ident, fs1)"
    and "LoadConfig (mn_readConfig en (path_Join [dir, ''config.toml''])) (mn_toml en) = Inr cfg"
    and "signaling_dial en (cf_SignalingURL cfg) ident (fl_name fl) = Inr cl" and db: "\<And>p. mn_openDB en p = (None, None, None)"
    and br: "Bridge_Start (mn_http en) (mn_splitHostPort en) (mn_listen en) (fl_bridgeAddr fl)
               (main_bridge (NewToken (mn_rand en)) (i_id ident) (fl_name fl) ce) = (None, br)"
  obtains sg fx where "node_main en fl ce fs = (Inr sg, fx)" "FxListen (fl_bridgeAddr fl) \<in> set fx" "sg_bridge sg = br" "sg_fs sg = fs1" "sg_cfg sg = cfg" "sg_db sg = []"
proof -
  obtain W0 where d: "dial_node en ident (fl_name fl) cfg = (Inr W0, [FxConnect (cf_SignalingURL cfg)])" using dial_node_ok [OF assms(5)] by blast
  obtain fx4 where s: "serve_bridge en fl ce ident = (Inr br, FxListen (fl_bridgeAddr fl) # fx4)" using serve_bridge_runs [OF br] by blast
  let ?cd = "path_Join [main_data_dir cfg dir, ''cache'']"
  obtain W fx3 where i: "index_folders en cfg ?cd (titles_of []) (install_services en cfg ?cd [] W0) = (Inr W, fx3)"
    using index_folders_ok by blast
  have "\<exists>sg fx. node_main en fl ce fs = (Inr sg, fx) \<and> FxListen (fl_bridgeAddr fl) \<in> set fx \<and> sg_bridge sg = br \<and> sg_fs sg = fs1 \<and> sg_cfg sg = cfg \<and> sg_db sg = []"
    by (simp add: node_main_def Let_def assms(1,3,4) MkdirAll_def mk d db OpenStore_def i s)
  then show ?thesis using that by blast
qed

section \<open>A concrete start\<close>

definition main_reg :: SigMsg where
  "main_reg = MRegister \<lparr>rg_NodeID = NodeIDFromPublicKey example_crypto (replicate 32 1), rg_PublicKey = replicate 32 1,
     rg_DisplayName = ''anonymous'', rg_Signature = replicate 32 1 @ [7]\<rparr>"

definition example_main :: main_env where
  \<comment> \<open>a first start on an empty home directory, one shared folder with one film, no database yet\<close>
  "example_main =
     \<lparr>mn_userConfigDir = Inr ''/home/a/.config'', mn_mkdirErr = (\<lambda>_. None), mn_crypto = example_crypto,
      mn_gen = Inr (replicate 32 1, replicate 32 1), mn_readConfig = (\<lambda>_. RData []),
      mn_toml = (\<lambda>_ cfg. Inr (cfg\<lparr>cf_SharedFolders := [''/m''], cf_AllowList := [''n3''], cf_BlockList := [''n9'']\<rparr>)),
      mn_dialErr = (\<lambda>_. None), mn_json = table_json [MChallenge [7], main_reg, MPresenceSnapshot []], mn_challenge = Inr [0],
      mn_sigWrite = (\<lambda>_. None), mn_snapshot = Inr [2], mn_openDB = (\<lambda>_. (None, None, None)), mn_scan = example_scan_env,
      mn_walk = (\<lambda>r. [\<lparr>we_path = ''/m/Film.MKV'', we_err = False, we_isDir = False\<rparr>]), mn_thumbs = [],
      mn_rand = replicate 16 7, mn_http = demo_env, mn_splitHostPort = (\<lambda>_. Inr (''127.0.0.1'', ''0'')),
      mn_listen = (\<lambda>_. Inr ''4711''), mn_listenAddr = ''127.0.0.1:4711'', mn_goos = ''linux'', mn_node = example_env,
      mn_app = example_app, mn_early = [], mn_mid = [], mn_scanning = []\<rparr>"

definition example_fs :: fsys where
  "example_fs = \<lparr>fs_files = [], fs_readErr = (\<lambda>_. None), fs_mkdirErr = (\<lambda>_. None), fs_writeErr = (\<lambda>_. None)\<rparr>"

definition example_run :: "Serving run" where
  "example_run = node_main example_main default_flags example_ctl example_fs"

definition example_read :: NodeConfig where
  "example_read = defaults\<lparr>cf_SharedFolders := [''/m''], cf_AllowList := [''n3''], cf_BlockList := [''n9'']\<rparr>"

definition example_token :: string where "example_token = NewToken (replicate 16 7)"

definition example_id :: Identity where
  "example_id = \<lparr>i_priv = replicate 32 1, i_pub = replicate 32 1, i_id = NodeIDFromPublicKey example_crypto (replicate 32 1)\<rparr>"

definition example_home :: fsys where
  "example_home = example_fs\<lparr>fs_files := [(''/home/a/.config/p2p-hls/identity.key'', replicate 32 1)]\<rparr>"

lemma example_home_dir:
  "main_config_dir example_main default_flags = Inr ''/home/a/.config/p2p-hls''"
  "path_Join [''/home/a/.config/p2p-hls'', ''identity.key''] = ''/home/a/.config/p2p-hls/identity.key''"
  by code_simp+

lemma example_load:
  "LoadOrCreate example_crypto (Inr (replicate 32 1, replicate 32 1)) ''/home/a/.config/p2p-hls/identity.key'' example_fs = (Inr example_id, example_home)"
  "LoadOrCreate example_crypto gen ''/home/a/.config/p2p-hls/identity.key'' example_home = (Inr example_id, example_home)"
  by (simp_all add: LoadOrCreate_def Generate_def example_fs_def example_home_def example_id_def Let_def SeedSize_def)
    (simp_all add: example_crypto_def)

lemma example_dial: "(case signaling_dial example_main url example_id ''anonymous'' of Inl _ \<Rightarrow> False | Inr _ \<Rightarrow> True)"
  by code_simp

lemma example_listens: "Bridge_Start demo_env (\<lambda>_. Inr (''127.0.0.1'', ''0'')) (\<lambda>_. Inr ''4711'') addr b = (None, b\<lparr>br_port := Some ''4711''\<rparr>)"
  by (simp add: Bridge_Start_def isLoopbackHost_def demo_env_def)

definition with_token :: "string \<Rightarrow> World Bridge" where
  "with_token token = (NewBridge (node_streamer example_ctl) token)\<lparr>br_port := Some ''4711''\<rparr>"

lemma approval_in_cong:
  "br_port b = br_port b' \<Longrightarrow> br_token b = br_token b' \<Longrightarrow> approval_in b (WHttp ce he fl up r) = approval_in b' (WHttp ce he fl up r)"
  by (simp add: owner_approves_def apiAuthOK_def originOK_def)

definition example_admits :: "World Bridge \<Rightarrow> string option \<times> string option" where
  \<comment> \<open>whom two requests admit: one with the token of the run, one with a guess\<close>
  "example_admits b = (approval_in b (example_approval ''n7'' (''Bearer '' @ example_token)), approval_in b (example_approval ''n8'' ''Bearer guess''))"

lemma example_admits_token: "example_admits (with_token example_token) = (Some ''n7'', None)"
  by code_simp

definition example_evs :: "world_ev list" where
  "example_evs = [example_approval ''n7'' (''Bearer '' @ example_token), example_approval ''n8'' ''Bearer guess'']"

lemma example_admits_who: "(\<exists>ev \<in> set example_evs. approval_in b ev = Some i) \<longleftrightarrow> i \<in> set_option (fst (example_admits b)) \<union> set_option (snd (example_admits b))"
  by (auto simp: example_evs_def example_admits_def)

lemma example_run_facts:
  obtains sg fx where "node_main example_main default_flags example_ctl example_fs = (Inr sg, fx)"
    "FxListen ''127.0.0.1:0'' \<in> set fx" "sg_cfg sg = example_read" "sg_db sg = []" "example_admits (sg_bridge sg) = (Some ''n7'', None)"
    "sg_fs sg = example_home"
proof -
  let ?b0 = "main_bridge example_token (i_id example_id) ''anonymous'' example_ctl"
  obtain cl where cl: "signaling_dial example_main (cf_SignalingURL example_read) example_id ''anonymous'' = Inr cl"
    using example_dial [of "cf_SignalingURL example_read"] by (auto split: sum.splits)
  obtain sg fx where r: "node_main example_main default_flags example_ctl example_fs = (Inr sg, fx)"
    "FxListen (fl_bridgeAddr default_flags) \<in> set fx" "sg_bridge sg = ?b0\<lparr>br_port := Some ''4711''\<rparr>" "sg_fs sg = example_home"
    "sg_cfg sg = example_read" "sg_db sg = []"
    by (rule main_runs [OF example_home_dir(1), where ident = example_id and cfg = example_read and cl = cl and ce = example_ctl
          and fs = example_fs and br = "?b0\<lparr>br_port := Some ''4711''\<rparr>" and ?fs1.0 = example_home])
      (use cl in \<open>simp_all add: example_home_dir(2) example_main_def example_load LoadConfig_def example_read_def default_flags_def
        example_listens example_token_def\<close>)
  have "example_admits (sg_bridge sg) = example_admits (with_token example_token)"
    unfolding example_admits_def example_approval_def r(3)
    by (intro arg_cong2 [where f = Pair] approval_in_cong)
      (simp_all add: with_token_def NewBridge_def main_bridge_def Bridge_SetPartyHandler_def SetBootstrap_def SetEvents_def SetControl_def)
  then show ?thesis using that r example_admits_token by (simp add: default_flags_def)
qed

lemma example_quiet: "list_all outside (mn_early example_main @ mn_mid example_main @ mn_scanning example_main)"
  by (simp add: example_main_def)

definition example_again :: "Serving run" where
  \<comment> \<open>a later start: no key could be generated, the configuration file is gone, and no browser is opened\<close>
  "example_again = node_main (example_main\<lparr>mn_gen := Inl ErrBusy, mn_readConfig := (\<lambda>_. RNotExist)\<rparr>)
     (default_flags\<lparr>fl_noOpen := True\<rparr>) example_ctl example_home"

lemma example_again_ok: "\<exists>sg fx. example_again = (Inr sg, fx)"
proof -
  let ?en = "example_main\<lparr>mn_gen := Inl ErrBusy, mn_readConfig := (\<lambda>_. RNotExist)\<rparr>"
  let ?b = "main_bridge example_token (i_id example_id) ''anonymous'' example_ctl"
  have same: "signaling_dial ?en url i nm = signaling_dial example_main url i nm" for url i nm
    by (simp add: signaling_dial_def split: option.split)
  obtain cl where cl: "signaling_dial ?en (cf_SignalingURL defaults) example_id ''anonymous'' = Inr cl"
    using example_dial [of "cf_SignalingURL defaults"] unfolding same by (auto split: sum.splits)
  have dir: "main_config_dir ?en (default_flags\<lparr>fl_noOpen := True\<rparr>) = Inr ''/home/a/.config/p2p-hls''"
    using example_home_dir(1) by (simp add: main_config_dir_def split: if_splits)
  show ?thesis unfolding example_again_def
    by (rule main_runs [OF dir, where ident = example_id and cfg = defaults and cl = cl and ce = example_ctl
          and fs = example_home and br = "?b\<lparr>br_port := Some ''4711''\<rparr>" and ?fs1.0 = example_home])
      (use cl in \<open>simp_all add: example_home_dir(2) example_main_def example_load LoadConfig_def default_flags_def
        example_listens example_token_def\<close>)
qed

theorem program_who_may_watch_witness:
  "\<exists>sg fx sv. node_main example_main default_flags example_ctl example_fs = (Inr sg, fx) \<and>
     ap_svc (wd_app (fold (world_do example_env (sg_bridge sg)) example_evs (sg_world sg))) = Some sv \<and>
     Service_Allowed ''n3'' sv \<and> Service_Allowed ''n7'' sv \<and> \<not> Service_Allowed ''n8'' sv \<and> \<not> Service_Allowed ''n9'' sv"
proof -
  obtain sg fx where r: "node_main example_main default_flags example_ctl example_fs = (Inr sg, fx)" "sg_cfg sg = example_read"
    "example_admits (sg_bridge sg) = (Some ''n7'', None)"
    by (rule example_run_facts)
  have o': "list_all world_outside example_evs" by (simp add: example_evs_def example_approval_def example_ctl_def)
  have l: "cf_AllowList example_read = [''n3'']" "cf_BlockList example_read = [''n9'']" "cf_DefaultVisibility example_read = ''restricted''"
    by (simp_all add: example_read_def defaults_def)
  have en: "mn_node example_main = example_env" by (simp add: example_main_def)
  from program_who_may_watch [OF r(1) example_quiet refl o']
  obtain sv where sv: "ap_svc (wd_app (fold (world_do example_env (sg_bridge sg)) example_evs (sg_world sg))) = Some sv"
    and who: "\<And>i. Service_Allowed i sv \<longleftrightarrow> i \<noteq> ''n9'' \<and> (i = ''n3'' \<or> i = ''n7'')"
    unfolding en example_admits_who r(2,3) l by auto
  have "Service_Allowed ''n3'' sv" "Service_Allowed ''n7'' sv" "\<not> Service_Allowed ''n8'' sv" "\<not> Service_Allowed ''n9'' sv"
    unfolding who by simp_all
  then show ?thesis using r(1) sv by blast
qed


theorem restart_keeps_identity_witness:
  "\<exists>sg sg' fx fx'. example_run = (Inr sg, fx) \<and> example_again = (Inr sg', fx') \<and> br_selfNodeID (sg_bridge sg') = br_selfNodeID (sg_bridge sg)"
proof -
  obtain sg fx where r: "node_main example_main default_flags example_ctl example_fs = (Inr sg, fx)" and fs: "sg_fs sg = example_home"
    by (rule example_run_facts)
  obtain sg' fx' where a: "example_again = (Inr sg', fx')" using example_again_ok by blast
  have g: "ed25519_gen (mn_crypto example_main) (mn_gen example_main)" "seed_law (mn_crypto example_main)"
    by (simp_all add: ed25519_gen_def seed_law_def example_main_def example_crypto_def SeedSize_def)
  have "br_selfNodeID (sg_bridge sg') = br_selfNodeID (sg_bridge sg) \<and> sg_fs sg' = sg_fs sg"
    by (rule restart_keeps_identity [OF r a [unfolded example_again_def, folded fs] _ _ g])
      (simp_all add: main_config_dir_def default_flags_def example_main_def)
  then show ?thesis using r a by (auto simp: example_run_def)
qed


end
