(* ===== verification/Media_Cache.thy ===== *)
theory Media_Cache
  imports Go_Path Peer_Wire "HOL-Library.Multiset"
begin

text \<open>
  Eviction of the rendition cache, \<open>internal/media/cache.go\<close>: an idle time-to-live, then a size budget in
  least-recently-accessed order. A content directory is removed whole; the result of \<open>EvictCache\<close> is its
  error and the directories it removed, in order. The directory listing, the modification times and the
  sizes are arguments.
\<close>

section \<open>\<open>EvictCache\<close>\<close>

record cacheEntry =
  ce_path :: string
  ce_size :: int
  ce_accessed :: time

record dirEntry =
  de_Name :: string
  de_IsDir :: bool
  de_ModTime :: "time option"   \<comment> \<open>\<open>None\<close>: \<open>e.Info()\<close> failed\<close>

record walked =
  wk_IsDir :: bool
  wk_Size :: int
  wk_Err :: bool

definition dirSize :: "walked list \<Rightarrow> int" where
  "dirSize ws = fold (\<lambda>f tot. if \<not> wk_Err f \<and> \<not> wk_IsDir f then i64 (tot + wk_Size f) else tot) ws 0"

definition expired :: "time \<Rightarrow> duration \<Rightarrow> time \<Rightarrow> bool" where
  "expired now ttl mod_time \<longleftrightarrow> ttl < time_sub now mod_time"

definition ttl_step :: "string \<Rightarrow> (string \<Rightarrow> walked list) \<Rightarrow> time \<Rightarrow> duration \<Rightarrow> dirEntry \<Rightarrow>
    cacheEntry list \<times> string list \<Rightarrow> cacheEntry list \<times> string list" where
  \<comment> \<open>one turn of the first loop: the directories kept so far and those removed\<close>
  "ttl_step rootDir walk now ttl e = (\<lambda>(dirs, removed).
     (if \<not> de_IsDir e then (dirs, removed)
      else let dir = path_Join [rootDir, de_Name e]
           in case de_ModTime e of None \<Rightarrow> (dirs, removed)
              | Some m \<Rightarrow>
                  if expired now ttl m then (dirs, removed @ [dir])
                  else (dirs @ [\<lparr>ce_path = dir, ce_size = dirSize (walk dir), ce_accessed = m\<rparr>], removed)))"

definition total_size :: "cacheEntry list \<Rightarrow> int" where
  "total_size ds = fold (\<lambda>d t. i64 (t + ce_size d)) ds 0"

fun evict_lru :: "int \<Rightarrow> int \<Rightarrow> cacheEntry list \<Rightarrow> cacheEntry list" where
  \<comment> \<open>the last loop: the entries it removes\<close>
  "evict_lru budget tot [] = []"
| "evict_lru budget tot (d # ds) =
     (if tot \<le> budget then [] else d # evict_lru budget (i64 (tot - ce_size d)) ds)"

definition EvictCache ::
  "gerror option + dirEntry list \<Rightarrow> (string \<Rightarrow> walked list) \<Rightarrow> time \<Rightarrow> string \<Rightarrow> int \<Rightarrow> duration \<Rightarrow> gerror option \<times> string list" where
  \<comment> \<open>the listing: \<open>Inl None\<close> when \<open>rootDir\<close> does not exist, \<open>Inl (Some err)\<close> for another error\<close>
  "EvictCache listing walk now rootDir budgetBytes ttl =
     (case listing of Inl err \<Rightarrow> (err, [])
      | Inr entries \<Rightarrow>
          (case fold (ttl_step rootDir walk now ttl) entries ([], []) of
             (dirs, removed) \<Rightarrow>
               let tot = total_size dirs
               in if tot \<le> budgetBytes then (None, removed)
                  else (None, removed @ map ce_path (evict_lru budgetBytes tot (sort_key ce_accessed dirs)))))"

section \<open>What is evicted\<close>

definition live_entries :: "string \<Rightarrow> (string \<Rightarrow> walked list) \<Rightarrow> time \<Rightarrow> duration \<Rightarrow> dirEntry list \<Rightarrow> cacheEntry list" where
  "live_entries rootDir walk now ttl es =
     List.map_filter (\<lambda>e. case de_ModTime e of
         Some m \<Rightarrow> if de_IsDir e \<and> \<not> expired now ttl m
                   then Some \<lparr>ce_path = path_Join [rootDir, de_Name e], ce_size = dirSize (walk (path_Join [rootDir, de_Name e])), ce_accessed = m\<rparr>
                   else None
       | None \<Rightarrow> None) es"

definition idle_dirs :: "string \<Rightarrow> time \<Rightarrow> duration \<Rightarrow> dirEntry list \<Rightarrow> string list" where
  "idle_dirs rootDir now ttl es =
     map (\<lambda>e. path_Join [rootDir, de_Name e])
       (filter (\<lambda>e. de_IsDir e \<and> (case de_ModTime e of Some m \<Rightarrow> expired now ttl m | None \<Rightarrow> False)) es)"

lemma ttl_fold:
  "fold (ttl_step rootDir walk now ttl) es (ds, rs) = (ds @ live_entries rootDir walk now ttl es, rs @ idle_dirs rootDir now ttl es)"
  by (induction es arbitrary: ds rs)
    (auto simp: ttl_step_def live_entries_def idle_dirs_def List.map_filter_def Let_def split: option.split)

lemma fold_sizes:
  assumes "\<forall>d \<in> set ds. 0 \<le> ce_size d" and "0 \<le> t" and "t + sum_list (map ce_size ds) < 2 ^ 63"
  shows "fold (\<lambda>d t. i64 (t + ce_size d)) ds t = t + sum_list (map ce_size ds)"
  using assms
proof (induction ds arbitrary: t)
  case (Cons d ds)
  have "0 \<le> sum_list (map ce_size ds)" using Cons.prems(1) by (intro sum_list_nonneg) auto
  then have "i64 (t + ce_size d) = t + ce_size d" using Cons.prems by (intro i64_id) (auto simp: in_i64_def)
  then show ?case using Cons.IH [of "t + ce_size d"] Cons.prems by (simp add: algebra_simps)
qed simp

lemma evict_prefix:
  assumes "\<forall>d \<in> set ds. 0 \<le> ce_size d" and "t = sum_list (map ce_size ds)" and "t < 2 ^ 63"
  shows "\<exists>ks. ds = evict_lru budget t ds @ ks \<and> (ks = [] \<or> sum_list (map ce_size ks) \<le> budget) \<and>
           (evict_lru budget t ds = [] \<or> budget < ce_size (last (evict_lru budget t ds)) + sum_list (map ce_size ks))"
  using assms
proof (induction ds arbitrary: t)
  case (Cons d ds)
  show ?case
  proof (cases "t \<le> budget")
    case True
    then show ?thesis using Cons.prems(2) by auto
  next
    case False
    have nn: "0 \<le> sum_list (map ce_size ds)" using Cons.prems(1) by (intro sum_list_nonneg) auto
    have s: "i64 (t - ce_size d) = sum_list (map ce_size ds)" using Cons.prems nn
      by (subst i64_id) (auto simp: in_i64_def)
    have "sum_list (map ce_size ds) < 2 ^ 63" using Cons.prems by simp
    then obtain ks where ks: "ds = evict_lru budget (sum_list (map ce_size ds)) ds @ ks"
      "ks = [] \<or> sum_list (map ce_size ks) \<le> budget"
      "evict_lru budget (sum_list (map ce_size ds)) ds = [] \<or>
         budget < ce_size (last (evict_lru budget (sum_list (map ce_size ds)) ds)) + sum_list (map ce_size ks)"
      using Cons.IH [of "sum_list (map ce_size ds)"] Cons.prems(1) by auto
    show ?thesis
    proof (cases "evict_lru budget (sum_list (map ce_size ds)) ds = []")
      case True
      then show ?thesis using ks(1,2) False Cons.prems(2) s by auto
    next
      case ne: False
      then show ?thesis using ks False s by (intro exI [of _ ks]) auto
    qed
  qed
qed simp

text \<open>
  Eviction is right and minimal: every directory idle for longer than the limit goes; of the others it
  evicts the least recently accessed ones, no more than needed (keeping the last evicted one would exceed
  the budget), and what is kept fits the budget. Sizes are those of files, and their sum fits an \<open>int64\<close>.
\<close>
theorem evict_cache_policy:
  assumes "EvictCache (Inr es) walk now rootDir budget ttl = (err, removed)"
    and "live = live_entries rootDir walk now ttl es"
    and "\<forall>d \<in> set live. 0 \<le> ce_size d" and "sum_list (map ce_size live) < 2 ^ 63"
  shows "err = None \<and> (\<exists>evicted kept.
           removed = idle_dirs rootDir now ttl es @ map ce_path evicted \<and> mset live = mset (evicted @ kept) \<and>
           (\<forall>a \<in> set evicted. \<forall>b \<in> set kept. ce_accessed a \<le> ce_accessed b) \<and>
           sum_list (map ce_size kept) \<le> max 0 budget \<and>
           (evicted = [] \<or> budget < ce_size (last evicted) + sum_list (map ce_size kept)))"
proof -
  let ?idle = "idle_dirs rootDir now ttl es" and ?s = "sort_key ce_accessed live"
  have run: "fold (ttl_step rootDir walk now ttl) es ([], []) = (live, ?idle)" using ttl_fold assms(2) by fastforce
  have tots: "total_size live = sum_list (map ce_size live)"
    using fold_sizes [OF assms(3), of 0] assms(4) by (simp add: total_size_def)
  show ?thesis
  proof (cases "total_size live \<le> budget")
    case True
    then have "err = None" "removed = ?idle" using assms(1) run by (simp_all add: EvictCache_def)
    moreover have "sum_list (map ce_size live) \<le> max 0 budget" using True tots by simp
    ultimately show ?thesis by (intro conjI exI [of _ "[]"] exI [of _ live]) auto
  next
    case False
    let ?ev = "evict_lru budget (total_size live) ?s"
    have st: "sum_list (map ce_size ?s) = sum_list (map ce_size live)"
      by (metis mset_map mset_sort sum_mset_sum_list)
    obtain kept where k: "?s = ?ev @ kept" "kept = [] \<or> sum_list (map ce_size kept) \<le> budget"
      "?ev = [] \<or> budget < ce_size (last ?ev) + sum_list (map ce_size kept)"
      using evict_prefix [of ?s "total_size live" budget] assms(3,4) tots st by auto
    have "sorted (map ce_accessed (?ev @ kept))" using k(1) by (metis sorted_sort_key)
    then have ord: "\<forall>a \<in> set ?ev. \<forall>b \<in> set kept. ce_accessed a \<le> ce_accessed b" by (auto simp: sorted_append)
    have ms: "mset live = mset (?ev @ kept)" using k(1) by (metis mset_sort)
    have "err = None" "removed = ?idle @ map ce_path ?ev" using assms(1) run False by (simp_all add: EvictCache_def Let_def)
    moreover have "sum_list (map ce_size kept) \<le> max 0 budget" using k(2) by auto
    ultimately show ?thesis using ord ms k(3) by blast
  qed
qed

theorem evict_cache_policy_witness:
  "snd (EvictCache (Inr [\<lparr>de_Name = ''a'', de_IsDir = True, de_ModTime = Some 50\<rparr>, \<lparr>de_Name = ''b'', de_IsDir = True, de_ModTime = Some 40\<rparr>,
          \<lparr>de_Name = ''c'', de_IsDir = True, de_ModTime = Some 1\<rparr>])
        (\<lambda>_. [\<lparr>wk_IsDir = False, wk_Size = 6, wk_Err = False\<rparr>]) 100 ''/k'' 10 60) = [''/k/c'', ''/k/b''] \<and>
   (\<exists>(evicted :: cacheEntry list) (kept :: cacheEntry list). [''/k/c'', ''/k/b''] = [''/k/c''] @ map ce_path evicted \<and> sum_list (map ce_size kept) \<le> (10 :: int))"
proof -
  let ?es = "[\<lparr>de_Name = ''a'', de_IsDir = True, de_ModTime = Some 50\<rparr>, \<lparr>de_Name = ''b'', de_IsDir = True, de_ModTime = Some 40\<rparr>,
          \<lparr>de_Name = ''c'', de_IsDir = True, de_ModTime = Some 1\<rparr>]"
  let ?walk = "\<lambda>_. [\<lparr>wk_IsDir = False, wk_Size = 6, wk_Err = False\<rparr>]"
  have run: "EvictCache (Inr ?es) ?walk 100 ''/k'' 10 60 = (None, [''/k/c'', ''/k/b''])" by code_simp
  have idle: "idle_dirs ''/k'' 100 60 ?es = [''/k/c'']" by code_simp
  have live: "live_entries ''/k'' ?walk 100 60 ?es =
      [\<lparr>ce_path = ''/k/a'', ce_size = 6, ce_accessed = 50\<rparr>, \<lparr>ce_path = ''/k/b'', ce_size = 6, ce_accessed = 40\<rparr>]" by code_simp
  have p: "\<forall>d \<in> set (live_entries ''/k'' ?walk 100 60 ?es). 0 \<le> ce_size d"
    "sum_list (map ce_size (live_entries ''/k'' ?walk 100 60 ?es)) < 2 ^ 63"
    by (simp_all add: live)
  have m: "max 0 (10 :: int) = 10" by simp
  have "\<exists>(evicted :: cacheEntry list) (kept :: cacheEntry list).
      [''/k/c'', ''/k/b''] = [''/k/c''] @ map ce_path evicted \<and> sum_list (map ce_size kept) \<le> (10 :: int)"
    using evict_cache_policy [OF run refl p, unfolded idle m] by blast
  then show ?thesis using run by simp
qed

end
