(* ===== verification/Party_Socket.thy ===== *)
theory Party_Socket
  imports Party_Coordinator Go_JSON
begin

text \<open>
  The player's sockets: \<open>serveWS\<close>, \<open>serveHostWS\<close> and \<open>serveViewerWS\<close> of \<open>internal/app/party.go\<close> with all their goroutines,
  for any number of connections at once (browser tabs, a page that is reloaded), around the one coordinator they share.

  A socket is what its goroutines hold: the channel \<open>out\<close> of capacity 32 between the loops and the writer, the channel
  \<open>reports\<close> of capacity 8 between the reader and the Viewer loop, and which of them still run. The coordinator's sink
  \<open>pc.out\<close> is the channel of the socket that was opened last, until that socket is closed; so while a socket is the sink
  its queue is \<open>pc_out\<close>, and \<open>so_out\<close> otherwise (\<open>queue\<close>). Sockets are numbered in the order of their hellos: socket
  \<open>i\<close> is the one that \<open>pc_outID\<close> calls \<open>Suc i\<close>. What is written and read is the list \<open>so_sent\<close> and the texts of the events.
\<close>

section \<open>Messages of the player\<close>

definition zero_player :: playerMsg where
  "zero_player = \<lparr>pm_Type = '''', pm_Role = '''', pm_PosMS = 0, pm_Playing = False, pm_Text = ''''\<rparr>"

definition player_member :: "string \<times> jval \<Rightarrow> playerMsg option \<Rightarrow> playerMsg option" where
  \<comment> \<open>one key of the object into its field; \<open>None\<close>: the value is of another type, so \<open>json.Unmarshal\<close> will return an error\<close>
  "player_member m acc =
     (case acc of None \<Rightarrow> None
      | Some p \<Rightarrow>
          (case m of (key, v) \<Rightarrow>
             if v = JNull then Some p
             else let k = key_fold key
                  in if k = ''type'' then (case v of JStr s \<Rightarrow> Some (p\<lparr>pm_Type := s\<rparr>) | _ \<Rightarrow> None)
                     else if k = ''role'' then (case v of JStr s \<Rightarrow> Some (p\<lparr>pm_Role := s\<rparr>) | _ \<Rightarrow> None)
                     else if k = ''posms'' then
                       (case v of JNum n \<Rightarrow> (case Atoi n of Some i \<Rightarrow> Some (p\<lparr>pm_PosMS := i\<rparr>) | None \<Rightarrow> None) | _ \<Rightarrow> None)
                     else if k = ''playing'' then (case v of JBool b \<Rightarrow> Some (p\<lparr>pm_Playing := b\<rparr>) | _ \<Rightarrow> None)
                     else if k = ''text'' then (case v of JStr s \<Rightarrow> Some (p\<lparr>pm_Text := s\<rparr>) | _ \<Rightarrow> None)
                     else Some p))"

definition decode_player :: "string \<Rightarrow> playerMsg option" where
  \<comment> \<open>\<open>json.Unmarshal(raw, &m)\<close> into a fresh \<open>playerMsg\<close>; \<open>None\<close>: an error\<close>
  "decode_player raw =
     (case json_parse raw of Some (JObj ms) \<Rightarrow> fold player_member ms (Some zero_player) | Some JNull \<Rightarrow> Some zero_player | _ \<Rightarrow> None)"

section \<open>Sockets\<close>

record socket =
  so_host :: bool                  \<comment> \<open>runs \<open>serveHostWS\<close>, otherwise \<open>serveViewerWS\<close>\<close>
  so_out :: "sinkMsg list"
  so_done :: bool                  \<comment> \<open>\<open>serveWS\<close> has returned: \<open>done\<close> and \<open>rttDone\<close> are closed, the connection too\<close>
  so_writer :: bool                \<comment> \<open>the writer goroutine runs\<close>
  so_sent :: "sinkMsg list"        \<comment> \<open>what it has written\<close>
  so_reader :: bool                \<comment> \<open>the reader goroutine of the Viewer loop runs\<close>
  so_reports :: "playerMsg list"
  so_eof :: bool                   \<comment> \<open>\<open>reports\<close> is closed\<close>
  so_last :: playerMsg
  so_rtt :: bool                   \<comment> \<open>the goroutine that measures the round trip runs\<close>

record players =
  pl_pc :: partyCoordinator
  pl_socks :: "socket list"

definition is_sink :: "nat \<Rightarrow> players \<Rightarrow> bool" where
  "is_sink i S \<longleftrightarrow> pc_out (pl_pc S) \<noteq> None \<and> pc_outID (pl_pc S) = Suc i"

definition queue :: "nat \<Rightarrow> players \<Rightarrow> sinkMsg list" where
  "queue i S = (if is_sink i S then the (pc_out (pl_pc S)) else so_out (pl_socks S ! i))"

definition upd_sock :: "nat \<Rightarrow> (socket \<Rightarrow> socket) \<Rightarrow> players \<Rightarrow> players" where
  "upd_sock i f S = S\<lparr>pl_socks := (pl_socks S)[i := f (pl_socks S ! i)]\<rparr>"

definition put_queue :: "nat \<Rightarrow> sinkMsg list \<Rightarrow> players \<Rightarrow> players" where
  "put_queue i q S =
     (if is_sink i S then S\<lparr>pl_pc := (pl_pc S)\<lparr>pc_out := Some q\<rparr>\<rparr> else upd_sock i (\<lambda>s. s\<lparr>so_out := q\<rparr>) S)"

definition keep_sink :: "players \<Rightarrow> players" where
  \<comment> \<open>before \<open>pc.out\<close> is assigned: the channel it was stays with its socket\<close>
  "keep_sink S =
     (case pc_out (pl_pc S) of None \<Rightarrow> S | Some q \<Rightarrow> upd_sock (pc_outID (pl_pc S) - 1) (\<lambda>s. s\<lparr>so_out := q\<rparr>) S)"

definition new_socket :: "playerMsg \<Rightarrow> socket" where
  "new_socket hello =
     (let host = (pm_Role hello = ''host'')
      in \<lparr>so_host = host, so_out = [], so_done = False, so_writer = True, so_sent = [], so_reader = \<not> host, so_reports = [],
          so_eof = False, so_last = zero_player, so_rtt = \<not> host\<rparr>)"

definition serveWS :: "string option \<Rightarrow> players \<Rightarrow> players" where
  \<comment> \<open>a connection and its first message (\<open>None\<close>: the read failed)\<close>
  "serveWS raw S =
     (case raw of None \<Rightarrow> S
      | Some txt \<Rightarrow>
          (case decode_player txt of None \<Rightarrow> S
           | Some hello \<Rightarrow>
               if pm_Type hello \<noteq> ''hello'' then S
               else let S1 = keep_sink S in \<lparr>pl_pc = serveWS_open (pl_pc S1), pl_socks = pl_socks S1 @ [new_socket hello]\<rparr>))"

definition serveWS_return :: "nat \<Rightarrow> players \<Rightarrow> players" where
  \<comment> \<open>the deferred functions\<close>
  "serveWS_return i S =
     (let S1 = keep_sink S in upd_sock i (\<lambda>s. s\<lparr>so_done := True\<rparr>) (S1\<lparr>pl_pc := serveWS_exit (Suc i) (pl_pc S1)\<rparr>))"

definition host_read :: "(string \<Rightarrow> string list) \<Rightarrow> nat \<Rightarrow> string option \<Rightarrow> time \<Rightarrow> players \<Rightarrow> players" where
  "host_read gc i raw now S =
     (case raw of None \<Rightarrow> serveWS_return i S
      | Some txt \<Rightarrow>
          (case decode_player txt of None \<Rightarrow> S
           | Some m \<Rightarrow> (case hostWS_msg gc m now (pl_pc S) of None \<Rightarrow> serveWS_return i S | Some pc \<Rightarrow> S\<lparr>pl_pc := pc\<rparr>)))"

definition viewer_read :: "(string \<Rightarrow> string list) \<Rightarrow> nat \<Rightarrow> string option \<Rightarrow> players \<Rightarrow> players" where
  "viewer_read gc i raw S =
     (case raw of None \<Rightarrow> upd_sock i (\<lambda>s. s\<lparr>so_eof := True, so_reader := False\<rparr>) S
      | Some txt \<Rightarrow>
          (case decode_player txt of None \<Rightarrow> S
           | Some m \<Rightarrow>
               (case viewerWS_msg gc m (so_reports (pl_socks S ! i)) (pl_pc S) of
                  (reports, pc) \<Rightarrow> upd_sock i (\<lambda>s. s\<lparr>so_reports := reports\<rparr>) (S\<lparr>pl_pc := pc\<rparr>))))"

definition viewer_take :: "nat \<Rightarrow> players \<Rightarrow> players" where
  \<comment> \<open>the case of \<open>reports\<close> in the loop of \<open>serveViewerWS\<close>\<close>
  "viewer_take i S =
     (case so_reports (pl_socks S ! i) of
        m # ms \<Rightarrow> upd_sock i (\<lambda>s. s\<lparr>so_last := m, so_reports := ms\<rparr>) S
      | [] \<Rightarrow> if so_eof (pl_socks S ! i) then serveWS_return i S else S)"

definition viewer_tick :: "nat \<Rightarrow> time \<Rightarrow> players \<Rightarrow> players" where
  "viewer_tick i now S =
     (if length (queue i S) < 32
      then put_queue i (queue i S @ [SkAction (viewerWS_tick (so_last (pl_socks S ! i)) now (pl_pc S))]) S else S)"

definition writer_turn :: "nat \<Rightarrow> bool \<Rightarrow> players \<Rightarrow> players" where
  \<comment> \<open>the second argument: the write succeeds\<close>
  "writer_turn i wrote S =
     (case queue i S of [] \<Rightarrow> S
      | b # bs \<Rightarrow>
          upd_sock i (\<lambda>s. if wrote then s\<lparr>so_sent := so_sent s @ [b]\<rparr> else s\<lparr>so_writer := False\<rparr>) (put_queue i bs S))"

section \<open>Executions\<close>

datatype sock_ev =
    SoHello "string option"
  | SoRead nat "string option" time
  | SoTake nat
  | SoTick nat time
  | SoRtt nat "NodeID \<Rightarrow> gerror + duration"
  | SoRttEnd nat
  | SoWrite nat bool
  | SoWriterEnd nat
  | SoParty pc_ev        \<comment> \<open>what else happens to the coordinator: commands, peers, the heartbeat\<close>

fun not_socket :: "pc_ev \<Rightarrow> bool" where
  "not_socket PSockOpen = False"
| "not_socket (PSockExit _) = False"
| "not_socket _ = True"

definition at_sock :: "nat \<Rightarrow> (socket \<Rightarrow> bool) \<Rightarrow> (players \<Rightarrow> players) \<Rightarrow> players \<Rightarrow> players" where
  "at_sock i runs f S = (if i < length (pl_socks S) \<and> runs (pl_socks S ! i) then f S else S)"

fun sock_do :: "(string \<Rightarrow> string list) \<Rightarrow> sock_ev \<Rightarrow> players \<Rightarrow> players" where
  "sock_do gc (SoHello raw) S = serveWS raw S"
| "sock_do gc (SoRead i raw now) S =
     at_sock i (\<lambda>s. if so_host s then \<not> so_done s else so_reader s)
       (if so_host (pl_socks S ! i) then host_read gc i raw now else viewer_read gc i raw) S"
| "sock_do gc (SoTake i) S = at_sock i (\<lambda>s. \<not> so_host s \<and> \<not> so_done s) (viewer_take i) S"
| "sock_do gc (SoTick i now) S = at_sock i (\<lambda>s. \<not> so_host s \<and> \<not> so_done s) (viewer_tick i now) S"
| "sock_do gc (SoRtt i f) S = at_sock i so_rtt (\<lambda>S. S\<lparr>pl_pc := refreshViewerRTT f (pl_pc S)\<rparr>) S"
| "sock_do gc (SoRttEnd i) S = at_sock i (\<lambda>s. so_rtt s \<and> so_done s) (upd_sock i (\<lambda>s. s\<lparr>so_rtt := False\<rparr>)) S"
| "sock_do gc (SoWrite i wrote) S = at_sock i so_writer (writer_turn i wrote) S"
| "sock_do gc (SoWriterEnd i) S = at_sock i (\<lambda>s. so_writer s \<and> so_done s) (upd_sock i (\<lambda>s. s\<lparr>so_writer := False\<rparr>)) S"
| "sock_do gc (SoParty ev) S = (if not_socket ev then S\<lparr>pl_pc := pc_do gc ev (pl_pc S)\<rparr> else S)"

definition no_players :: "partyCoordinator \<Rightarrow> players" where
  "no_players pc = \<lparr>pl_pc = pc, pl_socks = []\<rparr>"

section \<open>The sink\<close>

definition sink_grows :: "partyCoordinator \<Rightarrow> partyCoordinator \<Rightarrow> bool" where
  \<comment> \<open>the coordinator only appends Danmaku to the sink, within its capacity\<close>
  "sink_grows pc pc' \<longleftrightarrow>
     pc_outID pc' = pc_outID pc \<and>
     (case pc_out pc of None \<Rightarrow> pc_out pc' = None
      | Some q \<Rightarrow> \<exists>ds. pc_out pc' = Some (q @ map SkDanmaku ds) \<and> (length q \<le> 32 \<longrightarrow> length q + length ds \<le> 32))"

definition sink_of :: "partyCoordinator \<Rightarrow> nat \<times> sinkMsg list option" where
  "sink_of pc = (pc_outID pc, pc_out pc)"

lemma sink_frame [simp]:
  "sink_of (sendTo n e pc) = sink_of pc" "sink_of (sendMembers h b pc) = sink_of pc" "sink_of (close_swarm x pc) = sink_of pc"
  "sink_of (broadcastAudience h pc) = sink_of pc" "sink_of (set_swarm_peers ms pc) = sink_of pc" "sink_of (beginViewer host pc) = sink_of pc"
  "sink_of (OnPartyState r st now pc) = sink_of pc"
  by (auto simp: sink_of_def sendTo_def sendMembers_eq close_swarm_def broadcastAudience_def set_swarm_peers_def beginViewer_def
      OnPartyState_def split: option.split prod.split)

lemma sink_upd [simp]:
  "sink_of (pc\<lparr>pc_host := x1\<rparr>) = sink_of pc" "sink_of (pc\<lparr>pc_viewer := x2\<rparr>) = sink_of pc" "sink_of (pc\<lparr>pc_viewerHost := x3\<rparr>) = sink_of pc"
  "sink_of (pc\<lparr>pc_swarm := x4\<rparr>) = sink_of pc" "sink_of (pc\<lparr>pc_lastAudience := x5\<rparr>) = sink_of pc" "sink_of (pc\<lparr>pc_stopHB := x6\<rparr>) = sink_of pc"
  "sink_of (pc\<lparr>pc_gate := x7\<rparr>) = sink_of pc" "sink_of (pc\<lparr>pc_onAudience := x8\<rparr>) = sink_of pc" "sink_of (pc\<lparr>pc_onPartyEnded := x9\<rparr>) = sink_of pc"
  by (simp_all add: sink_of_def)

lemma sink_grows_same: "sink_of pc' = sink_of pc \<Longrightarrow> sink_grows pc pc'"
  by (auto simp: sink_of_def sink_grows_def split: option.split intro: exI [of _ "[]"])

lemma sink_grows_from: "sink_of pc1 = sink_of pc \<Longrightarrow> sink_grows pc1 pc' \<Longrightarrow> sink_grows pc pc'"
  by (simp add: sink_of_def sink_grows_def)

lemma sink_grows_pushDanmaku: "sink_of pc1 = sink_of pc \<Longrightarrow> sink_grows pc (pushDanmaku txt sender pc1)"
  by (rule sink_grows_from, assumption)
    (auto simp: sink_grows_def pushDanmaku_def split: option.split intro: exI [of _ "[]"] exI [of _ "[\<lparr>dp_Text = txt, dp_Sender = sender\<rparr>]"])

lemma sink_grows_broadcast: "sink_of pc1 = sink_of pc \<Longrightarrow> sink_grows pc (broadcastDanmaku gc h n d txt pc1)"
  by (simp add: broadcastDanmaku_def Let_def sink_grows_pushDanmaku sink_grows_same)

lemma sink_grows_player: "sink_grows pc (handlePlayerDanmaku gc txt pc)"
  by (simp add: handlePlayerDanmaku_def Let_def sink_grows_broadcast sink_grows_same split: option.split)

lemma sink_grows_danmaku: "sink_grows pc (OnPartyDanmaku gc r d now pc)"
  by (simp add: OnPartyDanmaku_def Let_def sink_grows_broadcast sink_grows_pushDanmaku sink_grows_same split: option.split prod.split)

lemma sink_grows_host: "hostWS_msg gc m now pc = Some pc' \<Longrightarrow> sink_grows pc pc'"
  by (auto simp: hostWS_msg_def sink_grows_player sink_grows_same split: if_splits option.splits)

lemma sink_grows_viewer: "viewerWS_msg gc m reports pc = (reports', pc') \<Longrightarrow> sink_grows pc pc' \<and> (length reports \<le> 8 \<longrightarrow> length reports' \<le> 8)"
  by (auto simp: viewerWS_msg_def sink_grows_player sink_grows_same split: if_splits)

lemma sink_grows_do: "not_socket ev \<Longrightarrow> sink_grows pc (pc_do gc ev pc)"
proof (cases ev)
  case (PPlayer m now)
  then show ?thesis by (auto simp: sink_grows_same dest: sink_grows_host split: option.split)
qed (auto simp: sink_grows_player sink_grows_danmaku StartParty_def EndParty_def LeaveParty_def pc_JoinParty_def pc_close_def OnJoinParty_def
    OnLeaveParty_def OnPartyAudience_def OnPartyEnded_def heartbeat_tick_def pc_OnSwarmHave_def pc_SwarmSegment_def refreshViewerRTT_def
    Let_def sink_grows_same split: option.split sum.split prod.split)

section \<open>One socket\<close>

definition view :: "nat \<Rightarrow> players \<Rightarrow> socket" where
  \<comment> \<open>socket \<open>i\<close> with the content of its channel, whether or not it is the sink\<close>
  "view i S = (pl_socks S ! i)\<lparr>so_out := queue i S\<rparr>"

definition alone_danmaku :: "danmakuPush list \<Rightarrow> socket \<Rightarrow> socket" where
  "alone_danmaku ds v = v\<lparr>so_out := so_out v @ map SkDanmaku ds\<rparr>"

inductive sock_step :: "socket \<Rightarrow> socket \<Rightarrow> bool" where
  \<comment> \<open>what can happen to a player's socket, described as if it were alone\<close>
  stay: "sock_step v v"
| danmaku: "length (so_out v) + length ds \<le> 32 \<Longrightarrow> \<not> so_done v \<Longrightarrow> sock_step v (alone_danmaku ds v)"
| report: "so_reader v \<Longrightarrow> length rs \<le> 8 \<Longrightarrow> (so_done v \<longrightarrow> ds = []) \<Longrightarrow> length (so_out v) + length ds \<le> 32 \<Longrightarrow>
     sock_step v (alone_danmaku ds (v\<lparr>so_reports := rs\<rparr>))"
| eof: "so_reader v \<Longrightarrow> sock_step v (v\<lparr>so_eof := True, so_reader := False\<rparr>)"
| take: "\<not> so_host v \<Longrightarrow> so_reports v = m # ms \<Longrightarrow> sock_step v (v\<lparr>so_last := m, so_reports := ms\<rparr>)"
| tick: "\<not> so_host v \<Longrightarrow> \<not> so_done v \<Longrightarrow> length (so_out v) < 32 \<Longrightarrow> sock_step v (v\<lparr>so_out := so_out v @ [SkAction a]\<rparr>)"
| wrote: "so_writer v \<Longrightarrow> so_out v = b # bs \<Longrightarrow> sock_step v (v\<lparr>so_out := bs, so_sent := so_sent v @ [b]\<rparr>)"
| failed: "so_writer v \<Longrightarrow> so_out v = b # bs \<Longrightarrow> sock_step v (v\<lparr>so_out := bs, so_writer := False\<rparr>)"
| return: "so_host v \<or> so_eof v \<and> so_reports v = [] \<Longrightarrow> sock_step v (v\<lparr>so_done := True\<rparr>)"
| writer_end: "so_done v \<Longrightarrow> sock_step v (v\<lparr>so_writer := False\<rparr>)"
| rtt_end: "so_done v \<Longrightarrow> sock_step v (v\<lparr>so_rtt := False\<rparr>)"

lemma view_fields [simp]:
  "so_host (view i S) = so_host (pl_socks S ! i)" "so_done (view i S) = so_done (pl_socks S ! i)" "so_writer (view i S) = so_writer (pl_socks S ! i)"
  "so_sent (view i S) = so_sent (pl_socks S ! i)" "so_reader (view i S) = so_reader (pl_socks S ! i)"
  "so_reports (view i S) = so_reports (pl_socks S ! i)" "so_eof (view i S) = so_eof (pl_socks S ! i)" "so_last (view i S) = so_last (pl_socks S ! i)"
  "so_rtt (view i S) = so_rtt (pl_socks S ! i)" "so_out (view i S) = queue i S"
  by (simp_all add: view_def)

lemma view_self [simp]: "(view i S)\<lparr>so_out := queue i S\<rparr> = view i S"
  by (simp add: view_def)

lemma length_upd [simp]: "length (pl_socks (upd_sock i f S)) = length (pl_socks S)" "pl_pc (upd_sock i f S) = pl_pc S"
  "length (pl_socks (put_queue i q S)) = length (pl_socks S)" "length (pl_socks (keep_sink S)) = length (pl_socks S)" "pl_pc (keep_sink S) = pl_pc S"
  "pc_outID (pl_pc (put_queue i q S)) = pc_outID (pl_pc S)"
  by (simp_all add: upd_sock_def put_queue_def keep_sink_def split: option.split)

lemma view_upd:
  assumes "\<And>s q. f (s\<lparr>so_out := q\<rparr>) = (f s)\<lparr>so_out := q\<rparr>" and "i < length (pl_socks S)"
  shows "view j (upd_sock i f S) = (if j = i then f (view i S) else view j S)"
  using assms(2) by (auto simp: view_def queue_def is_sink_def upd_sock_def assms(1))

lemma view_put_queue:
  assumes "i < length (pl_socks S)"
  shows "view j (put_queue i q S) = (if j = i then (view i S)\<lparr>so_out := q\<rparr> else view j S)"
  using assms by (auto simp: view_def queue_def is_sink_def put_queue_def upd_sock_def)

lemma view_keep_sink:
  assumes "pc_outID (pl_pc S) = length (pl_socks S)" and "pc_out (pl_pc S) \<noteq> None \<longrightarrow> pl_socks S \<noteq> []" and "j < length (pl_socks S)"
  shows "pl_socks (keep_sink S) ! j = view j S"
  using assms by (auto simp: keep_sink_def view_def queue_def is_sink_def upd_sock_def nth_list_update split: option.split)

lemma view_return:
  assumes "pc_outID (pl_pc S) = length (pl_socks S)" and "pc_out (pl_pc S) \<noteq> None \<longrightarrow> pl_socks S \<noteq> []" and "i < length (pl_socks S)" "j < length (pl_socks S)"
  shows "view j (serveWS_return i S) = (if j = i then (view i S)\<lparr>so_done := True\<rparr> else view j S)"
  using view_keep_sink [OF assms(1,2,4)] assms(3,4)
  by (auto simp: serveWS_return_def Let_def view_def queue_def is_sink_def upd_sock_def serveWS_exit_def nth_list_update)

lemma view_serveWS:
  assumes "pc_outID (pl_pc S) = length (pl_socks S)" and "pc_out (pl_pc S) \<noteq> None \<longrightarrow> pl_socks S \<noteq> []" and "j < length (pl_socks S)"
  shows "view j (serveWS raw S) = view j S"
  using view_keep_sink [OF assms] assms(1,3)
  by (auto simp: serveWS_def Let_def view_def queue_def is_sink_def serveWS_open_def nth_append split: option.split)

definition sink_ok :: "players \<Rightarrow> bool" where
  \<comment> \<open>the sink, if there is one, is the newest socket, and that serves\<close>
  "sink_ok S \<longleftrightarrow>
     pc_outID (pl_pc S) = length (pl_socks S) \<and>
     (pc_out (pl_pc S) \<noteq> None \<longrightarrow> pl_socks S \<noteq> [] \<and> \<not> so_done (last (pl_socks S)))"

definition fits :: "socket \<Rightarrow> bool" where
  \<comment> \<open>the channels are within their capacity; the reader of a Viewer socket closes \<open>reports\<close> when it ends\<close>
  "fits v \<longleftrightarrow> length (so_out v) \<le> 32 \<and> length (so_reports v) \<le> 8 \<and> (so_reader v \<longleftrightarrow> \<not> so_host v \<and> \<not> so_eof v)"

definition socks_ok :: "players \<Rightarrow> bool" where
  "socks_ok S \<longleftrightarrow> sink_ok S \<and> (\<forall>i < length (pl_socks S). fits (view i S))"

lemma sock_step_fits: "sock_step v v' \<Longrightarrow> fits v \<Longrightarrow> fits v'"
  by (induction rule: sock_step.induct) (auto simp: fits_def alone_danmaku_def)

definition socks_step :: "players \<Rightarrow> players \<Rightarrow> bool" where
  "socks_step S S' \<longleftrightarrow>
     sink_ok S' \<and> length (pl_socks S) \<le> length (pl_socks S') \<and>
     (\<forall>j < length (pl_socks S'). if j < length (pl_socks S) then sock_step (view j S) (view j S') else \<exists>hello. view j S' = new_socket hello)"

lemma socks_step_refl: "sink_ok S \<Longrightarrow> socks_step S S"
  by (simp add: socks_step_def sock_step.stay)

lemma socks_step_ok: "socks_ok S \<Longrightarrow> socks_step S S' \<Longrightarrow> socks_ok S'"
proof -
  assume ok: "socks_ok S" and st: "socks_step S S'"
  have "fits (view i S')" if "i < length (pl_socks S')" for i
  proof (cases "i < length (pl_socks S)")
    case True
    then have "sock_step (view i S) (view i S')" using st that by (simp add: socks_step_def)
    then show ?thesis using ok True sock_step_fits by (simp add: socks_ok_def)
  next
    case False
    then have "\<exists>hello. view i S' = new_socket hello" using st that by (simp add: socks_step_def)
    then obtain hello where "view i S' = new_socket hello" by blast
    then show ?thesis by (simp add: fits_def new_socket_def Let_def)
  qed
  then show ?thesis using st by (simp add: socks_ok_def socks_step_def)
qed

lemma socks_step_one:
  \<comment> \<open>an event of socket \<open>i\<close> alone\<close>
  assumes "sink_ok S'" and "length (pl_socks S') = length (pl_socks S)"
    and "\<And>j. j < length (pl_socks S) \<Longrightarrow> j \<noteq> i \<Longrightarrow> view j S' = view j S" and "i < length (pl_socks S) \<Longrightarrow> sock_step (view i S) (view i S')"
  shows "socks_step S S'"
proof -
  have "sock_step (view j S) (view j S')" if "j < length (pl_socks S)" for j
    using assms(3,4) that sock_step.stay by (cases "j = i") auto
  then show ?thesis using assms(1,2) by (simp add: socks_step_def)
qed

lemma sink_ok_upd: "sink_ok S \<Longrightarrow> (\<And>s. so_done (f s) = so_done s) \<Longrightarrow> sink_ok (upd_sock i f S)"
proof -
  assume ok: "sink_ok S" and d: "\<And>s. so_done (f s) = so_done s"
  have "so_done (last ((pl_socks S)[i := f (pl_socks S ! i)])) = so_done (last (pl_socks S))" if "pl_socks S \<noteq> []"
    using that by (cases "i < length (pl_socks S)"; cases "i = length (pl_socks S) - 1") (simp_all add: last_conv_nth d)
  then show ?thesis using ok by (auto simp: sink_ok_def upd_sock_def)
qed

lemma sink_ok_put_queue: "sink_ok S \<Longrightarrow> sink_ok (put_queue i q S)"
  by (simp add: put_queue_def sink_ok_upd) (simp add: sink_ok_def is_sink_def)

lemma sink_ok_return: "sink_ok S \<Longrightarrow> i < length (pl_socks S) \<Longrightarrow> sink_ok (serveWS_return i S)"
  by (auto simp: sink_ok_def serveWS_return_def Let_def upd_sock_def serveWS_exit_def keep_sink_def last_conv_nth nth_list_update split: option.split)

lemma sink_ok_serveWS: "sink_ok S \<Longrightarrow> sink_ok (serveWS raw S)"
  by (auto simp: serveWS_def Let_def sink_ok_def serveWS_open_def new_socket_def split: option.split)

lemma grows_view:
  assumes "socks_ok S" and "sink_grows (pl_pc S) pc" and "j < length (pl_socks S)"
  shows "sink_ok (S\<lparr>pl_pc := pc\<rparr>)"
    and "\<exists>ds. view j (S\<lparr>pl_pc := pc\<rparr>) = alone_danmaku ds (view j S) \<and> queue j (S\<lparr>pl_pc := pc\<rparr>) = queue j S @ map SkDanmaku ds \<and>
           length (queue j S) + length ds \<le> 32 \<and> (so_done (pl_socks S ! j) \<longrightarrow> ds = [])"
proof -
  have cap: "length (queue j S) \<le> 32" and sink: "sink_ok S" using assms(1,3) by (simp_all add: socks_ok_def fits_def)
  show "sink_ok (S\<lparr>pl_pc := pc\<rparr>)" using sink assms(2) by (auto simp: sink_ok_def sink_grows_def split: option.splits)
  show "\<exists>ds. view j (S\<lparr>pl_pc := pc\<rparr>) = alone_danmaku ds (view j S) \<and> queue j (S\<lparr>pl_pc := pc\<rparr>) = queue j S @ map SkDanmaku ds \<and>
           length (queue j S) + length ds \<le> 32 \<and> (so_done (pl_socks S ! j) \<longrightarrow> ds = [])"
  proof (cases "is_sink j S")
    case True
    then obtain q where q: "pc_out (pl_pc S) = Some q" "pc_outID (pl_pc S) = Suc j" by (auto simp: is_sink_def)
    then have "length (pl_socks S) = Suc j" "\<not> so_done (last (pl_socks S))" "pl_socks S \<noteq> []" using sink by (auto simp: sink_ok_def)
    then have nd: "\<not> so_done (pl_socks S ! j)" by (simp add: last_conv_nth)
    obtain ds where "pc_out pc = Some (q @ map SkDanmaku ds)" "length q \<le> 32 \<longrightarrow> length q + length ds \<le> 32" "pc_outID pc = Suc j"
      using assms(2) q by (auto simp: sink_grows_def)
    then show ?thesis using q nd cap by (intro exI [of _ ds]) (auto simp: view_def queue_def is_sink_def alone_danmaku_def)
  next
    case False
    then have "\<not> is_sink j (S\<lparr>pl_pc := pc\<rparr>)" using assms(2) by (auto simp: is_sink_def sink_grows_def split: option.splits)
    then show ?thesis using False cap by (intro exI [of _ "[]"]) (simp add: view_def queue_def alone_danmaku_def)
  qed
qed

lemma grows_step: "socks_ok S \<Longrightarrow> sink_grows (pl_pc S) pc \<Longrightarrow> socks_step S (S\<lparr>pl_pc := pc\<rparr>)"
proof -
  assume ok: "socks_ok S" and g: "sink_grows (pl_pc S) pc"
  have "sock_step (view j S) (view j (S\<lparr>pl_pc := pc\<rparr>))" if j: "j < length (pl_socks S)" for j
  proof -
    obtain ds where ds: "view j (S\<lparr>pl_pc := pc\<rparr>) = alone_danmaku ds (view j S)" "length (queue j S) + length ds \<le> 32"
      "so_done (pl_socks S ! j) \<longrightarrow> ds = []" using grows_view(2) [OF ok g j] by blast
    show ?thesis
    proof (cases "ds = []")
      case True
      then show ?thesis using ds(1) sock_step.stay by (simp add: alone_danmaku_def)
    next
      case False
      then show ?thesis unfolding ds(1) using ds(2,3) by (intro sock_step.danmaku) auto
    qed
  qed
  moreover have "sink_ok (S\<lparr>pl_pc := pc\<rparr>)"
    using g ok by (auto simp: socks_ok_def sink_ok_def sink_grows_def split: option.splits)
  ultimately show ?thesis by (simp add: socks_step_def)
qed

lemma return_step:
  assumes "socks_ok S" and "i < length (pl_socks S)" and "so_host (pl_socks S ! i) \<or> so_eof (pl_socks S ! i) \<and> so_reports (pl_socks S ! i) = []"
  shows "socks_step S (serveWS_return i S)"
proof -
  have ok: "sink_ok S" using assms(1) by (simp add: socks_ok_def)
  then have k: "pc_outID (pl_pc S) = length (pl_socks S)" "pc_out (pl_pc S) \<noteq> None \<longrightarrow> pl_socks S \<noteq> []" by (auto simp: sink_ok_def)
  show ?thesis
  proof (rule socks_step_one [where i = i])
    show "sock_step (view i S) (view i (serveWS_return i S))"
      using view_return [OF k assms(2,2)] sock_step.return [of "view i S"] assms(3) by simp
  qed (use ok assms(2) sink_ok_return view_return [OF k assms(2)] in \<open>auto simp: serveWS_return_def Let_def\<close>)
qed

lemma upd_step:
  assumes "socks_ok S" and "i < length (pl_socks S)" and "\<And>s q. f (s\<lparr>so_out := q\<rparr>) = (f s)\<lparr>so_out := q\<rparr>" and "\<And>s. so_done (f s) = so_done s"
    and "sock_step (view i S) (f (view i S))"
  shows "socks_step S (upd_sock i f S)"
  by (rule socks_step_one [where i = i]) (use assms in \<open>simp_all add: view_upd sink_ok_upd socks_ok_def\<close>)

lemma put_step:
  assumes "socks_ok S" and "i < length (pl_socks S)" and "sock_step (view i S) ((view i S)\<lparr>so_out := q\<rparr>)"
  shows "socks_step S (put_queue i q S)"
  by (rule socks_step_one [where i = i]) (use assms in \<open>simp_all add: view_put_queue sink_ok_put_queue socks_ok_def\<close>)

lemma hello_step: "socks_ok S \<Longrightarrow> socks_step S (serveWS raw S)"
proof -
  assume "socks_ok S"
  then have ok: "sink_ok S" by (simp add: socks_ok_def)
  then have k: "pc_outID (pl_pc S) = length (pl_socks S)" "pc_out (pl_pc S) \<noteq> None \<longrightarrow> pl_socks S \<noteq> []" by (auto simp: sink_ok_def)
  have "\<exists>hello. view j (serveWS raw S) = new_socket hello" if "\<not> j < length (pl_socks S)" "j < length (pl_socks (serveWS raw S))" for j
    using that k(1) by (auto simp: serveWS_def Let_def view_def queue_def is_sink_def serveWS_open_def nth_append new_socket_def split: option.splits if_splits)
  moreover have "length (pl_socks S) \<le> length (pl_socks (serveWS raw S))"
    by (simp add: serveWS_def Let_def split: option.split)
  ultimately show ?thesis using view_serveWS [OF k] sink_ok_serveWS [OF ok] by (auto simp: socks_step_def sock_step.stay)
qed

lemma viewer_read_step:
  assumes "socks_ok S" and "i < length (pl_socks S)" and "so_reader (pl_socks S ! i)"
  shows "socks_step S (viewer_read gc i raw S)"
proof (cases "raw = None \<or> decode_player (the raw) = None")
  case True
  then show ?thesis using assms sock_step.eof [of "view i S"]
    by (cases raw) (auto simp: viewer_read_def socks_ok_def intro!: socks_step_refl upd_step)
next
  case False
  then obtain raw1 m where t: "raw = Some raw1" "decode_player raw1 = Some m" by auto
  obtain rs pc where m: "viewerWS_msg gc m (so_reports (pl_socks S ! i)) (pl_pc S) = (rs, pc)" by fastforce
  let ?S1 = "S\<lparr>pl_pc := pc\<rparr>"
  have g: "sink_grows (pl_pc S) pc" and rs: "length rs \<le> 8"
    using sink_grows_viewer [OF m] assms(1,2) by (auto simp: socks_ok_def fits_def)
  have S': "viewer_read gc i raw S = upd_sock i (\<lambda>s. s\<lparr>so_reports := rs\<rparr>) ?S1" by (simp add: viewer_read_def t m)
  have v: "view j (viewer_read gc i raw S) = (if j = i then (view i ?S1)\<lparr>so_reports := rs\<rparr> else view j ?S1)" for j
    unfolding S' using assms(2) by (simp add: view_upd)
  have "sock_step (view j S) (view j (viewer_read gc i raw S))" if j: "j < length (pl_socks S)" for j
  proof -
    obtain ds where ds: "view j ?S1 = alone_danmaku ds (view j S)" "length (queue j S) + length ds \<le> 32"
      "so_done (pl_socks S ! j) \<longrightarrow> ds = []" using grows_view(2) [OF assms(1) g j] by blast
    show ?thesis
    proof (cases "j = i")
      case True
      have "view i (viewer_read gc i raw S) = alone_danmaku ds ((view i S)\<lparr>so_reports := rs\<rparr>)"
        using v [of i] ds(1) True by (simp add: alone_danmaku_def)
      then show ?thesis using True ds(2,3) rs assms(3) sock_step.report [of "view i S" rs ds] by simp
    next
      case False
      then show ?thesis using v [of j] grows_step [OF assms(1) g] j by (simp add: socks_step_def)
    qed
  qed
  moreover have "sink_ok (viewer_read gc i raw S)"
    unfolding S' using grows_step [OF assms(1) g] by (simp add: sink_ok_upd socks_step_def)
  ultimately show ?thesis by (simp add: socks_step_def S')
qed

lemma sock_do_step: "socks_ok S \<Longrightarrow> socks_step S (sock_do gc ev S)"
proof (cases ev)
  case (SoHello raw)
  assume "socks_ok S"
  then show ?thesis using SoHello hello_step by simp
next
  case (SoRead i raw now)
  assume ok: "socks_ok S"
  have refl: "socks_step S S" using ok by (simp add: socks_step_refl socks_ok_def)
  have "socks_step S (host_read gc i raw now S)" if "i < length (pl_socks S)" "so_host (pl_socks S ! i)"
    using return_step [OF ok that(1)] that(2) refl grows_step [OF ok] by (auto simp: host_read_def dest: sink_grows_host split: option.split)
  then show ?thesis using SoRead refl viewer_read_step [OF ok] by (auto simp: at_sock_def)
next
  case (SoTake i)
  assume ok: "socks_ok S"
  then show ?thesis using SoTake sock_step.take [of "view i S"]
    by (auto simp: at_sock_def viewer_take_def intro!: socks_step_refl upd_step return_step split: list.split) (simp_all add: socks_ok_def)
next
  case (SoTick i now)
  assume ok: "socks_ok S"
  then show ?thesis using SoTick sock_step.tick [of "view i S"]
    by (auto simp: at_sock_def viewer_tick_def intro!: socks_step_refl put_step) (simp_all add: socks_ok_def)
next
  case (SoRtt i f)
  assume ok: "socks_ok S"
  have "sink_grows (pl_pc S) (refreshViewerRTT f (pl_pc S))" using sink_grows_do [of "PRtt f"] by simp
  then show ?thesis using SoRtt ok grows_step [OF ok] by (simp add: at_sock_def socks_step_refl socks_ok_def)
next
  case (SoRttEnd i)
  assume ok: "socks_ok S"
  then show ?thesis using SoRttEnd sock_step.rtt_end [of "view i S"]
    by (auto simp: at_sock_def intro!: socks_step_refl upd_step) (simp_all add: socks_ok_def)
next
  case (SoWrite i wrote)
  assume ok: "socks_ok S"
  show ?thesis
  proof (cases "i < length (pl_socks S) \<and> so_writer (pl_socks S ! i) \<and> queue i S \<noteq> []")
    case True
    then obtain b bs where q: "queue i S = b # bs" by (cases "queue i S") auto
    let ?f = "\<lambda>s. if wrote then s\<lparr>so_sent := so_sent s @ [b]\<rparr> else s\<lparr>so_writer := False\<rparr>"
    have S': "sock_do gc ev S = upd_sock i ?f (put_queue i bs S)" using SoWrite True q by (simp add: at_sock_def writer_turn_def)
    have v: "view j (sock_do gc ev S) = (if j = i then ?f ((view i S)\<lparr>so_out := bs\<rparr>) else view j S)" for j
      unfolding S' using True by (subst view_upd) (auto simp: view_put_queue)
    show ?thesis
    proof (rule socks_step_one [where i = i])
      show "sink_ok (sock_do gc ev S)" unfolding S' using ok by (intro sink_ok_upd sink_ok_put_queue) (simp_all add: socks_ok_def)
      show "sock_step (view i S) (view i (sock_do gc ev S))"
        using v [of i] True q sock_step.wrote [of "view i S" b bs] sock_step.failed [of "view i S" b bs] by (cases wrote) simp_all
    qed (use v S' in simp_all)
  next
    case False
    then have "sock_do gc ev S = S" using SoWrite by (auto simp: at_sock_def writer_turn_def)
    then show ?thesis using ok by (simp add: socks_step_refl socks_ok_def)
  qed
next
  case (SoWriterEnd i)
  assume ok: "socks_ok S"
  then show ?thesis using SoWriterEnd sock_step.writer_end [of "view i S"]
    by (auto simp: at_sock_def intro!: socks_step_refl upd_step) (simp_all add: socks_ok_def)
next
  case (SoParty pev)
  assume ok: "socks_ok S"
  then show ?thesis using SoParty grows_step [OF ok] sink_grows_do by (simp add: socks_step_refl socks_ok_def)
qed

lemma socks_ok_none: "pc_out pc = None \<Longrightarrow> pc_outID pc = 0 \<Longrightarrow> socks_ok (no_players pc)"
  by (simp add: socks_ok_def sink_ok_def no_players_def)

lemma socks_run: "socks_ok S \<Longrightarrow> socks_ok (fold (sock_do gc) evs S) \<and> length (pl_socks S) \<le> length (pl_socks (fold (sock_do gc) evs S))"
proof (induction evs arbitrary: S)
  case (Cons ev evs)
  have st: "socks_step S (sock_do gc ev S)" using sock_do_step Cons.prems by blast
  then have "length (pl_socks S) \<le> length (pl_socks (sock_do gc ev S))" by (simp add: socks_step_def)
  then show ?case using Cons.IH [OF socks_step_ok [OF Cons.prems st]] by simp
qed simp

lemma sock_run_steps:
  "socks_ok S \<Longrightarrow> i < length (pl_socks S) \<Longrightarrow> sock_step\<^sup>*\<^sup>* (view i S) (view i (fold (sock_do gc) evs S))"
proof (induction evs arbitrary: S)
  case (Cons ev evs)
  have st: "socks_step S (sock_do gc ev S)" using sock_do_step Cons.prems(1) by blast
  then have "sock_step (view i S) (view i (sock_do gc ev S))" "i < length (pl_socks (sock_do gc ev S))"
    using Cons.prems(2) by (auto simp: socks_step_def)
  then show ?case using Cons.IH [OF socks_step_ok [OF Cons.prems(1) st]] by (simp add: converse_rtranclp_into_rtranclp)
qed simp

section \<open>Properties\<close>


lemma step_stream:
  "sock_step v v' \<Longrightarrow> (so_writer v' \<longrightarrow> so_writer v) \<and> (so_writer v' \<longrightarrow> prefix (so_sent v @ so_out v) (so_sent v' @ so_out v'))"
  by (induction rule: sock_step.induct) (auto simp: alone_danmaku_def)

lemma steps_stream:
  "sock_step\<^sup>*\<^sup>* v v' \<Longrightarrow> so_writer v' \<longrightarrow> so_writer v \<and> prefix (so_sent v @ so_out v) (so_sent v' @ so_out v')"
proof (induction rule: rtranclp_induct)
  case (step x y)
  then show ?case using step_stream [OF step.hyps(2)] by (auto intro: prefix_order.trans)
qed simp

text \<open>
  Nothing accepted for a player is lost, repeated or reordered: as long as the writer of a socket runs, what has been
  written to it followed by what waits for it, in its channel of at most 32 messages, only grows at the end, whatever
  other sockets, peers and commands do.
\<close>
theorem player_stream_in_order:
  assumes "pc_out pc = None" and "pc_outID pc = 0" and "S = fold (sock_do gc) evs (no_players pc)"
    and "S' = fold (sock_do gc) evs' S" and "i < length (pl_socks S)" and "so_writer (pl_socks S' ! i)"
  shows "prefix (so_sent (pl_socks S ! i) @ queue i S) (so_sent (pl_socks S' ! i) @ queue i S') \<and> length (queue i S') \<le> 32"
proof -
  have ok: "socks_ok S" using socks_run [OF socks_ok_none [OF assms(1,2)]] assms(3) by blast
  have "i < length (pl_socks S')" "socks_ok S'" using socks_run [OF ok, of gc evs'] assms(4,5) by simp_all
  then have "length (queue i S') \<le> 32" by (simp add: socks_ok_def fits_def)
  then show ?thesis using steps_stream [OF sock_run_steps [OF ok assms(5), of gc evs']] assms(4,6) by simp
qed

definition turns_left :: "socket \<Rightarrow> nat" where
  \<comment> \<open>turns of the Viewer loop until it returns, once its reader has ended\<close>
  "turns_left v = (if so_done v then 0 else Suc (length (so_reports v)))"

lemma step_gone:
  "sock_step v v' \<Longrightarrow> \<not> so_reader v \<Longrightarrow> \<not> so_reader v' \<and> turns_left v' \<le> turns_left v \<and> (so_done v \<longrightarrow> so_done v')"
  by (induction rule: sock_step.induct) (auto simp: alone_danmaku_def turns_left_def)

lemma take_turn:
  assumes "socks_ok S" and "i < length (pl_socks S)" and "\<not> so_reader (pl_socks S ! i)" and "\<not> so_host (pl_socks S ! i)"
  shows "turns_left (view i (sock_do gc (SoTake i) S)) \<le> turns_left (view i S) - 1"
proof -
  have eof: "so_eof (pl_socks S ! i)" using assms by (simp add: socks_ok_def fits_def)
  have ok: "pc_outID (pl_pc S) = length (pl_socks S)" "pc_out (pl_pc S) \<noteq> None \<longrightarrow> pl_socks S \<noteq> []"
    using assms(1) by (auto simp: socks_ok_def sink_ok_def)
  show ?thesis
  proof (cases "so_done (pl_socks S ! i)")
    case True
    then show ?thesis by (simp add: at_sock_def turns_left_def)
  next
    case False
    then show ?thesis using assms(2,4) eof view_return [OF ok assms(2,2)]
      by (cases "so_reports (pl_socks S ! i)") (simp_all add: at_sock_def viewer_take_def turns_left_def view_upd)
  qed
qed

lemma step_host: "sock_step v v' \<Longrightarrow> so_host v' = so_host v"
  by (induction rule: sock_step.induct) (auto simp: alone_danmaku_def)

lemma turns_run:
  assumes "socks_ok S" and "i < length (pl_socks S)" and "\<not> so_reader (pl_socks S ! i)" and "\<not> so_host (pl_socks S ! i)"
  shows "\<not> so_reader (pl_socks (fold (sock_do gc) evs S) ! i) \<and>
     turns_left (view i (fold (sock_do gc) evs S)) \<le> turns_left (view i S) - count_list evs (SoTake i)"
  using assms
proof (induction evs arbitrary: S)
  case (Cons ev evs)
  let ?S1 = "sock_do gc ev S"
  have st: "socks_step S ?S1" using sock_do_step Cons.prems(1) by blast
  then have v: "sock_step (view i S) (view i ?S1)" "i < length (pl_socks ?S1)" using Cons.prems(2) by (auto simp: socks_step_def)
  have n: "\<not> so_reader (pl_socks ?S1 ! i)" "turns_left (view i ?S1) \<le> turns_left (view i S)" "\<not> so_host (pl_socks ?S1 ! i)"
    using step_gone [OF v(1)] step_host [OF v(1)] Cons.prems(3,4) by simp_all
  have "turns_left (view i ?S1) \<le> turns_left (view i S) - (if ev = SoTake i then 1 else 0)"
    using n(2) take_turn [OF Cons.prems, of gc] by auto
  then show ?case using Cons.IH [OF socks_step_ok [OF Cons.prems(1) st] v(2) n(1,3)] by (auto split: if_splits)
qed simp

lemma goroutines_end:
  assumes "socks_ok S" and "i < length (pl_socks S)" and "so_done (pl_socks S ! i)" and "\<not> so_reader (pl_socks S ! i)"
  shows "(SoWriterEnd i \<in> set evs \<or> \<not> so_writer (pl_socks S ! i) \<longrightarrow> \<not> so_writer (pl_socks (fold (sock_do gc) evs S) ! i)) \<and>
     (SoRttEnd i \<in> set evs \<or> \<not> so_rtt (pl_socks S ! i) \<longrightarrow> \<not> so_rtt (pl_socks (fold (sock_do gc) evs S) ! i))"
  using assms
proof (induction evs arbitrary: S)
  case (Cons ev evs)
  let ?S1 = "sock_do gc ev S"
  have st: "socks_step S ?S1" using sock_do_step Cons.prems(1) by blast
  then have v: "sock_step (view i S) (view i ?S1)" "i < length (pl_socks ?S1)" using Cons.prems(2) by (auto simp: socks_step_def)
  have "so_writer v' \<longrightarrow> so_writer v" "so_rtt v' \<longrightarrow> so_rtt v" if "sock_step v v'" for v v'
    using that by (induction rule: sock_step.induct) (auto simp: alone_danmaku_def)
  from this [OF v(1)] have m: "so_writer (pl_socks ?S1 ! i) \<longrightarrow> so_writer (pl_socks S ! i)" "so_rtt (pl_socks ?S1 ! i) \<longrightarrow> so_rtt (pl_socks S ! i)" by simp_all
  have e: "ev = SoWriterEnd i \<longrightarrow> \<not> so_writer (pl_socks ?S1 ! i)" "ev = SoRttEnd i \<longrightarrow> \<not> so_rtt (pl_socks ?S1 ! i)"
    using Cons.prems(2,3) by (auto simp: at_sock_def upd_sock_def)
  have "so_done (pl_socks ?S1 ! i)" "\<not> so_reader (pl_socks ?S1 ! i)" using step_gone [OF v(1)] Cons.prems(3,4) by simp_all
  then show ?case using Cons.IH [OF socks_step_ok [OF Cons.prems(1) st] v(2)] m e by auto
qed auto

lemma done_not_sink: "sink_ok S \<Longrightarrow> so_done (pl_socks S ! i) \<Longrightarrow> \<not> is_sink i S"
proof
  assume ok: "sink_ok S" and d: "so_done (pl_socks S ! i)" and "is_sink i S"
  then have "length (pl_socks S) = Suc i" "\<not> so_done (last (pl_socks S))" "pl_socks S \<noteq> []" by (auto simp: sink_ok_def is_sink_def)
  then show False using d by (simp add: last_conv_nth)
qed

lemma read_error:
  assumes "socks_ok S" and "i < length (pl_socks S)"
  shows "\<not> so_reader (pl_socks (sock_do gc (SoRead i None now) S) ! i) \<and>
    (so_host (pl_socks S ! i) \<longrightarrow> so_done (pl_socks (sock_do gc (SoRead i None now) S) ! i)) \<and>
    so_host (pl_socks (sock_do gc (SoRead i None now) S) ! i) = so_host (pl_socks S ! i)"
proof -
  have k: "pc_outID (pl_pc S) = length (pl_socks S)" "pc_out (pl_pc S) \<noteq> None \<longrightarrow> pl_socks S \<noteq> []"
    and r: "so_reader (pl_socks S ! i) \<longleftrightarrow> \<not> so_host (pl_socks S ! i) \<and> \<not> so_eof (pl_socks S ! i)"
    using assms by (auto simp: socks_ok_def sink_ok_def fits_def)
  note ret = view_return [OF k assms(2,2)]
  have "so_done (pl_socks (serveWS_return i S) ! i)" "so_host (pl_socks (serveWS_return i S) ! i) = so_host (pl_socks S ! i)"
    "so_reader (pl_socks (serveWS_return i S) ! i) = so_reader (pl_socks S ! i)"
    using arg_cong [OF ret, of so_done] arg_cong [OF ret, of so_host] arg_cong [OF ret, of so_reader] by simp_all
  then show ?thesis using r assms(2) by (auto simp: at_sock_def host_read_def viewer_read_def upd_sock_def)
qed

text \<open>
  C19. A player that goes away leaves nothing behind: once a read from its connection has failed, whatever else happens
  meanwhile, the loop of its socket has returned after at most nine more turns (the reports still in the channel, then its
  end), the coordinator no longer holds its channel, and its writer and its round-trip goroutine end with their next turn.
\<close>
theorem player_socket_released:
  assumes "pc_out pc = None" and "pc_outID pc = 0" and "S = fold (sock_do gc) evs (no_players pc)" and "i < length (pl_socks S)"
    and "S1 = fold (sock_do gc) (SoRead i None now # evs1) S" and "count_list evs1 (SoTake i) \<ge> 9"
    and "S2 = fold (sock_do gc) evs2 S1" and "SoWriterEnd i \<in> set evs2" and "SoRttEnd i \<in> set evs2"
  shows "so_done (pl_socks S1 ! i) \<and> \<not> is_sink i S1 \<and> \<not> so_reader (pl_socks S1 ! i) \<and>
     \<not> so_writer (pl_socks S2 ! i) \<and> \<not> so_rtt (pl_socks S2 ! i)"
proof -
  let ?S0 = "sock_do gc (SoRead i None now) S"
  have ok: "socks_ok S" using socks_run [OF socks_ok_none [OF assms(1,2)]] assms(3) by blast
  have st: "socks_step S ?S0" using sock_do_step ok by blast
  have ok0: "socks_ok ?S0" by (rule socks_step_ok [OF ok st])
  have i0: "i < length (pl_socks ?S0)" using st assms(4) unfolding socks_step_def by linarith
  have S1: "S1 = fold (sock_do gc) evs1 ?S0" using assms(5) by simp
  have ok1: "socks_ok S1" and i1: "i < length (pl_socks S1)" using socks_run [OF ok0, of gc evs1] i0 S1 by simp_all
  note r = read_error [OF ok assms(4), of gc now]
  have d: "so_done (pl_socks S1 ! i) \<and> \<not> so_reader (pl_socks S1 ! i)"
  proof (cases "so_host (pl_socks S ! i)")
    case True
    have "so_done v' \<and> \<not> so_reader v'" if "sock_step\<^sup>*\<^sup>* v v'" "so_done v" "\<not> so_reader v" for v v'
      using that by (induction rule: rtranclp_induct) (use step_gone in blast)+
    from this [OF sock_run_steps [OF ok0 i0, of gc evs1]] show ?thesis using True r by (simp add: S1)
  next
    case False
    then have "\<not> so_host (pl_socks ?S0 ! i)" using r by simp
    from turns_run [OF ok0 i0 _ this, of gc evs1] r
    have "\<not> so_reader (pl_socks S1 ! i)" "turns_left (view i S1) \<le> turns_left (view i ?S0) - count_list evs1 (SoTake i)"
      by (simp_all add: S1)
    moreover have "turns_left (view i ?S0) \<le> 9" using ok0 i0 by (simp add: turns_left_def socks_ok_def fits_def)
    ultimately show ?thesis using assms(6) by (auto simp: turns_left_def split: if_splits)
  qed
  then show ?thesis
    using goroutines_end [OF ok1 i1, of evs2 gc] done_not_sink ok1 assms(7-9) by (auto simp: socks_ok_def)
qed

section \<open>Two players of one Node\<close>

lemma older_player_loses_danmaku:
  \<comment> \<open>when the socket opened last returns, the coordinator has no sink: a Danmaku reaches none of the older sockets, which go on\<close>
  assumes "socks_ok S" and "is_sink i S"
  shows "pushDanmaku txt sender (pl_pc (serveWS_return i S)) = pl_pc (serveWS_return i S) \<and>
     (\<forall>j < length (pl_socks S). j \<noteq> i \<longrightarrow> view j (serveWS_return i S) = view j S)"
proof -
  have k: "pc_outID (pl_pc S) = length (pl_socks S)" "pc_out (pl_pc S) \<noteq> None \<longrightarrow> pl_socks S \<noteq> []"
    using assms(1) by (auto simp: socks_ok_def sink_ok_def)
  then have i: "i < length (pl_socks S)" using assms(2) by (simp add: is_sink_def)
  have "pc_out (pl_pc (serveWS_return i S)) = None" using assms(2) by (simp add: serveWS_return_def Let_def serveWS_exit_def is_sink_def)
  then show ?thesis using view_return [OF k i] by (simp add: pushDanmaku_def)
qed

definition example_hello :: "string \<Rightarrow> string" where
  "example_hello rl = json_print (JObj [(''type'', JStr ''hello''), (''role'', JStr rl), (''posMs'', JNum ''0''), (''playing'', JBool False)])"

definition example_pl_pc :: partyCoordinator where
  "example_pl_pc = newPartyCoordinator True True ''me'' DefaultConfig"

lemma example_hellos:
  "decode_player (example_hello ''viewer'') = Some (zero_player\<lparr>pm_Type := ''hello'', pm_Role := ''viewer''\<rparr>)"
  "decode_player (example_hello ''host'') = Some (zero_player\<lparr>pm_Type := ''hello'', pm_Role := ''host''\<rparr>)"
  by code_simp+

lemma example_pl_pc_sink [simp]: "pc_out example_pl_pc = None" "pc_outID example_pl_pc = 0"
  by (simp_all add: example_pl_pc_def newPartyCoordinator_def)

definition example_tabs :: players where
  \<comment> \<open>two Viewer tabs; the first has been given an Action\<close>
  "example_tabs = fold (sock_do (\<lambda>s. [s])) [SoHello (Some (example_hello ''viewer'')), SoTick 0 5, SoHello (Some (example_hello ''viewer''))] (no_players example_pl_pc)"

lemma example_tabs_socks: "length (pl_socks example_tabs) = 2"
  by (simp add: example_tabs_def serveWS_def example_hellos no_players_def Let_def at_sock_def viewer_tick_def)


theorem player_socket_released_witness:
  "let S1 = fold (sock_do (\<lambda>s. [s])) (SoRead 1 None 7 # replicate 9 (SoTake 1)) example_tabs in so_done (pl_socks S1 ! 1) \<and> \<not> is_sink 1 S1"
  unfolding Let_def
  using player_socket_released [where pc = example_pl_pc and i = 1 and now = 7 and ?evs1.0 = "replicate 9 (SoTake 1)"
      and ?evs2.0 = "[SoWriterEnd 1, SoRttEnd 1]", OF _ _ example_tabs_def _ refl _ refl]
  by (simp add: example_tabs_socks numeral_eq_Suc)

end
