(* ===== verification/Event_Stream.thy ===== *)
theory Event_Stream
  imports Event_Hub Bridge
begin

text \<open>
  The event stream from end to end: the JSON of an \<open>Event\<close> (\<open>internal/app/events.go\<close>), the loop of \<open>handleSSE\<close>
  (\<open>internal/bridge/sse.go\<close>) that frames what it receives from the hub, and what a browser's \<open>EventSource\<close> dispatches for
  the bytes of the response, as the HTML standard defines it (lines ended by CR, LF or both; the \<open>data\<close> field; an
  event at every empty line).
\<close>

section \<open>Encoding and framing\<close>

definition event_json :: "Event \<Rightarrow> string" where
  \<comment> \<open>\<open>json.Marshal(e)\<close>, with the JSON of \<open>Data\<close> as it is\<close>
  "event_json e =
     ''{'' @ json_string ''type'' @ '':'' @ json_string (ev_Type e) @
     (case ev_Data e of None \<Rightarrow> '''' | Some d \<Rightarrow> '','' @ json_string ''data'' @ '':'' @ d) @ ''}''"

definition sse_frame :: "string \<Rightarrow> string" where
  "sse_frame msg = ''data: '' @ msg @ [CHR 0x0A, CHR 0x0A]"

fun sse_loop :: "string option list \<Rightarrow> string" where
  \<comment> \<open>what is written for the receives of the loop; \<open>None\<close>: the channel is closed\<close>
  "sse_loop [] = []"
| "sse_loop (None # rs) = []"
| "sse_loop (Some msg # rs) = sse_frame msg @ sse_loop rs"

section \<open>The reader\<close>

fun sse_lines :: "string \<Rightarrow> string \<Rightarrow> string list" where
  \<comment> \<open>the ended lines; the first argument is the line so far, reversed\<close>
  "sse_lines acc [] = []"
| "sse_lines acc (ch # s) =
     (if ch = CHR 0x0A then rev acc # sse_lines [] s
      else if ch = CHR 0x0D then rev acc # sse_lines [] (drop (if take 1 s = [CHR 0x0A] then 1 else 0) s)
      else sse_lines (ch # acc) s)"

definition sse_value :: "string \<Rightarrow> string" where
  "sse_value s = (if take 1 s = '' '' then drop 1 s else s)"

fun sse_events :: "string \<Rightarrow> string list \<Rightarrow> string list" where
  \<comment> \<open>the data of the events dispatched; the first argument is the data buffer\<close>
  "sse_events buf [] = []"
| "sse_events buf (l # ls) =
     (if l = [] then (if buf = [] then sse_events [] ls else butlast buf # sse_events [] ls)
      else if take 5 l = ''data:'' then sse_events (buf @ sse_value (drop 5 l) @ [CHR 0x0A]) ls
      else sse_events buf ls)"

definition EventSource :: "string \<Rightarrow> string list" where
  "EventSource body = sse_events [] (sse_lines [] body)"

section \<open>No line ends inside an event\<close>

definition one_line :: "string \<Rightarrow> bool" where
  "one_line s \<longleftrightarrow> CHR 0x0A \<notin> set s \<and> CHR 0x0D \<notin> set s"

lemma one_line_simps [simp]:
  "one_line []" "one_line (ch # s) \<longleftrightarrow> ch \<noteq> CHR 0x0A \<and> ch \<noteq> CHR 0x0D \<and> one_line s" "one_line (s @ t) \<longleftrightarrow> one_line s \<and> one_line t"
  by (auto simp: one_line_def)

lemma one_line_take: "one_line s \<Longrightarrow> one_line (take n s)"
  by (auto simp: one_line_def dest: in_set_takeD)

lemma hexdig_line: "n < 16 \<Longrightarrow> hexdig n \<noteq> CHR 0x0A \<and> hexdig n \<noteq> CHR 0x0D"
  by (auto simp: hexdig_def less_Suc_eq numeral_eq_Suc)

lemma esc_byte_line: "one_line (esc_byte ch)"
proof -
  define n :: nat where "n = of_char ch"
  have m: "hexdig (n mod 16) \<noteq> CHR 0x0A \<and> hexdig (n mod 16) \<noteq> CHR 0x0D" by (rule hexdig_line) simp
  have d: "hexdig (n div 16) \<noteq> CHR 0x0A \<and> hexdig (n div 16) \<noteq> CHR 0x0D" if "n < 0x20 \<or> n = 0x3C \<or> n = 0x3E \<or> n = 0x26"
    by (rule hexdig_line) (use that in auto)
  have c: "n = 10" if "ch = CHR 0x0A" using that by (simp add: n_def)
  have c': "n = 13" if "ch = CHR 0x0D" using that by (simp add: n_def)
  show ?thesis unfolding esc_byte_def Let_def n_def [symmetric] using m d c c' by (auto split: if_splits)
qed

lemma json_body_line: "one_line (json_body s)"
proof (induction s rule: json_body.induct)
  case (1 s)
  have w: "one_line (take (rune_width s) s)" if "\<not> (of_char (hd s) :: nat) < 0x80"
  proof -
    have "s ! i \<noteq> CHR 0x0A \<and> s ! i \<noteq> CHR 0x0D" if "i < rune_width s" "i < length s" for i
    proof (cases i)
      case 0
      then have "s ! i = hd s" using that(2) by (cases s) auto
      then show ?thesis using \<open>\<not> (of_char (hd s) :: nat) < 0x80\<close> by auto
    next
      case (Suc j)
      then show ?thesis using rune_width_conts [of i s] that by (auto simp: is_cont_def)
    qed
    then show ?thesis by (force simp: one_line_def in_set_conv_nth)
  qed
  show ?case using 1 w esc_byte_line [of "hd s"] by (subst json_body.simps) simp
qed

definition event_ok :: "Event \<Rightarrow> bool" where
  \<comment> \<open>the JSON of \<open>Data\<close> is on one line, as \<open>json.Marshal\<close> writes it\<close>
  "event_ok e \<longleftrightarrow> (case ev_Data e of None \<Rightarrow> True | Some d \<Rightarrow> one_line d)"

lemma event_json_line: "event_ok e \<Longrightarrow> one_line (event_json e)"
  by (simp add: event_json_def event_ok_def json_string_def json_body_line split: option.splits)

section \<open>Reading back the frames\<close>

lemma sse_lines_line: "one_line s \<Longrightarrow> sse_lines acc (s @ CHR 0x0A # t) = (rev acc @ s) # sse_lines [] t"
  by (induction s arbitrary: acc) auto

lemma sse_lines_frame: "one_line msg \<Longrightarrow> sse_lines [] (sse_frame msg @ t) = (''data: '' @ msg) # [] # sse_lines [] t"
proof -
  assume "one_line msg"
  then have "one_line (''data: '' @ msg)" by simp
  from sse_lines_line [OF this, of "[]" "CHR 0x0A # t"] show ?thesis by (simp add: sse_frame_def)
qed

lemma EventSource_loop: "list_all one_line msgs \<Longrightarrow> EventSource (sse_loop (map Some msgs)) = msgs"
proof (induction msgs)
  case (Cons msg msgs)
  then show ?case by (simp add: EventSource_def sse_lines_frame sse_value_def)
qed (simp add: EventSource_def)

lemma subseq_map_ex: "subseq xs (map f ys) \<Longrightarrow> \<exists>zs. subseq zs ys \<and> xs = map f zs"
proof (induction ys arbitrary: xs)
  case Nil
  then show ?case by (cases xs) auto
next
  case (Cons y ys)
  then show ?case
  proof (cases xs)
    case Nil
    then show ?thesis by (intro exI [of _ "[]"]) simp
  next
    case (Cons x xs')
    show ?thesis
    proof (cases "x = f y")
      case True
      then obtain zs where "subseq zs ys" "xs' = map f zs" using Cons.prems Cons Cons.IH by auto
      then show ?thesis using True Cons by (intro exI [of _ "y # zs"]) simp
    next
      case False
      then obtain zs where "subseq zs ys" "xs = map f zs" using Cons.prems Cons Cons.IH [of xs] by auto
      then show ?thesis by (intro exI [of _ zs]) auto
    qed
  qed
qed

lemma subseq_subset: "subseq xs ys \<Longrightarrow> set xs \<subseteq> set ys"
  by (auto elim: list_emb_set)

lemma map_filter_total: "List.map_filter (\<lambda>e. Some (f e)) es = map f es"
  by (induction es) simp_all

text \<open>
  C23. The page's event stream from end to end: whatever is published, and however clients come, go and lag, the messages
  that the \<open>EventSource\<close> of a client dispatches for the bytes \<open>handleSSE\<close> has sent it are the JSON of events published while
  it was subscribed, each whole and at most once, in their order; none is split, merged or made of the bytes of another.
\<close>
theorem event_stream_end_to_end:
  assumes "y = fold (hub_do (\<lambda>e. Some (event_json e))) evs \<lparr>hy_hub = newHub, hy_fws = [], hy_obs = []\<rparr>"
    and "k < length (hb_chans (hy_hub y))" and "list_all event_ok (wa_heard (hy_obs y ! k))"
  shows "\<exists>es. subseq es (wa_heard (hy_obs y ! k)) \<and>
     EventSource (sse_loop (map Some (wa_taken (hy_obs y ! k)))) = map event_json es"
proof -
  let ?m = "\<lambda>e. Some (event_json e)" and ?taken = "wa_taken (hy_obs y ! k)" and ?heard = "wa_heard (hy_obs y ! k)"
  have "hub_ok ?m \<lparr>hy_hub = newHub, hy_fws = [], hy_obs = []\<rparr>" by (simp add: hub_ok_def newHub_def)
  from hub_ok_run [OF this, of evs] have "stream_ok ?m (hb_chans (hy_hub y) ! k) (hy_fws y ! k) (hy_obs y ! k)"
    using assms(1,2) hub_okD(6) [of ?m y k] by simp
  then have "subseq (pipe ?m (hb_chans (hy_hub y) ! k) (hy_fws y ! k) (hy_obs y ! k)) (map event_json ?heard)"
    by (simp add: stream_ok_def map_filter_total)
  moreover have "subseq ?taken (pipe ?m (hb_chans (hy_hub y) ! k) (hy_fws y ! k) (hy_obs y ! k))"
    by (simp add: pipe_def subseq_append_le_same_iff list_emb_append2 prefix_imp_subseq)
  ultimately obtain es where es: "subseq es ?heard" "?taken = map event_json es"
    using subseq_map_ex subseq_order.order_trans by blast
  have "list_all one_line ?taken"
    using assms(3) es(1) event_json_line by (auto simp: list_all_iff es(2) dest!: subseq_subset)
  then have "EventSource (sse_loop (map Some ?taken)) = map event_json es" using EventSource_loop es(2) by metis
  then show ?thesis using es(1) by blast
qed

definition example_hub_evs :: "hub_ev list" where
  "example_hub_evs =
     [HSubscribe, HPublish \<lparr>ev_Type = ''presence'', ev_Data = None\<rparr>, HRecv 0, HSend 0, HTake 0,
      HPublish \<lparr>ev_Type = ''audience'', ev_Data = None\<rparr>, HRecv 0, HSend 0, HTake 0]"

theorem event_stream_end_to_end_witness:
  "let y = fold (hub_do (\<lambda>e. Some (event_json e))) example_hub_evs \<lparr>hy_hub = newHub, hy_fws = [], hy_obs = []\<rparr>
   in length (wa_taken (hy_obs y ! 0)) = 2 \<and>
      (\<exists>es. subseq es (wa_heard (hy_obs y ! 0)) \<and> EventSource (sse_loop (map Some (wa_taken (hy_obs y ! 0)))) = map event_json es)"
  using event_stream_end_to_end [OF refl, of 0 example_hub_evs]
  by (simp add: example_hub_evs_def Let_def newHub_def hub_subscribe_def hub_publish_def upd_sub_def offer_def subCap_def newForwarder_def
      listen_def forward_recv_def forward_send_def event_ok_def)

end
