(* ===== verification/Introduction.thy ===== *)
theory Introduction
  imports Signaling Node_App
begin

text \<open>
  How two Nodes meet, from end to end: the description a session signs is sent by \<open>relaySignaler.SendSignal\<close>
  (\<open>internal/app/node.go\<close>) through the signaling client of one Node, the server and the client of the other to its
  \<open>routeRelays\<close> and \<open>HandleSignal\<close>.
\<close>

definition SendSignal ::
  "(SignedSignal \<Rightarrow> gerror + bytes) \<Rightarrow> (RelayEnvelope \<Rightarrow> gerror + bytes) \<Rightarrow> sjson \<Rightarrow> NodeID \<Rightarrow> SignedSignal \<Rightarrow> gerror + bytes" where
  \<comment> \<open>\<open>relaySignaler.SendSignal\<close>: the message written to the server; the first argument is \<open>SignedSignal.Encode\<close>\<close>
  "SendSignal encode marshal j dest sig =
     (case encode sig of Inl err \<Rightarrow> Inl err
      | Inr payload \<Rightarrow>
          (case EncodeRelay marshal RelayKindSignal (Inr payload) of Inl err \<Rightarrow> Inl err
           | Inr wrapped \<Rightarrow> SendRelay j dest wrapped))"

definition relay_codec ::
  "(SignedSignal \<Rightarrow> gerror + bytes) \<Rightarrow> (bytes \<Rightarrow> gerror + SignedSignal) \<Rightarrow> (RelayEnvelope \<Rightarrow> gerror + bytes) \<Rightarrow> (bytes \<Rightarrow> gerror + RelayEnvelope) \<Rightarrow> bool" where
  \<comment> \<open>the documented round trip of \<open>encoding/json\<close> on the two payload structs\<close>
  "relay_codec encode decode marshal unmarshal \<longleftrightarrow>
     (\<forall>sig raw. encode sig = Inr raw \<longrightarrow> decode raw = Inr sig) \<and> (\<forall>e raw. marshal e = Inr raw \<longrightarrow> unmarshal raw = Inr e)"

lemma SendSignal_Inr:
  assumes "SendSignal encode marshal j dest sig = Inr raw"
  obtains payload wrapped where "encode sig = Inr payload" "marshal \<lparr>re_Kind = RelayKindSignal, re_Data = payload\<rparr> = Inr wrapped"
    "sig_Marshal j (MRelay \<lparr>rl_From = '''', rl_To = dest, rl_Payload = wrapped\<rparr>) = Inr raw"
  using assms by (auto simp: SendSignal_def EncodeRelay_def SendRelay_def split: sum.splits)

lemma relayed:
  \<comment> \<open>the server hands the relay on under the Node ID the connection has proved\<close>
  assumes "json_ok j" and "sig_Marshal j (MRelay rel) = Inr raw" and "k < length (sv_conns s)" and "kb < length (sv_conns s)"
    and "map_of (sv_clients s) (rl_To rel) = Some kb" and "length (cn_send (sv_conns s ! kb)) < sendCap"
    and "sig_Marshal j (MRelay (rel\<lparr>rl_From := pi_NodeID (cn_info (sv_conns s ! k))\<rparr>)) = Inr b"
  shows "cn_send (sv_conns (ws_read j k raw s) ! kb) = cn_send (sv_conns s ! kb) @ [b]"
    and "i < length (sv_conns s) \<Longrightarrow> i \<noteq> kb \<Longrightarrow> cn_send (sv_conns (ws_read j k raw s) ! i) = cn_send (sv_conns s ! i)"
  using assms sig_roundtrip [OF assms(1,2)]
  by (auto simp: ws_read_def Let_def routeRelay_def msg_type_def upd_conn_def try_send_def nth_list_update)


section \<open>A concrete introduction\<close>

definition intro_relay :: "NodeID \<Rightarrow> SigMsg" where
  "intro_relay src = MRelay \<lparr>rl_From = src, rl_To = ''b'', rl_Payload = [5]\<rparr>"

definition intro_json :: sjson where "intro_json = table_json [intro_relay '''', intro_relay (i_id example_self)]"

definition intro_sig :: SignedSignal where
  "intro_sig = \<lparr>ss_From = i_id example_self, ss_PublicKey = replicate 32 2, ss_SDP = [7], ss_Signature = replicate 32 2 @ [7]\<rparr>"

definition intro_encode :: "SignedSignal \<Rightarrow> gerror + bytes" where
  "intro_encode x = (if x = intro_sig then Inr [7] else Inl ErrUnavailable)"

definition intro_marshal :: "RelayEnvelope \<Rightarrow> gerror + bytes" where
  "intro_marshal e = (if e = \<lparr>re_Kind = RelayKindSignal, re_Data = [7]\<rparr> then Inr [5] else Inl ErrUnavailable)"

definition intro_conn :: "NodeID \<Rightarrow> conn" where
  "intro_conn n = \<lparr>cn_stage = HServing, cn_closed = False, cn_info = \<lparr>pi_NodeID = n, pi_PublicKey = [], pi_DisplayName = ''''\<rparr>,
     cn_send = [], cn_out = [], cn_in = [], cn_proof = None\<rparr>"

definition intro_server :: Server where
  "intro_server = \<lparr>sv_conns = [intro_conn (i_id example_self), intro_conn ''b''], sv_clients = [(''b'', 1), (i_id example_self, 0)]\<rparr>"

lemma intro_facts:
  "wf_identity example_crypto example_self" "length (i_pub example_self) = PublicKeySize"
  "\<forall>m. c_Verify example_crypto (c_Public example_crypto (i_priv example_self)) m (c_Sign example_crypto (i_priv example_self) m)"
  "c_descMarshal example_crypto \<lparr>sd_type = ''answer'', sd_sdp = ''''\<rparr> = Inr [7]"
  "c_descUnmarshal example_crypto [7] = Inr \<lparr>sd_type = ''answer'', sd_sdp = ''''\<rparr>"
  "SignSignal example_crypto example_self \<lparr>sd_type = ''answer'', sd_sdp = ''''\<rparr> = Inr intro_sig"
proof -
  have ne: "replicate 32 (2 :: byte) \<noteq> replicate 32 9" by (simp add: replicate_eq_replicate)
  show "wf_identity example_crypto example_self" "length (i_pub example_self) = PublicKeySize"
    by (simp_all add: wf_identity_def example_self_def PublicKeySize_def) (simp add: example_crypto_def)
  show "\<forall>m. c_Verify example_crypto (c_Public example_crypto (i_priv example_self)) m (c_Sign example_crypto (i_priv example_self) m)"
    using ne by (simp add: example_crypto_def example_self_def)
  show "c_descMarshal example_crypto \<lparr>sd_type = ''answer'', sd_sdp = ''''\<rparr> = Inr [7]"
    "c_descUnmarshal example_crypto [7] = Inr \<lparr>sd_type = ''answer'', sd_sdp = ''''\<rparr>" by (simp_all add: example_crypto_def)
  show "SignSignal example_crypto example_self \<lparr>sd_type = ''answer'', sd_sdp = ''''\<rparr> = Inr intro_sig"
    by (simp add: SignSignal_def intro_sig_def) (simp add: Identity_Sign_def example_crypto_def example_self_def)
qed

lemma intro_codec: "json_ok intro_json" "relay_codec intro_encode (\<lambda>_. Inr intro_sig) intro_marshal (\<lambda>_. Inr \<lparr>re_Kind = RelayKindSignal, re_Data = [7]\<rparr>)"
  by (simp add: intro_json_def json_ok_table) (auto simp: relay_codec_def intro_encode_def intro_marshal_def split: if_splits)

lemma intro_wire: "sig_Marshal intro_json (intro_relay '''') = Inr [0]" "sig_Marshal intro_json (intro_relay (i_id example_self)) = Inr [1]"
  by code_simp+


end
